(* ===== verification/Prelude.thy ===== *)
theory Prelude
  imports Main "HOL-Library.AList" "HOL-Library.Sublist"
begin

text \<open>
  What the components share: Python's exceptions as values, the error monad, lists and slices
  with Python's index rules, the string methods the sources call, decimal numbers, and the
  dictionary interface as a locale with its interpretation on association lists.
\<close>

named_theorems res_simps \<open>unfolding of the error monad\<close>
named_theorems str_simps \<open>the string methods\<close>

section \<open>Exceptions as values\<close>

datatype py_error =
    AssertionError
  | IndexError
  | KeyError
  | TypeError
  | AttributeError
  | ZeroDivisionError
  | NotImplementedError
  | ValueError string
  | UnboundLocalError string
  | NameError string
  | GenericException string
  | OSError string
  | SystemExit int

type_synonym 'a res = "py_error + 'a"

abbreviation Raise :: "'e \<Rightarrow> 'e + 'a" where "Raise \<equiv> Inl"
abbreviation Return :: "'a \<Rightarrow> 'e + 'a" where "Return \<equiv> Inr"

text \<open>Sequencing: an exception stops the statements after it.\<close>

definition bind_res :: "'e + 'a \<Rightarrow> ('a \<Rightarrow> 'e + 'b) \<Rightarrow> 'e + 'b" where
  "bind_res m f = (case m of Inl e \<Rightarrow> Inl e | Inr x \<Rightarrow> f x)"

lemma bind_res_simps [simp, res_simps]:
  "bind_res (Raise e) f = Raise e"
  "bind_res (Return x) f = f x"
  by (simp_all add: bind_res_def)

lemma bind_res_eq_Return [res_simps]:
  "bind_res m f = Return y \<longleftrightarrow> (\<exists>x. m = Return x \<and> f x = Return y)"
  by (cases m) auto

lemma bind_res_eq_Raise [res_simps]:
  "bind_res m f = Raise e \<longleftrightarrow> m = Raise e \<or> (\<exists>x. m = Return x \<and> f x = Raise e)"
  by (cases m) auto

text \<open>\<open>assert b\<close>, and a loop whose body may raise.\<close>

definition assert_res :: "bool \<Rightarrow> unit res" where
  "assert_res b = (if b then Return () else Raise AssertionError)"

lemma assert_res_simps [simp, res_simps]:
  "assert_res b = Return u \<longleftrightarrow> b"
  "assert_res b = Raise e \<longleftrightarrow> \<not> b \<and> e = AssertionError"
  by (auto simp: assert_res_def)

primrec fold_res :: "('a \<Rightarrow> 's \<Rightarrow> 'e + 's) \<Rightarrow> 'a list \<Rightarrow> 's \<Rightarrow> 'e + 's" where
  "fold_res f [] s = Return s"
| "fold_res f (x # xs) s = bind_res (f x s) (fold_res f xs)"

lemma fold_res_append:
  "fold_res f (xs @ ys) s = bind_res (fold_res f xs s) (fold_res f ys)"
  by (induction xs arbitrary: s) (auto simp: bind_res_def split: sum.splits)

text \<open>The rule for loops: what every iteration keeps, the whole loop keeps.\<close>

lemma fold_res_invariant:
  assumes "fold_res f xs s = Return t" and "P s"
    and "\<And>x u v. x \<in> set xs \<Longrightarrow> P u \<Longrightarrow> f x u = Return v \<Longrightarrow> P v"
  shows "P t"
  using assms by (induction xs arbitrary: s) (auto simp: bind_res_eq_Return)

primrec map_res :: "('a \<Rightarrow> 'e + 'b) \<Rightarrow> 'a list \<Rightarrow> 'e + 'b list" where
  "map_res f [] = Return []"
| "map_res f (x # xs) =
     bind_res (f x) (\<lambda>y. bind_res (map_res f xs) (\<lambda>ys. Return (y # ys)))"

lemma map_res_Return: "(\<And>x. x \<in> set xs \<Longrightarrow> f x = Return (g x)) \<Longrightarrow> map_res f xs = Return (map g xs)"
  by (induction xs) auto

text \<open>A loop whose body parses its item and then changes the state: first all items, then all changes.\<close>

lemma fold_res_parsed:
  "fold_res (\<lambda>x s. bind_res (p x) (\<lambda>y. upd y s)) xs s = Return t \<longleftrightarrow>
     (\<exists>ys. map_res p xs = Return ys \<and> fold_res upd ys s = Return t)"
  by (induction xs arbitrary: s) (auto simp: bind_res_eq_Return)

lemma map_res_append: "map_res f (xs @ ys) = bind_res (map_res f xs) (\<lambda>us. bind_res (map_res f ys) (\<lambda>vs. Return (us @ vs)))"
  by (induction xs) (auto simp: bind_res_def split: sum.splits)

lemma fold_res_by_parts:
  assumes "\<And>x s t. g x s = Return t \<longleftrightarrow> (\<exists>y. p x = Return y \<and> upd y s = Return t)"
  shows "fold_res g xs s = Return t \<longleftrightarrow> (\<exists>ys. map_res p xs = Return ys \<and> fold_res upd ys s = Return t)"
  by (induction xs arbitrary: s) (auto simp: bind_res_eq_Return assms)

lemma fold_res_concat: "fold_res (fold_res f) xss s = fold_res f (concat xss) s"
  by (induction xss arbitrary: s) (auto simp: fold_res_append bind_res_def split: sum.splits)

section \<open>Lists with Python's indices\<close>

definition py_nth :: "'a list \<Rightarrow> int \<Rightarrow> 'a res" where
  "py_nth xs i =
     (let n = int (length xs); j = (if i < 0 then n + i else i)
      in if 0 \<le> j \<and> j < n then Return (xs ! nat j) else Raise IndexError)"

lemma py_nth_in_range: "0 \<le> i \<Longrightarrow> i < int (length xs) \<Longrightarrow> py_nth xs i = Return (xs ! nat i)"
  by (simp add: py_nth_def)

lemma py_nth_of_nat: "i < length xs \<Longrightarrow> py_nth xs (int i) = Return (xs ! i)"
  by (simp add: py_nth_def)

text \<open>\<open>xs[lo:hi]\<close> clamps both bounds to the list; a negative bound counts from the end.\<close>

lemma nat_diff_int [simp]: "nat (int a - int b) = a - b"
  by arith

definition slice_bound :: "nat \<Rightarrow> int \<Rightarrow> nat" where
  "slice_bound n i = (if i < 0 then nat (int n + i) else min n (nat i))"

definition py_slice :: "'a list \<Rightarrow> int \<Rightarrow> int \<Rightarrow> 'a list" where
  "py_slice xs lo hi =
     (let n = length xs; l = slice_bound n lo; h = slice_bound n hi in take (h - l) (drop l xs))"

lemma slice_bound_nat [simp]: "slice_bound n (int i) = min n i"
  by (simp add: slice_bound_def)

lemma py_slice_prefix: "py_slice xs 0 (int n) = take n xs"
  by (simp add: py_slice_def Let_def slice_bound_def min_def)

lemma set_py_slice: "set (py_slice xs lo hi) \<subseteq> set xs"
  by (auto simp: py_slice_def Let_def dest: in_set_takeD in_set_dropD)

text \<open>\<open>xs.remove(x)\<close> drops the first occurrence or raises ValueError.\<close>

definition py_remove :: "'a \<Rightarrow> 'a list \<Rightarrow> 'a list res" where
  "py_remove x xs =
     (if x \<in> set xs then Return (remove1 x xs) else Raise (ValueError ''list.remove(x): x not in list''))"

text \<open>\<open>xs.index(x)\<close> for a present element.\<close>

fun index_of :: "'a list \<Rightarrow> 'a \<Rightarrow> nat" where
  "index_of [] x = 0"
| "index_of (y # ys) x = (if y = x then 0 else Suc (index_of ys x))"

lemma index_of_less: "x \<in> set xs \<Longrightarrow> index_of xs x < length xs"
  by (induction xs) auto

lemma index_of_after: "x \<notin> set xs \<Longrightarrow> index_of (xs @ x # ys) x = length xs"
  by (induction xs) auto

lemma nth_index_of: "x \<in> set xs \<Longrightarrow> xs ! index_of xs x = x"
  by (induction xs) auto

section \<open>Strings\<close>

abbreviation startswith :: "string \<Rightarrow> string \<Rightarrow> bool" where
  "startswith s p \<equiv> prefix p s"

abbreviation endswith :: "string \<Rightarrow> string \<Rightarrow> bool" where
  "endswith s p \<equiv> suffix p s"

text \<open>\<open>p in s\<close>\<close>

fun str_in :: "string \<Rightarrow> string \<Rightarrow> bool" where
  "str_in p [] \<longleftrightarrow> p = []"
| "str_in p (c # cs) \<longleftrightarrow> prefix p (c # cs) \<or> str_in p cs"

lemma str_in_iff [str_simps]: "str_in p s \<longleftrightarrow> sublist p s"
proof (induction s)
  case (Cons c cs)
  have "sublist p (c # cs) \<longleftrightarrow> prefix p (c # cs) \<or> sublist p cs"
    by (rule sublist_Cons_right)
  with Cons show ?case by simp
qed simp

text \<open>\<open>s.split(c, 1)\<close> and \<open>s.split(c)\<close> for a one-character separator.\<close>

definition split_once :: "char \<Rightarrow> string \<Rightarrow> string list" where
  "split_once c s =
     (if c \<in> set s then [takeWhile (\<lambda>x. x \<noteq> c) s, tl (dropWhile (\<lambda>x. x \<noteq> c) s)] else [s])"

fun split_on :: "char \<Rightarrow> string \<Rightarrow> string list" where
  "split_on c [] = [[]]"
| "split_on c (x # xs) =
     (if x = c then [] # split_on c xs
      else (case split_on c xs of [] \<Rightarrow> [[x]] | w # ws \<Rightarrow> (x # w) # ws))"

fun str_join :: "string \<Rightarrow> string list \<Rightarrow> string" where
  "str_join sep [] = []"
| "str_join sep [w] = w"
| "str_join sep (w # v # ws) = w @ sep @ str_join sep (v # ws)"

lemma split_on_nonempty: "split_on c s \<noteq> []"
  by (induction s) (auto split: list.splits)

lemma join_split_on: "str_join [c] (split_on c s) = s"
proof (induction s)
  case (Cons x xs)
  obtain w ws where w: "split_on c xs = w # ws"
    using split_on_nonempty [of c xs] by (cases "split_on c xs") auto
  with Cons show ?case by (cases ws) auto
qed simp

lemma str_join_append: "xs \<noteq> [] \<Longrightarrow> ys \<noteq> [] \<Longrightarrow> str_join sep (xs @ ys) = str_join sep xs @ sep @ str_join sep ys"
proof (induction xs)
  case (Cons x xs)
  then show ?case by (cases xs; cases ys) auto
qed simp

lemma str_join_empty: "str_join sep (w # ws) = [] \<Longrightarrow> w = []"
  by (cases ws) auto

lemma split_word: "c \<notin> set w \<Longrightarrow> split_on c w = [w]"
  by (induction w) auto

lemma split_word_sep: "c \<notin> set w \<Longrightarrow> split_on c (w @ c # s) = w # split_on c s"
  by (induction w) auto

lemma split_on_join:
  "ws \<noteq> [] \<Longrightarrow> list_all (\<lambda>w. c \<notin> set w) ws \<Longrightarrow> split_on c (str_join [c] ws) = ws"
proof (induction ws)
  case (Cons w ws)
  then show ?case by (cases ws) (simp_all add: split_word split_word_sep)
qed simp

lemma split_once_join: "str_join [c] (split_once c s) = s"
proof (cases "c \<in> set s")
  case True
  let ?d = "dropWhile (\<lambda>x. x \<noteq> c) s"
  from True have ne: "?d \<noteq> []" by (auto simp: dropWhile_eq_Nil_conv)
  from hd_dropWhile [OF ne] have "hd ?d = c" by simp
  with ne have "c # tl ?d = ?d" by (metis list.collapse)
  then have "takeWhile (\<lambda>x. x \<noteq> c) s @ c # tl ?d = s" by simp
  with True show ?thesis by (simp add: split_once_def)
qed (simp add: split_once_def)

text \<open>\<open>s.strip()\<close>: Python's ASCII white space.\<close>

definition is_space :: "char \<Rightarrow> bool" where
  "is_space c \<longleftrightarrow> of_char c \<in> {9, 10, 11, 12, 13, 28, 29, 30, 31, 32 :: nat}"

definition str_strip :: "string \<Rightarrow> string" where
  "str_strip s = rev (dropWhile is_space (rev (dropWhile is_space s)))"

text \<open>\<open>s.upper()\<close> and \<open>s.lower()\<close>, on ASCII letters.\<close>

definition to_upper :: "string \<Rightarrow> string" where
  "to_upper = map (\<lambda>c. if 97 \<le> (of_char c :: nat) \<and> (of_char c :: nat) \<le> 122 then char_of (of_char c - 32 :: nat) else c)"

definition to_lower :: "string \<Rightarrow> string" where
  "to_lower = map (\<lambda>c. if 65 \<le> (of_char c :: nat) \<and> (of_char c :: nat) \<le> 90 then char_of (of_char c + 32 :: nat) else c)"

section \<open>Decimal numbers\<close>

definition is_digit :: "char \<Rightarrow> bool" where
  "is_digit c \<longleftrightarrow> 48 \<le> (of_char c :: nat) \<and> (of_char c :: nat) \<le> 57"

definition digit_char :: "nat \<Rightarrow> char" where
  "digit_char d = char_of (48 + d)"

fun str_of_nat :: "nat \<Rightarrow> string" where
  "str_of_nat n = (if n < 10 then [digit_char n] else str_of_nat (n div 10) @ [digit_char (n mod 10)])"

declare str_of_nat.simps [simp del]

definition nat_of_str :: "string \<Rightarrow> nat" where
  "nat_of_str s = foldl (\<lambda>a c. 10 * a + (of_char c - 48)) 0 s"

lemma of_digit_char: "d < 10 \<Longrightarrow> (of_char (digit_char d) :: nat) = 48 + d"
  by (simp add: digit_char_def)

lemma is_digit_char: "d < 10 \<Longrightarrow> is_digit (digit_char d)"
  by (simp add: is_digit_def of_digit_char)

lemma nat_of_str_of_nat [simp, str_simps]: "nat_of_str (str_of_nat n) = n"
proof (induction n rule: str_of_nat.induct)
  case (1 n)
  show ?case
  proof (cases "n < 10")
    case True
    then show ?thesis by (subst str_of_nat.simps) (simp add: nat_of_str_def of_digit_char)
  next
    case False
    with 1 have "nat_of_str (str_of_nat (n div 10)) = n div 10" by simp
    with False show ?thesis
      by (subst str_of_nat.simps) (simp add: nat_of_str_def of_digit_char)
  qed
qed

lemma str_of_nat_digits [str_simps]: "c \<in> set (str_of_nat n) \<Longrightarrow> is_digit c"
proof (induction n rule: str_of_nat.induct)
  case (1 n)
  then show ?case
    by (subst (asm) str_of_nat.simps) (auto simp: is_digit_char split: if_splits)
qed

lemma str_of_nat_nonempty [simp]: "str_of_nat n \<noteq> []"
  by (subst str_of_nat.simps) simp

text \<open>The pieces of a pattern: a fixed text, and \<open>[0-9]+\<close> read as a number.\<close>

definition expect :: "string \<Rightarrow> string \<Rightarrow> string option" where
  "expect p s = (if prefix p s then Some (drop (length p) s) else None)"

definition take_number :: "string \<Rightarrow> (nat \<times> string) option" where
  "take_number s =
     (let ds = takeWhile is_digit s in if ds = [] then None else Some (nat_of_str ds, dropWhile is_digit s))"

lemma take_number_written:
  "rest = [] \<or> \<not> is_digit (hd rest) \<Longrightarrow> take_number (str_of_nat n @ rest) = Some (n, rest)"
proof -
  assume r: "rest = [] \<or> \<not> is_digit (hd rest)"
  have "\<forall>c \<in> set (str_of_nat n). is_digit c" by (simp add: str_of_nat_digits)
  with r have "takeWhile is_digit (str_of_nat n @ rest) = str_of_nat n"
    "dropWhile is_digit (str_of_nat n @ rest) = rest"
    by (cases rest; simp add: takeWhile_append2 dropWhile_append2)+
  then show ?thesis by (simp add: take_number_def)
qed

definition str_of_int :: "int \<Rightarrow> string" where
  "str_of_int i = (if i < 0 then CHR ''-'' # str_of_nat (nat (- i)) else str_of_nat (nat i))"

section \<open>Changing the items of a list one by one\<close>

lemma length_fold_change [simp]: "length (fold (\<lambda>i xs. xs[i := f (xs ! i)]) is xs) = length xs"
  by (induction "is" arbitrary: xs) auto

lemma nth_fold_change:
  assumes "\<And>x. f (f x) = f x" and "j < length xs"
  shows "fold (\<lambda>i xs. xs[i := f (xs ! i)]) is xs ! j = (if j \<in> set is then f (xs ! j) else xs ! j)"
  using assms(2)
proof (induction "is" arbitrary: xs)
  case (Cons a "is")
  then show ?case by (cases "a = j") (auto simp: assms(1))
qed simp

text \<open>Changes of single items, seen from one index.\<close>

lemma length_fold_update [simp]: "length (fold (\<lambda>(i, v) xs. xs[i := f v (xs ! i)]) ys xs) = length xs"
  by (induction ys arbitrary: xs) auto

lemma nth_fold_update:
  assumes "j < length xs"
  shows "fold (\<lambda>(i, v) xs. xs[i := f v (xs ! i)]) ys xs ! j = fold (\<lambda>(i, v). if i = j then f v else id) ys (xs ! j)"
  using assms by (induction ys arbitrary: xs) (auto simp: nth_list_update)

section \<open>The dictionary interface\<close>

text \<open>
  What the sources rely on when they use a dict: a stored key is found again and no other key
  changes, a deleted key is gone, and iterating the keys lists each present key once. The order
  of the keys is left open. Tables that are built by folding \<open>d[k] = f(x, d.get(k))\<close>
  over a sequence are characterised once, for every dictionary.
\<close>

locale dict_ops =
  fixes lookup :: "'d \<Rightarrow> 'k \<Rightarrow> 'v option"
    and store :: "'k \<Rightarrow> 'v \<Rightarrow> 'd \<Rightarrow> 'd"
    and remove_key :: "'k \<Rightarrow> 'd \<Rightarrow> 'd"
    and keys_of :: "'d \<Rightarrow> 'k list"
    and wf_dict :: "'d \<Rightarrow> bool"
  assumes lookup_store: "lookup (store k v d) = (lookup d)(k \<mapsto> v)"
    and lookup_remove: "lookup (remove_key k d) = (lookup d)(k := None)"
    and set_keys_of: "set (keys_of d) = dom (lookup d)"
    and distinct_keys_of: "wf_dict d \<Longrightarrow> distinct (keys_of d)"
    and wf_store: "wf_dict d \<Longrightarrow> wf_dict (store k v d)"
    and wf_remove: "wf_dict d \<Longrightarrow> wf_dict (remove_key k d)"
begin

lemma lookup_accumulate:
  "lookup (fold (\<lambda>x d. store (key x) (f x (lookup d (key x))) d) xs d) k =
     fold (\<lambda>x v. if key x = k then Some (f x v) else v) xs (lookup d k)"
  by (induction xs arbitrary: d) (auto simp: lookup_store)

lemma keys_accumulate:
  "set (keys_of (fold (\<lambda>x d. store (key x) (f x (lookup d (key x))) d) xs d)) =
     set (keys_of d) \<union> key ` set xs"
  by (induction xs arbitrary: d) (auto simp: set_keys_of lookup_store)

lemma wf_accumulate:
  "wf_dict d \<Longrightarrow> wf_dict (fold (\<lambda>x d. store (key x) (f x (lookup d (key x))) d) xs d)"
  by (induction xs arbitrary: d) (auto simp: wf_store)

end

text \<open>
  The model of a dict is an association list: a new key is appended, a stored one is replaced in
  place, which is the iteration order of CPython since 3.7.
\<close>

abbreviation dict_keys :: "('k \<times> 'v) list \<Rightarrow> 'k list" where
  "dict_keys d \<equiv> map fst d"

abbreviation dict_wf :: "('k \<times> 'v) list \<Rightarrow> bool" where
  "dict_wf d \<equiv> distinct (map fst d)"

interpretation alist: dict_ops map_of AList.update AList.delete dict_keys dict_wf
proof unfold_locales
  fix k :: 'k and v :: 'v and d :: "('k \<times> 'v) list"
  show "map_of (AList.update k v d) = (map_of d)(k \<mapsto> v)" by (rule update_conv')
  show "map_of (AList.delete k d) = (map_of d)(k := None)" by (rule delete_conv')
  show "set (dict_keys d) = dom (map_of d)" by (simp add: dom_map_of_conv_image_fst)
  show "dict_wf d \<Longrightarrow> distinct (dict_keys d)" .
  show "dict_wf d \<Longrightarrow> dict_wf (AList.update k v d)" by (rule distinct_update)
  show "dict_wf d \<Longrightarrow> dict_wf (AList.delete k d)" by (rule distinct_delete)
qed

text \<open>New keys are appended.\<close>

lemma update_new: "k \<notin> set (dict_keys d) \<Longrightarrow> AList.update k v d = d @ [(k, v)]"
  by (induction d) auto

lemma fold_update_distinct:
  "distinct (dict_keys (d @ e)) \<Longrightarrow> fold (\<lambda>(k, v). AList.update k v) e d = d @ e"
proof (induction e arbitrary: d)
  case (Cons p e)
  then show ?case by (cases p) (auto simp: update_new)
qed simp

end
