(* ===== verification/Rad_Util.thy ===== *)
theory Rad_Util
  imports Prelude "HOL-Library.Multiset"
begin

unbundle bit_operations_syntax

text \<open>
  \<open>bindings/python/rad_util.py\<close>: the helper functions of the bindings scanner, on Python's
  unbounded integers, strings and lists. The file is Python 2, so \<open>/\<close> on integers rounds
  towards minus infinity (\<open>div\<close>) and \<open>%\<close> takes the sign of its divisor (\<open>mod\<close>).
  Each definition follows the function of the same name; a name that Isabelle reserves has a
  suffix. Functions whose results are floating point numbers are not here.
\<close>

section \<open>Binary strings\<close>

definition hex_char :: "nat \<Rightarrow> char" where
  "hex_char d = ''0123456789abcdef'' ! d"

fun hex_of_nat :: "nat \<Rightarrow> string" where
  "hex_of_nat n = (if n < 16 then [hex_char n] else hex_of_nat (n div 16) @ [hex_char (n mod 16)])"

declare hex_of_nat.simps [simp del]

text \<open>The builtin \<open>hex\<close>.\<close>

definition py_hex :: "int \<Rightarrow> string" where
  "py_hex i = (if i < 0 then ''-0x'' @ hex_of_nat (nat (- i)) else ''0x'' @ hex_of_nat (nat i))"

definition hex2bin :: "(char \<times> string) list" where
  "hex2bin =
     [(CHR ''0'', ''0000''), (CHR ''1'', ''0001''), (CHR ''2'', ''0010''), (CHR ''3'', ''0011''),
      (CHR ''4'', ''0100''), (CHR ''5'', ''0101''), (CHR ''6'', ''0110''), (CHR ''7'', ''0111''),
      (CHR ''8'', ''1000''), (CHR ''9'', ''1001''), (CHR ''a'', ''1010''), (CHR ''b'', ''1011''),
      (CHR ''c'', ''1100''), (CHR ''d'', ''1101''), (CHR ''e'', ''1110''), (CHR ''f'', ''1111'')]"

definition int2bin :: "int \<Rightarrow> int \<Rightarrow> string res" where
  "int2bin i n =
     bind_res
       (map_res (\<lambda>x. case map_of hex2bin x of None \<Rightarrow> Raise KeyError | Some b \<Rightarrow> Return b)
          (drop 2 (filter (\<lambda>c. c \<noteq> CHR ''l'') (py_hex i))))
       (\<lambda>parts.
          let result = concat parts in
          if CHR ''1'' \<in> set (py_slice result 0 (- n))
          then Raise (ValueError ''Value too large for given number of bits.'')
          else
            let r = py_slice result (- n) (int (length result))
            in Return (replicate (nat (n - int (length r))) (CHR ''0'') @ r))"

text \<open>The builtin \<open>int(s, 2)\<close>: white space, a sign and a \<open>0b\<close> prefix are accepted.\<close>

definition bin_val :: "string \<Rightarrow> nat" where
  "bin_val s = foldl (\<lambda>a c. 2 * a + (if c = CHR ''1'' then 1 else 0)) 0 s"

definition strip_0b :: "string \<Rightarrow> string" where
  "strip_0b s = (if prefix ''0b'' s \<or> prefix ''0B'' s then drop 2 s else s)"

definition parse_bits :: "string \<Rightarrow> nat res" where
  "parse_bits s =
     (let d = strip_0b s in
      if d \<noteq> [] \<and> set d \<subseteq> {CHR ''0'', CHR ''1''} then Return (bin_val d)
      else Raise (ValueError ''invalid literal for int() with base 2''))"

definition bin2int :: "string \<Rightarrow> int res" where
  "bin2int bin_string =
     (case str_strip bin_string of
        [] \<Rightarrow> Raise (ValueError ''invalid literal for int() with base 2'')
      | c # cs \<Rightarrow>
          if c = CHR ''-'' then bind_res (parse_bits cs) (\<lambda>v. Return (- int v))
          else if c = CHR ''+'' then bind_res (parse_bits cs) (\<lambda>v. Return (int v))
          else bind_res (parse_bits (c # cs)) (\<lambda>v. Return (int v)))"

definition reverse_str :: "string \<Rightarrow> string" where
  "reverse_str input_string = rev input_string"

section \<open>Matrices, fractions and permutations\<close>

text \<open>\<open>zip(*matrix)\<close> stops at the shortest row; each tuple becomes a list.\<close>

function transpose_rows :: "'a list list \<Rightarrow> 'a list list" where
  "transpose_rows m =
     (if m = [] \<or> [] \<in> set m then [] else map hd m # transpose_rows (map tl m))"
  by pat_completeness auto
termination
  by (relation "measure (\<lambda>m. length (hd m))") (auto simp: neq_Nil_conv)

declare transpose_rows.simps [simp del]

text \<open>
  \<open>gcf\<close>: the loop runs while the remainder is not zero; on integers the test against
  \<open>epsilon\<close> says the same.
\<close>

function gcf_loop :: "int \<Rightarrow> int \<Rightarrow> int" where
  "gcf_loop result remainder =
     (if remainder \<noteq> 0 then gcf_loop remainder (result mod remainder) else result)"
  by pat_completeness auto
termination
proof (relation "measure (\<lambda>(result, remainder). nat \<bar>remainder\<bar>)")
  fix result remainder :: int
  assume "remainder \<noteq> 0"
  then have "\<bar>result mod remainder\<bar> < \<bar>remainder\<bar>" by (rule abs_mod_less)
  then show "((remainder, result mod remainder), result, remainder)
      \<in> measure (\<lambda>(result, remainder). nat \<bar>remainder\<bar>)"
    by simp
qed simp

declare gcf_loop.simps [simp del]

definition gcf :: "int \<Rightarrow> int \<Rightarrow> int" where
  "gcf a b = \<bar>gcf_loop (max a b) (min a b)\<bar>"

text \<open>The divisions below leave no remainder; in Python 3 their results are the floats of these integers.\<close>

definition lcm_int :: "int \<Rightarrow> int \<Rightarrow> int" where
  "lcm_int a b = (let denom = gcf a b in if denom = 0 then 0 else a * (b div denom))"

definition reduce_fraction :: "int \<times> int \<Rightarrow> (int \<times> int) res" where
  "reduce_fraction fraction =
     (let (numerator, denominator) = fraction; common_factor = \<bar>gcf numerator denominator\<bar>
      in if common_factor = 0 then Raise ZeroDivisionError
         else Return (numerator div common_factor, denominator div common_factor))"

text \<open>\<open>new_list.insert(i, item)\<close> on a copy of a list.\<close>

definition insert_at :: "nat \<Rightarrow> 'a \<Rightarrow> 'a list \<Rightarrow> 'a list" where
  "insert_at i x xs = take i xs @ x # drop i xs"

fun permutations_list :: "'a list \<Rightarrow> 'a list list" where
  "permutations_list [] = [[]]"
| "permutations_list [x] = [[x]]"
| "permutations_list (item # y # ys) =
     concat (map (\<lambda>sub_list. map (\<lambda>i. insert_at i item sub_list) [0..<length (item # y # ys)])
       (permutations_list (y # ys)))"

section \<open>Sequences and dictionaries\<close>

text \<open>
  \<open>uniquify\<close>: the dictionary based algorithms need hashable items; the first unhashable
  item raises TypeError, after which the quadratic algorithm runs. The keys of a dict come in
  the order of the model (Python 2 leaves it open).
\<close>

fun uniq_fast :: "'a list \<Rightarrow> ('a \<times> int) list \<Rightarrow> 'a list" where
  "uniq_fast [] d = []"
| "uniq_fast (x # xs) d =
     (if map_of d x = None then x # uniq_fast xs (AList.update x 0 d) else uniq_fast xs d)"

definition uniq_keys :: "'a list \<Rightarrow> 'a list" where
  "uniq_keys xs = dict_keys (fold (\<lambda>x d. AList.update x (0::int) d) xs [])"

fun uniq_slow :: "'a list \<Rightarrow> 'a list \<Rightarrow> 'a list" where
  "uniq_slow [] result = result"
| "uniq_slow (x # xs) result =
     (if x \<notin> set result then uniq_slow xs (result @ [x]) else uniq_slow xs result)"

definition uniquify :: "('a \<Rightarrow> bool) \<Rightarrow> 'a list \<Rightarrow> bool \<Rightarrow> 'a list" where
  "uniquify hashable xs preserve_order =
     (if list_all hashable xs
      then (if preserve_order then uniq_fast xs [] else uniq_keys xs)
      else uniq_slow xs [])"

definition reverse_dict :: "('k \<times> 'v) list \<Rightarrow> ('v \<times> 'k) list" where
  "reverse_dict d = fold (\<lambda>(key, v) result. AList.update v key result) d []"

section \<open>Bits\<close>

definition lsb_bits :: "int \<Rightarrow> nat \<Rightarrow> int" where
  "lsb_bits x n = x AND (2 ^ n - 1)"

definition gray_encode :: "int \<Rightarrow> int" where
  "gray_encode i = i XOR (drop_bit 1 i)"

text \<open>
  \<open>binary_range\<close>: \<open>ripple\<close> is the inner loop, which increments the number in
  \<open>v\<close> (least significant bit first) and leaves the carry out in \<open>toggle[bits]\<close>; the
  outer loop stops on that carry. Nothing bounds the outer loop syntactically, so not returning
  is \<open>None\<close>.
\<close>

function ripple :: "nat \<Rightarrow> nat \<Rightarrow> string \<Rightarrow> nat list \<Rightarrow> string \<times> nat list" where
  "ripple bits i v toggle =
     (if i < bits \<and> toggle ! i = 1
      then (if v ! i = CHR ''0''
            then ripple bits (Suc i) (v[i := CHR ''1'']) (toggle[Suc i := 0])
            else ripple bits (Suc i) (v[i := CHR ''0'']) (toggle[Suc i := 1]))
      else (v, toggle))"
  by pat_completeness auto
termination
  by (relation "measure (\<lambda>(bits, i, v, toggle). bits - i)") auto

declare ripple.simps [simp del]

partial_function (option) binary_range_loop ::
    "nat \<Rightarrow> string \<Rightarrow> nat list \<Rightarrow> string list \<Rightarrow> string list option" where
  "binary_range_loop bits v toggle l =
     (if toggle ! bits \<noteq> 1
      then (let l' = l @ [rev v]; r = ripple bits 0 v (1 # replicate bits 0)
            in binary_range_loop bits (fst r) (snd r) l')
      else Some l)"

definition binary_range :: "nat \<Rightarrow> string list option" where
  "binary_range bits = binary_range_loop bits (replicate bits (CHR ''0'')) (1 # replicate bits 0) []"

section \<open>Common affixes, rotations, rounding, arguments\<close>

fun common_prefix :: "string \<Rightarrow> string \<Rightarrow> string" where
  "common_prefix (x # xs) (y # ys) = (if x \<noteq> y then [] else x # common_prefix xs ys)"
| "common_prefix _ _ = []"

text \<open>The second loop walks both strings from their ends with negative indices.\<close>

function suffix_loop :: "string \<Rightarrow> string \<Rightarrow> nat \<Rightarrow> string \<Rightarrow> string" where
  "suffix_loop s1 s2 i acc =
     (if i < min (length s1) (length s2) + 1
      then (if s1 ! (length s1 - i) \<noteq> s2 ! (length s2 - i) then acc
            else suffix_loop s1 s2 (Suc i) (acc @ [s1 ! (length s1 - i)]))
      else acc)"
  by pat_completeness auto
termination
  by (relation "measure (\<lambda>(s1, s2, i, acc). min (length s1) (length s2) + 1 - i)") auto

declare suffix_loop.simps [simp del]

definition find_common_fixes :: "string \<Rightarrow> string \<Rightarrow> string \<times> string" where
  "find_common_fixes s1 s2 = (common_prefix s1 s2, rev (suffix_loop s1 s2 1 []))"

definition is_rotated :: "'a list \<Rightarrow> 'a list \<Rightarrow> bool res" where
  "is_rotated seq1 seq2 =
     (if length seq1 \<noteq> length seq2 then Return False
      else if seq2 = [] then Raise IndexError
      else
        let head_item = seq2 ! 0;
            start_indexes = filter (\<lambda>index1. seq1 ! index1 = head_item) [0..<length seq1];
            double_seq1 = seq1 @ seq1
        in Return (\<exists>index1 \<in> set start_indexes.
             take (length seq1) (drop index1 double_seq1) = seq2))"

text \<open>
  \<open>round_grid\<close> on integers. \<open>int\<close> cuts the quotient off towards zero; \<open>add_one\<close> stays unbound when the mode is up or down and
  the value is already on the grid.
\<close>

definition int_quotient :: "int \<Rightarrow> int \<Rightarrow> int" where
  "int_quotient a b = sgn a * sgn b * (\<bar>a\<bar> div \<bar>b\<bar>)"

definition round_grid :: "int \<Rightarrow> int \<Rightarrow> int \<Rightarrow> int res" where
  "round_grid value grid mode =
     (if grid = 0 then Raise ZeroDivisionError
      else
        let off_grid = value mod grid;
            result = (\<lambda>add_one. Return ((int_quotient value grid + add_one) * grid))
        in if mode = 0 then result (if 2 * off_grid \<ge> grid then 1 else 0)
           else if mode = 1 \<and> off_grid \<noteq> 0 then result 1
           else if mode = -1 \<and> off_grid \<noteq> 0 then result 0
           else Raise (UnboundLocalError ''add_one''))"

text \<open>The values of \<open>get_args\<close>'s dictionary: None, an option's text, or the plain arguments.\<close>

datatype arg_value = NoValue | OptValue string | ArgList "string list"

definition get_args_step :: "string \<Rightarrow> (string \<times> arg_value) list \<times> string list
    \<Rightarrow> (string \<times> arg_value) list \<times> string list" where
  "get_args_step arg st =
     (let (d, args) = st in
      if startswith arg ''-'' then
        (let parts = split_on (CHR ''='') (dropWhile (\<lambda>c. c = CHR ''-'') arg) in
         if length parts = 2 then (AList.update (parts ! 0) (OptValue (parts ! 1)) d, args)
         else (AList.update (parts ! 0) NoValue d, args))
      else (d, args @ [arg]))"

definition get_args :: "string list \<Rightarrow> (string \<times> arg_value) list" where
  "get_args argv =
     (let (d, args) = fold get_args_step argv ([], []) in AList.update ''args'' (ArgList args) d)"

section \<open>Numbers in binary\<close>

text \<open>The reference representation: the low \<open>n\<close> bits of a number, most significant first.\<close>

primrec to_bits :: "nat \<Rightarrow> nat \<Rightarrow> string" where
  "to_bits 0 k = []"
| "to_bits (Suc n) k = to_bits n (k div 2) @ [if odd k then CHR ''1'' else CHR ''0'']"

lemma length_to_bits [simp]: "length (to_bits n k) = n"
  by (induction n arbitrary: k) auto

lemma set_to_bits: "set (to_bits n k) \<subseteq> {CHR ''0'', CHR ''1''}"
  by (induction n arbitrary: k) auto

lemma to_bits_add: "to_bits (m + n) k = to_bits m (k div 2 ^ n) @ to_bits n k"
  by (induction n arbitrary: k) (auto simp: div_mult2_eq)

lemma to_bits_mod: "to_bits n (k mod 2 ^ n) = to_bits n k"
proof (induction n arbitrary: k)
  case (Suc n)
  have m: "k mod 2 ^ Suc n = k mod 2 + 2 * (k div 2 mod 2 ^ n)" by (simp add: mod_mult2_eq)
  then have "k mod 2 ^ Suc n div 2 = k div 2 mod 2 ^ n" by simp
  moreover have "odd (k mod 2 ^ Suc n) = odd k"
    using dvd_mod_iff [of 2 "2 ^ Suc n" k] by simp
  ultimately show ?case using Suc [of "k div 2"] by simp
qed simp

lemma to_bits_0: "to_bits n 0 = replicate n (CHR ''0'')"
  by (induction n) (auto simp: replicate_append_same)

lemma one_in_to_bits: "CHR ''1'' \<in> set (to_bits n k) \<longleftrightarrow> k mod 2 ^ n \<noteq> 0"
proof (induction n arbitrary: k)
  case (Suc n)
  have "k mod 2 ^ Suc n = k mod 2 + 2 * (k div 2 mod 2 ^ n)"
    by (simp add: mod_mult2_eq)
  with Suc show ?case by (auto simp: odd_iff_mod_2_eq_one)
qed simp

lemma bin_val_snoc: "bin_val (s @ [c]) = 2 * bin_val s + (if c = CHR ''1'' then 1 else 0)"
  by (simp add: bin_val_def)

lemma bin_val_to_bits: "bin_val (to_bits n k) = k mod 2 ^ n"
proof (induction n arbitrary: k)
  case 0
  then show ?case by (simp add: bin_val_def)
next
  case (Suc n)
  have "k mod 2 ^ Suc n = k mod 2 + 2 * (k div 2 mod 2 ^ n)"
    by (simp add: mod_mult2_eq)
  with Suc show ?case by (simp add: bin_val_snoc odd_iff_mod_2_eq_one)
qed

lemma hex_digits_table:
  "list_all (\<lambda>d. map_of hex2bin (hex_char d) = Some (to_bits 4 d) \<and> hex_char d \<noteq> CHR ''l'') [0..<16]"
  by code_simp

lemma hex2bin_hex_char: "d < 16 \<Longrightarrow> map_of hex2bin (hex_char d) = Some (to_bits 4 d)"
  using hex_digits_table by (simp add: list_all_iff)

lemma hex_char_not_l: "d < 16 \<Longrightarrow> hex_char d \<noteq> CHR ''l''"
  using hex_digits_table by (simp add: list_all_iff)

abbreviation nibble_of :: "char \<Rightarrow> string res" where
  "nibble_of x \<equiv> (case map_of hex2bin x of None \<Rightarrow> Raise KeyError | Some b \<Rightarrow> Return b)"

lemma hex_of_nat_chars: "CHR ''l'' \<notin> set (hex_of_nat n)"
proof (induction n rule: hex_of_nat.induct)
  case (1 n)
  have "hex_char (n mod 16) \<noteq> CHR ''l''" by (rule hex_char_not_l) simp
  with 1 show ?case by (subst hex_of_nat.simps) (auto simp: hex_char_not_l dest: sym)
qed

lemma hex_of_nat_bits:
  "\<exists>ps m. map_res nibble_of (hex_of_nat n) = Return ps \<and> concat ps = to_bits m n \<and> n < 2 ^ m"
proof (induction n rule: hex_of_nat.induct)
  case (1 n)
  show ?case
  proof (cases "n < 16")
    case True
    then have "map_res nibble_of (hex_of_nat n) = Return [to_bits 4 n]"
      by (subst hex_of_nat.simps) (simp add: hex2bin_hex_char)
    with True show ?thesis by (intro exI [of _ "[to_bits 4 n]"] exI [of _ 4]) simp
  next
    case False
    with 1 obtain ps m where ih: "map_res nibble_of (hex_of_nat (n div 16)) = Return ps"
      "concat ps = to_bits m (n div 16)" "n div 16 < 2 ^ m" by blast
    have "n mod 16 < 16" by simp
    from hex2bin_hex_char [OF this] ih(1) False
    have "map_res nibble_of (hex_of_nat n) = Return (ps @ [to_bits 4 (n mod 16)])"
      by (subst hex_of_nat.simps) (simp add: map_res_append)
    moreover have "to_bits 4 (n mod 16) = to_bits 4 n"
      using to_bits_mod [of 4 n] by simp
    moreover have "to_bits (m + 4) n = to_bits m (n div 16) @ to_bits 4 n"
      using to_bits_add [of m 4 n] by simp
    moreover have "n < 2 ^ (m + 4)" using ih(3) by (simp add: power_add)
    ultimately show ?thesis
      using ih(2) by (intro exI [of _ "ps @ [to_bits 4 (n mod 16)]"] exI [of _ "m + 4"]) simp
  qed
qed

lemma py_slice_from_end: "length xs = m \<Longrightarrow> 0 < n \<Longrightarrow>
    py_slice xs (- int n) (int m) = drop (m - n) xs"
  by (auto simp: py_slice_def slice_bound_def Let_def)

lemma py_slice_to_end: "length xs = m \<Longrightarrow> 0 < n \<Longrightarrow> py_slice xs 0 (- int n) = take (m - n) xs"
  by (auto simp: py_slice_def slice_bound_def Let_def)

lemma int2bin_to_bits:
  assumes n: "0 < n"
  shows "int2bin (int k) (int n) =
    (if k < 2 ^ n then Return (to_bits n k)
     else Raise (ValueError ''Value too large for given number of bits.''))"
proof -
  obtain ps m where ps: "map_res nibble_of (hex_of_nat k) = Return ps"
    "concat ps = to_bits m k" "k < 2 ^ m" using hex_of_nat_bits by blast
  have hex: "drop 2 (filter (\<lambda>c. c \<noteq> CHR ''l'') (py_hex (int k))) = hex_of_nat k"
    using hex_of_nat_chars [of k] by (auto simp: py_hex_def intro!: filter_True)
  show ?thesis
  proof (cases "m < n")
    case True
    then have "(2::nat) ^ m < 2 ^ n" by simp
    with ps(3) have "k < 2 ^ n" by linarith
    moreover have "to_bits n k = replicate (n - m) (CHR ''0'') @ to_bits m k"
      using to_bits_add [of "n - m" m k] True ps(3) by (simp add: to_bits_0)
    moreover have "nat (int n - int m) = n - m" by simp
    ultimately show ?thesis
      using ps hex n True unfolding int2bin_def
      by (simp add: py_slice_to_end py_slice_from_end Let_def)
  next
    case False
    then have split: "to_bits m k = to_bits (m - n) (k div 2 ^ n) @ to_bits n k"
      using to_bits_add [of "m - n" n k] by simp
    have "k div 2 ^ n < 2 ^ (m - n)"
      using ps(3) False by (simp add: less_mult_imp_div_less flip: power_add)
    then have "CHR ''1'' \<in> set (to_bits (m - n) (k div 2 ^ n)) \<longleftrightarrow> \<not> k < 2 ^ n"
      by (simp add: one_in_to_bits div_greater_zero_iff not_less)
    then show ?thesis
      using ps hex n False split unfolding int2bin_def
      by (simp add: py_slice_to_end py_slice_from_end Let_def)
  qed
qed

lemma not_space_bit: "c \<in> {CHR ''0'', CHR ''1''} \<Longrightarrow> \<not> is_space c"
  by (auto simp: is_space_def)

lemma str_strip_bits:
  assumes "set s \<subseteq> {CHR ''0'', CHR ''1''}"
  shows "str_strip s = s"
proof -
  have *: "\<And>t. set t \<subseteq> {CHR ''0'', CHR ''1''} \<Longrightarrow> dropWhile is_space t = t"
    by (case_tac t) (auto simp: not_space_bit)
  show ?thesis using * [of s] * [of "rev s"] assms by (simp add: str_strip_def)
qed

lemma bin2int_bits:
  assumes "set s \<subseteq> {CHR ''0'', CHR ''1''}" and "s \<noteq> []"
  shows "bin2int s = Return (int (bin_val s))"
proof -
  from assms obtain c cs where s: "s = c # cs" and c: "c = CHR ''0'' \<or> c = CHR ''1''"
    by (cases s) auto
  from assms(1) s have "strip_0b s = s" by (cases cs) (auto simp: strip_0b_def)
  with assms s have "parse_bits s = Return (bin_val s)" by (simp add: parse_bits_def)
  with s c show ?thesis using str_strip_bits [OF assms(1)] by (auto simp: bin2int_def)
qed

lemma bin2int_to_bits: "0 < n \<Longrightarrow> bin2int (to_bits n k) = Return (int (k mod 2 ^ n))"
  using bin2int_bits [OF set_to_bits, of n k] by (simp add: bin_val_to_bits flip: length_greater_0_conv)

section \<open>The ripple counter\<close>

text \<open>Adding one to a number given least significant bit first, with the carry out.\<close>

primrec inc_bits :: "string \<Rightarrow> string \<times> bool" where
  "inc_bits [] = ([], True)"
| "inc_bits (c # v) =
     (if c = CHR ''0'' then (CHR ''1'' # v, False)
      else (CHR ''0'' # fst (inc_bits v), snd (inc_bits v)))"

lemma inc_bits_to_bits:
  "inc_bits (rev (to_bits n k)) = (rev (to_bits n (Suc k)), Suc k mod 2 ^ n = 0)"
proof (induction n arbitrary: k)
  case (Suc n)
  show ?case
  proof (cases "even k")
    case True
    then have "odd (Suc k mod 2 ^ Suc n)" by (simp add: dvd_mod_iff)
    then have "Suc k mod 2 ^ Suc n \<noteq> 0" by (metis even_zero)
    with True show ?thesis by simp
  next
    case False
    then have "Suc k = 2 * Suc (k div 2)" by presburger
    then have "Suc k mod 2 ^ Suc n = 2 * (Suc (k div 2) mod 2 ^ n)"
      by (metis mult_mod_right power_Suc)
    moreover have "Suc k div 2 = Suc (k div 2)" using False by presburger
    ultimately show ?thesis using False Suc [of "k div 2"] by simp
  qed
qed simp

lemma ripple_inc:
  assumes "i \<le> n" "length v = n" "length t = Suc n" "t ! i = 1" "\<And>j. i < j \<Longrightarrow> j \<le> n \<Longrightarrow> t ! j = 0"
  shows "fst (ripple n i v t) = take i v @ fst (inc_bits (drop i v)) \<and>
    (snd (ripple n i v t) ! n = 1 \<longleftrightarrow> snd (inc_bits (drop i v)))"
  using assms
proof (induction n i v t rule: ripple.induct)
  case (1 n i v t)
  show ?case
  proof (cases "i < n")
    case False
    with ripple.simps [of n i v t] have "ripple n i v t = (v, t)" by simp
    with False "1.prems" show ?thesis by simp
  next
    case i: True
    with "1.prems" have d: "drop i v = v ! i # drop (Suc i) v" by (simp add: Cons_nth_drop_Suc)
    show ?thesis
    proof (cases "v ! i = CHR ''0''")
      case True
      have "ripple n (Suc i) (v[i := CHR ''1'']) (t[Suc i := 0]) = (v[i := CHR ''1''], t[Suc i := 0])"
        using i "1.prems" by (subst ripple.simps) simp
      then have "ripple n i v t = (v[i := CHR ''1''], t[Suc i := 0])"
        using ripple.simps [of n i v t] i True "1.prems" by simp
      moreover have "t[Suc i := 0] ! n = 0"
        using i "1.prems" by (simp add: nth_list_update)
      ultimately show ?thesis using i True d "1.prems"
        by (simp add: upd_conv_take_nth_drop)
    next
      case False
      let ?v = "v[i := CHR ''0'']" and ?t = "t[Suc i := 1]"
      from i "1.prems" have "fst (ripple n (Suc i) ?v ?t) = take (Suc i) ?v @ fst (inc_bits (drop (Suc i) ?v)) \<and>
          (snd (ripple n (Suc i) ?v ?t) ! n = 1 \<longleftrightarrow> snd (inc_bits (drop (Suc i) ?v)))"
        by (intro "1.IH"(2)) (auto simp: False nth_list_update)
      moreover have "take (Suc i) ?v = take i v @ [CHR ''0'']"
        using i "1.prems" by (simp add: take_Suc_conv_app_nth)
      ultimately show ?thesis using i False d "1.prems" by (simp add: ripple.simps [of n i])
    qed
  qed
qed

lemma ripple_counts:
  assumes "0 < n"
  shows "fst (ripple n 0 (rev (to_bits n k)) (1 # replicate n 0)) = rev (to_bits n (Suc k))"
    and "snd (ripple n 0 (rev (to_bits n k)) (1 # replicate n 0)) ! n = 1 \<longleftrightarrow> Suc k mod 2 ^ n = 0"
  using ripple_inc [of 0 n "rev (to_bits n k)" "1 # replicate n 0"]
  by (auto simp: inc_bits_to_bits nth_Cons')

lemma binary_range_loop_counts:
  assumes "0 < n" and "k < 2 ^ n" and "t ! n \<noteq> 1"
  shows "binary_range_loop n (rev (to_bits n k)) t l = Some (l @ map (to_bits n) [k..<2 ^ n])"
  using assms(2,3)
proof (induction "2 ^ n - k" arbitrary: k t l)
  case (Suc d)
  let ?r = "ripple n 0 (rev (to_bits n k)) (1 # replicate n 0)"
  have step: "binary_range_loop n (rev (to_bits n k)) t l =
      binary_range_loop n (rev (to_bits n (Suc k))) (snd ?r) (l @ [to_bits n k])"
    using Suc.prems ripple_counts(1) [OF assms(1), of k]
    by (subst binary_range_loop.simps) (simp add: Let_def)
  show ?case
  proof (cases "Suc k = 2 ^ n")
    case True
    then have "snd ?r ! n = 1" using ripple_counts(2) [OF assms(1), of k] by simp
    then have "binary_range_loop n (rev (to_bits n (Suc k))) (snd ?r) (l @ [to_bits n k]) =
        Some (l @ [to_bits n k])" by (subst binary_range_loop.simps) simp
    with step True [symmetric] show ?thesis by simp
  next
    case False
    with Suc.prems have k: "Suc k < 2 ^ n" by simp
    then have "snd ?r ! n \<noteq> 1" using ripple_counts(2) [OF assms(1), of k] by simp
    with Suc.hyps(1) [of "Suc k" "snd ?r" "l @ [to_bits n k]"] Suc.hyps(2) k step Suc.prems
    show ?thesis by (simp add: upt_conv_Cons [of k])
  qed
qed simp

lemma binary_range_codes: "0 < n \<Longrightarrow> binary_range n = Some (map (to_bits n) [0..<2 ^ n])"
  using binary_range_loop_counts [of n 0 "1 # replicate n 0" "[]"]
  by (simp add: binary_range_def to_bits_0 nth_Cons')

section \<open>Arithmetic\<close>

lemma gcf_loop_gcd: "\<bar>gcf_loop a b\<bar> = gcd a b"
proof (induction a b rule: gcf_loop.induct)
  case (1 a b)
  then show ?case by (subst gcf_loop.simps) (auto simp: gcd_red_int [symmetric])
qed

lemma gcf_gcd: "gcf a b = gcd a b"
  by (simp add: gcf_def gcf_loop_gcd max_def min_def gcd.commute)

lemma lcm_int_lcm: "\<bar>lcm_int a b\<bar> = lcm a b"
proof (cases "gcd a b = 0")
  case False
  have "a * (b div gcd a b) = a * b div gcd a b" by (simp add: div_mult_swap)
  moreover have "\<bar>a * b div gcd a b\<bar> = \<bar>a * b\<bar> div \<bar>gcd a b\<bar>" by (intro abs_div) simp
  ultimately show ?thesis
    using False by (simp only: lcm_int_def Let_def gcf_gcd if_False lcm_altdef_int abs_mult) simp
qed (simp add: lcm_int_def gcf_gcd)

section \<open>Permutations\<close>

lemma mset_insert_at: "mset (insert_at i x xs) = add_mset x (mset xs)"
proof -
  have "mset (take i xs) + mset (drop i xs) = mset xs" by (simp flip: mset_append)
  then show ?thesis by (simp add: insert_at_def)
qed

lemma insert_at_length: "insert_at (length xs) x (xs @ ys) = xs @ x # ys"
  by (simp add: insert_at_def)

lemma in_permutations_Cons:
  "zs \<in> set (permutations_list (item # y # ys)) \<longleftrightarrow>
     (\<exists>sub \<in> set (permutations_list (y # ys)). \<exists>i < length (item # y # ys). zs = insert_at i item sub)"
  unfolding permutations_list.simps
  by (simp only: set_concat set_map UN_iff bex_simps image_iff set_upt atLeast0LessThan)
    (simp only: Bex_def lessThan_iff)

lemma permutations_list_complete: "mset ys = mset xs \<longleftrightarrow> ys \<in> set (permutations_list xs)"
proof (induction xs arbitrary: ys rule: permutations_list.induct)
  case (3 item y zs)
  show ?case
  proof
    assume eq: "mset ys = mset (item # y # zs)"
    then have "item \<in> set ys" by (metis list.set_intros(1) set_mset_mset)
    then obtain us vs where ys: "ys = us @ item # vs" by (meson split_list)
    with eq have "mset (us @ vs) = mset (y # zs)" by simp
    then have "us @ vs \<in> set (permutations_list (y # zs))" using "3.IH" by blast
    moreover have "length us < length (item # y # zs)" using mset_eq_length [OF eq] ys by simp
    ultimately show "ys \<in> set (permutations_list (item # y # zs))"
      using insert_at_length [of us item vs] ys by (metis in_permutations_Cons)
  next
    assume "ys \<in> set (permutations_list (item # y # zs))"
    then obtain sub i where "sub \<in> set (permutations_list (y # zs))" "ys = insert_at i item sub"
      by (auto simp only: in_permutations_Cons)
    with "3.IH" [of sub] show "mset ys = mset (item # y # zs)" by (simp add: mset_insert_at)
  qed
qed auto

lemma length_concat_map_const: "(\<And>x. x \<in> set xs \<Longrightarrow> length (f x) = n) \<Longrightarrow> length (concat (map f xs)) = length xs * n"
  by (induction xs) auto

lemma length_permutations_list: "length (permutations_list xs) = fact (length xs)"
proof (induction xs rule: permutations_list.induct)
  case (3 item y ys)
  have "length (permutations_list (item # y # ys)) =
      length (permutations_list (y # ys)) * length (item # y # ys)"
    unfolding permutations_list.simps by (rule length_concat_map_const) simp
  with 3 show ?case by (simp add: algebra_simps)
qed auto

section \<open>Uniquifying and reversing\<close>

text \<open>The reference: first occurrences, in order.\<close>

fun first_occs :: "'a list \<Rightarrow> 'a set \<Rightarrow> 'a list" where
  "first_occs [] S = []"
| "first_occs (x # xs) S = (if x \<in> S then first_occs xs S else x # first_occs xs (insert x S))"

lemma set_first_occs: "set (first_occs xs S) = set xs - S"
  by (induction xs S rule: first_occs.induct) auto

lemma distinct_first_occs: "distinct (first_occs xs S)"
  by (induction xs S rule: first_occs.induct) (auto simp: set_first_occs)

lemma first_occs_subseq: "subseq (first_occs xs S) xs"
  by (induction xs S rule: first_occs.induct) auto

lemma uniq_fast_first_occs: "uniq_fast xs d = first_occs xs (dom (map_of d))"
  by (induction xs d rule: uniq_fast.induct)
    (auto simp: alist.lookup_store domIff dom_def insert_Collect)

lemma uniq_slow_first_occs: "uniq_slow xs r = r @ first_occs xs (set r)"
  by (induction xs r rule: uniq_slow.induct) auto

lemma uniq_keys_first_occs: "uniq_keys xs = first_occs xs {}"
proof -
  have "dict_keys (fold (\<lambda>x d. AList.update x (0::int) d) xs d) = dict_keys d @ first_occs xs (set (dict_keys d))" for d
    by (induction xs arbitrary: d) (auto simp: update_keys dom_update insert_absorb rev_image_eqI)
  from this [of "[]"] show ?thesis by (simp add: uniq_keys_def)
qed

lemma uniquify_first_occs: "uniquify hashable xs preserve_order = first_occs xs {}"
  by (simp add: uniquify_def uniq_fast_first_occs uniq_slow_first_occs uniq_keys_first_occs)

lemma lookup_reverse_fold:
  "map_of (fold (\<lambda>(key, v) result. AList.update v key result) d r) w =
     (case map_of (rev (map prod.swap d)) w of None \<Rightarrow> map_of r w | Some k \<Rightarrow> Some k)"
  by (induction d arbitrary: r)
    (auto simp: alist.lookup_store map_add_def split: option.splits)

lemma lookup_reverse_dict: "map_of (reverse_dict d) v = map_of (rev (map prod.swap d)) v"
  by (simp add: reverse_dict_def lookup_reverse_fold split: option.split)

section \<open>Affixes and rotations\<close>

lemma common_prefix_append:
  "common_prefix xs ys = p \<Longrightarrow> \<exists>us vs. xs = p @ us \<and> ys = p @ vs \<and> (us = [] \<or> vs = [] \<or> hd us \<noteq> hd vs)"
  by (induction xs ys arbitrary: p rule: common_prefix.induct) auto

lemma suffix_loop_common_prefix:
  assumes "i \<le> min (length s1) (length s2)"
  shows "suffix_loop s1 s2 (Suc i) acc = acc @ common_prefix (drop i (rev s1)) (drop i (rev s2))"
  using assms
proof (induction "min (length s1) (length s2) - i" arbitrary: i acc)
  case 0
  then have "drop i (rev s1) = [] \<or> drop i (rev s2) = []" by auto
  moreover have "common_prefix xs [] = []" for xs by (cases xs) auto
  ultimately show ?case using 0 by (subst suffix_loop.simps) auto
next
  case (Suc d)
  then have i: "i < length s1" "i < length s2" by auto
  then have "drop i (rev s1) = s1 ! (length s1 - Suc i) # drop (Suc i) (rev s1)"
    and "drop i (rev s2) = s2 ! (length s2 - Suc i) # drop (Suc i) (rev s2)"
    by (simp_all add: Cons_nth_drop_Suc [symmetric] rev_nth)
  with Suc i show ?case by (subst suffix_loop.simps) auto
qed

lemma find_common_fixes_prefixes:
  "find_common_fixes s1 s2 = (common_prefix s1 s2, rev (common_prefix (rev s1) (rev s2)))"
  using suffix_loop_common_prefix [of 0 s1 s2 "[]"] by (simp add: find_common_fixes_def)

lemma prefix_common_prefix: "prefix p (common_prefix xs ys) \<longleftrightarrow> prefix p xs \<and> prefix p ys"
proof (induction xs ys arbitrary: p rule: common_prefix.induct)
  case (1 x xs y ys)
  then show ?case by (cases p) auto
qed (auto simp: prefix_Nil)

lemma take_drop_double: "i < length xs \<Longrightarrow> take (length xs) (drop i (xs @ xs)) = rotate i xs"
  by (simp add: rotate_drop_take)

lemma is_rotated_rotate:
  assumes "seq2 \<noteq> []"
  shows "is_rotated seq1 seq2 = Return (\<exists>n. rotate n seq1 = seq2)"
proof (cases "length seq1 = length seq2")
  case True
  then have "seq1 \<noteq> []" using assms by auto
  have "(\<exists>i < length seq1. seq1 ! i = seq2 ! 0 \<and> take (length seq1) (drop i (seq1 @ seq1)) = seq2) \<longleftrightarrow>
      (\<exists>n. rotate n seq1 = seq2)"
  proof
    assume "\<exists>n. rotate n seq1 = seq2"
    then obtain n where n: "rotate n seq1 = seq2" by blast
    let ?i = "n mod length seq1"
    from n have "rotate ?i seq1 = seq2" by (simp flip: rotate_conv_mod)
    moreover have "?i < length seq1" using \<open>seq1 \<noteq> []\<close> by simp
    moreover from calculation have "seq1 ! ?i = seq2 ! 0"
      using \<open>seq1 \<noteq> []\<close> by (metis hd_conv_nth hd_rotate_conv_nth mod_mod_trivial rotate_is_Nil_conv)
    ultimately show "\<exists>i < length seq1. seq1 ! i = seq2 ! 0 \<and> take (length seq1) (drop i (seq1 @ seq1)) = seq2"
      by (intro exI [of _ ?i]) (simp only: take_drop_double simp_thms)
  qed (auto simp only: take_drop_double)
  with True assms show ?thesis by (simp add: is_rotated_def Let_def Bex_def conj_ac)
next
  case False
  then have "\<not> (\<exists>n. rotate n seq1 = seq2)" by auto
  with False show ?thesis by (simp add: is_rotated_def)
qed

section \<open>Gray codes\<close>

lemma bit_gray_encode: "bit (gray_encode i) n \<longleftrightarrow> bit i n \<noteq> bit i (Suc n)"
  by (simp add: gray_encode_def bit_simps)

lemma gray_encode_half: "gray_encode i div 2 = gray_encode (i div 2)"
proof -
  have "drop_bit 1 (gray_encode i) = gray_encode (drop_bit 1 i)"
    by (rule bit_eqI) (simp add: bit_gray_encode bit_drop_bit_eq)
  then show ?thesis by (simp add: drop_bit_eq_div)
qed

lemma odd_gray_encode: "odd (gray_encode i) \<longleftrightarrow> odd i \<noteq> odd (i div 2)"
  using bit_gray_encode [of i 0] by (simp add: bit_0 bit_Suc)

lemma int_eq_by_halves: "(a::int) div 2 = b div 2 \<Longrightarrow> odd a = odd b \<Longrightarrow> a = b"
  by presburger

lemma gray_encode_cancel: "0 \<le> a \<Longrightarrow> 0 \<le> b \<Longrightarrow> gray_encode a = gray_encode b \<Longrightarrow> a = b"
proof (induction "nat (a + b)" arbitrary: a b rule: less_induct)
  case less
  show ?case
  proof (cases "a + b = 0")
    case False
    with less.prems have "0 < a + b" by simp
    then have lt: "nat (a div 2 + b div 2) < nat (a + b)" using less.prems by auto
    have halves: "gray_encode (a div 2) = gray_encode (b div 2)"
      using gray_encode_half [of a] gray_encode_half [of b] less.prems(3) by simp
    have "a div 2 = b div 2"
      by (rule less.hyps [OF lt _ _ halves]) (use less.prems in simp_all)
    moreover from this less.prems(3) have "odd a = odd b"
      using odd_gray_encode [of a] odd_gray_encode [of b] by (cases "odd (b div 2)") auto
    ultimately show ?thesis by (rule int_eq_by_halves)
  qed (use less.prems in simp)
qed

lemma xor_by_halves:
  "(a XOR b) div 2 = (a div 2) XOR (b div 2 :: int)" "odd (a XOR b) \<longleftrightarrow> odd a \<noteq> odd b"
proof -
  have "drop_bit 1 (a XOR b) = drop_bit 1 a XOR drop_bit 1 b" by simp
  then show "(a XOR b) div 2 = (a div 2) XOR (b div 2 :: int)" by (simp add: drop_bit_eq_div)
  show "odd (a XOR b) \<longleftrightarrow> odd a \<noteq> odd b" by (simp add: even_xor_iff)
qed

lemma gray_encode_step: "0 \<le> i \<Longrightarrow> \<exists>k. gray_encode i XOR gray_encode (i + 1) = 2 ^ k"
proof (induction "nat i" arbitrary: i rule: less_induct)
  case less
  let ?x = "gray_encode i XOR gray_encode (i + 1)"
  have half: "?x div 2 = gray_encode (i div 2) XOR gray_encode ((i + 1) div 2)"
    by (simp add: xor_by_halves gray_encode_half)
  have par: "odd ?x \<longleftrightarrow> (odd i \<noteq> odd (i div 2)) \<noteq> (odd (i + 1) \<noteq> odd ((i + 1) div 2))"
    by (simp add: xor_by_halves(2) odd_gray_encode)
  show ?case
  proof (cases "even i")
    case True
    then have "(i + 1) div 2 = i div 2" by simp
    with half par have "?x div 2 = 0" "odd ?x" by auto
    then have "?x = 1" by presburger
    then show ?thesis by (intro exI [of _ 0]) simp
  next
    case False
    then have "(i + 1) div 2 = i div 2 + 1" by presburger
    moreover have "0 < i" using less.prems False by (cases "i = 0") auto
    ultimately have h: "(i + 1) div 2 = i div 2 + 1" "0 \<le> i div 2" "nat (i div 2) < nat i"
      by auto
    with less.hyps obtain k where "?x div 2 = 2 ^ k" using half by metis
    moreover have "even ?x" using par False h(1) by auto
    ultimately have "?x = 2 ^ Suc k" by (metis dvd_mult_div_cancel power_Suc)
    then show ?thesis by blast
  qed
qed

lemma lsb_bits_mod: "lsb_bits x n = x mod 2 ^ n"
  by (simp add: lsb_bits_def take_bit_eq_mod flip: take_bit_eq_mask mask_eq_exp_minus_1)

section \<open>Properties\<close>

text \<open>For a non-negative number and a positive width, \<open>int2bin\<close> returns exactly
  \<open>n\<close> characters that \<open>bin2int\<close> reads back, and raises ValueError precisely when the
  number does not fit the width.\<close>

theorem int2bin_roundtrip:
  assumes "0 \<le> i" and "0 < n"
  shows "if i < 2 ^ nat n
    then \<exists>s. int2bin i n = Return s \<and> length s = nat n \<and> bin2int s = Return i
    else int2bin i n = Raise (ValueError ''Value too large for given number of bits.'')"
proof -
  have bits: "int2bin i n = (if nat i < 2 ^ nat n then Return (to_bits (nat n) (nat i))
      else Raise (ValueError ''Value too large for given number of bits.''))"
    using int2bin_to_bits [of "nat n" "nat i"] assms by simp
  have "nat i < 2 ^ nat n \<longleftrightarrow> i < 2 ^ nat n"
    using assms by (simp add: nat_less_iff)
  with bits assms show ?thesis using bin2int_to_bits [of "nat n" "nat i"] by auto
qed

theorem int2bin_roundtrip_witness:
  "\<exists>s. int2bin 123 8 = Return s \<and> length s = 8 \<and> bin2int s = Return 123"
  using int2bin_roundtrip [of 123 8] by simp

text \<open>\<open>binary_range\<close> terminates for every width and, for a positive one, lists the
  \<open>2 ^ bits\<close> codes of \<open>int2bin\<close> in increasing order; width 0 gives the empty list.\<close>

theorem binary_range_enumerates:
  "if bits = 0 then binary_range bits = Some []
   else \<exists>codes. binary_range bits = Some codes \<and>
     map Return codes = map (\<lambda>i. int2bin (int i) (int bits)) [0..<2 ^ bits]"
proof (cases "bits = 0")
  case True
  then show ?thesis by (simp add: binary_range_def binary_range_loop.simps)
next
  case False
  then show ?thesis by (simp add: binary_range_codes int2bin_to_bits)
qed

text \<open>On integers \<open>gcf\<close> is the greatest common divisor, \<open>lcm\<close> is the least common
  multiple up to sign, and \<open>reduce_fraction\<close> returns an equal fraction in lowest terms
  unless both parts are zero, where it raises ZeroDivisionError.\<close>

theorem gcf_lcm_reduce_fraction:
  "gcf a b = gcd a b \<and> \<bar>lcm_int a b\<bar> = lcm a b \<and>
   (if a = 0 \<and> b = 0 then reduce_fraction (a, b) = Raise ZeroDivisionError
    else \<exists>p q. reduce_fraction (a, b) = Return (p, q) \<and> coprime p q \<and> p * b = a * q)"
proof -
  have "coprime (a div gcd a b) (b div gcd a b)" if "\<not> (a = 0 \<and> b = 0)"
    using that by (intro div_gcd_coprime) auto
  moreover have "a div gcd a b * b = a * (b div gcd a b)"
    by (simp add: div_mult_swap dvd_div_mult)
  ultimately show ?thesis
    by (auto simp: gcf_gcd lcm_int_lcm reduce_fraction_def Let_def)
qed

text \<open>\<open>permutations\<close> returns \<open>n!\<close> lists, and a list is among them exactly when it is
  a rearrangement of the input.\<close>

theorem permutations_correct:
  "length (permutations_list xs) = fact (length xs) \<and>
   set (permutations_list xs) = {ys. mset ys = mset xs}"
  using permutations_list_complete [of _ xs] by (auto simp: length_permutations_list)

text \<open>\<open>find_common_fixes\<close> returns the longest common prefix and the longest common
  suffix: a string is a prefix of both inputs exactly when it is a prefix of the first result,
  and a suffix of both exactly when it is a suffix of the second.\<close>

theorem find_common_fixes_longest:
  "(prefix p (fst (find_common_fixes s1 s2)) \<longleftrightarrow> prefix p s1 \<and> prefix p s2) \<and>
   (suffix q (snd (find_common_fixes s1 s2)) \<longleftrightarrow> suffix q s1 \<and> suffix q s2)"
  by (simp add: find_common_fixes_prefixes prefix_common_prefix suffix_to_prefix)

text \<open>\<open>is_rotated\<close> decides rotation for a non-empty second sequence; comparing two empty
  sequences raises IndexError, because the head of the second one is read first.\<close>

theorem is_rotated_correct:
  "is_rotated seq1 seq2 =
     (if seq1 = [] \<and> seq2 = [] then Raise IndexError else Return (\<exists>n. rotate n seq1 = seq2))"
proof (cases "seq2 = []")
  case True
  then show ?thesis by (auto simp: is_rotated_def)
next
  case False
  then show ?thesis by (simp add: is_rotated_rotate)
qed

text \<open>Whatever algorithm \<open>uniquify\<close> picks, the result has no duplicates, the elements of the
  input and only those, in the order of their first occurrence.\<close>

theorem uniquify_correct:
  "distinct (uniquify hashable xs preserve_order) \<and>
   set (uniquify hashable xs preserve_order) = set xs \<and>
   subseq (uniquify hashable xs preserve_order) xs \<and>
   uniquify hashable (xs @ [x]) preserve_order =
     uniquify hashable' xs preserve_order' @ (if x \<in> set xs then [] else [x])"
proof -
  have "first_occs (xs @ [x]) S = first_occs xs S @ (if x \<in> set xs \<union> S then [] else [x])" for S
    by (induction xs S rule: first_occs.induct) auto
  then show ?thesis
    by (simp add: uniquify_first_occs distinct_first_occs set_first_occs first_occs_subseq)
qed

text \<open>For a positive grid and a number that is not negative, \<open>round_grid\<close> in mode 0 returns a multiple
  of the grid at most half a grid away; in modes 1 and -1 it returns the next multiple above and below when
  the number is off the grid, and raises UnboundLocalError when it is already on it. For a negative
  number off the grid every result is one grid too high, so rounding down goes up.\<close>

lemma int_quotient_div:
  "0 < b \<Longrightarrow> int_quotient a b = a div b + (if a < 0 \<and> \<not> b dvd a then 1 else 0)"
proof (cases "a < 0")
  case True
  assume b: "0 < b"
  show ?thesis
  proof (cases "b dvd a")
    case True
    with b \<open>a < 0\<close> zdiv_zminus1_eq_if [of b a] show ?thesis by (simp add: int_quotient_def dvd_eq_mod_eq_0)
  next
    case False
    then have "(- a) div b = - (a div b) - 1"
      using b zdiv_zminus1_eq_if [of b a] by (simp add: dvd_eq_mod_eq_0)
    with False b \<open>a < 0\<close> show ?thesis by (simp add: int_quotient_def)
  qed
qed (simp add: int_quotient_def sgn_if)

theorem round_grid_correct:
  assumes "0 < grid"
  shows "let wrong = (if val < 0 \<and> \<not> grid dvd val then grid else 0) in
    (\<exists>r. round_grid val grid 0 = Return (r + wrong) \<and> grid dvd r \<and> 2 * \<bar>val - r\<bar> \<le> grid) \<and>
    (if grid dvd val
     then round_grid val grid 1 = Raise (UnboundLocalError ''add_one'') \<and>
       round_grid val grid (-1) = Raise (UnboundLocalError ''add_one'')
     else \<exists>up down. round_grid val grid 1 = Return (up + wrong) \<and> round_grid val grid (-1) = Return (down + wrong) \<and>
       grid dvd up \<and> grid dvd down \<and> down < val \<and> val < up \<and> up = down + grid)"
proof -
  let ?m = "val mod grid"
  define wrong where "wrong = (if val < 0 \<and> \<not> grid dvd val then grid else 0)"
  have q: "(int_quotient val grid + k) * grid = (val div grid + k) * grid + wrong" for k
    using int_quotient_div [OF assms, of val] by (simp add: wrong_def algebra_simps)
  have v: "val = val div grid * grid + ?m" by simp
  have m: "0 \<le> ?m" "?m < grid" using assms by simp_all
  have 0: "\<exists>r. round_grid val grid 0 = Return (r + wrong) \<and> grid dvd r \<and> 2 * \<bar>val - r\<bar> \<le> grid"
  proof (cases "2 * ?m \<ge> grid")
    case True
    have "val - (val div grid + 1) * grid = ?m - grid" using v by (simp add: algebra_simps)
    moreover have "\<bar>?m - grid\<bar> = grid - ?m" using m by (simp add: abs_if)
    then have "2 * \<bar>?m - grid\<bar> \<le> grid" using True by simp
    ultimately have "2 * \<bar>val - (val div grid + 1) * grid\<bar> \<le> grid" by (simp only:)
    with True assms show ?thesis
      by (intro exI [of _ "(val div grid + 1) * grid"]) (simp add: round_grid_def Let_def q)
  next
    case False
    have "val - val div grid * grid = ?m" by (rule minus_div_mult_eq_mod)
    with False m assms show ?thesis
      using q [of 0] by (intro exI [of _ "val div grid * grid"]) (simp add: round_grid_def Let_def)
  qed
  have off: "val div grid * grid < val" "val < (val div grid + 1) * grid" if "?m \<noteq> 0"
    using m that minus_div_mult_eq_mod [of val grid] distrib_right [of "val div grid" 1 grid]
    by linarith+
  show ?thesis
  proof (cases "?m = 0")
    case True
    with 0 assms show ?thesis by (simp add: wrong_def round_grid_def Let_def dvd_eq_mod_eq_0)
  next
    case False
    with off assms q [of 0] q [of 1]
    have "\<exists>up down. round_grid val grid 1 = Return (up + wrong) \<and> round_grid val grid (-1) = Return (down + wrong) \<and>
       grid dvd up \<and> grid dvd down \<and> down < val \<and> val < up \<and> up = down + grid"
      by (intro exI [of _ "(val div grid + 1) * grid"] exI [of _ "val div grid * grid"])
        (simp add: round_grid_def Let_def algebra_simps)
    with 0 False show ?thesis by (simp add: wrong_def dvd_eq_mod_eq_0)
  qed
qed

theorem round_grid_correct_witness:
  "round_grid 10 5 1 = Raise (UnboundLocalError ''add_one'') \<and>
   (\<exists>up down. round_grid (-7) 5 1 = Return (up + 5) \<and> round_grid (-7) 5 (-1) = Return (down + 5) \<and>
      down < -7 \<and> -7 < up \<and> up = down + 5)"
  using round_grid_correct [of 5 10] round_grid_correct [of 5 "-7"] by auto

text \<open>Gray codes of non-negative numbers are pairwise different, and the codes of two
  successive numbers differ in exactly one bit.\<close>

theorem gray_encode_correct:
  assumes "0 \<le> i" and "0 \<le> j"
  shows "(gray_encode i = gray_encode j \<longleftrightarrow> i = j) \<and>
    (\<exists>k. gray_encode i XOR gray_encode (i + 1) = 2 ^ k)"
  using gray_encode_cancel [OF assms] gray_encode_step [OF assms(1)] by auto

theorem gray_encode_correct_witness:
  "gray_encode 5 \<noteq> gray_encode 6 \<and> (\<exists>k. gray_encode 5 XOR gray_encode 6 = 2 ^ k)"
  using gray_encode_correct [of 5 6] by simp

end
