(* ===== verification/Topsort.thy ===== *)
theory Topsort
  imports Prelude "HOL-Library.Multiset"
begin

text \<open>
  Dependency sorting, \<open>bindings/python/topsort.py\<close>: \<open>topsort\<close>, \<open>topsort_levels\<close> and
  \<open>topsort_levels_core\<close>. The two dictionaries are association lists. The order in which
  Python 2 iterates a dict is not fixed, so it is an argument \<open>order\<close> of the model, of
  which only \<open>dict_order\<close> is used: it lists every key once. A generator is modelled by the list
  of the values it yields with the way it ends.
\<close>

section \<open>The code\<close>

type_synonym 'a counts = "('a \<times> int) list"
type_synonym 'a successors = "('a \<times> 'a list) list"

datatype 'a topsort_error =
    MissingKey 'a
  | CycleError "'a list" "'a counts" "'a successors"

datatype 'a generator_end =
    StopIteration
  | LevelsKeyError 'a
  | LevelsCycleError "'a counts" "'a successors"

text \<open>The loop that counts the parents and collects the children of every element.\<close>

definition setdefault_zero :: "'a \<Rightarrow> 'a counts \<Rightarrow> 'a counts" where
  "setdefault_zero x np = (if map_of np x = None then AList.update x 0 np else np)"

definition count_pair :: "'a \<times> 'a \<Rightarrow> 'a counts \<times> 'a successors \<Rightarrow> 'a counts \<times> 'a successors" where
  "count_pair pair st =
     (let (parent, child) = pair;
          (num_parents, children) = st;
          num_parents = setdefault_zero parent num_parents;
          num_parents = setdefault_zero child num_parents;
          num_parents = AList.update child (the (map_of num_parents child) + 1) num_parents;
          siblings = (case map_of children parent of None \<Rightarrow> [] | Some cs \<Rightarrow> cs)
      in (num_parents, AList.update parent (siblings @ [child]) children))"

definition build_tables :: "('a \<times> 'a) list \<Rightarrow> 'a counts \<times> 'a successors" where
  "build_tables pairlist = fold count_pair pairlist ([], [])"

text \<open>\<open>[x for x in num_parents.keys() if num_parents[x] == 0]\<close>\<close>

definition no_parents :: "('a counts \<Rightarrow> 'a list) \<Rightarrow> 'a counts \<Rightarrow> 'a list" where
  "no_parents order np = filter (\<lambda>x. map_of np x = Some 0) (order np)"

text \<open>The body of the loop over \<open>children[parent]\<close> in \<open>topsort\<close>, which may extend the answer.\<close>

definition knock_down :: "'a \<Rightarrow> 'a counts \<times> 'a list \<Rightarrow> 'a topsort_error + 'a counts \<times> 'a list" where
  "knock_down child st =
     (let (np, answer) = st in
      case map_of np child of
        None \<Rightarrow> Raise (MissingKey child)
      | Some n \<Rightarrow>
          Return (AList.update child (n - 1) np, if n - 1 = 0 then answer @ [child] else answer))"

text \<open>One iteration of \<open>for parent in answer\<close>.\<close>

definition topsort_step :: "'a \<Rightarrow> 'a counts \<Rightarrow> 'a successors \<Rightarrow> 'a list
    \<Rightarrow> 'a topsort_error + 'a counts \<times> 'a successors \<times> 'a list" where
  "topsort_step parent np children answer =
     (if map_of np parent = None then Raise (MissingKey parent)
      else
        let np = AList.delete parent np in
        case map_of children parent of
          None \<Rightarrow> Return (np, children, answer)
        | Some cs \<Rightarrow>
            bind_res (fold_res knock_down cs (np, answer)) (\<lambda>(np, answer).
              Return (np, AList.delete parent children, answer)))"

lemma length_delete: "map_of d k \<noteq> None \<Longrightarrow> length (AList.delete k d) < length d"
proof (induction d)
  case (Cons p d)
  then show ?case using length_delete_le [of k d] by (cases p) (auto simp: less_Suc_eq_le)
qed simp

lemma length_update_present: "map_of d k \<noteq> None \<Longrightarrow> length (AList.update k v d) = length d"
  by (induction d) (auto split: if_splits)

lemma knock_down_length:
  "fold_res knock_down cs (np, answer) = Return (np', answer') \<Longrightarrow> length np' = length np"
proof (induction cs arbitrary: np answer)
  case (Cons c cs)
  then show ?case
    by (auto simp: bind_res_eq_Return knock_down_def length_update_present split: option.splits)
qed simp

lemma topsort_step_length:
  "topsort_step parent np children answer = Return (np', children', answer') \<Longrightarrow> length np' < length np"
  using length_delete [of np parent]
  by (auto simp: topsort_step_def Let_def bind_res_eq_Return split: if_splits option.splits
      dest!: knock_down_length)

text \<open>
  \<open>for parent in answer\<close>, where the list grows in the loop: the loop reads the element at
  its position until it has passed the end. Every iteration deletes a key of \<open>num_parents\<close>.
\<close>

function topsort_loop :: "nat \<Rightarrow> 'a counts \<Rightarrow> 'a successors \<Rightarrow> 'a list
    \<Rightarrow> 'a topsort_error + 'a counts \<times> 'a successors \<times> 'a list" where
  "topsort_loop i np children answer =
     (if i < length answer then
        (case topsort_step (answer ! i) np children answer of
           Inl e \<Rightarrow> Inl e
         | Inr (np', children', answer') \<Rightarrow> topsort_loop (Suc i) np' children' answer')
      else Return (np, children, answer))"
  by pat_completeness auto
termination
  by (relation "measure (\<lambda>(i, np, children, answer). length np)") (auto dest: topsort_step_length)

declare topsort_loop.simps [simp del]

definition topsort :: "('a counts \<Rightarrow> 'a list) \<Rightarrow> ('a \<times> 'a) list \<Rightarrow> 'a topsort_error + 'a list" where
  "topsort order pairlist =
     (let (num_parents, children) = build_tables pairlist in
      bind_res (topsort_loop 0 num_parents children (no_parents order num_parents))
        (\<lambda>(np, children, answer).
           if np \<noteq> [] then Raise (CycleError answer np children) else Return answer))"

text \<open>
  The loops over one level of \<open>topsort_levels_core\<close>; the left alternative is the key of a
  KeyError.
\<close>

definition count_down :: "'a \<Rightarrow> 'a counts \<Rightarrow> 'a + 'a counts" where
  "count_down child np =
     (case map_of np child of
        None \<Rightarrow> Raise child
      | Some n \<Rightarrow> Return (AList.update child (n - 1) np))"

definition release_parent :: "'a \<Rightarrow> 'a counts \<times> 'a successors
    \<Rightarrow> 'a + 'a counts \<times> 'a successors" where
  "release_parent level_parent st =
     (let (np, children) = st in
      if map_of np level_parent = None then Raise level_parent
      else
        let np = AList.delete level_parent np in
        case map_of children level_parent of
          None \<Rightarrow> Return (np, children)
        | Some cs \<Rightarrow>
            bind_res (fold_res count_down cs np) (\<lambda>np.
              Return (np, AList.delete level_parent children)))"

lemma count_down_length:
  "fold_res count_down cs np = Return np' \<Longrightarrow> length np' = length np"
proof (induction cs arbitrary: np)
  case (Cons c cs)
  then show ?case
    by (auto simp: bind_res_eq_Return count_down_def length_update_present split: option.splits)
qed simp

lemma release_parent_length:
  "release_parent p (np, children) = Return (np', children') \<Longrightarrow> length np' < length np"
  using length_delete [of np p]
  by (auto simp: release_parent_def Let_def bind_res_eq_Return split: if_splits option.splits
      dest!: count_down_length)

lemma release_parents_length:
  "fold_res release_parent ps (np, children) = Return (np', children') \<Longrightarrow>
    length np' + length ps \<le> length np"
proof (induction ps arbitrary: np children)
  case (Cons p ps)
  then obtain np1 children1 where
    *: "release_parent p (np, children) = Return (np1, children1)"
      "fold_res release_parent ps (np1, children1) = Return (np', children')"
    by (auto simp: bind_res_eq_Return)
  from release_parent_length [OF *(1)] Cons.IH [OF *(2)] show ?case by simp
qed simp

text \<open>The generator: the levels it yields, and how it ends.\<close>

function topsort_levels_core :: "('a counts \<Rightarrow> 'a list) \<Rightarrow> 'a counts \<Rightarrow> 'a successors
    \<Rightarrow> 'a list list \<times> 'a generator_end" where
  "topsort_levels_core order np children =
     (let level_parents = no_parents order np in
      if level_parents = [] then
        ([], if np \<noteq> [] then LevelsCycleError np children else StopIteration)
      else
        (case fold_res release_parent level_parents (np, children) of
           Inl k \<Rightarrow> ([level_parents], LevelsKeyError k)
         | Inr (np', children') \<Rightarrow>
             (let (levels, ending) = topsort_levels_core order np' children'
              in (level_parents # levels, ending))))"
  by pat_completeness auto
termination
proof (relation "measure (\<lambda>(order, np, children). length np)", goal_cases)
  case (2 order np children level_parents r np' children')
  then have "length np' + length level_parents \<le> length np"
    using release_parents_length by metis
  moreover have "0 < length level_parents" using 2 by simp
  ultimately show ?case by (simp del: length_greater_0_conv)
qed simp

declare topsort_levels_core.simps [simp del]

definition topsort_levels :: "('a counts \<Rightarrow> 'a list) \<Rightarrow> ('a \<times> 'a) list
    \<Rightarrow> 'a list list \<times> 'a generator_end" where
  "topsort_levels order pairlist =
     (let (num_parents, children) = build_tables pairlist
      in topsort_levels_core order num_parents children)"

section \<open>What the tables hold\<close>

definition elems :: "('a \<times> 'a) list \<Rightarrow> 'a set" where
  "elems P = fst ` set P \<union> snd ` set P"

definition kids :: "('a \<times> 'a) list \<Rightarrow> 'a \<Rightarrow> 'a list" where
  "kids P p = map snd (filter (\<lambda>q. fst q = p) P)"

text \<open>The number of pairs that still hold an element back when the elements of \<open>D\<close> are out.\<close>

definition remaining :: "('a \<times> 'a) list \<Rightarrow> 'a set \<Rightarrow> 'a \<Rightarrow> int" where
  "remaining P D x = int (length (filter (\<lambda>q. snd q = x \<and> fst q \<notin> D) P))"

text \<open>The elements on a cycle or below one.\<close>

definition cyclic_part :: "('a \<times> 'a) list \<Rightarrow> 'a set" where
  "cyclic_part P = {x. \<exists>y. (y, y) \<in> (set P)\<^sup>+ \<and> (y, x) \<in> (set P)\<^sup>*}"

definition dict_order :: "('a counts \<Rightarrow> 'a list) \<Rightarrow> bool" where
  "dict_order order \<longleftrightarrow> (\<forall>d. mset (order d) = mset (dict_keys d))"

lemma remaining_nonneg [simp]: "0 \<le> remaining P D x"
  by (simp add: remaining_def)

lemma remaining_0_iff: "remaining P D x = 0 \<longleftrightarrow> (\<forall>a. (a, x) \<in> set P \<longrightarrow> a \<in> D)"
  by (auto simp: remaining_def filter_empty_conv)

lemma remaining_insert:
  "p \<notin> D \<Longrightarrow> remaining P D x = remaining P (insert p D) x + int (count_list (kids P p) x)"
  by (induction P) (auto simp: remaining_def kids_def)

lemma kids_iff: "c \<in> set (kids P p) \<longleftrightarrow> (p, c) \<in> set P"
  by (force simp: kids_def)

lemma elemsI: "(a, b) \<in> set P \<Longrightarrow> a \<in> elems P" "(a, b) \<in> set P \<Longrightarrow> b \<in> elems P"
  by (force simp: elems_def)+

lemma cyclic_part_step: "a \<in> cyclic_part P \<Longrightarrow> (a, b) \<in> set P \<Longrightarrow> b \<in> cyclic_part P"
  unfolding cyclic_part_def by (blast intro: rtrancl.rtrancl_into_rtrancl)

lemma cyclic_part_parent:
  assumes "x \<in> cyclic_part P"
  obtains a where "(a, x) \<in> set P" and "a \<in> cyclic_part P"
proof -
  from assms obtain y where y: "(y, y) \<in> (set P)\<^sup>+" "(y, x) \<in> (set P)\<^sup>*"
    by (auto simp: cyclic_part_def)
  then have "(y, x) \<in> (set P)\<^sup>+" by auto
  then obtain a where "(y, a) \<in> (set P)\<^sup>*" "(a, x) \<in> set P" by (meson tranclD2)
  with y(1) that show thesis by (auto simp: cyclic_part_def)
qed

lemma cyclic_part_elems: "cyclic_part P \<subseteq> elems P"
  by (blast elim: cyclic_part_parent dest: elemsI(2))

lemma cyclic_part_empty: "cyclic_part P = {} \<longleftrightarrow> acyclic (set P)"
  by (auto simp: cyclic_part_def acyclic_def)

text \<open>A set in which everything has a parent lies below cycles.\<close>

lemma backward_closed_cyclic:
  assumes fin: "finite L" and par: "\<And>x. x \<in> L \<Longrightarrow> \<exists>a \<in> L. (a, x) \<in> set P"
  shows "L \<subseteq> cyclic_part P"
proof (rule ccontr)
  assume "\<not> L \<subseteq> cyclic_part P"
  then obtain x where x: "x \<in> L - cyclic_part P" by auto
  let ?R = "set P \<inter> (L - cyclic_part P) \<times> (L - cyclic_part P)"
  have "acyclic ?R"
  proof (rule ccontr)
    assume "\<not> acyclic ?R"
    then obtain y where y: "(y, y) \<in> ?R\<^sup>+" by (auto simp: acyclic_def)
    then have "(y, y) \<in> (set P)\<^sup>+" by (rule trancl_mono) simp
    then have "y \<in> cyclic_part P" by (auto simp: cyclic_part_def)
    moreover from y have "y \<notin> cyclic_part P" by (meson DiffD2 Int_iff SigmaD1 tranclD)
    ultimately show False by simp
  qed
  then have "wf ?R" by (simp add: finite_acyclic_wf)
  then obtain m where m: "m \<in> L - cyclic_part P"
    and min: "\<And>a. (a, m) \<in> ?R \<Longrightarrow> a \<notin> L - cyclic_part P"
    using x by (meson wfE_min)
  from m par obtain a where "a \<in> L" "(a, m) \<in> set P" by auto
  with m min show False by (auto dest: cyclic_part_step)
qed

lemma build_tables_snoc: "build_tables (P @ [q]) = count_pair q (build_tables P)"
  by (simp add: build_tables_def)

lemma setdefault_zero_map: "map_of (setdefault_zero x np) =
    (\<lambda>y. if y = x \<and> map_of np x = None then Some 0 else map_of np y)"
  by (auto simp: setdefault_zero_def alist.lookup_store)

lemma setdefault_zero_wf: "dict_wf np \<Longrightarrow> dict_wf (setdefault_zero x np)"
  by (simp add: setdefault_zero_def alist.wf_store)

lemma build_tables_correct:
  "dict_wf (fst (build_tables P)) \<and>
   map_of (fst (build_tables P)) = (\<lambda>x. if x \<in> elems P then Some (remaining P {} x) else None) \<and>
   map_of (snd (build_tables P)) = (\<lambda>p. if kids P p = [] then None else Some (kids P p))"
proof (induction P rule: rev_induct)
  case Nil
  show ?case by (simp add: build_tables_def elems_def kids_def)
next
  case (snoc q P)
  obtain a b where q: "q = (a, b)" by (cases q)
  obtain np ch where t: "build_tables P = (np, ch)" by (cases "build_tables P")
  have z: "x \<notin> elems P \<Longrightarrow> remaining P {} x = 0" for x
    by (auto simp: remaining_0_iff dest: elemsI)
  from snoc t have wf: "dict_wf np"
    and np: "map_of np = (\<lambda>x. if x \<in> elems P then Some (remaining P {} x) else None)"
    and ch: "map_of ch = (\<lambda>p. if kids P p = [] then None else Some (kids P p))" by auto
  have e: "elems (P @ [q]) = insert a (insert b (elems P))" by (auto simp: elems_def q)
  have k: "kids (P @ [q]) p = kids P p @ (if p = a then [b] else [])" for p
    by (simp add: kids_def q)
  have r: "remaining (P @ [q]) {} x = remaining P {} x + (if x = b then 1 else 0)" for x
    by (simp add: remaining_def q)
  show ?case
    unfolding build_tables_snoc t q count_pair_def Let_def prod.case e [unfolded q] k [unfolded q] r [unfolded q]
    using wf by (auto simp: alist.lookup_store alist.wf_store setdefault_zero_map setdefault_zero_wf
        np ch z fun_eq_iff)
qed

section \<open>Releasing an element\<close>

lemma count_down_present:
  "map_of np c = Some n \<Longrightarrow> count_down c np = Return (AList.update c (n - 1) np)"
  by (simp add: count_down_def)

lemma knock_down_present:
  "map_of np c = Some n \<Longrightarrow> knock_down c (np, answer) =
    Return (AList.update c (n - 1) np, if n - 1 = 0 then answer @ [c] else answer)"
  by (simp add: knock_down_def)

lemma count_down_fold:
  assumes "dict_wf np" and "\<And>c. c \<in> set cs \<Longrightarrow> map_of np c \<noteq> None"
  shows "\<exists>np'. fold_res count_down cs np = Return np' \<and> dict_wf np' \<and>
    map_of np' = (\<lambda>x. map_option (\<lambda>n. n - int (count_list cs x)) (map_of np x))"
  using assms
proof (induction cs arbitrary: np)
  case Nil
  then show ?case by (simp add: option.map_ident fun_eq_iff)
next
  case (Cons c cs)
  from Cons.prems obtain n where n: "map_of np c = Some n" by fastforce
  let ?np1 = "AList.update c (n - 1) np"
  have "dict_wf ?np1" using Cons.prems by (simp add: alist.wf_store)
  moreover have "map_of ?np1 d \<noteq> None" if "d \<in> set cs" for d
    using Cons.prems(2) [of d] that by (simp add: alist.lookup_store)
  ultimately obtain np' where np': "fold_res count_down cs ?np1 = Return np'" "dict_wf np'"
      "map_of np' = (\<lambda>x. map_option (\<lambda>n. n - int (count_list cs x)) (map_of ?np1 x))"
    using Cons.IH [of ?np1] by blast
  have "map_of np' = (\<lambda>x. map_option (\<lambda>n. n - int (count_list (c # cs) x)) (map_of np x))"
    unfolding np'(3) by (auto simp: alist.lookup_store n fun_eq_iff)
  with np' n show ?case by (simp add: count_down_present)
qed

text \<open>\<open>topsort\<close> counts down in the same way and appends what reaches zero, once.\<close>

lemma knock_down_fold:
  assumes "fold_res count_down cs np = Return np'"
    and "\<And>c. c \<in> set cs \<Longrightarrow> \<exists>n. map_of np c = Some n \<and> int (count_list cs c) \<le> n"
  shows "\<exists>new. fold_res knock_down cs (np, answer) = Return (np', answer @ new) \<and> distinct new \<and>
    set new = {c \<in> set cs. map_of np c = Some (int (count_list cs c))}"
  using assms
proof (induction cs arbitrary: np answer)
  case (Cons c cs)
  from Cons.prems(2) [of c] obtain n where n: "map_of np c = Some n"
    "int (count_list (c # cs) c) \<le> n" by auto
  let ?np1 = "AList.update c (n - 1) np"
  let ?answer1 = "if n - 1 = 0 then answer @ [c] else answer"
  from Cons.prems(1) n have r: "fold_res count_down cs ?np1 = Return np'"
    by (simp add: count_down_present)
  have "\<exists>m. map_of ?np1 d = Some m \<and> int (count_list cs d) \<le> m" if "d \<in> set cs" for d
    using Cons.prems(2) [of d] n that by (auto simp: alist.lookup_store)
  from Cons.IH [OF r this, of ?answer1] obtain new where
    new: "fold_res knock_down cs (?np1, ?answer1) = Return (np', ?answer1 @ new)" "distinct new"
      "set new = {d \<in> set cs. map_of ?np1 d = Some (int (count_list cs d))}" by blast
  have step: "fold_res knock_down (c # cs) (np, answer) = Return (np', ?answer1 @ new)"
    using new(1) n by (simp add: knock_down_present)
  have mem: "d \<in> set new \<longleftrightarrow> d \<in> set cs \<and>
      (if d = c then n - 1 = int (count_list cs c) else map_of np d = Some (int (count_list cs d)))" for d
    unfolding new(3) by (auto simp: alist.lookup_store)
  show ?case
  proof (cases "n - 1 = 0")
    case True
    with n have c0: "count_list cs c = 0" by simp
    then have "c \<notin> set cs" by (simp add: count_list_0_iff)
    with True step new(2) mem n c0 show ?thesis
      by (intro exI [of _ "c # new"]) (auto simp: mem)
  next
    case False
    with step new(2) mem n show ?thesis
      by (intro exI [of _ new]) (auto simp: mem count_notin)
  qed
qed simp

text \<open>
  The state of both sorts when the elements of \<open>D\<close> are out: the tables describe what remains,
  \<open>D\<close> contains the parents of its elements and nothing that depends on a cycle.
\<close>

definition released :: "('a \<times> 'a) list \<Rightarrow> 'a set \<Rightarrow> 'a counts \<Rightarrow> 'a successors \<Rightarrow> bool" where
  "released P D np ch \<longleftrightarrow>
     dict_wf np \<and>
     map_of np = (\<lambda>x. if x \<in> elems P - D then Some (remaining P D x) else None) \<and>
     map_of ch = (\<lambda>p. if p \<in> D \<or> kids P p = [] then None else Some (kids P p)) \<and>
     D \<subseteq> elems P \<and> D \<inter> cyclic_part P = {} \<and> (\<forall>a b. (a, b) \<in> set P \<longrightarrow> b \<in> D \<longrightarrow> a \<in> D)"

lemma released_start: "released P {} (fst (build_tables P)) (snd (build_tables P))"
  using build_tables_correct [of P] by (simp add: released_def)

lemma released_keys: "released P D np ch \<Longrightarrow> set (dict_keys np) = elems P - D"
  unfolding alist.set_keys_of by (auto simp: released_def dom_def)

lemma released_insert:
  assumes R: "released P D np ch" and p: "p \<in> elems P - D" "remaining P D p = 0"
  shows "\<exists>np'. fold_res count_down (kids P p) (AList.delete p np) = Return np' \<and>
    released P (insert p D) np' (AList.delete p ch)"
proof -
  let ?np = "AList.delete p np"
  have closed: "(a, b) \<in> set P \<Longrightarrow> b \<in> D \<Longrightarrow> a \<in> D" for a b using R by (auto simp: released_def)
  have par: "(a, p) \<in> set P \<Longrightarrow> a \<in> D" for a using p by (auto simp: remaining_0_iff)
  have m: "map_of ?np = (\<lambda>x. if x \<in> elems P - insert p D then Some (remaining P D x) else None)"
    using R by (auto simp: released_def alist.lookup_remove fun_eq_iff)
  have "map_of ?np c \<noteq> None" if "c \<in> set (kids P p)" for c
    using that p closed [of p c] par [of p] by (auto simp: m kids_iff dest: elemsI)
  moreover have "dict_wf ?np" using R by (simp add: released_def alist.wf_remove)
  ultimately obtain np' where np': "fold_res count_down (kids P p) ?np = Return np'" "dict_wf np'"
      "map_of np' = (\<lambda>x. map_option (\<lambda>n. n - int (count_list (kids P p) x)) (map_of ?np x))"
    using count_down_fold [of ?np "kids P p"] by blast
  have "map_of np' = (\<lambda>x. if x \<in> elems P - insert p D then Some (remaining P (insert p D) x) else None)"
    using p unfolding np'(3) m by (auto simp: fun_eq_iff remaining_insert [of p D P])
  moreover have "map_of (AList.delete p ch) =
      (\<lambda>q. if q \<in> insert p D \<or> kids P q = [] then None else Some (kids P q))"
    using R by (auto simp: released_def alist.lookup_remove fun_eq_iff)
  moreover have "p \<notin> cyclic_part P"
  proof
    assume "p \<in> cyclic_part P"
    then obtain a where "(a, p) \<in> set P" "a \<in> cyclic_part P" by (rule cyclic_part_parent)
    with par R show False by (auto simp: released_def)
  qed
  moreover have "insert p D \<subseteq> elems P" "D \<inter> cyclic_part P = {}" using R p by (auto simp: released_def)
  ultimately have "released P (insert p D) np' (AList.delete p ch)"
    using np'(2) closed par unfolding released_def by blast
  with np'(1) show ?thesis by blast
qed

text \<open>Where nothing is left to take, exactly the elements that depend on a cycle are left.\<close>

lemma released_final:
  assumes R: "released P D np ch" and stuck: "\<And>x. x \<in> elems P - D \<Longrightarrow> remaining P D x \<noteq> 0"
  shows "D = elems P - cyclic_part P" and "set (dict_keys np) = cyclic_part P"
    and "np = [] \<longleftrightarrow> acyclic (set P)"
proof -
  have "elems P - D \<subseteq> cyclic_part P"
  proof (rule backward_closed_cyclic)
    show "finite (elems P - D)" by (simp add: elems_def)
    show "\<exists>a\<in>elems P - D. (a, x) \<in> set P" if "x \<in> elems P - D" for x
      using stuck [OF that] by (auto simp: remaining_0_iff dest: elemsI)
  qed
  with R cyclic_part_elems [of P] show D: "D = elems P - cyclic_part P" by (auto simp: released_def)
  from released_keys [OF R] cyclic_part_elems [of P] show k: "set (dict_keys np) = cyclic_part P"
    by (auto simp: D)
  then show "np = [] \<longleftrightarrow> acyclic (set P)" by (auto simp flip: cyclic_part_empty)
qed

lemma no_parents_correct:
  assumes "dict_order order" and "released P D np ch"
  shows "distinct (no_parents order np) \<and>
    set (no_parents order np) = {x \<in> elems P - D. remaining P D x = 0}"
proof -
  have o: "mset (order np) = mset (dict_keys np)" using assms by (simp add: dict_order_def)
  from mset_eq_imp_distinct_iff [OF o] assms have "distinct (order np)" by (simp add: released_def)
  moreover from mset_eq_setD [OF o] released_keys [OF assms(2)] have "set (order np) = elems P - D"
    by simp
  ultimately show ?thesis using assms by (auto simp: no_parents_def released_def)
qed

section \<open>The two sorts\<close>

text \<open>Every element comes after all its parents.\<close>

definition topological :: "('a \<times> 'a) list \<Rightarrow> 'a list \<Rightarrow> bool" where
  "topological P A \<longleftrightarrow> (\<forall>k a. k < length A \<longrightarrow> (a, A ! k) \<in> set P \<longrightarrow> a \<in> set (take k A))"

lemma topological_append:
  assumes "topological P A" and "\<And>a b. b \<in> set B \<Longrightarrow> (a, b) \<in> set P \<Longrightarrow> a \<in> set A"
  shows "topological P (A @ B)"
  unfolding topological_def
proof (intro allI impI)
  fix k a
  assume k: "k < length (A @ B)" "(a, (A @ B) ! k) \<in> set P"
  show "a \<in> set (take k (A @ B))"
  proof (cases "k < length A")
    case True
    with k assms(1) show ?thesis by (auto simp: topological_def nth_append)
  next
    case False
    with k have "(A @ B) ! k \<in> set B" by (simp add: nth_append)
    with k assms(2) False show ?thesis by auto
  qed
qed

lemma topsort_step_released:
  assumes R: "released P D np ch" and p: "p \<in> elems P - D" "remaining P D p = 0"
  shows "\<exists>np' ch' new. topsort_step p np ch A = Return (np', ch', A @ new) \<and>
    released P (insert p D) np' ch' \<and> distinct new \<and>
    set new = {c \<in> elems P - insert p D. remaining P (insert p D) c = 0 \<and> remaining P D c \<noteq> 0}"
proof -
  obtain np' where np': "fold_res count_down (kids P p) (AList.delete p np) = Return np'"
      "released P (insert p D) np' (AList.delete p ch)"
    using released_insert [OF R p] by blast
  have m: "map_of (AList.delete p np) =
      (\<lambda>x. if x \<in> elems P - insert p D then Some (remaining P D x) else None)"
    using R by (auto simp: released_def alist.lookup_remove fun_eq_iff)
  have notD: "c \<in> elems P - insert p D" if "c \<in> set (kids P p)" for c
    using that R p by (auto simp: kids_iff released_def remaining_0_iff dest: elemsI)
  have present: "map_of np p \<noteq> None" and ch: "map_of ch p = (if kids P p = [] then None else Some (kids P p))"
    using R p by (auto simp: released_def)
  have le: "\<exists>n. map_of (AList.delete p np) c = Some n \<and> int (count_list (kids P p) c) \<le> n"
    if "c \<in> set (kids P p)" for c
    using notD [OF that] p by (simp add: m remaining_insert [of p D P])
  from knock_down_fold [OF np'(1) le, of A] obtain new where
    new: "fold_res knock_down (kids P p) (AList.delete p np, A) = Return (np', A @ new)" "distinct new"
      "set new = {c \<in> set (kids P p). map_of (AList.delete p np) c = Some (int (count_list (kids P p) c))}"
    by blast
  have s: "set new = {c \<in> elems P - insert p D. remaining P (insert p D) c = 0 \<and> remaining P D c \<noteq> 0}"
    (is "_ = ?S")
  proof (intro equalityI subsetI)
    fix c assume c: "c \<in> set new"
    then have k: "c \<in> set (kids P p)" and v: "map_of (AList.delete p np) c = Some (int (count_list (kids P p) c))"
      by (auto simp: new(3))
    moreover from k have "count_list (kids P p) c \<noteq> 0" by (simp add: count_list_0_iff)
    ultimately show "c \<in> ?S" using notD [OF k] p by (simp add: m remaining_insert [of p D P])
  next
    fix c assume c: "c \<in> ?S"
    then have "count_list (kids P p) c \<noteq> 0" using p by (simp add: remaining_insert [of p D P])
    then have "c \<in> set (kids P p)" by (metis count_notin)
    with c p show "c \<in> set new" by (simp add: new(3) m remaining_insert [of p D P])
  qed
  show ?thesis
  proof (cases "kids P p = []")
    case True
    with ch have "AList.delete p ch = ch" by (simp add: delete_idem map_of_eq_None_iff)
    with True np' new s ch present show ?thesis
      by (intro exI [of _ np'] exI [of _ ch] exI [of _ new]) (simp add: topsort_step_def)
  next
    case False
    with np' new s ch present show ?thesis
      by (intro exI [of _ np'] exI [of _ "AList.delete p ch"] exI [of _ new]) (simp add: topsort_step_def)
  qed
qed

definition topsort_inv :: "('a \<times> 'a) list \<Rightarrow> nat \<Rightarrow> 'a counts \<Rightarrow> 'a successors \<Rightarrow> 'a list \<Rightarrow> bool" where
  "topsort_inv P i np ch A \<longleftrightarrow>
     released P (set (take i A)) np ch \<and> distinct A \<and> topological P A \<and>
     set (drop i A) = {c \<in> elems P - set (take i A). remaining P (set (take i A)) c = 0}"

lemma topsort_inv_step:
  assumes I: "topsort_inv P i np ch A" and i: "i < length A"
  shows "\<exists>np' ch' A'. topsort_step (A ! i) np ch A = Return (np', ch', A') \<and>
    topsort_inv P (Suc i) np' ch' A'"
proof -
  let ?D = "set (take i A)"
  have d: "set (drop i A) = insert (A ! i) (set (drop (Suc i) A))"
    using i by (simp flip: Cons_nth_drop_Suc)
  have t: "set (take (Suc i) A) = insert (A ! i) ?D" using i by (simp add: take_Suc_conv_app_nth)
  from d I have p: "A ! i \<in> elems P - ?D" "remaining P ?D (A ! i) = 0" by (auto simp: topsort_inv_def)
  from I p obtain np' ch' new where
    new: "topsort_step (A ! i) np ch A = Return (np', ch', A @ new)"
      "released P (insert (A ! i) ?D) np' ch'" "distinct new"
      "set new = {c \<in> elems P - insert (A ! i) ?D.
         remaining P (insert (A ! i) ?D) c = 0 \<and> remaining P ?D c \<noteq> 0}"
    using topsort_step_released [of P ?D np ch "A ! i" A] by (auto simp: topsort_inv_def)
  have sA: "set A = ?D \<union> set (drop i A)" by (metis append_take_drop_id set_append)
  have dist: "distinct (A @ new)" using I new(3,4) by (auto simp: topsort_inv_def sA)
  have top: "topological P (A @ new)"
  proof (rule topological_append)
    show "topological P A" using I by (simp add: topsort_inv_def)
    show "a \<in> set A" if "b \<in> set new" "(a, b) \<in> set P" for a b
      using that t set_take_subset [of "Suc i" A] by (auto simp: new(4) remaining_0_iff)
  qed
  have mono: "remaining P ?D c = 0 \<Longrightarrow> remaining P (insert (A ! i) ?D) c = 0" for c
    by (simp add: remaining_0_iff)
  have nd: "A ! i \<notin> set (drop (Suc i) A)"
    using I i distinct_drop [of A i] by (simp add: topsort_inv_def flip: Cons_nth_drop_Suc)
  with I d have "set (drop (Suc i) A) = {c \<in> elems P - insert (A ! i) ?D. remaining P ?D c = 0}"
    by (auto simp: topsort_inv_def)
  with new(4) mono have "set (drop (Suc i) (A @ new)) =
      {c \<in> elems P - insert (A ! i) ?D. remaining P (insert (A ! i) ?D) c = 0}"
    using i by auto
  with new(1,2) dist top t i show ?thesis by (auto simp: topsort_inv_def)
qed

lemma topsort_loop_correct:
  "topsort_inv P i np ch A \<Longrightarrow>
    \<exists>np' ch' A'. topsort_loop i np ch A = Return (np', ch', A') \<and> topsort_inv P (length A') np' ch' A'"
proof (induction i np ch A rule: topsort_loop.induct)
  case (1 i np ch A)
  show ?case
  proof (cases "i < length A")
    case True
    with topsort_inv_step [OF 1(2)] 1(1) show ?thesis
      by (fastforce simp: topsort_loop.simps [of i])
  next
    case False
    with 1(2) show ?thesis
      by (intro exI [of _ np] exI [of _ ch] exI [of _ A])
        (simp add: topsort_loop.simps [of i] topsort_inv_def)
  qed
qed



text \<open>The elements that can go out next.\<close>

definition ready :: "('a \<times> 'a) list \<Rightarrow> 'a set \<Rightarrow> 'a set" where
  "ready P D = {x \<in> elems P - D. \<forall>a. (a, x) \<in> set P \<longrightarrow> a \<in> D}"

lemma ready_remaining: "ready P D = {x \<in> elems P - D. remaining P D x = 0}"
  by (simp add: ready_def remaining_0_iff)

lemma release_parent_released:
  assumes R: "released P D np ch" and p: "p \<in> ready P D"
  shows "\<exists>np' ch'. release_parent p (np, ch) = Return (np', ch') \<and> released P (insert p D) np' ch'"
proof -
  from p have p: "p \<in> elems P - D" "remaining P D p = 0" by (simp_all add: ready_remaining)
  obtain np' where np': "fold_res count_down (kids P p) (AList.delete p np) = Return np'"
      "released P (insert p D) np' (AList.delete p ch)"
    using released_insert [OF R p] by blast
  have present: "map_of np p \<noteq> None" and ch: "map_of ch p = (if kids P p = [] then None else Some (kids P p))"
    using R p by (auto simp: released_def)
  show ?thesis
  proof (cases "kids P p = []")
    case True
    with ch have "AList.delete p ch = ch" by (simp add: delete_idem map_of_eq_None_iff)
    with True np' ch present show ?thesis by (simp add: release_parent_def)
  next
    case False
    with np' ch present show ?thesis by (simp add: release_parent_def)
  qed
qed

lemma release_parents_released:
  "released P D np ch \<Longrightarrow> distinct ps \<Longrightarrow> set ps \<subseteq> ready P D \<Longrightarrow>
    \<exists>np' ch'. fold_res release_parent ps (np, ch) = Return (np', ch') \<and> released P (set ps \<union> D) np' ch'"
proof (induction ps arbitrary: D np ch)
  case (Cons p ps)
  then obtain np1 ch1 where 1: "release_parent p (np, ch) = Return (np1, ch1)"
      "released P (insert p D) np1 ch1"
    using release_parent_released [of P D np ch p] by auto
  from Cons.prems have "set ps \<subseteq> ready P (insert p D)" by (auto simp: ready_def)
  from Cons.IH [OF 1(2) _ this] Cons.prems 1(1) show ?case by simp
qed simp

text \<open>Each level is what the levels before it make ready.\<close>

fun levels_from :: "('a \<times> 'a) list \<Rightarrow> 'a set \<Rightarrow> 'a list list \<Rightarrow> bool" where
  "levels_from P D [] \<longleftrightarrow> ready P D = {}"
| "levels_from P D (L # Ls) \<longleftrightarrow>
     L \<noteq> [] \<and> distinct L \<and> set L = ready P D \<and> levels_from P (set L \<union> D) Ls"

lemma levels_core_correct:
  "dict_order order \<Longrightarrow> released P D np ch \<Longrightarrow>
    \<exists>Ls np' ch'. topsort_levels_core order np ch =
        (Ls, if np' \<noteq> [] then LevelsCycleError np' ch' else StopIteration) \<and>
      levels_from P D Ls \<and> released P (set (concat Ls) \<union> D) np' ch'"
proof (induction order np ch arbitrary: D rule: topsort_levels_core.induct)
  case (1 order np ch)
  let ?L = "no_parents order np"
  from no_parents_correct [OF 1(2,3)] have L: "distinct ?L" "set ?L = ready P D"
    by (simp_all add: ready_remaining)
  show ?case
  proof (cases "?L = []")
    case True
    with L 1(3) show ?thesis by (auto simp: topsort_levels_core.simps [of order np])
  next
    case False
    obtain np1 ch1 where r: "fold_res release_parent ?L (np, ch) = Return (np1, ch1)"
        "released P (set ?L \<union> D) np1 ch1"
      using release_parents_released [OF 1(3) L(1)] L(2) by blast
    from 1(1) [OF refl False r(1) refl 1(2) r(2)] obtain Ls np' ch' where
      "topsort_levels_core order np1 ch1 =
        (Ls, if np' \<noteq> [] then LevelsCycleError np' ch' else StopIteration)"
      "levels_from P (set ?L \<union> D) Ls" "released P (set (concat Ls) \<union> (set ?L \<union> D)) np' ch'"
      by blast
    with False r(1) L show ?thesis
      by (intro exI [of _ "?L # Ls"] exI [of _ np'] exI [of _ ch'])
        (simp add: topsort_levels_core.simps [of order np] Let_def Un_ac)
  qed
qed

lemma levels_from_stuck: "levels_from P D Ls \<Longrightarrow> ready P (set (concat Ls) \<union> D) = {}"
proof (induction Ls arbitrary: D)
  case (Cons L Ls)
  then have "levels_from P (set L \<union> D) Ls" unfolding levels_from.simps by blast
  from Cons.IH [OF this] show ?case by (simp add: Un_assoc Un_left_commute)
qed simp

lemma levels_from_distinct:
  "levels_from P D Ls \<Longrightarrow> distinct (concat Ls) \<and> set (concat Ls) \<inter> D = {}"
proof (induction Ls arbitrary: D)
  case (Cons L Ls)
  then have "levels_from P (set L \<union> D) Ls" unfolding levels_from.simps by blast
  from Cons.IH [OF this] have "distinct (concat Ls)" "set (concat Ls) \<inter> (set L \<union> D) = {}"
    by blast+
  moreover have "set L \<inter> D = {}" using Cons.prems by (auto simp: ready_def)
  ultimately show ?case using Cons.prems by (auto simp del: set_concat)
qed simp

lemma levels_from_nth:
  "levels_from P D Ls \<Longrightarrow> k < length Ls \<Longrightarrow>
    Ls ! k \<noteq> [] \<and> set (Ls ! k) = ready P (set (concat (take k Ls)) \<union> D)"
  by (induction Ls arbitrary: D k) (auto simp: nth_Cons Un_ac split: nat.splits)

text \<open>\<open>topsort_levels\<close> yields non-empty levels, each of them holding exactly the elements
  not yielded before whose parents have all been yielded before; no element is yielded twice,
  every element that depends on no cycle is yielded, and the generator then stops, or raises
  CycleError with the counts of the others when the pairs have a cycle.\<close>

theorem topsort_levels_correct:
  assumes "dict_order order"
  shows "\<exists>Ls np ch. topsort_levels order P =
      (Ls, if acyclic (set P) then StopIteration else LevelsCycleError np ch) \<and>
    distinct (concat Ls) \<and> set (concat Ls) = elems P - cyclic_part P \<and>
    set (dict_keys np) = cyclic_part P \<and>
    (\<forall>k < length Ls. Ls ! k \<noteq> [] \<and> set (Ls ! k) = ready P (set (concat (take k Ls))))"
proof -
  obtain np0 ch0 where b: "build_tables P = (np0, ch0)" by (cases "build_tables P")
  with released_start [of P] have R: "released P {} np0 ch0" by simp
  from levels_core_correct [OF assms R] obtain Ls np ch where
    l: "topsort_levels_core order np0 ch0 =
        (Ls, if np \<noteq> [] then LevelsCycleError np ch else StopIteration)"
      "levels_from P {} Ls" "released P (set (concat Ls)) np ch"
    by auto
  from levels_from_stuck [OF l(2)]
  have stuck: "x \<in> elems P - set (concat Ls) \<Longrightarrow> remaining P (set (concat Ls)) x \<noteq> 0" for x
    by (auto simp: ready_remaining)
  note f = released_final [OF l(3) stuck]
  with l(1) b have "topsort_levels order P =
      (Ls, if acyclic (set P) then StopIteration else LevelsCycleError np ch)"
    by (simp add: topsort_levels_def)
  with f levels_from_distinct [OF l(2)] levels_from_nth [OF l(2)] show ?thesis
    by (intro exI [of _ Ls] exI [of _ np] exI [of _ ch]) simp
qed

theorem topsort_levels_correct_witness:
  "\<exists>Ls np ch. topsort_levels dict_keys [(1::nat, 2), (3, 3)] =
      (Ls, if acyclic (set [(1::nat, 2), (3, 3)]) then StopIteration else LevelsCycleError np ch) \<and>
    set (concat Ls) = elems [(1, 2), (3, 3)] - cyclic_part [(1, 2), (3, 3)]"
proof -
  have "dict_order (dict_keys :: nat counts \<Rightarrow> nat list)" by (simp add: dict_order_def)
  from topsort_levels_correct [OF this, of "[(1, 2), (3, 3)]"] show ?thesis by blast
qed

end
