(* ===== verification/Find_Cycles.thy ===== *)
theory Find_Cycles
  imports Rad_Util
begin

text \<open>
  \<open>find_cycles\<close> of \<open>bindings/python/topsort.py\<close>, the generator that lists the cycles of a
  dependency table by a depth-first search with an explicit stack of paths. The table is an
  association list from a parent to its children. The value of the model is the list of the
  cycles yielded; the caller is taken not to change them while the generator runs. The stack loop
  is a partial function, so that its return is a theorem and not an assumption.
\<close>

section \<open>The code\<close>

type_synonym 'a graph = "('a \<times> 'a list) list"

text \<open>The loop over the cycles found so far, left at the first rotation of the new one.\<close>

fun is_dup :: "'a list list \<Rightarrow> 'a list \<Rightarrow> bool res" where
  "is_dup [] cycle = Return False"
| "is_dup (other_cycle # cycles) cycle =
     bind_res (is_rotated other_cycle cycle) (\<lambda>b. if b then Return True else is_dup cycles cycle)"

text \<open>What the loop over the children of one path changes: the cycles, the stack, the visited nodes.\<close>

type_synonym 'a search = "'a list list \<times> 'a list list \<times> 'a set"

definition visit_child :: "'a list \<Rightarrow> 'a \<Rightarrow> 'a search \<Rightarrow> 'a search res" where
  "visit_child path child st =
     (let (cycles, paths, visited) = st in
      if child \<in> set path then
        (let cycle = drop (index_of path child) path in
         bind_res (is_dup cycles cycle) (\<lambda>dup.
           Return (if dup then cycles else cycles @ [cycle], paths, visited)))
      else Return (cycles, paths @ [path @ [child]], insert child visited))"

text \<open>\<open>while paths\<close>: the stack grows and shrinks at its end.\<close>

partial_function (option) explore ::
    "'a graph \<Rightarrow> 'a list list \<Rightarrow> 'a list list \<Rightarrow> 'a set \<Rightarrow> ('a list list \<times> 'a set) res option" where
  "explore g paths cycles visited =
     (if paths = [] then Some (Return (cycles, visited))
      else
        let path = last paths; paths = butlast paths in
        case map_of g (last path) of
          None \<Rightarrow> explore g paths cycles visited
        | Some children \<Rightarrow>
            (case fold_res (visit_child path) children (cycles, paths, visited) of
               Inl e \<Rightarrow> Some (Raise e)
             | Inr (cycles', paths', visited') \<Rightarrow> explore g paths' cycles' visited'))"

fun search_from :: "'a graph \<Rightarrow> 'a list \<Rightarrow> 'a list list \<Rightarrow> 'a set \<Rightarrow> 'a list list res option" where
  "search_from g [] cycles visited = Some (Return cycles)"
| "search_from g (parent # roots) cycles visited =
     (if parent \<in> visited then search_from g roots cycles visited
      else
        (case explore g [[parent]] cycles visited of
           None \<Rightarrow> None
         | Some (Inl e) \<Rightarrow> Some (Raise e)
         | Some (Inr (cycles', visited')) \<Rightarrow> search_from g roots cycles' visited'))"

definition find_cycles :: "'a graph \<Rightarrow> 'a list list res option" where
  "find_cycles parent_children = search_from parent_children (dict_keys parent_children) [] {}"

section \<open>Cycles and paths\<close>

definition edge :: "'a graph \<Rightarrow> 'a \<Rightarrow> 'a \<Rightarrow> bool" where
  "edge g a b \<longleftrightarrow> (case map_of g a of None \<Rightarrow> False | Some cs \<Rightarrow> b \<in> set cs)"

text \<open>Simple paths, and simple cycles: a path whose last node has the first as a child.\<close>

definition simple_path :: "'a graph \<Rightarrow> 'a list \<Rightarrow> bool" where
  "simple_path g p \<longleftrightarrow> p \<noteq> [] \<and> distinct p \<and> successively (edge g) p"

definition is_cycle :: "'a graph \<Rightarrow> 'a list \<Rightarrow> bool" where
  "is_cycle g c \<longleftrightarrow> simple_path g c \<and> edge g (last c) (hd c)"

definition rotation :: "'a list \<Rightarrow> 'a list \<Rightarrow> bool" where
  "rotation c d \<longleftrightarrow> (\<exists>n. d = rotate n c)"

lemma rotation_refl [simp]: "rotation c c"
  by (auto simp: rotation_def intro: exI [of _ 0])

lemma rotation_trans: "rotation a b \<Longrightarrow> rotation b c \<Longrightarrow> rotation a c"
  by (auto simp: rotation_def rotate_rotate)

lemma rotation_sym: "rotation a b \<Longrightarrow> rotation b a"
proof -
  assume "rotation a b"
  then obtain n where b: "b = rotate n a" by (auto simp: rotation_def)
  have "rotate (length a - n mod length a) b = rotate (length a - n mod length a + n mod length a) a"
    by (simp add: b rotate_rotate rotate_conv_mod [of n])
  also have "\<dots> = a" by (cases "a = []") (auto simp: less_imp_le)
  finally show ?thesis by (auto simp: rotation_def intro: sym)
qed

lemma rotation_set: "rotation c d \<Longrightarrow> set d = set c"
  by (auto simp: rotation_def)

lemma is_cycle_rotate1: "is_cycle g c \<Longrightarrow> is_cycle g (rotate1 c)"
proof (cases c)
  case (Cons x xs)
  assume "is_cycle g c"
  with Cons show ?thesis
    by (cases xs) (auto simp: is_cycle_def simple_path_def successively_append_iff successively_Cons
        hd_append split: if_splits)
qed (simp add: is_cycle_def)

lemma is_cycle_rotate: "is_cycle g c \<Longrightarrow> is_cycle g (rotate n c)"
  by (induction n) (auto intro: is_cycle_rotate1)

lemma is_cycle_rotation: "rotation c d \<Longrightarrow> is_cycle g c \<Longrightarrow> is_cycle g d"
  by (auto simp: rotation_def is_cycle_rotate)

text \<open>A cycle may be entered at any of its nodes.\<close>

lemma rotation_at: "u \<in> set c \<Longrightarrow> \<exists>d. rotation c d \<and> hd d = u \<and> d \<noteq> []"
proof -
  assume "u \<in> set c"
  then obtain i where "i < length c" "c ! i = u" by (auto simp: in_set_conv_nth)
  moreover from this have "c \<noteq> []" by auto
  ultimately show ?thesis
    by (intro exI [of _ "rotate i c"]) (auto simp: rotation_def hd_rotate_conv_nth)
qed

text \<open>The part of a path from a node on: what the search reports when an edge closes a cycle.\<close>

lemma drop_index_of: "x \<in> set p \<Longrightarrow> \<exists>xs ys. p = xs @ x # ys \<and> drop (index_of p x) p = x # ys"
proof -
  assume "x \<in> set p"
  then obtain xs ys where "p = xs @ x # ys" "x \<notin> set xs" by (meson split_list_first)
  then show ?thesis using index_of_after [of x xs ys] by auto
qed

lemma closing_is_cycle:
  assumes "simple_path g p" and "x \<in> set p" and "edge g (last p) x"
  shows "is_cycle g (drop (index_of p x) p)"
proof -
  from drop_index_of [OF assms(2)] obtain xs ys where p: "p = xs @ x # ys"
    and d: "drop (index_of p x) p = x # ys" by blast
  from assms show ?thesis unfolding d
    by (auto simp: p is_cycle_def simple_path_def successively_append_iff)
qed

lemma is_dup_correct:
  "(\<And>d. d \<in> set cycles \<Longrightarrow> d \<noteq> []) \<Longrightarrow> c \<noteq> [] \<Longrightarrow>
    is_dup cycles c = Return (\<exists>d \<in> set cycles. rotation d c)"
  by (induction cycles) (auto simp: is_rotated_rotate rotation_def)

section \<open>One path\<close>

text \<open>What the list of cycles always is: cycles of the graph, no two of them rotations.\<close>

definition good_cycles :: "'a graph \<Rightarrow> 'a list list \<Rightarrow> bool" where
  "good_cycles g cycles \<longleftrightarrow>
     (\<forall>c \<in> set cycles. is_cycle g c) \<and> sorted_wrt (\<lambda>c d. \<not> rotation c d) cycles"

definition covered :: "'a list list \<Rightarrow> 'a list \<Rightarrow> bool" where
  "covered cycles c \<longleftrightarrow> (\<exists>d \<in> set cycles. rotation d c)"

lemma covered_append: "covered cycles c \<Longrightarrow> covered (cycles @ new) c"
  by (auto simp: covered_def)

lemma visit_child_cycle:
  assumes "simple_path g p" "good_cycles g cycles" "x \<in> set p" "edge g (last p) x"
  defines "c \<equiv> drop (index_of p x) p"
  defines "cycles' \<equiv> if covered cycles c then cycles else cycles @ [c]"
  shows "visit_child p x (cycles, paths, visited) = Return (cycles', paths, visited)"
    and "good_cycles g cycles'" and "covered cycles' c"
proof -
  have c: "is_cycle g c" unfolding c_def by (rule closing_is_cycle [OF assms(1,3,4)])
  then have "c \<noteq> []" by (auto simp: is_cycle_def simple_path_def)
  moreover have "d \<noteq> []" if "d \<in> set cycles" for d
    using that assms(2) by (auto simp: good_cycles_def is_cycle_def simple_path_def)
  ultimately have "is_dup cycles c = Return (covered cycles c)"
    by (simp add: is_dup_correct covered_def)
  with assms(3) show "visit_child p x (cycles, paths, visited) = Return (cycles', paths, visited)"
    by (simp add: visit_child_def c_def cycles'_def)
  show "good_cycles g cycles'"
    using assms(2) c by (auto simp: cycles'_def good_cycles_def sorted_wrt_append covered_def)
  show "covered cycles' c" by (auto simp: cycles'_def covered_def)
qed

lemma visit_child_new:
  "x \<notin> set p \<Longrightarrow> visit_child p x (cycles, paths, visited) =
    Return (cycles, paths @ [p @ [x]], insert x visited)"
  by (simp add: visit_child_def)

lemma visit_children:
  assumes p: "simple_path g p"
  shows "good_cycles g cycles \<Longrightarrow> (\<And>x. x \<in> set cs \<Longrightarrow> edge g (last p) x) \<Longrightarrow>
    \<exists>new. fold_res (visit_child p) cs (cycles, paths, visited) =
        Return (cycles @ new, paths @ map (\<lambda>c. p @ [c]) (filter (\<lambda>c. c \<notin> set p) cs),
          visited \<union> (set cs - set p)) \<and>
      good_cycles g (cycles @ new) \<and>
      (\<forall>x \<in> set cs \<inter> set p. covered (cycles @ new) (drop (index_of p x) p))"
proof (induction cs arbitrary: cycles paths visited)
  case (Cons x cs)
  show ?case
  proof (cases "x \<in> set p")
    case True
    let ?c = "drop (index_of p x) p"
    let ?new = "if covered cycles ?c then [] else [?c]"
    have e: "(if covered cycles ?c then cycles else cycles @ [?c]) = cycles @ ?new" by simp
    note step = visit_child_cycle [OF p Cons.prems(1) True, unfolded e]
    from Cons.prems(2) have "edge g (last p) x" by simp
    note step = step [OF this]
    from Cons.IH [OF step(2)] Cons.prems(2) obtain new where
      new: "fold_res (visit_child p) cs (cycles @ ?new, paths, visited) =
          Return ((cycles @ ?new) @ new, paths @ map (\<lambda>c. p @ [c]) (filter (\<lambda>c. c \<notin> set p) cs),
            visited \<union> (set cs - set p))"
        "good_cycles g ((cycles @ ?new) @ new)"
        "\<forall>x \<in> set cs \<inter> set p. covered ((cycles @ ?new) @ new) (drop (index_of p x) p)"
      by (metis list.set_intros(2))
    moreover have "covered ((cycles @ ?new) @ new) ?c" by (rule covered_append) (rule step(3))
    ultimately show ?thesis using True step(1)
      by (intro exI [of _ "?new @ new"]) (auto simp: insert_Diff_if simp del: append_assoc simp flip: append_assoc)
  next
    case False
    from Cons.IH [OF Cons.prems(1), of "paths @ [p @ [x]]" "insert x visited"] Cons.prems(2)
    obtain new where
      "fold_res (visit_child p) cs (cycles, paths @ [p @ [x]], insert x visited) =
        Return (cycles @ new, (paths @ [p @ [x]]) @ map (\<lambda>c. p @ [c]) (filter (\<lambda>c. c \<notin> set p) cs),
          insert x visited \<union> (set cs - set p))"
      "good_cycles g (cycles @ new)"
      "\<forall>x \<in> set cs \<inter> set p. covered (cycles @ new) (drop (index_of p x) p)"
      by (metis list.set_intros(2))
    with False show ?thesis
      by (intro exI [of _ new]) (simp add: visit_child_new insert_Diff_if)
  qed
qed simp

section \<open>The stack loop\<close>

definition nodes :: "'a graph \<Rightarrow> 'a set" where
  "nodes g = set (dict_keys g) \<union> \<Union> (set ` snd ` set g)"

definition fanout :: "'a graph \<Rightarrow> nat" where
  "fanout g = sum_list (map (\<lambda>p. length (snd p)) g)"

definition weight :: "'a graph \<Rightarrow> 'a list list \<Rightarrow> nat" where
  "weight g paths = (\<Sum>p \<leftarrow> paths. Suc (fanout g) ^ (Suc (card (nodes g)) - length p))"

lemma finite_nodes: "finite (nodes g)"
  by (simp add: nodes_def)

lemma edge_nodes: "edge g a b \<Longrightarrow> b \<in> nodes g"
  by (force simp: edge_def nodes_def dest: map_of_SomeD split: option.splits)

lemma fanout_le: "map_of g a = Some cs \<Longrightarrow> length cs \<le> fanout g"
  using member_le_sum_list [of "length cs" "map (\<lambda>p. length (snd p)) g"]
  by (force simp: fanout_def dest: map_of_SomeD)

lemma simple_path_length: "simple_path g p \<Longrightarrow> set p \<subseteq> nodes g \<Longrightarrow> length p \<le> card (nodes g)"
  by (metis card_mono distinct_card finite_nodes simple_path_def)

lemma weight_decreases:
  assumes "simple_path g p" "set p \<subseteq> nodes g" "length new \<le> fanout g"
    and "\<And>q. q \<in> set new \<Longrightarrow> length q = Suc (length p)"
  shows "weight g (paths @ new) < weight g (paths @ [p])"
proof -
  let ?w = "Suc (fanout g) ^ (card (nodes g) - length p)"
  have l: "length p \<le> card (nodes g)" using assms simple_path_length by blast
  have "map (\<lambda>q. Suc (fanout g) ^ (Suc (card (nodes g)) - length q)) new = map (\<lambda>q. ?w) new"
    using assms(4) by simp
  then have "weight g new = length new * ?w"
    by (simp only: weight_def) (simp add: sum_list_triv)
  also have "\<dots> \<le> fanout g * ?w" using assms(3) by simp
  also have "\<dots> < Suc (fanout g) * ?w" by simp
  also have "\<dots> = weight g [p]" using l by (simp add: weight_def Suc_diff_le)
  finally show ?thesis by (simp add: weight_def)
qed

text \<open>
  What one run of the stack loop has found: every cycle that closes on a simple path extending
  one of the paths it started with; and every node it marked lies on such a path.
\<close>

definition all_closed :: "'a graph \<Rightarrow> 'a list list \<Rightarrow> 'a list list \<Rightarrow> bool" where
  "all_closed g paths cycles \<longleftrightarrow>
     (\<forall>p q x. p \<in> set paths \<longrightarrow> prefix p q \<longrightarrow> simple_path g q \<longrightarrow> x \<in> set q \<longrightarrow> edge g (last q) x \<longrightarrow>
        covered cycles (drop (index_of q x) q))"

definition reached :: "'a graph \<Rightarrow> 'a list list \<Rightarrow> 'a set" where
  "reached g paths = {v. \<exists>p q. p \<in> set paths \<and> prefix p q \<and> simple_path g q \<and> last q = v}"

lemma reached_mono:
  assumes "\<And>q. q \<in> set paths' \<Longrightarrow> \<exists>p \<in> set paths. prefix p q"
  shows "reached g paths' \<subseteq> reached g paths"
  using assms unfolding reached_def by (blast intro: prefix_order.trans)

lemma simple_path_snoc:
  "simple_path g p \<Longrightarrow> edge g (last p) y \<Longrightarrow> y \<notin> set p \<Longrightarrow> simple_path g (p @ [y])"
  by (auto simp: simple_path_def successively_append_iff)

text \<open>A simple path that goes on from \<open>p\<close> goes on along an edge to a new node.\<close>

lemma simple_path_extends:
  assumes "prefix p q" "simple_path g q" "p \<noteq> []"
  shows "q = p \<or> (\<exists>y. edge g (last p) y \<and> y \<notin> set p \<and> prefix (p @ [y]) q)"
proof -
  from assms(1) obtain r where q: "q = p @ r" by (auto elim: prefixE)
  with assms show ?thesis
    by (cases r) (auto simp: simple_path_def successively_append_iff)
qed

lemma all_closed_step:
  assumes p: "p \<noteq> []"
    and here: "\<And>x. x \<in> set p \<Longrightarrow> edge g (last p) x \<Longrightarrow> covered cycles (drop (index_of p x) p)"
    and rest: "all_closed g (paths @ map (\<lambda>y. p @ [y]) ys) cycles"
    and ys: "\<And>y. edge g (last p) y \<Longrightarrow> y \<notin> set p \<Longrightarrow> y \<in> set ys"
  shows "all_closed g (paths @ [p]) cycles"
  unfolding all_closed_def
proof (intro allI impI)
  fix r q x
  assume r: "r \<in> set (paths @ [p])" and q: "prefix r q" "simple_path g q" "x \<in> set q" "edge g (last q) x"
  show "covered cycles (drop (index_of q x) q)"
  proof (cases "r \<in> set paths")
    case True
    with q rest show ?thesis by (auto simp: all_closed_def)
  next
    case False
    with r have "r = p" by simp
    with simple_path_extends [OF q(1,2)] p consider "q = p" |
      y where "edge g (last p) y" "y \<notin> set p" "prefix (p @ [y]) q" by auto
    then show ?thesis
    proof cases
      case 1
      with here q show ?thesis by simp
    next
      case 2
      with ys have "p @ [y] \<in> set (paths @ map (\<lambda>y. p @ [y]) ys)" by simp
      with rest 2(3) q show ?thesis unfolding all_closed_def by blast
    qed
  qed
qed

lemma explore_correct:
  "(\<And>p. p \<in> set paths \<Longrightarrow> simple_path g p \<and> set p \<subseteq> nodes g) \<Longrightarrow> good_cycles g cycles \<Longrightarrow>
    \<exists>new visited'. explore g paths cycles visited = Some (Return (cycles @ new, visited')) \<and>
      good_cycles g (cycles @ new) \<and> visited' \<subseteq> visited \<union> reached g paths \<and>
      all_closed g paths (cycles @ new)"
proof (induction "weight g paths" arbitrary: paths cycles visited rule: less_induct)
  case less
  show ?case
  proof (cases "paths = []")
    case True
    with less.prems show ?thesis by (simp add: explore.simps all_closed_def)
  next
    case False
    let ?p = "last paths" and ?rest = "butlast paths"
    from False have paths: "paths = ?rest @ [?p]" by simp
    from False less.prems(1) have p: "simple_path g ?p" "set ?p \<subseteq> nodes g" by simp_all
    then have ne: "?p \<noteq> []" by (simp add: simple_path_def)
    have rest: "simple_path g q \<and> set q \<subseteq> nodes g" if "q \<in> set ?rest" for q
      using that less.prems(1) by (meson in_set_butlastD)
    show ?thesis
    proof (cases "map_of g (last ?p)")
      case None
      have "weight g ?rest < weight g paths" by (subst (2) paths) (simp add: weight_def)
      from less.hyps [OF this rest less.prems(2), of visited] obtain new visited' where
        IH: "explore g ?rest cycles visited = Some (Return (cycles @ new, visited'))"
          "good_cycles g (cycles @ new)" "visited' \<subseteq> visited \<union> reached g ?rest"
          "all_closed g ?rest (cycles @ new)" by blast
      from None have no: "\<not> edge g (last ?p) y" for y by (simp add: edge_def)
      have "all_closed g (?rest @ [?p]) (cycles @ new)"
        by (rule all_closed_step [OF ne, where ys = "[]"]) (use no IH(4) in auto)
      moreover have "reached g ?rest \<subseteq> reached g paths"
        by (auto simp: reached_def dest: in_set_butlastD)
      ultimately show ?thesis using IH None False
        by (intro exI [of _ new] exI [of _ visited']) (auto simp: explore.simps [of g paths])
    next
      case (Some cs)
      have edge_iff: "edge g (last ?p) y \<longleftrightarrow> y \<in> set cs" for y by (simp add: edge_def Some)
      let ?ys = "filter (\<lambda>y. y \<notin> set ?p) cs"
      let ?paths = "?rest @ map (\<lambda>y. ?p @ [y]) ?ys"
      let ?visited = "visited \<union> (set cs - set ?p)"
      from visit_children [OF p(1) less.prems(2), of cs ?rest visited] edge_iff obtain new where
        new: "fold_res (visit_child ?p) cs (cycles, ?rest, visited) = Return (cycles @ new, ?paths, ?visited)"
          "good_cycles g (cycles @ new)"
          "\<forall>x \<in> set cs \<inter> set ?p. covered (cycles @ new) (drop (index_of ?p x) ?p)" by blast
      have "length ?ys \<le> fanout g" by (meson Some fanout_le le_trans length_filter_le)
      then have "weight g ?paths < weight g (?rest @ [?p])"
        by (intro weight_decreases p) auto
      then have w: "weight g ?paths < weight g paths" by (simp flip: paths)
      have sp: "simple_path g (?p @ [y]) \<and> set (?p @ [y]) \<subseteq> nodes g" if "y \<in> set ?ys" for y
        using that p edge_iff [of y] edge_nodes [of g "last ?p" y] by (auto intro: simple_path_snoc)
      then have "simple_path g q \<and> set q \<subseteq> nodes g" if "q \<in> set ?paths" for q
      proof -
        from that consider "q \<in> set ?rest" | y where "y \<in> set ?ys" "q = ?p @ [y]" by auto
        then show ?thesis by cases (use rest sp in blast)+
      qed
      from less.hyps [OF w this new(2), of ?visited] obtain new' visited' where
        IH: "explore g ?paths (cycles @ new) ?visited = Some (Return ((cycles @ new) @ new', visited'))"
          "good_cycles g ((cycles @ new) @ new')" "visited' \<subseteq> ?visited \<union> reached g ?paths"
          "all_closed g ?paths ((cycles @ new) @ new')" by blast
      have "all_closed g paths ((cycles @ new) @ new')"
      proof (subst paths, rule all_closed_step [OF ne _ IH(4)])
        show "covered ((cycles @ new) @ new') (drop (index_of ?p x) ?p)"
          if "x \<in> set ?p" "edge g (last ?p) x" for x
          by (rule covered_append) (use that new(3) edge_iff in blast)
        show "y \<in> set ?ys" if "edge g (last ?p) y" "y \<notin> set ?p" for y
          using that edge_iff by simp
      qed
      moreover have "reached g ?paths \<subseteq> reached g paths"
      proof (rule reached_mono)
        fix q assume "q \<in> set ?paths"
        then consider "q \<in> set ?rest" | y where "q = ?p @ [y]" by auto
        then show "\<exists>p \<in> set paths. prefix p q"
        proof cases
          case 1
          then have "q \<in> set paths" by (rule in_set_butlastD)
          then show ?thesis by (intro bexI [of _ q]) simp_all
        next
          case 2
          with False show ?thesis by (intro bexI [of _ ?p]) simp_all
        qed
      qed
      moreover have "y \<in> reached g paths" if "y \<in> set cs - set ?p" for y
        using that sp [of y] False unfolding reached_def
        by (intro CollectI exI [of _ ?p] exI [of _ "?p @ [y]"]) simp
      moreover have "explore g paths cycles visited = explore g ?paths (cycles @ new) ?visited"
        using False Some new(1) by (simp add: explore.simps [of g paths] Let_def)
      ultimately show ?thesis using IH
        by (intro exI [of _ "new @ new'"] exI [of _ visited']) auto
    qed
  qed
qed

section \<open>The whole search\<close>

text \<open>A cycle through a node that the search reaches is found: follow the path until it first
  meets the cycle, then go round the cycle.\<close>

lemma all_closed_cycle:
  assumes ac: "all_closed g [[r]] cycles" and v: "v \<in> reached g [[r]]"
    and c: "is_cycle g c" "v \<in> set c"
  shows "covered cycles c"
proof -
  from v obtain q where q: "prefix [r] q" "simple_path g q" "last q = v" by (auto simp: reached_def)
  then have "q \<noteq> []" by auto
  with q(3) c(2) have "\<exists>x \<in> set q. x \<in> set c" by (metis last_in_set)
  from split_list_first_prop [OF this] obtain xs u ys
    where u: "q = xs @ u # ys" "u \<in> set c" "\<forall>x \<in> set xs. x \<notin> set c" by blast
  from rotation_at [OF u(2)] obtain d where d: "rotation c d" "hd d = u" "d \<noteq> []" by blast
  have cyc: "is_cycle g d" by (rule is_cycle_rotation [OF d(1) c(1)])
  from d(2,3) obtain ds where ds: "d = u # ds" by (cases d) auto
  let ?q = "xs @ d"
  have "simple_path g ?q"
    using q(2) cyc u rotation_set [OF d(1)]
    by (auto simp: simple_path_def is_cycle_def successively_append_iff ds)
  moreover have "prefix [r] ?q" using q(1) by (cases xs) (auto simp: u(1) ds)
  moreover have "edge g (last ?q) u" using cyc d by (simp add: is_cycle_def)
  moreover have "u \<in> set ?q" by (simp add: ds)
  ultimately have "covered cycles (drop (index_of ?q u) ?q)"
    using ac unfolding all_closed_def by (metis list.set_intros(1))
  moreover have "drop (index_of ?q u) ?q = d"
    using u(2,3) index_of_after [of u xs ds] by (auto simp: ds)
  ultimately obtain e where "e \<in> set cycles" "rotation e d" by (auto simp: covered_def)
  with d(1) show ?thesis unfolding covered_def by (meson rotation_sym rotation_trans)
qed

lemma root_reached: "r \<in> reached g [[r]]"
  by (force simp: reached_def simple_path_def)

lemma search_from_correct:
  "set roots \<subseteq> nodes g \<Longrightarrow> good_cycles g cycles \<Longrightarrow>
    (\<And>v c. v \<in> visited \<Longrightarrow> is_cycle g c \<Longrightarrow> v \<in> set c \<Longrightarrow> covered cycles c) \<Longrightarrow>
    \<exists>new. search_from g roots cycles visited = Some (Return (cycles @ new)) \<and>
      good_cycles g (cycles @ new) \<and>
      (\<forall>v c. v \<in> set roots \<union> visited \<longrightarrow> is_cycle g c \<longrightarrow> v \<in> set c \<longrightarrow> covered (cycles @ new) c)"
proof (induction roots arbitrary: cycles visited)
  case Nil
  then show ?case by auto
next
  case (Cons r roots)
  show ?case
  proof (cases "r \<in> visited")
    case True
    from Cons.IH [where cycles = cycles and visited = visited] Cons.prems obtain new where
      "search_from g roots cycles visited = Some (Return (cycles @ new))"
      "good_cycles g (cycles @ new)"
      "\<forall>v c. v \<in> set roots \<union> visited \<longrightarrow> is_cycle g c \<longrightarrow> v \<in> set c \<longrightarrow> covered (cycles @ new) c"
      by auto
    with True show ?thesis by (intro exI [of _ new]) auto
  next
    case False
    have "simple_path g p \<and> set p \<subseteq> nodes g" if "p \<in> set [[r]]" for p
      using that Cons.prems(1) by (simp add: simple_path_def)
    from explore_correct [OF this Cons.prems(2), where visited = visited] obtain new visited' where
      e: "explore g [[r]] cycles visited = Some (Return (cycles @ new, visited'))"
        "good_cycles g (cycles @ new)" "visited' \<subseteq> visited \<union> reached g [[r]]"
        "all_closed g [[r]] (cycles @ new)" by blast
    have "covered (cycles @ new) c" if "v \<in> insert r visited'" "is_cycle g c" "v \<in> set c" for v c
    proof (cases "v \<in> reached g [[r]]")
      case True
      with all_closed_cycle [OF e(4)] that show ?thesis by blast
    next
      case False
      with that(1) e(3) root_reached have "v \<in> visited" by fastforce
      with Cons.prems(3) that show ?thesis by (blast intro: covered_append)
    qed
    note cov = this
    from Cons.IH [OF _ e(2), where visited = visited'] Cons.prems(1) cov obtain new' where
      "search_from g roots (cycles @ new) visited' = Some (Return ((cycles @ new) @ new'))"
      "good_cycles g ((cycles @ new) @ new')"
      "\<forall>v c. v \<in> set roots \<union> visited' \<longrightarrow> is_cycle g c \<longrightarrow> v \<in> set c \<longrightarrow>
        covered ((cycles @ new) @ new') c" by auto
    moreover have "covered ((cycles @ new) @ new') c"
      if "v = r \<or> v \<in> visited" "is_cycle g c" "v \<in> set c" for v c
      using that cov [of v c] Cons.prems(3) [of v c]
      by (metis append_assoc covered_append insertI1)
    ultimately show ?thesis using False e(1)
      by (intro exI [of _ "new @ new'"]) auto
  qed
qed

text \<open>C4: \<open>find_cycles\<close> ends on every table, without an error; what it yields are cycles of
  the table (simple paths whose last node has the first as a child), no two of them rotations of
  each other, and every cycle of the table is a rotation of one of them.\<close>

theorem find_cycles_correct:
  "\<exists>cycles. find_cycles g = Some (Return cycles) \<and>
     sorted_wrt (\<lambda>c d. \<not> rotation c d) cycles \<and>
     {c. is_cycle g c} = {c. \<exists>d. d \<in> set cycles \<and> rotation d c}"
proof -
  have "set (dict_keys g) \<subseteq> nodes g" by (simp add: nodes_def)
  moreover have "good_cycles g []" by (simp add: good_cycles_def)
  ultimately obtain cycles where r: "find_cycles g = Some (Return cycles)" "good_cycles g cycles"
    and all: "\<And>v c. v \<in> set (dict_keys g) \<Longrightarrow> is_cycle g c \<Longrightarrow> v \<in> set c \<Longrightarrow> covered cycles c"
    using search_from_correct [of "dict_keys g" g "[]" "{}"] by (auto simp: find_cycles_def)
  have "covered cycles c" if c: "is_cycle g c" for c
  proof -
    from c have "last c \<in> set c" "edge g (last c) (hd c)" by (auto simp: is_cycle_def simple_path_def)
    moreover from this(2) have "last c \<in> set (dict_keys g)"
      unfolding alist.set_keys_of by (auto simp: edge_def split: option.splits)
    ultimately show ?thesis using all c by blast
  qed
  with r show ?thesis
    by (intro exI [of _ cycles]) (auto simp: good_cycles_def covered_def intro: is_cycle_rotation)
qed

end
