(* ===== verification/Shlex.thy ===== *)
theory Shlex
  imports Prelude
begin

text \<open>
  \<open>shlex.split\<close> of Python's library in its default POSIX mode, by which the build scripts
  (\<open>waf-tools/shellcmd.py\<close>, \<open>wutils.py\<close>) split command lines: the state machine of its
  \<open>read_token\<close> with the characters it is set up with there, and a way of quoting that it undoes.
\<close>

section \<open>The state machine\<close>

abbreviation single_quote :: char where "single_quote \<equiv> CHR 0x27"
abbreviation double_quote :: char where "double_quote \<equiv> CHR 0x22"
abbreviation backslash :: char where "backslash \<equiv> CHR 0x5C"

definition shlex_space :: "char \<Rightarrow> bool" where
  "shlex_space c \<longleftrightarrow> c \<in> {CHR '' '', CHR 0x09, CHR 0x0D, CHR 0x0A}"

definition shlex_quote_char :: "char \<Rightarrow> bool" where
  "shlex_quote_char c \<longleftrightarrow> c = single_quote \<or> c = double_quote"

text \<open>\<open>EscapedIn (Some q)\<close> is a backslash inside the quotes \<open>q\<close>.\<close>

datatype shlex_state = Between | InWord | InQuotes char | EscapedIn "char option"

text \<open>The token read so far, whether a part of it was quoted, and the rest of the text.\<close>

fun shlex_read :: "shlex_state \<Rightarrow> string \<Rightarrow> bool \<Rightarrow> string \<Rightarrow> string list res" where
  "shlex_read Between tok quoted [] = Return []"
| "shlex_read InWord tok quoted [] = Return (if tok \<noteq> [] \<or> quoted then [tok] else [])"
| "shlex_read (InQuotes q) tok quoted [] = Raise (ValueError ''No closing quotation'')"
| "shlex_read (EscapedIn q) tok quoted [] = Raise (ValueError ''No escaped character'')"
| "shlex_read Between tok quoted (c # cs) =
     (if shlex_space c then shlex_read Between [] False cs
      else if c = backslash then shlex_read (EscapedIn None) [] False cs
      else if shlex_quote_char c then shlex_read (InQuotes c) [] False cs
      else shlex_read InWord [c] False cs)"
| "shlex_read InWord tok quoted (c # cs) =
     (if shlex_space c then
        bind_res (shlex_read Between [] False cs) (\<lambda>ts. Return (if tok \<noteq> [] \<or> quoted then tok # ts else ts))
      else if shlex_quote_char c then shlex_read (InQuotes c) tok quoted cs
      else if c = backslash then shlex_read (EscapedIn None) tok quoted cs
      else shlex_read InWord (tok @ [c]) quoted cs)"
| "shlex_read (InQuotes q) tok quoted (c # cs) =
     (if c = q then shlex_read InWord tok True cs
      else if c = backslash \<and> q = double_quote then shlex_read (EscapedIn (Some q)) tok True cs
      else shlex_read (InQuotes q) (tok @ [c]) True cs)"
| "shlex_read (EscapedIn None) tok quoted (c # cs) = shlex_read InWord (tok @ [c]) quoted cs"
| "shlex_read (EscapedIn (Some q)) tok quoted (c # cs) =
     shlex_read (InQuotes q) (tok @ (if c \<noteq> backslash \<and> c \<noteq> q then [backslash, c] else [c])) quoted cs"

definition shlex_split :: "string \<Rightarrow> string list res" where
  "shlex_split s = shlex_read Between [] False s"

section \<open>Quoting\<close>

text \<open>\<open>shlex.quote\<close> without its exception for harmless words.\<close>

definition shlex_quote :: "string \<Rightarrow> string" where
  "shlex_quote s =
     single_quote # concat (map (\<lambda>c. if c = single_quote
       then [single_quote, double_quote, single_quote, double_quote, single_quote] else [c]) s) @ [single_quote]"

lemma quoted_chars:
  "shlex_read (InQuotes single_quote) tok quoted
     (concat (map (\<lambda>c. if c = single_quote
        then [single_quote, double_quote, single_quote, double_quote, single_quote] else [c]) s) @
      single_quote # rest) = shlex_read InWord (tok @ s) True rest"
  by (induction s arbitrary: tok quoted) (auto simp: shlex_space_def shlex_quote_char_def)

lemma quoted_word: "shlex_read Between tok quoted (shlex_quote s @ rest) = shlex_read InWord s True rest"
  using quoted_chars [of "[]" False s rest]
  by (simp add: shlex_quote_def shlex_space_def shlex_quote_char_def)

text \<open>Words, each written in its own way that reads back to it, read back to the list when a blank is between them.\<close>

lemma split_written:
  assumes "\<And>w. w \<in> set ws \<Longrightarrow>
      (w \<noteq> [] \<or> quoting w) \<and> (\<forall>tok quoted rest. shlex_read Between tok quoted (write w @ rest) = shlex_read InWord w (quoting w) rest)"
  shows "shlex_split (str_join '' '' (map write ws)) = Return ws"
proof -
  have "shlex_read Between tok quoted (str_join '' '' (map write ws)) = Return ws" for tok quoted
    using assms
  proof (induction ws arbitrary: tok quoted)
    case (Cons w ws)
    note w = Cons.prems [of w, simplified]
    show ?case
    proof (cases ws)
      case Nil
      with w show ?thesis using w [THEN conjunct2, rule_format, of tok quoted "[]"] by auto
    next
      case (Cons v vs)
      then have "str_join '' '' (map write (w # ws)) = write w @ '' '' @ str_join '' '' (map write ws)" by simp
      moreover have "shlex_read Between [] False (str_join '' '' (map write ws)) = Return ws"
        by (rule Cons.IH) (use Cons.prems in auto)
      ultimately show ?thesis using w by (simp add: shlex_space_def)
    qed
  qed simp
  then show ?thesis by (simp add: shlex_split_def)
qed

lemma shlex_split_quote: "shlex_split (str_join '' '' (map shlex_quote ws)) = Return ws"
  by (rule split_written [where quoting = "\<lambda>_. True"]) (simp add: quoted_word)

text \<open>Words without special characters need no quotes.\<close>

definition plain_word :: "string \<Rightarrow> bool" where
  "plain_word w \<longleftrightarrow> w \<noteq> [] \<and> (\<forall>c \<in> set w. \<not> shlex_space c \<and> \<not> shlex_quote_char c \<and> c \<noteq> backslash)"

lemma plain_chars:
  assumes "\<forall>c \<in> set w. \<not> shlex_space c \<and> \<not> shlex_quote_char c \<and> c \<noteq> backslash"
  shows "shlex_read InWord tok quoted (w @ rest) = shlex_read InWord (tok @ w) quoted rest"
  using assms by (induction w arbitrary: tok) simp_all

lemma plain_word_read:
  "plain_word w \<Longrightarrow> shlex_read Between tok quoted (w @ rest) = shlex_read InWord w False rest"
  using plain_chars [of "tl w" "[hd w]" False rest] by (cases w) (auto simp: plain_word_def)

lemma shlex_split_plain: "list_all plain_word ws \<Longrightarrow> shlex_split (str_join '' '' ws) = Return ws"
  using split_written [of ws "\<lambda>_. False" "\<lambda>w. w"]
  by (simp add: list_all_iff plain_word_read) (simp add: plain_word_def)

end
