(* ===== verification/Shellcmd.thy ===== *)
theory Shellcmd
  imports Shlex
begin

text \<open>
  The command lines of the build scripts, \<open>waf-tools/shellcmd.py\<close>: the syntax of a pipeline, the
  parser \<open>Pipeline.parse\<close> as the state machine of the code, and \<open>get_abbreviated_command\<close>.
  \<open>parse\<close> takes a list of tokens, \<open>parse_text\<close> a string, which \<open>shlex.split\<close> splits first.
\<close>

section \<open>Syntax\<close>

text \<open>What \<open>stdout\<close> and \<open>stderr\<close> of a command may hold besides None: the constants
  \<open>Command.PIPE\<close> and \<open>Command.STDOUT\<close>, or a file name.\<close>

datatype redirect = ToPipe | ToStdout | ToFile string

record command =
  cmd_name :: string
  cmd_argv :: "string list"
  cmd_stdin :: "string option"
  cmd_stdout :: "redirect option"
  cmd_stderr :: "redirect option"
  cmd_env :: "(string \<times> string) list option"

datatype node = CommandN command | ChdirN "string option" | PipeN | AndN | OrN

definition new_command :: "string \<Rightarrow> command" where
  "new_command name = \<lparr>cmd_name = name, cmd_argv = [name], cmd_stdin = None, cmd_stdout = None,
     cmd_stderr = None, cmd_env = None\<rparr>"

definition abbreviate_node :: "node \<Rightarrow> string list" where
  "abbreviate_node node =
     (case node of
        CommandN c \<Rightarrow> [cmd_name c]
      | ChdirN dir \<Rightarrow> [''cd '' @ (case dir of None \<Rightarrow> ''None'' | Some d \<Rightarrow> d)]
      | PipeN \<Rightarrow> [''|'']
      | AndN \<Rightarrow> [''&&'']
      | OrN \<Rightarrow> [])"

definition get_abbreviated_command :: "node list \<Rightarrow> string" where
  "get_abbreviated_command pipeline = str_join '' '' (concat (map abbreviate_node pipeline))"

text \<open>The abbreviation has no word for \<open>||\<close>: its branch tests for \<open>And\<close> a second time.\<close>

lemma abbreviation_drops_or:
  "get_abbreviated_command (ns @ OrN # ms) = get_abbreviated_command (ns @ ms)"
  by (simp add: get_abbreviated_command_def abbreviate_node_def)

section \<open>The parser\<close>

text \<open>\<open>env_var_rx\<close>: a name of word characters, an equals sign, a value without white space; the
  end of the pattern also matches before a final newline.\<close>

definition is_word :: "char \<Rightarrow> bool" where
  "is_word c \<longleftrightarrow> is_digit c \<or> c = CHR ''_'' \<or>
     (let n = of_char c :: nat in (65 \<le> n \<and> n \<le> 90) \<or> (97 \<le> n \<and> n \<le> 122))"

definition drop_newline :: "string \<Rightarrow> string" where
  "drop_newline s = (if s \<noteq> [] \<and> last s = CHR 10 then butlast s else s)"

definition env_match :: "string \<Rightarrow> (string \<times> string) option" where
  "env_match token =
     (let key = takeWhile is_word token in
      case dropWhile is_word token of
        [] \<Rightarrow> None
      | c # rest \<Rightarrow>
          (let val = drop_newline rest in
           if c = CHR ''='' \<and> key \<noteq> [] \<and> val \<noteq> [] \<and> list_all (\<lambda>c. \<not> is_space c) val
           then Some (key, val) else None))"

datatype pstate = BEGIN | COMMAND | CHDIR | STDERR | STDOUT | STDIN

record parser =
  state :: pstate
  current_command :: "node option"
  pipeline :: "node list"
  env_vars :: "(string \<times> string) list"

definition initial_parser :: parser where
  "initial_parser = \<lparr>state = BEGIN, current_command = None, pipeline = [], env_vars = []\<rparr>"

definition commit_command :: "parser \<Rightarrow> parser res" where
  "commit_command p =
     (case current_command p of
        None \<Rightarrow> Raise AssertionError
      | Some c \<Rightarrow> Return (p\<lparr>pipeline := pipeline p @ [c], current_command := None\<rparr>))"

definition commit_op :: "node \<Rightarrow> parser \<Rightarrow> parser res" where
  "commit_op op p =
     bind_res (commit_command p) (\<lambda>p. Return (p\<lparr>pipeline := pipeline p @ [op], state := BEGIN\<rparr>))"

definition parse_begin :: "string \<Rightarrow> parser \<Rightarrow> parser res" where
  "parse_begin token p =
     (case env_match token of
        Some (key, val) \<Rightarrow> Return (p\<lparr>env_vars := AList.update key val (env_vars p)\<rparr>)
      | None \<Rightarrow>
          if current_command p \<noteq> None then Raise AssertionError
          else if token = ''cd'' then
            (if env_vars p \<noteq> [] then Raise AssertionError
             else Return (p\<lparr>current_command := Some (ChdirN None), state := CHDIR\<rparr>))
          else
            (let c = new_command token;
                 c = (if env_vars p \<noteq> [] then c\<lparr>cmd_env := Some (env_vars p)\<rparr> else c)
             in Return (p\<lparr>current_command := Some (CommandN c), env_vars := [], state := COMMAND\<rparr>)))"

definition parse_command :: "string \<Rightarrow> command \<Rightarrow> parser \<Rightarrow> parser res" where
  "parse_command token c p =
     (if token = ''>'' then Return (p\<lparr>state := STDOUT\<rparr>)
      else if token = ''2>'' then Return (p\<lparr>state := STDERR\<rparr>)
      else if token = ''2>&1'' then
        (if cmd_stderr c \<noteq> None then Raise AssertionError
         else Return (p\<lparr>current_command := Some (CommandN (c\<lparr>cmd_stderr := Some ToStdout\<rparr>))\<rparr>))
      else if token = ''<'' then Return (p\<lparr>state := STDIN\<rparr>)
      else if token = ''|'' then
        (if cmd_stdout c \<noteq> None then Raise AssertionError
         else commit_op PipeN
           (p\<lparr>current_command := Some (CommandN (c\<lparr>cmd_stdout := Some ToPipe\<rparr>))\<rparr>))
      else if token = ''&&'' then commit_op AndN p
      else if token = ''||'' then commit_op OrN p
      else Return (p\<lparr>current_command := Some (CommandN (c\<lparr>cmd_argv := cmd_argv c @ [token]\<rparr>))\<rparr>))"

definition parse_chdir :: "string \<Rightarrow> string option \<Rightarrow> parser \<Rightarrow> parser res" where
  "parse_chdir token dir p =
     (if token = ''&&'' then commit_op AndN p
      else if dir \<noteq> None then Raise AssertionError
      else Return (p\<lparr>current_command := Some (ChdirN (Some token))\<rparr>))"

text \<open>A file name after a redirection.\<close>

definition parse_file :: "string \<Rightarrow> command \<Rightarrow> parser \<Rightarrow> parser res" where
  "parse_file token c p =
     (case state p of
        STDOUT \<Rightarrow>
          if cmd_stdout c \<noteq> None then Raise AssertionError
          else Return (p\<lparr>current_command := Some (CommandN (c\<lparr>cmd_stdout := Some (ToFile token)\<rparr>)),
            state := COMMAND\<rparr>)
      | STDERR \<Rightarrow>
          if cmd_stderr c \<noteq> None then Raise AssertionError
          else Return (p\<lparr>current_command := Some (CommandN (c\<lparr>cmd_stderr := Some (ToFile token)\<rparr>)),
            state := COMMAND\<rparr>)
      | _ \<Rightarrow>
          if cmd_stdin c \<noteq> None then Raise AssertionError
          else Return (p\<lparr>current_command := Some (CommandN (c\<lparr>cmd_stdin := Some token\<rparr>)),
            state := COMMAND\<rparr>))"

text \<open>One turn of \<open>while tokens\<close>. Reading an attribute of a current command of another kind, or of
  None, is an AttributeError.\<close>

definition parse_token :: "string \<Rightarrow> parser \<Rightarrow> parser res" where
  "parse_token token p =
     (case (state p, current_command p) of
        (BEGIN, _) \<Rightarrow> parse_begin token p
      | (COMMAND, Some (CommandN c)) \<Rightarrow> parse_command token c p
      | (CHDIR, Some (ChdirN dir)) \<Rightarrow> parse_chdir token dir p
      | (STDOUT, Some (CommandN c)) \<Rightarrow> parse_file token c p
      | (STDERR, Some (CommandN c)) \<Rightarrow> parse_file token c p
      | (STDIN, Some (CommandN c)) \<Rightarrow> parse_file token c p
      | _ \<Rightarrow> Raise AttributeError)"

definition parse :: "string list \<Rightarrow> node list res" where
  "parse tokens =
     bind_res (fold_res parse_token tokens initial_parser) (\<lambda>p.
     bind_res (commit_command p) (\<lambda>p. Return (pipeline p)))"

definition parse_text :: "string \<Rightarrow> node list res" where
  "parse_text cmd = bind_res (shlex_split cmd) parse"

section \<open>The pipelines the parser builds\<close>

definition plain_token :: "string \<Rightarrow> bool" where
  "plain_token t \<longleftrightarrow> t \<notin> {''>'', ''2>'', ''2>&1'', ''<'', ''|'', ''&&'', ''||''}"

definition env_ok :: "string \<times> string \<Rightarrow> bool" where
  "env_ok = (\<lambda>(k, v). k \<noteq> [] \<and> list_all is_word k \<and> v \<noteq> [] \<and> list_all (\<lambda>c. \<not> is_space c) v)"

definition env_list_ok :: "(string \<times> string) list \<Rightarrow> bool" where
  "env_list_ok env \<longleftrightarrow> dict_wf env \<and> list_all env_ok env"

definition wf_command :: "command \<Rightarrow> bool" where
  "wf_command c \<longleftrightarrow>
     cmd_name c \<noteq> ''cd'' \<and> env_match (cmd_name c) = None \<and>
     cmd_argv c \<noteq> [] \<and> hd (cmd_argv c) = cmd_name c \<and> list_all plain_token (tl (cmd_argv c)) \<and>
     cmd_stdout c \<noteq> Some ToStdout \<and> cmd_stderr c \<noteq> Some ToPipe \<and>
     (case cmd_env c of None \<Rightarrow> True | Some env \<Rightarrow> env \<noteq> [] \<and> env_list_ok env)"

text \<open>Commands and changes of directory, each followed by its operator.\<close>

fun wf_prefix :: "node list \<Rightarrow> bool" where
  "wf_prefix [] \<longleftrightarrow> True"
| "wf_prefix (CommandN c # PipeN # ns) \<longleftrightarrow>
     wf_command c \<and> cmd_stdout c = Some ToPipe \<and> wf_prefix ns"
| "wf_prefix (CommandN c # AndN # ns) \<longleftrightarrow>
     wf_command c \<and> cmd_stdout c \<noteq> Some ToPipe \<and> wf_prefix ns"
| "wf_prefix (CommandN c # OrN # ns) \<longleftrightarrow>
     wf_command c \<and> cmd_stdout c \<noteq> Some ToPipe \<and> wf_prefix ns"
| "wf_prefix (ChdirN d # AndN # ns) \<longleftrightarrow> d \<noteq> Some ''&&'' \<and> wf_prefix ns"
| "wf_prefix _ \<longleftrightarrow> False"

definition wf_last :: "node \<Rightarrow> bool" where
  "wf_last n \<longleftrightarrow>
     (case n of CommandN c \<Rightarrow> wf_command c \<and> cmd_stdout c \<noteq> Some ToPipe
      | ChdirN d \<Rightarrow> d \<noteq> Some ''&&'' | _ \<Rightarrow> False)"

definition wf_pipeline :: "node list \<Rightarrow> bool" where
  "wf_pipeline ns \<longleftrightarrow> ns \<noteq> [] \<and> wf_prefix (butlast ns) \<and> wf_last (last ns)"

lemma wf_prefix_append: "wf_prefix ps \<Longrightarrow> wf_prefix qs \<Longrightarrow> wf_prefix (ps @ qs)"
  by (induction ps rule: wf_prefix.induct) auto

text \<open>The tokens of a pipeline, redirections last.\<close>

definition unparse_command :: "command \<Rightarrow> string list" where
  "unparse_command c =
     (case cmd_env c of None \<Rightarrow> [] | Some env \<Rightarrow> map (\<lambda>(k, v). k @ ''='' @ v) env) @
     cmd_name c # tl (cmd_argv c) @
     (case cmd_stdin c of None \<Rightarrow> [] | Some f \<Rightarrow> [''<'', f]) @
     (case cmd_stderr c of Some (ToFile f) \<Rightarrow> [''2>'', f] | Some ToStdout \<Rightarrow> [''2>&1''] | _ \<Rightarrow> []) @
     (case cmd_stdout c of Some (ToFile f) \<Rightarrow> [''>'', f] | _ \<Rightarrow> [])"

definition unparse_node :: "node \<Rightarrow> string list" where
  "unparse_node n =
     (case n of
        CommandN c \<Rightarrow> unparse_command c
      | ChdirN None \<Rightarrow> [''cd'']
      | ChdirN (Some d) \<Rightarrow> [''cd'', d]
      | PipeN \<Rightarrow> [''|''] | AndN \<Rightarrow> [''&&''] | OrN \<Rightarrow> [''||''])"

definition unparse :: "node list \<Rightarrow> string list" where
  "unparse ns = concat (map unparse_node ns)"

section \<open>The parser keeps its invariant\<close>

lemma env_match_ok: "env_match t = Some (k, v) \<Longrightarrow> env_ok (k, v)"
  by (auto simp: env_match_def env_ok_def Let_def list_all_iff dest: set_takeWhileD split: list.splits if_splits)

lemma env_match_entry:
  assumes "env_ok (k, v)" shows "env_match (k @ ''='' @ v) = Some (k, v)"
proof -
  from assms have k: "\<forall>c \<in> set k. is_word c" and v: "v \<noteq> []" "\<forall>c \<in> set v. \<not> is_space c"
    by (auto simp: env_ok_def list_all_iff)
  have "\<not> is_word (CHR ''='')" by code_simp
  with k have "takeWhile is_word (k @ ''='' @ v) = k" "dropWhile is_word (k @ ''='' @ v) = ''='' @ v"
    by (auto simp: takeWhile_append2 dropWhile_append2)
  moreover have "is_space (CHR 10)" by code_simp
  with v have "drop_newline v = v" by (metis drop_newline_def last_in_set)
  ultimately show ?thesis using assms by (simp add: env_match_def env_ok_def)
qed

definition parser_inv :: "parser \<Rightarrow> bool" where
  "parser_inv p \<longleftrightarrow> wf_prefix (pipeline p) \<and> env_list_ok (env_vars p) \<and>
     (case state p of
        BEGIN \<Rightarrow> current_command p = None
      | CHDIR \<Rightarrow> env_vars p = [] \<and> (\<exists>d. current_command p = Some (ChdirN d) \<and> d \<noteq> Some ''&&'')
      | _ \<Rightarrow> env_vars p = [] \<and>
          (\<exists>c. current_command p = Some (CommandN c) \<and> wf_command c \<and> cmd_stdout c \<noteq> Some ToPipe))"

lemma env_list_ok_simps [simp]: "env_list_ok []" "env_list_ok [x] \<longleftrightarrow> env_ok x"
  by (simp_all add: env_list_ok_def)

lemma initial_parser_inv: "parser_inv initial_parser"
  by (simp add: parser_inv_def initial_parser_def env_list_ok_def)

lemma env_list_ok_update:
  "env_list_ok env \<Longrightarrow> env_ok (k, v) \<Longrightarrow> env_list_ok (AList.update k v env)"
proof -
  assume "env_list_ok env" "env_ok (k, v)"
  moreover have "set (AList.update k v env) \<subseteq> insert (k, v) (set env)"
    by (induction env) auto
  ultimately show ?thesis by (auto simp: env_list_ok_def alist.wf_store list_all_iff)
qed

lemma parse_begin_inv:
  "parser_inv p \<Longrightarrow> state p = BEGIN \<Longrightarrow>
    parse_begin token p = Raise AssertionError \<or> (\<exists>q. parse_begin token p = Return q \<and> parser_inv q)"
  by (auto simp: parse_begin_def parser_inv_def wf_command_def new_command_def Let_def
      intro: env_list_ok_update dest: env_match_ok split: option.split)

lemma parse_command_inv:
  "parser_inv p \<Longrightarrow> state p = COMMAND \<Longrightarrow> current_command p = Some (CommandN c) \<Longrightarrow>
    parse_command token c p = Raise AssertionError \<or>
    (\<exists>q. parse_command token c p = Return q \<and> parser_inv q)"
  by (cases "cmd_argv c")
    (auto simp: parse_command_def parser_inv_def commit_op_def commit_command_def wf_command_def
      plain_token_def intro!: wf_prefix_append)

lemma parse_chdir_inv:
  "parser_inv p \<Longrightarrow> state p = CHDIR \<Longrightarrow> current_command p = Some (ChdirN d) \<Longrightarrow>
    parse_chdir token d p = Raise AssertionError \<or>
    (\<exists>q. parse_chdir token d p = Return q \<and> parser_inv q)"
  by (auto simp: parse_chdir_def parser_inv_def commit_op_def commit_command_def
      intro!: wf_prefix_append)

lemma parse_file_inv:
  "parser_inv p \<Longrightarrow> state p \<in> {STDOUT, STDERR, STDIN} \<Longrightarrow> current_command p = Some (CommandN c) \<Longrightarrow>
    parse_file token c p = Raise AssertionError \<or>
    (\<exists>q. parse_file token c p = Return q \<and> parser_inv q)"
  by (auto simp: parse_file_def parser_inv_def wf_command_def)

lemma parse_token_inv:
  "parser_inv p \<Longrightarrow>
    parse_token token p = Raise AssertionError \<or> (\<exists>q. parse_token token p = Return q \<and> parser_inv q)"
proof -
  assume I: "parser_inv p"
  show ?thesis
  proof (cases "state p")
    case BEGIN
    then show ?thesis using parse_begin_inv [OF I] by (simp add: parse_token_def)
  next
    case COMMAND
    with I obtain c where c: "current_command p = Some (CommandN c)" by (auto simp: parser_inv_def)
    with COMMAND show ?thesis using parse_command_inv [OF I] by (simp add: parse_token_def)
  next
    case CHDIR
    with I obtain d where d: "current_command p = Some (ChdirN d)" by (auto simp: parser_inv_def)
    with CHDIR show ?thesis using parse_chdir_inv [OF I] by (simp add: parse_token_def)
  next
    case STDERR
    with I obtain c where c: "current_command p = Some (CommandN c)" by (auto simp: parser_inv_def)
    with STDERR show ?thesis using parse_file_inv [OF I] by (simp add: parse_token_def)
  next
    case STDOUT
    with I obtain c where c: "current_command p = Some (CommandN c)" by (auto simp: parser_inv_def)
    with STDOUT show ?thesis using parse_file_inv [OF I] by (simp add: parse_token_def)
  next
    case STDIN
    with I obtain c where c: "current_command p = Some (CommandN c)" by (auto simp: parser_inv_def)
    with STDIN show ?thesis using parse_file_inv [OF I] by (simp add: parse_token_def)
  qed
qed

lemma parse_tokens_inv:
  "parser_inv p \<Longrightarrow> fold_res parse_token tokens p = Raise AssertionError \<or>
    (\<exists>q. fold_res parse_token tokens p = Return q \<and> parser_inv q)"
proof (induction tokens arbitrary: p)
  case (Cons t ts)
  from parse_token_inv [OF Cons.prems, of t] show ?case
  proof (elim disjE exE conjE)
    fix q assume "parse_token t p = Return q" "parser_inv q"
    with Cons.IH [of q] show ?thesis by simp
  qed simp
qed simp

lemma commit_command_inv:
  "parser_inv p \<Longrightarrow> commit_command p = Raise AssertionError \<or>
    (\<exists>q. commit_command p = Return q \<and> wf_pipeline (pipeline q))"
  by (cases "state p") (auto simp: commit_command_def wf_pipeline_def parser_inv_def wf_last_def)

lemma parse_result:
  "parse tokens = Raise AssertionError \<or> (\<exists>ns. parse tokens = Return ns \<and> wf_pipeline ns)"
  using parse_tokens_inv [OF initial_parser_inv, of tokens]
proof (elim disjE exE conjE)
  fix p assume "fold_res parse_token tokens initial_parser = Return p" "parser_inv p"
  with commit_command_inv [of p] show ?thesis by (auto simp: parse_def)
qed (simp add: parse_def)

section \<open>The parser reads back what is printed\<close>

definition reading :: "node option \<Rightarrow> pstate \<Rightarrow> node list \<Rightarrow> parser" where
  "reading n s ns = \<lparr>state = s, current_command = n, pipeline = ns, env_vars = []\<rparr>"

lemma parse_env_tokens:
  "list_all env_ok env \<Longrightarrow> state p = BEGIN \<Longrightarrow>
    fold_res parse_token (map (\<lambda>(k, v). k @ ''='' @ v) env) p =
      Return (p\<lparr>env_vars := fold (\<lambda>(k, v). AList.update k v) env (env_vars p)\<rparr>)"
proof (induction env arbitrary: p)
  case (Cons e env)
  obtain k v where e: "e = (k, v)" by (cases e)
  with Cons.prems have "parse_token (k @ ''='' @ v) p = Return (p\<lparr>env_vars := AList.update k v (env_vars p)\<rparr>)"
    using env_match_entry [of k v] by (simp add: parse_token_def parse_begin_def)
  with Cons e show ?case by simp
qed simp

lemma parse_arg_tokens:
  "list_all plain_token args \<Longrightarrow>
    fold_res parse_token args (reading (Some (CommandN c)) COMMAND ns) =
      Return (reading (Some (CommandN (c\<lparr>cmd_argv := cmd_argv c @ args\<rparr>))) COMMAND ns)"
proof (induction args arbitrary: c)
  case (Cons a args)
  then have "parse_token a (reading (Some (CommandN c)) COMMAND ns) =
      Return (reading (Some (CommandN (c\<lparr>cmd_argv := cmd_argv c @ [a]\<rparr>))) COMMAND ns)"
    by (simp add: parse_token_def parse_command_def plain_token_def reading_def)
  with Cons show ?case by simp
qed simp

text \<open>A command without the pipe at its end.\<close>

definition unpiped :: "command \<Rightarrow> command" where
  "unpiped c = (if cmd_stdout c = Some ToPipe then c\<lparr>cmd_stdout := None\<rparr> else c)"

lemma parse_name_tokens:
  assumes "wf_command c"
  shows "fold_res parse_token
      ((case cmd_env c of None \<Rightarrow> [] | Some env \<Rightarrow> map (\<lambda>(k, v). k @ ''='' @ v) env) @ [cmd_name c])
      (reading None BEGIN ns) =
    Return (reading (Some (CommandN ((new_command (cmd_name c))\<lparr>cmd_env := cmd_env c\<rparr>))) COMMAND ns)"
proof (cases "cmd_env c")
  case None
  with assms show ?thesis
    by (simp add: parse_token_def parse_begin_def wf_command_def reading_def new_command_def)
next
  case (Some env)
  with assms have env: "env \<noteq> []" "list_all env_ok env" "dict_wf env"
    by (auto simp: wf_command_def env_list_ok_def)
  then have "fold_res parse_token (map (\<lambda>(k, v). k @ ''='' @ v) env) (reading None BEGIN ns) =
      Return ((reading None BEGIN ns)\<lparr>env_vars := env\<rparr>)"
    using fold_update_distinct [of "[]" env] parse_env_tokens [OF env(2), of "reading None BEGIN ns"]
    by (simp add: reading_def)
  with Some env assms show ?thesis
    by (simp add: fold_res_append parse_token_def parse_begin_def wf_command_def reading_def new_command_def)
qed

lemma parse_command_tokens:
  assumes "wf_command c"
  shows "fold_res parse_token (unparse_command c) (reading None BEGIN ns) =
    Return (reading (Some (CommandN (unpiped c))) COMMAND ns)"
proof -
  let ?c0 = "(new_command (cmd_name c))\<lparr>cmd_env := cmd_env c\<rparr>"
  let ?c1 = "?c0\<lparr>cmd_argv := cmd_argv c\<rparr>"
  let ?c2 = "?c1\<lparr>cmd_stdin := cmd_stdin c\<rparr>"
  let ?c3 = "?c2\<lparr>cmd_stderr := cmd_stderr c\<rparr>"
  have e: "unparse_command c =
      ((case cmd_env c of None \<Rightarrow> [] | Some env \<Rightarrow> map (\<lambda>(k, v). k @ ''='' @ v) env) @ [cmd_name c]) @
      tl (cmd_argv c) @
      (case cmd_stdin c of None \<Rightarrow> [] | Some f \<Rightarrow> [''<'', f]) @
      (case cmd_stderr c of Some (ToFile f) \<Rightarrow> [''2>'', f] | Some ToStdout \<Rightarrow> [''2>&1''] | _ \<Rightarrow> []) @
      (case cmd_stdout c of Some (ToFile f) \<Rightarrow> [''>'', f] | _ \<Rightarrow> [])"
    by (simp add: unparse_command_def)
  have argv: "[cmd_name c] @ tl (cmd_argv c) = cmd_argv c" "list_all plain_token (tl (cmd_argv c))"
    using assms by (cases "cmd_argv c"; auto simp: wf_command_def)+
  have 1: "fold_res parse_token (tl (cmd_argv c)) (reading (Some (CommandN ?c0)) COMMAND ns) =
      Return (reading (Some (CommandN ?c1)) COMMAND ns)"
    using parse_arg_tokens [OF argv(2), of ?c0 ns] argv(1) by (simp add: new_command_def)
  have 2: "fold_res parse_token (case cmd_stdin c of None \<Rightarrow> [] | Some f \<Rightarrow> [''<'', f])
      (reading (Some (CommandN ?c1)) COMMAND ns) = Return (reading (Some (CommandN ?c2)) COMMAND ns)"
    by (cases "cmd_stdin c")
      (simp_all add: parse_token_def parse_command_def parse_file_def reading_def new_command_def)
  have 3: "fold_res parse_token
      (case cmd_stderr c of Some (ToFile f) \<Rightarrow> [''2>'', f] | Some ToStdout \<Rightarrow> [''2>&1''] | _ \<Rightarrow> [])
      (reading (Some (CommandN ?c2)) COMMAND ns) = Return (reading (Some (CommandN ?c3)) COMMAND ns)"
    using assms by (auto simp: parse_token_def parse_command_def parse_file_def reading_def
        new_command_def wf_command_def split: option.split redirect.split)
  have 4: "fold_res parse_token (case cmd_stdout c of Some (ToFile f) \<Rightarrow> [''>'', f] | _ \<Rightarrow> [])
      (reading (Some (CommandN ?c3)) COMMAND ns) = Return (reading (Some (CommandN (unpiped c))) COMMAND ns)"
    using assms by (cases c) (auto simp: parse_token_def parse_command_def parse_file_def reading_def
        new_command_def wf_command_def unpiped_def split: option.split redirect.split)
  show ?thesis
    unfolding e fold_res_append [of _ "_ @ [cmd_name c]"] parse_name_tokens [OF assms] bind_res_simps
    unfolding fold_res_append 1 2 3 bind_res_simps by (rule 4)
qed

lemma parse_tokens_two:
  "fold_res parse_token (unparse [a, b]) (reading None BEGIN ms) = Return (reading None BEGIN (ms @ [a, b])) \<Longrightarrow>
    fold_res parse_token (unparse ns) (reading None BEGIN (ms @ [a, b])) = Return (reading None BEGIN (ms @ a # b # ns)) \<Longrightarrow>
    fold_res parse_token (unparse (a # b # ns)) (reading None BEGIN ms) = Return (reading None BEGIN (ms @ a # b # ns))"
proof -
  assume *: "fold_res parse_token (unparse [a, b]) (reading None BEGIN ms) = Return (reading None BEGIN (ms @ [a, b]))"
    "fold_res parse_token (unparse ns) (reading None BEGIN (ms @ [a, b])) = Return (reading None BEGIN (ms @ a # b # ns))"
  have "unparse (a # b # ns) = unparse [a, b] @ unparse ns" by (simp add: unparse_def)
  then show ?thesis by (simp only: fold_res_append * bind_res_simps)
qed

lemma parse_tokens_prefix:
  "wf_prefix ns \<Longrightarrow> fold_res parse_token (unparse ns) (reading None BEGIN ms) =
    Return (reading None BEGIN (ms @ ns))"
proof (induction ns arbitrary: ms rule: wf_prefix.induct)
  case 1
  then show ?case by (simp add: unparse_def)
next
  case (2 c ns)
  have "(unpiped c)\<lparr>cmd_stdout := Some ToPipe\<rparr> = c" using 2 by (simp add: unpiped_def)
  with 2 have "fold_res parse_token (unparse [CommandN c, PipeN]) (reading None BEGIN ms) =
      Return (reading None BEGIN (ms @ [CommandN c, PipeN]))"
    by (simp add: unparse_def unparse_node_def fold_res_append parse_command_tokens)
      (simp add: parse_token_def parse_command_def commit_op_def commit_command_def reading_def unpiped_def)
  moreover have "fold_res parse_token (unparse ns) (reading None BEGIN (ms @ [CommandN c, PipeN])) =
      Return (reading None BEGIN (ms @ CommandN c # PipeN # ns))"
    using 2(1) [of "ms @ [CommandN c, PipeN]"] 2(2) by simp
  ultimately show ?case by (rule parse_tokens_two)
next
  case (3 c ns)
  then have "fold_res parse_token (unparse [CommandN c, AndN]) (reading None BEGIN ms) =
      Return (reading None BEGIN (ms @ [CommandN c, AndN]))"
    by (simp add: unparse_def unparse_node_def fold_res_append parse_command_tokens)
      (simp add: parse_token_def parse_command_def commit_op_def commit_command_def reading_def unpiped_def)
  moreover have "fold_res parse_token (unparse ns) (reading None BEGIN (ms @ [CommandN c, AndN])) =
      Return (reading None BEGIN (ms @ CommandN c # AndN # ns))"
    using 3(1) [of "ms @ [CommandN c, AndN]"] 3(2) by simp
  ultimately show ?case by (rule parse_tokens_two)
next
  case (4 c ns)
  then have "fold_res parse_token (unparse [CommandN c, OrN]) (reading None BEGIN ms) =
      Return (reading None BEGIN (ms @ [CommandN c, OrN]))"
    by (simp add: unparse_def unparse_node_def fold_res_append parse_command_tokens)
      (simp add: parse_token_def parse_command_def commit_op_def commit_command_def reading_def unpiped_def)
  moreover have "fold_res parse_token (unparse ns) (reading None BEGIN (ms @ [CommandN c, OrN])) =
      Return (reading None BEGIN (ms @ CommandN c # OrN # ns))"
    using 4(1) [of "ms @ [CommandN c, OrN]"] 4(2) by simp
  ultimately show ?case by (rule parse_tokens_two)
next
  case (5 d ns)
  have "env_match ''cd'' = None" by code_simp
  with 5 have "fold_res parse_token (unparse [ChdirN d, AndN]) (reading None BEGIN ms) =
      Return (reading None BEGIN (ms @ [ChdirN d, AndN]))"
    by (cases d) (simp_all add: unparse_def unparse_node_def parse_token_def parse_begin_def
        parse_chdir_def commit_op_def commit_command_def reading_def)
  moreover have "fold_res parse_token (unparse ns) (reading None BEGIN (ms @ [ChdirN d, AndN])) =
      Return (reading None BEGIN (ms @ ChdirN d # AndN # ns))"
    using 5(1) [of "ms @ [ChdirN d, AndN]"] 5(2) by simp
  ultimately show ?case by (rule parse_tokens_two)
qed simp_all

lemma parse_unparse:
  assumes "wf_pipeline ns" shows "parse (unparse ns) = Return ns"
proof -
  have ns: "ns = butlast ns @ [last ns]" and pre: "wf_prefix (butlast ns)" and l: "wf_last (last ns)"
    using assms by (auto simp: wf_pipeline_def)
  have i: "initial_parser = reading None BEGIN []" by (simp add: initial_parser_def reading_def)
  have cd: "env_match ''cd'' = None" by code_simp
  have "\<exists>s. fold_res parse_token (unparse_node (last ns)) (reading None BEGIN (butlast ns)) =
      Return (reading (Some (last ns)) s (butlast ns))"
  proof (cases "last ns")
    case (CommandN c)
    with l show ?thesis by (auto simp: unparse_node_def parse_command_tokens wf_last_def unpiped_def)
  next
    case (ChdirN d)
    with l cd show ?thesis
      by (cases d) (auto simp: unparse_node_def wf_last_def parse_token_def parse_begin_def
          parse_chdir_def reading_def)
  qed (use l in \<open>auto simp: wf_last_def\<close>)
  moreover have "unparse ns = unparse (butlast ns) @ unparse_node (last ns)"
    by (subst ns) (simp add: unparse_def)
  ultimately obtain s where "fold_res parse_token (unparse ns) initial_parser =
      Return (reading (Some (last ns)) s (butlast ns))"
    using parse_tokens_prefix [OF pre, of "[]"] by (auto simp: i fold_res_append)
  then show ?thesis using ns by (simp add: parse_def commit_command_def reading_def)
qed

text \<open>C11: the parser returns exactly the well-formed pipelines (each command or change of
  directory followed by its operator, a command writing to a pipe exactly when a pipe follows,
  distinct well-formed environment variables, no operator among the arguments after the name):
  every token list gives such a pipeline or AssertionError, and printing a pipeline gives tokens, or
  with quotes a text, that parse to it again.\<close>

theorem parse_characterised:
  "(parse tokens = Raise AssertionError \<or> (\<exists>ns. parse tokens = Return ns \<and> wf_pipeline ns)) \<and>
   (wf_pipeline ns \<longleftrightarrow> parse (unparse ns) = Return ns) \<and>
   (wf_pipeline ns \<longleftrightarrow> parse_text (str_join '' '' (map shlex_quote (unparse ns))) = Return ns)"
proof -
  have "wf_pipeline ns \<longleftrightarrow> parse (unparse ns) = Return ns"
  proof (rule iffI [OF parse_unparse])
    assume "parse (unparse ns) = Return ns"
    with parse_result [of "unparse ns"] show "wf_pipeline ns" by auto
  qed
  moreover have "parse_text (str_join '' '' (map shlex_quote (unparse ns))) = parse (unparse ns)"
    by (simp add: parse_text_def shlex_split_quote)
  ultimately show ?thesis using parse_result [of tokens] by (simp only: simp_thms)
qed

end
