(* ===== verification/Shell_Run.thy ===== *)
theory Shell_Run
  imports Shellcmd
begin

text \<open>
  Running a pipeline, \<open>Pipeline.run\<close> of \<open>waf-tools/shellcmd.py\<close>. What the operating system does
  is an argument: which files can be opened, and the exit code of a process as a function of the
  processes started so far, itself included, or None when \<open>Popen\<close> raises. The state keeps what the
  method keeps, with a log of the processes, the waits, the opened and closed files and the
  printed lines.
\<close>

section \<open>The code\<close>

datatype input = Inherited | FromFile string | FromPipe nat

record launch =
  l_argv :: "string list"
  l_stdin :: input
  l_stdout :: "redirect option"
  l_stderr :: "redirect option"
  l_env :: "(string \<times> string) list option"
  l_cwd :: "string option"

record os =
  can_open :: "string \<Rightarrow> bool"
  exit_code :: "launch list \<Rightarrow> int option"
  environ :: "(string \<times> string) list"

text \<open>\<open>dev_null\<close> is opened once by the module and never closed.\<close>

datatype handle = DevNull | Handle string

record run_state =
  cwd :: string
  in_pipe :: bool
  piped :: "(nat \<times> int) list"
  files_to_close :: "handle list"
  display :: "string list"
  launches :: "launch list"
  waited :: "nat list"
  opened :: "string list"
  closed :: "string list"
  printed :: "string list"

definition initial_run :: run_state where
  "initial_run = \<lparr>cwd = ''.'', in_pipe = False, piped = [], files_to_close = [], display = [],
     launches = [], waited = [], opened = [], closed = [], printed = []\<rparr>"

text \<open>A statement that may raise leaves the state it had reached.\<close>

definition bind_run :: "run_state \<times> 'a res \<Rightarrow> ('a \<Rightarrow> run_state \<Rightarrow> run_state \<times> 'b res) \<Rightarrow> run_state \<times> 'b res" where
  "bind_run m f = (case m of (st, Inl e) \<Rightarrow> (st, Raise e) | (st, Inr x) \<Rightarrow> f x st)"

lemma bind_run_simps [simp]:
  "bind_run (st, Raise e) f = (st, Raise e)"
  "bind_run (st, Return x) f = f x st"
  by (simp_all add: bind_run_def)

definition show_item :: "bool \<Rightarrow> string \<Rightarrow> run_state \<Rightarrow> run_state" where
  "show_item verbose s st = (if verbose then st\<lparr>display := display st @ [s]\<rparr> else st)"

text \<open>\<open>os.path.join\<close> of two POSIX paths.\<close>

definition path_join :: "string \<Rightarrow> string \<Rightarrow> string" where
  "path_join a b =
     (if prefix ''/'' b then b else if a = [] \<or> last a = CHR ''/'' then a @ b else a @ ''/'' @ b)"

definition open_file :: "os \<Rightarrow> string \<Rightarrow> run_state \<Rightarrow> run_state \<times> unit res" where
  "open_file os f st =
     (if can_open os f
      then (st\<lparr>files_to_close := files_to_close st @ [Handle f], opened := opened st @ [f]\<rparr>, Return ())
      else (st, Raise (OSError f)))"

definition open_out_file :: "os \<Rightarrow> string \<Rightarrow> run_state \<Rightarrow> run_state \<times> unit res" where
  "open_out_file os f st =
     (if f \<in> {''NUL:'', ''/dev/null''}
      then (st\<lparr>files_to_close := files_to_close st @ [DevNull]\<rparr>, Return ())
      else open_file os f st)"

definition choose_stdin :: "os \<Rightarrow> bool \<Rightarrow> command \<Rightarrow> run_state \<Rightarrow> run_state \<times> input res" where
  "choose_stdin os verbose cmd st =
     (if in_pipe st then (st, Return (FromPipe (fst (last (piped st)))))
      else case cmd_stdin cmd of
        None \<Rightarrow> (st, Return Inherited)
      | Some f \<Rightarrow> bind_run (open_file os f st) (\<lambda>_ st.
          (show_item verbose (''< '' @ f) st, Return (FromFile f))))"

definition choose_stdout :: "os \<Rightarrow> bool \<Rightarrow> command \<Rightarrow> run_state \<Rightarrow> run_state \<times> redirect option res" where
  "choose_stdout os verbose cmd st =
     (case cmd_stdout cmd of
        None \<Rightarrow> (st, Return None)
      | Some ToPipe \<Rightarrow> (st, Return (Some ToPipe))
      | Some ToStdout \<Rightarrow> (st, Raise TypeError)
      | Some (ToFile f) \<Rightarrow> bind_run (open_out_file os f st) (\<lambda>_ st.
          (show_item verbose (''> '' @ f) st, Return (Some (ToFile f)))))"

definition choose_stderr :: "os \<Rightarrow> bool \<Rightarrow> command \<Rightarrow> run_state \<Rightarrow> run_state \<times> redirect option res" where
  "choose_stderr os verbose cmd st =
     (case cmd_stderr cmd of
        None \<Rightarrow> (st, Return None)
      | Some ToPipe \<Rightarrow> (st, Return (Some ToPipe))
      | Some ToStdout \<Rightarrow> (show_item verbose ''2>&1'' st, Return (Some ToStdout))
      | Some (ToFile f) \<Rightarrow> bind_run (open_out_file os f st) (\<lambda>_ st.
          (show_item verbose (''2> '' @ f) st, Return (Some (ToFile f)))))"

definition command_env :: "os \<Rightarrow> command \<Rightarrow> (string \<times> string) list option" where
  "command_env os cmd =
     (case cmd_env cmd of
        None \<Rightarrow> None
      | Some env \<Rightarrow> if env = [] then None else Some (fold (\<lambda>(k, v). AList.update k v) env (environ os)))"

definition popen :: "os \<Rightarrow> launch \<Rightarrow> run_state \<Rightarrow> run_state \<times> unit res" where
  "popen os l st =
     (case exit_code os (launches st @ [l]) of
        None \<Rightarrow> (st, Raise (OSError (hd (l_argv l))))
      | Some code \<Rightarrow>
          (st\<lparr>launches := launches st @ [l], piped := piped st @ [(length (launches st), code)]\<rparr>, Return ()))"

definition command_text :: "command \<Rightarrow> string" where
  "command_text cmd =
     (let args = str_join '' '' (cmd_argv cmd) in
      case cmd_env cmd of
        None \<Rightarrow> args
      | Some env \<Rightarrow>
          if env = [] then args
          else str_join '' '' (map (\<lambda>(k, v). k @ ''='' @ v) env) @ '' '' @ args)"

definition start_command :: "os \<Rightarrow> bool \<Rightarrow> command \<Rightarrow> run_state \<Rightarrow> run_state \<times> unit res" where
  "start_command os verbose cmd st =
     bind_run (choose_stdin os verbose cmd (show_item verbose (command_text cmd) st)) (\<lambda>inp st.
     bind_run (choose_stdout os verbose cmd st) (\<lambda>out st.
     bind_run (choose_stderr os verbose cmd st) (\<lambda>err st.
       popen os \<lparr>l_argv = cmd_argv cmd, l_stdin = inp, l_stdout = out, l_stderr = err,
         l_env = command_env os cmd, l_cwd = (if cwd st = ''.'' then None else Some (cwd st))\<rparr> st)))"

text \<open>\<open>_exec_piped_commands\<close> waits for every process of the pipe; the files are closed after it.\<close>

definition pipe_retval :: "int list \<Rightarrow> int" where
  "pipe_retval retvals = (if list_ex (\<lambda>r. r \<noteq> 0) retvals then last retvals else 0)"

definition close_files :: "run_state \<Rightarrow> run_state" where
  "close_files st =
     st\<lparr>closed := closed st @ concat (map (\<lambda>h. case h of DevNull \<Rightarrow> [] | Handle f \<Rightarrow> [f]) (files_to_close st)),
        files_to_close := []\<rparr>"

definition exec_piped_commands :: "run_state \<Rightarrow> run_state \<times> int" where
  "exec_piped_commands st =
     (close_files (st\<lparr>waited := waited st @ map fst (piped st)\<rparr>), pipe_retval (map snd (piped st)))"

definition begin_group :: "run_state \<Rightarrow> run_state" where
  "begin_group st = st\<lparr>in_pipe := False, piped := [], display := []\<rparr>"

text \<open>
  \<open>while pipeline\<close>, before and after a command has been started. The result is the value of the
  \<open>return\<close> statement, None when the loop runs out of nodes. With \<open>verbose\<close> the lines printed
  after an operator read \<open>retval\<close>, which only the last command assigns.
\<close>

fun run_loop :: "os \<Rightarrow> bool \<Rightarrow> node list \<Rightarrow> run_state \<Rightarrow> run_state \<times> int option res"
  and run_next :: "os \<Rightarrow> bool \<Rightarrow> node list \<Rightarrow> run_state \<Rightarrow> run_state \<times> int option res" where
  "run_loop os verbose [] st = (st, Return None)"
| "run_loop os verbose [ChdirN dir] st = (st, Raise IndexError)"
| "run_loop os verbose (ChdirN dir # next_op # rest) st =
     (if next_op \<noteq> AndN then (st, Raise AssertionError)
      else case dir of
        None \<Rightarrow> (st, Raise TypeError)
      | Some d \<Rightarrow> run_loop os verbose rest
          (show_item verbose (''cd '' @ d @ '' &&'') (st\<lparr>cwd := path_join (cwd st) d\<rparr>)))"
| "run_loop os verbose (CommandN cmd # rest) st =
     (case start_command os verbose cmd st of
        (st', Inl e) \<Rightarrow> (st', Raise e)
      | (st', Inr _) \<Rightarrow> run_next os verbose rest st')"
| "run_loop os verbose (_ # rest) st = (st, Raise AssertionError)"
| "run_next os verbose [] st =
     (let (st, retval) = exec_piped_commands st;
          line = str_join '' '' (display st) @ '': exit code '' @ str_of_int retval
      in (if verbose then st\<lparr>printed := printed st @ [line]\<rparr> else st, Return (Some retval)))"
| "run_next os verbose (next_node # rest) st =
     (case next_node of
        PipeN \<Rightarrow> run_loop os verbose rest (st\<lparr>in_pipe := True, display := display st @ [''|'']\<rparr>)
      | OrN \<Rightarrow>
          (let (st, this_retval) = exec_piped_commands st in
           if verbose then (st, Raise (UnboundLocalError ''retval''))
           else if this_retval = 0 then (st, Return (Some this_retval))
           else run_loop os verbose rest (begin_group st))
      | AndN \<Rightarrow>
          (let (st, this_retval) = exec_piped_commands st in
           if verbose then (st, Raise (UnboundLocalError ''retval''))
           else if this_retval \<noteq> 0 then (st, Return (Some this_retval))
           else run_loop os verbose rest (begin_group st))
      | _ \<Rightarrow> run_loop os verbose rest st)"

definition run :: "os \<Rightarrow> bool \<Rightarrow> node list \<Rightarrow> run_state \<times> int option res" where
  "run os verbose nodes = run_loop os verbose nodes initial_run"

section \<open>Scripts\<close>

text \<open>
  The structure of a pipeline that ends in a command: clauses, each a pipe of commands after
  some changes of directory, joined by \<open>&&\<close> (True) and \<open>||\<close> (False).
\<close>

record clause =
  dirs :: "string list"
  commands :: "command list"

datatype script = Single clause | Seq clause bool script

fun pipe_nodes :: "command list \<Rightarrow> node list" where
  "pipe_nodes [] = []"
| "pipe_nodes [c] = [CommandN c]"
| "pipe_nodes (c # d # cs) = CommandN c # PipeN # pipe_nodes (d # cs)"

definition clause_nodes :: "clause \<Rightarrow> node list" where
  "clause_nodes cl = concat (map (\<lambda>d. [ChdirN (Some d), AndN]) (dirs cl)) @ pipe_nodes (commands cl)"

primrec script_nodes :: "script \<Rightarrow> node list" where
  "script_nodes (Single cl) = clause_nodes cl"
| "script_nodes (Seq cl a s) = clause_nodes cl @ (if a then AndN else OrN) # script_nodes s"

primrec script_clauses :: "script \<Rightarrow> clause list" where
  "script_clauses (Single cl) = [cl]"
| "script_clauses (Seq cl a s) = cl # script_clauses s"

definition script_ok :: "script \<Rightarrow> bool" where
  "script_ok s \<longleftrightarrow> list_all (\<lambda>cl. commands cl \<noteq> []) (script_clauses s) \<and> wf_pipeline (script_nodes s)"

text \<open>What a script means: the processes of a clause in order, each reading from the one before
  it, all of them in the directory reached so far; a clause has the exit code of its last process.\<close>

definition launch_of :: "os \<Rightarrow> string \<Rightarrow> nat option \<Rightarrow> command \<Rightarrow> launch" where
  "launch_of os dir source c =
     \<lparr>l_argv = cmd_argv c,
      l_stdin = (case source of Some i \<Rightarrow> FromPipe i
        | None \<Rightarrow> (case cmd_stdin c of None \<Rightarrow> Inherited | Some f \<Rightarrow> FromFile f)),
      l_stdout = cmd_stdout c, l_stderr = cmd_stderr c, l_env = command_env os c,
      l_cwd = (if dir = ''.'' then None else Some dir)\<rparr>"

fun pipe_launches :: "os \<Rightarrow> string \<Rightarrow> nat option \<Rightarrow> nat \<Rightarrow> command list \<Rightarrow> launch list" where
  "pipe_launches os dir source n [] = []"
| "pipe_launches os dir source n (c # cs) =
     launch_of os dir source c # pipe_launches os dir (Some n) (Suc n) cs"

definition clause_dir :: "string \<Rightarrow> clause \<Rightarrow> string" where
  "clause_dir dir cl = foldl path_join dir (dirs cl)"

definition run_clause :: "os \<Rightarrow> string \<Rightarrow> launch list \<Rightarrow> clause \<Rightarrow> launch list \<times> int" where
  "run_clause os dir started cl =
     (let started = started @ pipe_launches os (clause_dir dir cl) None (length started) (commands cl)
      in (started, the (exit_code os started)))"

text \<open>What the code does with the operators: the first clause that decides its operator ends it all.\<close>

fun script_run :: "os \<Rightarrow> string \<Rightarrow> launch list \<Rightarrow> script \<Rightarrow> launch list \<times> int" where
  "script_run os dir started (Single cl) = run_clause os dir started cl"
| "script_run os dir started (Seq cl a s) =
     (let (started, code) = run_clause os dir started cl in
      if a = (code = 0) then script_run os (clause_dir dir cl) started s else (started, code))"

text \<open>What a shell does: \<open>&&\<close> and \<open>||\<close> associate to the left, so a clause that is not run is
  passed over and the next operator looks at the same exit code.\<close>

fun shell_from :: "os \<Rightarrow> bool \<Rightarrow> string \<Rightarrow> launch list \<Rightarrow> int \<Rightarrow> script \<Rightarrow> launch list \<times> int" where
  "shell_from os go dir started code (Single cl) =
     (if go then run_clause os dir started cl else (started, code))"
| "shell_from os go dir started code (Seq cl a s) =
     (if go then (let (started, code) = run_clause os dir started cl
        in shell_from os (a = (code = 0)) (clause_dir dir cl) started code s)
      else shell_from os (a = (code = 0)) dir started code s)"

definition shell_run :: "os \<Rightarrow> script \<Rightarrow> launch list \<times> int" where
  "shell_run os s = shell_from os True ''.'' [] 0 s"

section \<open>One command and one clause\<close>

text \<open>An operating system on which every open and every \<open>Popen\<close> succeeds.\<close>

definition all_good :: "os \<Rightarrow> bool" where
  "all_good os \<longleftrightarrow> (\<forall>f. can_open os f) \<and> (\<forall>h. exit_code os h \<noteq> None)"

definition handle_names :: "handle list \<Rightarrow> string list" where
  "handle_names hs = concat (map (\<lambda>h. case h of DevNull \<Rightarrow> [] | Handle f \<Rightarrow> [f]) hs)"

lemma handle_names_simps [simp]:
  "handle_names [] = []" "handle_names (hs @ hs') = handle_names hs @ handle_names hs'"
  "handle_names [DevNull] = []" "handle_names [Handle f] = [f]"
  by (simp_all add: handle_names_def)

text \<open>The books are balanced: every opened file is closed or about to be, every process has been
  waited for or is in the current pipe.\<close>

definition balanced :: "run_state \<Rightarrow> bool" where
  "balanced st \<longleftrightarrow> opened st = closed st @ handle_names (files_to_close st) \<and>
     waited st @ map fst (piped st) = [0..<length (launches st)]"

definition same_group :: "run_state \<Rightarrow> run_state \<Rightarrow> bool" where
  "same_group st st' \<longleftrightarrow> cwd st' = cwd st \<and> in_pipe st' = in_pipe st \<and> waited st' = waited st \<and>
     piped st' = piped st \<and> launches st' = launches st \<and> printed st' = printed st \<and>
     (balanced st \<longrightarrow> balanced st')"

lemma same_group_refl [simp]: "same_group st st"
  by (simp add: same_group_def)

lemma same_group_trans: "same_group a b \<Longrightarrow> same_group b c \<Longrightarrow> same_group a c"
  by (simp add: same_group_def)

lemma show_item_same [simp]: "same_group st (show_item verbose x st)"
  by (simp add: show_item_def same_group_def balanced_def)

lemma open_file_good: "all_good os \<Longrightarrow> \<exists>st'. open_file os f st = (st', Return ()) \<and> same_group st st'"
  by (simp add: open_file_def all_good_def same_group_def balanced_def)

lemma open_out_file_good:
  "all_good os \<Longrightarrow> \<exists>st'. open_out_file os f st = (st', Return ()) \<and> same_group st st'"
  using open_file_good by (auto simp: open_out_file_def same_group_def balanced_def)

lemma bind_open_good:
  "\<exists>st'. m = (st', Return ()) \<and> same_group st st' \<Longrightarrow>
    \<exists>st'. bind_run m (\<lambda>_ st. (show_item verbose x st, Return y)) = (st', Return y) \<and> same_group st st'"
  by (auto intro: same_group_trans [OF _ show_item_same])

lemma choose_stdin_good:
  "all_good os \<Longrightarrow> \<exists>st'. choose_stdin os verbose c st = (st', Return
      (l_stdin (launch_of os dir (if in_pipe st then Some (fst (last (piped st))) else None) c))) \<and>
    same_group st st'"
  by (cases "cmd_stdin c")
    (simp_all add: choose_stdin_def launch_of_def bind_open_good [OF open_file_good])

lemma choose_stdout_good:
  "all_good os \<Longrightarrow> cmd_stdout c \<noteq> Some ToStdout \<Longrightarrow>
    \<exists>st'. choose_stdout os verbose c st = (st', Return (cmd_stdout c)) \<and> same_group st st'"
  by (auto simp: choose_stdout_def bind_open_good [OF open_out_file_good]
      split: option.split redirect.split)

lemma choose_stderr_good:
  "all_good os \<Longrightarrow> \<exists>st'. choose_stderr os verbose c st = (st', Return (cmd_stderr c)) \<and> same_group st st'"
  by (auto simp: choose_stderr_def bind_open_good [OF open_out_file_good]
      split: option.split redirect.split)

lemma start_command_good:
  assumes good: "all_good os" and c: "cmd_stdout c \<noteq> Some ToStdout"
  defines "l st \<equiv> launch_of os (cwd st) (if in_pipe st then Some (fst (last (piped st))) else None) c"
  shows "\<exists>st'. start_command os verbose c st = (st', Return ()) \<and>
    cwd st' = cwd st \<and> in_pipe st' = in_pipe st \<and> waited st' = waited st \<and>
    launches st' = launches st @ [l st] \<and> printed st' = printed st \<and>
    piped st' = piped st @ [(length (launches st), the (exit_code os (launches st @ [l st])))] \<and>
    (balanced st \<longrightarrow> balanced st')"
proof -
  let ?st = "show_item verbose (command_text c) st"
  have g0: "same_group st ?st" by simp
  obtain st1 where 1: "choose_stdin os verbose c ?st = (st1, Return (l_stdin (l st)))" "same_group ?st st1"
    using choose_stdin_good [OF good, of verbose c ?st "cwd st"] g0 by (auto simp: l_def same_group_def)
  obtain st2 where 2: "choose_stdout os verbose c st1 = (st2, Return (cmd_stdout c))" "same_group st1 st2"
    using choose_stdout_good [OF good c] by blast
  obtain st3 where 3: "choose_stderr os verbose c st2 = (st3, Return (cmd_stderr c))" "same_group st2 st3"
    using choose_stderr_good [OF good] by blast
  have g: "same_group st st3" using g0 1 2 3 by (meson same_group_trans)
  then have l: "\<lparr>l_argv = cmd_argv c, l_stdin = l_stdin (l st), l_stdout = cmd_stdout c,
      l_stderr = cmd_stderr c, l_env = command_env os c,
      l_cwd = (if cwd st3 = ''.'' then None else Some (cwd st3))\<rparr> = l st"
    by (simp add: l_def launch_of_def same_group_def)
  obtain code where code: "exit_code os (launches st3 @ [l st]) = Some code"
    using good by (auto simp: all_good_def)
  have "start_command os verbose c st = popen os (l st) st3"
    by (simp add: start_command_def 1 2 3 l)
  with g code show ?thesis by (auto simp: popen_def same_group_def balanced_def)
qed

lemma run_chdirs:
  "balanced st \<Longrightarrow> \<exists>st'. run_loop os verbose (concat (map (\<lambda>d. [ChdirN (Some d), AndN]) ds) @ rest) st =
      run_loop os verbose rest st' \<and>
    cwd st' = foldl path_join (cwd st) ds \<and> in_pipe st' = in_pipe st \<and> piped st' = piped st \<and>
    launches st' = launches st \<and> balanced st'"
proof (induction ds arbitrary: st)
  case Nil
  then show ?case by (intro exI [of _ st]) simp
next
  case (Cons d ds)
  let ?st = "show_item verbose (''cd '' @ d @ '' &&'') (st\<lparr>cwd := path_join (cwd st) d\<rparr>)"
  have "same_group (st\<lparr>cwd := path_join (cwd st) d\<rparr>) ?st" by simp
  moreover have "balanced (st\<lparr>cwd := path_join (cwd st) d\<rparr>)" using Cons.prems by (simp add: balanced_def)
  ultimately have "balanced ?st" "cwd ?st = path_join (cwd st) d" "in_pipe ?st = in_pipe st"
    "piped ?st = piped st" "launches ?st = launches st" by (auto simp: same_group_def)
  with Cons.IH [of ?st] show ?case by auto
qed

lemma run_pipe:
  "all_good os \<Longrightarrow> cs \<noteq> [] \<Longrightarrow> list_all (\<lambda>c. cmd_stdout c \<noteq> Some ToStdout) cs \<Longrightarrow> balanced st \<Longrightarrow>
    \<exists>st'. run_loop os verbose (pipe_nodes cs @ rest) st = run_next os verbose rest st' \<and>
      launches st' = launches st @ pipe_launches os (cwd st)
        (if in_pipe st then Some (fst (last (piped st))) else None) (length (launches st)) cs \<and>
      cwd st' = cwd st \<and> balanced st' \<and>
      piped st' \<noteq> [] \<and> snd (last (piped st')) = the (exit_code os (launches st'))"
proof (induction cs arbitrary: st rule: pipe_nodes.induct)
  case (2 c)
  then obtain st' where "start_command os verbose c st = (st', Return ())"
      "cwd st' = cwd st" "balanced st'"
      "launches st' = launches st @ [launch_of os (cwd st) (if in_pipe st then Some (fst (last (piped st))) else None) c]"
      "piped st' = piped st @ [(length (launches st), the (exit_code os (launches st')))]"
    using start_command_good [of os c verbose st] by auto
  then show ?case by (intro exI [of _ st']) simp
next
  case (3 c d cs)
  then obtain st1 where st1: "start_command os verbose c st = (st1, Return ())"
      "cwd st1 = cwd st" "balanced st1"
      "launches st1 = launches st @ [launch_of os (cwd st) (if in_pipe st then Some (fst (last (piped st))) else None) c]"
      "piped st1 = piped st @ [(length (launches st), the (exit_code os (launches st1)))]"
    using start_command_good [of os c verbose st] by auto
  let ?st2 = "st1\<lparr>in_pipe := True, display := display st1 @ [''|'']\<rparr>"
  have step: "run_loop os verbose (pipe_nodes (c # d # cs) @ rest) st =
      run_loop os verbose (pipe_nodes (d # cs) @ rest) ?st2"
    by (simp add: st1(1))
  have "balanced ?st2" using st1(3) by (simp add: balanced_def)
  moreover have "list_all (\<lambda>c. cmd_stdout c \<noteq> Some ToStdout) (d # cs)" using "3.prems"(3) by simp
  ultimately obtain st' where "run_loop os verbose (pipe_nodes (d # cs) @ rest) ?st2 = run_next os verbose rest st'"
      "launches st' = launches ?st2 @ pipe_launches os (cwd ?st2)
        (if in_pipe ?st2 then Some (fst (last (piped ?st2))) else None) (length (launches ?st2)) (d # cs)"
      "cwd st' = cwd ?st2" "balanced st'"
      "piped st' \<noteq> []" "snd (last (piped st')) = the (exit_code os (launches st'))"
    using "3.IH" [of ?st2] "3.prems"(1) by blast
  with st1 show ?case unfolding step by (intro exI [of _ st']) simp
qed simp

text \<open>The loop over the exit codes finds the last one: it is zero when no code is nonzero.\<close>

lemma pipe_retval_last: "rs \<noteq> [] \<Longrightarrow> pipe_retval rs = last rs"
  by (auto simp: pipe_retval_def list_ex_iff)

definition settled :: "run_state \<Rightarrow> bool" where
  "settled st \<longleftrightarrow> opened st = closed st \<and> files_to_close st = [] \<and>
     waited st = [0..<length (launches st)]"

lemma exec_piped_settled:
  assumes "balanced st" and "piped st \<noteq> []"
  shows "\<exists>st'. exec_piped_commands st = (st', snd (last (piped st))) \<and> settled st' \<and>
    launches st' = launches st \<and> cwd st' = cwd st"
  using assms by (auto simp: exec_piped_commands_def pipe_retval_last last_map settled_def balanced_def
      close_files_def handle_names_def)

lemma begin_group_balanced: "settled st \<Longrightarrow> balanced (begin_group st)"
  by (auto simp: settled_def begin_group_def balanced_def)

lemma run_clause_correct:
  assumes good: "all_good os" and cl: "commands cl \<noteq> []"
    "list_all (\<lambda>c. cmd_stdout c \<noteq> Some ToStdout) (commands cl)"
    and st: "balanced st" "\<not> in_pipe st" "piped st = []"
    and r: "run_clause os (cwd st) (launches st) cl = (started, code)"
  shows "\<exists>st1 st'. run_loop os verbose (clause_nodes cl @ rest) st = run_next os verbose rest st1 \<and>
    exec_piped_commands st1 = (st', code) \<and> settled st' \<and> launches st' = started \<and>
    cwd st' = clause_dir (cwd st) cl"
proof -
  from run_chdirs [OF st(1), of os verbose "dirs cl" "pipe_nodes (commands cl) @ rest"] obtain st0 where
    st0: "run_loop os verbose (clause_nodes cl @ rest) st =
        run_loop os verbose (pipe_nodes (commands cl) @ rest) st0"
      "cwd st0 = clause_dir (cwd st) cl" "in_pipe st0 = in_pipe st" "piped st0 = piped st"
      "launches st0 = launches st" "balanced st0"
    by (auto simp: clause_nodes_def clause_dir_def)
  from run_pipe [OF good cl st0(6), of verbose rest] st(2) st0 obtain st1 where
    st1: "run_loop os verbose (pipe_nodes (commands cl) @ rest) st0 = run_next os verbose rest st1"
      "launches st1 = launches st @ pipe_launches os (clause_dir (cwd st) cl) None (length (launches st)) (commands cl)"
      "cwd st1 = clause_dir (cwd st) cl" "balanced st1" "piped st1 \<noteq> []"
      "snd (last (piped st1)) = the (exit_code os (launches st1))"
    by auto
  from exec_piped_settled [OF st1(4,5)] obtain st' where
    st': "exec_piped_commands st1 = (st', snd (last (piped st1)))" "settled st'"
      "launches st' = launches st1" "cwd st' = cwd st1" by blast
  with st0(1) st1 r show ?thesis by (auto simp: run_clause_def Let_def)
qed

lemma script_correct:
  assumes good: "all_good os"
  shows "list_all (\<lambda>cl. commands cl \<noteq> [] \<and> list_all (\<lambda>c. cmd_stdout c \<noteq> Some ToStdout) (commands cl))
      (script_clauses s) \<Longrightarrow> balanced st \<Longrightarrow> \<not> in_pipe st \<Longrightarrow> piped st = [] \<Longrightarrow>
    script_run os (cwd st) (launches st) s = (started, code) \<Longrightarrow>
    \<exists>st'. run_loop os False (script_nodes s) st = (st', Return (Some code)) \<and>
      settled st' \<and> launches st' = started"
proof (induction s arbitrary: st)
  case (Single cl)
  from Single(5) have r: "run_clause os (cwd st) (launches st) cl = (started, code)" by simp
  from run_clause_correct [OF good _ _ Single(2-4) r, where rest = "[]" and verbose = False] Single(1)
  show ?case by auto
next
  case (Seq cl a s)
  obtain started1 code1 where r: "run_clause os (cwd st) (launches st) cl = (started1, code1)"
    by (cases "run_clause os (cwd st) (launches st) cl")
  let ?op = "if a then AndN else OrN"
  from run_clause_correct [OF good _ _ Seq.prems(2-4) r, where rest = "?op # script_nodes s" and verbose = False] Seq.prems(1)
  obtain st1 st' where
    1: "run_loop os False (script_nodes (Seq cl a s)) st = run_next os False (?op # script_nodes s) st1"
      "exec_piped_commands st1 = (st', code1)" "settled st'" "launches st' = started1"
      "cwd st' = clause_dir (cwd st) cl" by auto
  show ?case
  proof (cases "a = (code1 = 0)")
    case True
    let ?st = "begin_group st'"
    have "script_run os (cwd ?st) (launches ?st) s = (started, code)"
      using Seq.prems(5) r True 1 by (simp add: begin_group_def)
    from Seq.IH [OF _ begin_group_balanced [OF 1(3)] _ _ this] Seq.prems(1)
    have "\<exists>st'. run_loop os False (script_nodes s) ?st = (st', Return (Some code)) \<and>
        settled st' \<and> launches st' = started" by (simp add: begin_group_def)
    with 1 True show ?thesis by auto
  next
    case False
    with 1 Seq.prems(5) r show ?thesis by (cases a) auto
  qed
qed

section \<open>Whole scripts\<close>

lemma wf_prefix_commands: "wf_prefix ns \<Longrightarrow> CommandN c \<in> set ns \<Longrightarrow> cmd_stdout c \<noteq> Some ToStdout"
  by (induction ns rule: wf_prefix.induct) (auto simp: wf_command_def)

lemma wf_pipeline_commands:
  assumes "wf_pipeline ns" "CommandN c \<in> set ns" shows "cmd_stdout c \<noteq> Some ToStdout"
proof -
  have "ns = butlast ns @ [last ns]" using assms by (simp add: wf_pipeline_def)
  with assms(2) have "CommandN c \<in> set (butlast ns) \<or> last ns = CommandN c"
    by (metis Un_iff empty_iff insert_iff list.set(1) list.set(2) set_append)
  with assms(1) wf_prefix_commands [of "butlast ns" c] show ?thesis
    by (auto simp: wf_pipeline_def wf_last_def wf_command_def)
qed

lemma pipe_nodes_commands: "c \<in> set cs \<Longrightarrow> CommandN c \<in> set (pipe_nodes cs)"
  by (induction cs rule: pipe_nodes.induct) auto

lemma script_nodes_commands:
  "cl \<in> set (script_clauses s) \<Longrightarrow> c \<in> set (commands cl) \<Longrightarrow> CommandN c \<in> set (script_nodes s)"
  by (induction s) (auto simp: clause_nodes_def pipe_nodes_commands)

lemma script_ok_clauses:
  "script_ok s \<Longrightarrow>
    list_all (\<lambda>cl. commands cl \<noteq> [] \<and> list_all (\<lambda>c. cmd_stdout c \<noteq> Some ToStdout) (commands cl))
      (script_clauses s)"
  using wf_pipeline_commands script_nodes_commands by (fastforce simp: script_ok_def list_all_iff)

lemma initial_run_balanced: "balanced initial_run"
  by (simp add: initial_run_def balanced_def)

lemma run_script:
  assumes "all_good os" and "script_ok s"
  shows "\<exists>st. run os False (script_nodes s) = (st, Return (Some (snd (script_run os ''.'' [] s)))) \<and>
    settled st \<and> launches st = fst (script_run os ''.'' [] s)"
proof -
  have i: "cwd initial_run = ''.''" "launches initial_run = []" "\<not> in_pipe initial_run"
    "piped initial_run = []" by (simp_all add: initial_run_def)
  have "script_run os (cwd initial_run) (launches initial_run) s =
      (fst (script_run os ''.'' [] s), snd (script_run os ''.'' [] s))" by (simp add: i)
  from script_correct [OF assms(1) script_ok_clauses [OF assms(2)] initial_run_balanced i(3,4) this]
  show ?thesis by (simp add: run_def)
qed

text \<open>Scripts with one kind of operator; a change of directory after \<open>||\<close> would bring another.\<close>

primrec first_clause :: "script \<Rightarrow> clause" where
  "first_clause (Single cl) = cl"
| "first_clause (Seq cl a s) = cl"

primrec uniform :: "bool \<Rightarrow> script \<Rightarrow> bool" where
  "uniform a (Single cl) \<longleftrightarrow> True"
| "uniform a (Seq cl b s) \<longleftrightarrow> b = a \<and> (a \<or> dirs (first_clause s) = []) \<and> uniform a s"

lemma shell_from_skip:
  "uniform a s \<Longrightarrow> a \<noteq> (code = 0) \<Longrightarrow> shell_from os False dir started code s = (started, code)"
  by (induction s arbitrary: dir) auto

lemma shell_from_run:
  "uniform a s \<Longrightarrow> shell_from os True dir started code s = script_run os dir started s"
proof (induction s arbitrary: dir started code)
  case (Seq cl b s)
  obtain started1 code1 where r: "run_clause os dir started cl = (started1, code1)"
    by (cases "run_clause os dir started cl")
  with Seq shell_from_skip [of a s code1] show ?case
    by (cases "a = (code1 = 0)") auto
qed simp

text \<open>C5: on a system where every open and \<open>Popen\<close> succeeds, running the pipeline of a script
  without \<open>verbose\<close> starts exactly the processes of the script's clauses up to the first one that
  decides its operator, each in the directory and with the input the script gives it, returns the
  exit code of the last process started, and leaves no process unwaited and no file open.\<close>

theorem run_refines_script:
  assumes "all_good os" and "script_ok s"
  shows "\<exists>st. run os False (script_nodes s) = (st, Return (Some (snd (script_run os ''.'' [] s)))) \<and>
    launches st = fst (script_run os ''.'' [] s) \<and>
    waited st = [0..<length (launches st)] \<and> opened st = closed st \<and> files_to_close st = []"
  using run_script [OF assms] by (auto simp: settled_def)

definition sample_clause :: "string \<Rightarrow> clause" where
  "sample_clause name = \<lparr>dirs = [], commands = [new_command name]\<rparr>"

definition sample_os :: os where
  "sample_os = \<lparr>can_open = (\<lambda>f. True),
     exit_code = (\<lambda>h. Some (if l_argv (last h) = [''false''] then 1 else 0)), environ = []\<rparr>"

lemma sample_os_good: "all_good sample_os"
  by (simp add: all_good_def sample_os_def)

lemma sample_and_ok: "script_ok (Seq (sample_clause ''false'') True (Single (sample_clause ''ls'')))"
  by code_simp

lemma sample_uniform: "uniform True (Seq (sample_clause ''false'') True (Single (sample_clause ''ls'')))"
  by code_simp

theorem run_refines_script_witness:
  "\<exists>st. run sample_os False (script_nodes (Seq (sample_clause ''false'') True (Single (sample_clause ''ls'')))) =
      (st, Return (Some 1)) \<and> map l_argv (launches st) = [[''false'']]"
proof -
  have "snd (script_run sample_os ''.'' [] (Seq (sample_clause ''false'') True (Single (sample_clause ''ls'')))) = 1"
    "map l_argv (fst (script_run sample_os ''.'' []
      (Seq (sample_clause ''false'') True (Single (sample_clause ''ls''))))) = [[''false'']]"
    by code_simp+
  with run_refines_script [OF sample_os_good sample_and_ok] show ?thesis by auto
qed

text \<open>C19: when all operators of a script are the same, a run starts the processes and returns the
  code that a shell would. With mixed operators it need not: of \<open>true || b && c\<close> a shell
  runs \<open>true\<close> and \<open>c\<close>, the code runs \<open>true\<close> alone.\<close>

theorem run_matches_shell:
  assumes "all_good os" and "script_ok s" and "uniform a s"
  shows "(\<exists>st. run os False (script_nodes s) = (st, Return (Some (snd (shell_run os s)))) \<and>
      launches st = fst (shell_run os s)) \<and>
    parse [''true'', ''||'', ''b'', ''&&'', ''c''] = Return (script_nodes
      (Seq (sample_clause ''true'') False (Seq (sample_clause ''b'') True (Single (sample_clause ''c''))))) \<and>
    map l_argv (fst (shell_run sample_os
      (Seq (sample_clause ''true'') False (Seq (sample_clause ''b'') True (Single (sample_clause ''c'')))))) =
      [[''true''], [''c'']] \<and>
    map l_argv (launches (fst (run sample_os False (script_nodes
      (Seq (sample_clause ''true'') False (Seq (sample_clause ''b'') True (Single (sample_clause ''c'')))))))) =
      [[''true'']]"
proof (intro conjI)
  show "\<exists>st. run os False (script_nodes s) = (st, Return (Some (snd (shell_run os s)))) \<and>
      launches st = fst (shell_run os s)"
    using run_script [OF assms(1,2)] by (auto simp: shell_run_def shell_from_run [OF assms(3)])
qed code_simp+

theorem run_matches_shell_witness:
  "\<exists>st. run sample_os False (script_nodes (Seq (sample_clause ''false'') True (Single (sample_clause ''ls'')))) =
    (st, Return (Some (snd (shell_run sample_os
      (Seq (sample_clause ''false'') True (Single (sample_clause ''ls'')))))))"
  using run_matches_shell [OF sample_os_good sample_and_ok sample_uniform] by blast

text \<open>With \<open>verbose\<close>, a script with an operator never gets past its first clause: when the
  processes of that clause have ended and its files are closed, the line about the operator
  reads the unbound \<open>retval\<close>.\<close>

theorem run_verbose_unbound:
  assumes "all_good os" and "script_ok (Seq cl a s)"
  shows "\<exists>st. run os True (script_nodes (Seq cl a s)) = (st, Raise (UnboundLocalError ''retval'')) \<and>
    launches st = fst (run_clause os ''.'' [] cl) \<and> settled st"
proof -
  obtain started code where r: "run_clause os ''.'' [] cl = (started, code)"
    by (cases "run_clause os ''.'' [] cl")
  then have r': "run_clause os (cwd initial_run) (launches initial_run) cl = (started, code)"
    by (simp add: initial_run_def)
  have i: "\<not> in_pipe initial_run" "piped initial_run = []" by (simp_all add: initial_run_def)
  from script_ok_clauses [OF assms(2)] have cl: "commands cl \<noteq> []"
    "list_all (\<lambda>c. cmd_stdout c \<noteq> Some ToStdout) (commands cl)" by simp_all
  from run_clause_correct [OF assms(1) cl initial_run_balanced i r',
      where rest = "(if a then AndN else OrN) # script_nodes s" and verbose = True]
  obtain st1 st' where "run_loop os True (script_nodes (Seq cl a s)) initial_run =
      run_next os True ((if a then AndN else OrN) # script_nodes s) st1"
    "exec_piped_commands st1 = (st', code)" "settled st'" "launches st' = started" by auto
  with r show ?thesis by (cases a) (auto simp: run_def)
qed

theorem run_verbose_unbound_witness:
  "\<exists>st. run sample_os True (script_nodes (Seq (sample_clause ''false'') True (Single (sample_clause ''ls'')))) =
    (st, Raise (UnboundLocalError ''retval''))"
  using run_verbose_unbound [OF sample_os_good sample_and_ok] by blast

end
