(* ===== verification/Patchset.thy ===== *)
theory Patchset
  imports Prelude
begin

text \<open>
  The patches of \<open>utils/check-style.py\<close>: \<open>PatchChunkLine\<close>, \<open>PatchChunk\<close>, \<open>Patch\<close>,
  \<open>parse_patchset\<close>, \<open>remove_trailing_whitespace_changes\<close>, and \<open>indent\<close> and \<open>indent_files\<close> with the
  external tools as arguments. A line of kind BOTH is one object that is both a source and a
  destination line of its chunk, so a chunk is a list of line objects and the lists that \<open>src()\<close>
  and \<open>dst()\<close> return are lists of positions in it.
\<close>

section \<open>Lines, chunks, patches\<close>

datatype line_type = NoType | SRC | DST | BOTH

record chunk_line =
  line_type :: line_type
  line_text :: string

record chunk =
  src_pos :: nat
  dst_pos :: nat
  chunk_lines :: "chunk_line list"

record patch =
  patch_src :: string
  patch_dst :: string
  chunks :: "chunk list"

definition set_src :: "string \<Rightarrow> chunk_line" where
  "set_src s = \<lparr>line_type = SRC, line_text = s\<rparr>"

definition set_dst :: "string \<Rightarrow> chunk_line" where
  "set_dst s = \<lparr>line_type = DST, line_text = s\<rparr>"

definition set_both :: "string \<Rightarrow> chunk_line" where
  "set_both s = \<lparr>line_type = BOTH, line_text = s\<rparr>"

definition append_to_line :: "string \<Rightarrow> chunk_line \<Rightarrow> chunk_line" where
  "append_to_line s l = l\<lparr>line_text := line_text l @ s\<rparr>"

definition is_src :: "chunk_line \<Rightarrow> bool" where
  "is_src l \<longleftrightarrow> line_type l = SRC \<or> line_type l = BOTH"

definition is_dst :: "chunk_line \<Rightarrow> bool" where
  "is_dst l \<longleftrightarrow> line_type l = DST \<or> line_type l = BOTH"

text \<open>The source and the destination lines of a chunk, as positions.\<close>

definition chunk_src :: "chunk_line list \<Rightarrow> nat list" where
  "chunk_src ls = filter (\<lambda>i. is_src (ls ! i)) [0..<length ls]"

definition chunk_dst :: "chunk_line list \<Rightarrow> nat list" where
  "chunk_dst ls = filter (\<lambda>i. is_dst (ls ! i)) [0..<length ls]"

section \<open>Writing\<close>

definition newline :: string where
  "newline = [CHR 10]"

definition write_line :: "chunk_line \<Rightarrow> string res" where
  "write_line l =
     (case line_type l of
        SRC \<Rightarrow> Return (''-'' @ line_text l @ newline)
      | DST \<Rightarrow> Return (''+'' @ line_text l @ newline)
      | BOTH \<Rightarrow> Return ('' '' @ line_text l @ newline)
      | NoType \<Rightarrow> Raise (GenericException ''invalid patch''))"

definition chunk_header :: "chunk \<Rightarrow> string" where
  "chunk_header c =
     ''@@ -'' @ str_of_nat (src_pos c) @ '','' @ str_of_nat (length (chunk_src (chunk_lines c))) @
     '' +'' @ str_of_nat (dst_pos c) @ '','' @ str_of_nat (length (chunk_dst (chunk_lines c))) @
     '' @@'' @ newline"

definition write_chunk :: "chunk \<Rightarrow> string list res" where
  "write_chunk c =
     bind_res (map_res write_line (chunk_lines c)) (\<lambda>ls. Return (chunk_header c # ls))"

definition write_patch :: "patch \<Rightarrow> string list res" where
  "write_patch p =
     bind_res (map_res write_chunk (chunks p)) (\<lambda>cs.
       Return ((''--- '' @ patch_src p @ newline) # (''+++ '' @ patch_dst p @ newline) # concat cs))"

section \<open>Parsing\<close>

text \<open>\<open>(.*)$\<close>: the rest of the line, without the newline at its end.\<close>

definition rest_of_line :: "string \<Rightarrow> string option" where
  "rest_of_line s =
     (let r = (if s \<noteq> [] \<and> last s = CHR 10 then butlast s else s)
      in if CHR 10 \<in> set r then None else Some r)"

definition match_prefix :: "string \<Rightarrow> string \<Rightarrow> string option" where
  "match_prefix p line = (if prefix p line then rest_of_line (drop (length p) line) else None)"

text \<open>\<open>chunk_start\<close>: the two positions; the two lengths are matched and not used.\<close>

definition match_range :: "string \<Rightarrow> string \<Rightarrow> (nat \<times> string) option" where
  "match_range p s =
     Option.bind (expect p s) (\<lambda>s. Option.bind (take_number s) (\<lambda>(a, s).
     Option.bind (expect '','' s) (\<lambda>s. Option.bind (take_number s) (\<lambda>(b, s). Some (a, s)))))"

definition match_chunk_start :: "string \<Rightarrow> (nat \<times> nat) option" where
  "match_chunk_start line =
     Option.bind (match_range ''@@ -'' line) (\<lambda>(a, s).
     Option.bind (match_range '' +'' s) (\<lambda>(b, s).
     Option.bind (expect '' @@'' s) (\<lambda>_. Some (a, b))))"

text \<open>
  The loop's variables: the patches so far, of which \<open>current_patch\<close> is the last, and the position
  of \<open>current_chunk\<close>, which stays that of an earlier patch until the next chunk starts.
\<close>

type_synonym patch_state = "patch list \<times> (nat \<times> nat) option"

definition update_at :: "nat \<Rightarrow> ('a \<Rightarrow> 'a) \<Rightarrow> 'a list \<Rightarrow> 'a list" where
  "update_at i f xs = xs[i := f (xs ! i)]"

definition add_line :: "chunk_line \<Rightarrow> patch_state \<Rightarrow> patch_state res" where
  "add_line l st =
     (let (ps, cur) = st in
      case cur of
        None \<Rightarrow> Raise (UnboundLocalError ''current_chunk'')
      | Some (i, j) \<Rightarrow>
          Return (update_at i (\<lambda>p. p\<lparr>chunks :=
            update_at j (\<lambda>c. c\<lparr>chunk_lines := chunk_lines c @ [l]\<rparr>) (chunks p)\<rparr>) ps, cur))"

definition add_chunk :: "chunk \<Rightarrow> patch_state \<Rightarrow> patch_state res" where
  "add_chunk c st =
     (let (ps, cur) = st in
      if ps = [] then Raise AttributeError
      else Return (butlast ps @ [(last ps)\<lparr>chunks := chunks (last ps) @ [c]\<rparr>],
        Some (length ps - 1, length (chunks (last ps)))))"

definition parse_line :: "string \<Rightarrow> patch_state \<Rightarrow> patch_state res" where
  "parse_line line st =
     (let (ps, cur) = st in
      case match_prefix ''--- '' line of
        Some s \<Rightarrow> Return (ps @ [\<lparr>patch_src = s, patch_dst = [], chunks = []\<rparr>], cur)
      | None \<Rightarrow> (case match_prefix ''+++ '' line of
        Some d \<Rightarrow>
          if ps = [] then Raise AttributeError
          else Return (butlast ps @ [(last ps)\<lparr>patch_dst := d\<rparr>], cur)
      | None \<Rightarrow> (case match_chunk_start line of
        Some (a, b) \<Rightarrow> add_chunk \<lparr>src_pos = a, dst_pos = b, chunk_lines = []\<rparr> st
      | None \<Rightarrow> (case match_prefix ''-'' line of
        Some s \<Rightarrow> add_line (set_src s) st
      | None \<Rightarrow> (case match_prefix ''+'' line of
        Some s \<Rightarrow> add_line (set_dst s) st
      | None \<Rightarrow> (case match_prefix '' '' line of
        Some s \<Rightarrow> add_line (set_both s) st
      | None \<Rightarrow> Raise (GenericException [])))))))"

definition parse_patchset :: "string list \<Rightarrow> patch list res" where
  "parse_patchset ls = bind_res (fold_res parse_line ls ([], None)) (\<lambda>(ps, cur). Return ps)"

section \<open>Removing the changes of trailing white space\<close>

text \<open>\<open>^(.*)([ \t]+)$\<close>: the first group takes all but the last character.\<close>

definition match_whitespace :: "string \<Rightarrow> (string \<times> string) option" where
  "match_whitespace s =
     (if s \<noteq> [] \<and> (last s = CHR '' '' \<or> last s = CHR 9) then Some (butlast s, [last s]) else None)"

text \<open>
  The loop over the source lines of one chunk. It reads the lines \<open>src\<close> and \<open>dst\<close> listed
  before the loop and changes them in place; None is the IndexError on \<open>dst[i]\<close>, with the lines
  as they are then.
\<close>

definition fix_line :: "nat \<Rightarrow> nat \<Rightarrow> chunk_line list \<Rightarrow> chunk_line list" where
  "fix_line s d ls =
     (case match_whitespace (line_text (ls ! s)) of
        None \<Rightarrow> ls
      | Some (body, ws) \<Rightarrow>
          if body = line_text (ls ! d) then update_at d (append_to_line ws) ls else ls)"

fun fix_lines :: "nat list \<Rightarrow> nat list \<Rightarrow> chunk_line list \<Rightarrow> bool \<times> chunk_line list" where
  "fix_lines [] ds ls = (True, ls)"
| "fix_lines (s # ss) [] ls = (False, ls)"
| "fix_lines (s # ss) (d # ds) ls = fix_lines ss ds (fix_line s d ls)"

definition fix_chunk :: "chunk \<Rightarrow> bool \<times> chunk" where
  "fix_chunk c =
     (let (ok, ls) = fix_lines (chunk_src (chunk_lines c)) (chunk_dst (chunk_lines c)) (chunk_lines c)
      in (ok, c\<lparr>chunk_lines := ls\<rparr>))"

text \<open>The first chunk with fewer destination lines ends the work on the whole patch set.\<close>

fun fix_chunks :: "chunk list \<Rightarrow> bool \<times> chunk list" where
  "fix_chunks [] = (True, [])"
| "fix_chunks (c # cs) =
     (let (ok, c') = fix_chunk c in
      if ok then (let (ok', cs') = fix_chunks cs in (ok', c' # cs')) else (False, c' # cs))"

fun fix_patches :: "patch list \<Rightarrow> patch list" where
  "fix_patches [] = []"
| "fix_patches (p # ps) =
     (let (ok, cs) = fix_chunks (chunks p); p' = p\<lparr>chunks := cs\<rparr>
      in p' # (if ok then fix_patches ps else ps))"

definition remove_trailing_whitespace_changes :: "string list \<Rightarrow> patch list res" where
  "remove_trailing_whitespace_changes generator =
     bind_res (parse_patchset generator) (\<lambda>ps. Return (fix_patches ps))"

section \<open>Reading what is written\<close>

definition wf_line :: "chunk_line \<Rightarrow> bool" where
  "wf_line l \<longleftrightarrow> line_type l \<noteq> NoType \<and> CHR 10 \<notin> set (line_text l) \<and>
     \<not> (line_type l = SRC \<and> prefix ''-- '' (line_text l)) \<and>
     \<not> (line_type l = DST \<and> prefix ''++ '' (line_text l))"

definition wf_chunk :: "chunk \<Rightarrow> bool" where
  "wf_chunk c \<longleftrightarrow> list_all wf_line (chunk_lines c)"

definition wf_patch :: "patch \<Rightarrow> bool" where
  "wf_patch p \<longleftrightarrow> CHR 10 \<notin> set (patch_src p) \<and> CHR 10 \<notin> set (patch_dst p) \<and> list_all wf_chunk (chunks p)"

lemma rest_of_line_iff:
  "rest_of_line s = Some r \<longleftrightarrow> (s = r \<or> s = r @ newline) \<and> CHR 10 \<notin> set r"
proof (cases "s \<noteq> [] \<and> last s = CHR 10")
  case True
  then obtain t where "s = t @ newline" by (metis append_butlast_last_id newline_def)
  then show ?thesis by (auto simp: rest_of_line_def newline_def)
next
  case False
  then show ?thesis by (auto simp: rest_of_line_def newline_def)
qed

lemma match_prefix_iff:
  "match_prefix p line = Some s \<longleftrightarrow> (line = p @ s \<or> line = p @ s @ newline) \<and> CHR 10 \<notin> set s"
  by (auto simp: match_prefix_def rest_of_line_iff prefix_def)

lemma match_prefix_written: "CHR 10 \<notin> set s \<Longrightarrow> match_prefix p (p @ s @ newline) = Some s"
  by (simp add: match_prefix_iff)

lemma match_prefix_other: "\<not> prefix p line \<Longrightarrow> match_prefix p line = None"
  by (simp add: match_prefix_def)

lemma match_range_written:
  "rest = [] \<or> \<not> is_digit (hd rest) \<Longrightarrow>
    match_range p (p @ str_of_nat a @ '','' @ str_of_nat b @ rest) = Some (a, rest)"
proof -
  assume r: "rest = [] \<or> \<not> is_digit (hd rest)"
  have "\<not> is_digit (CHR '','')" by code_simp
  then have "take_number (str_of_nat a @ '','' @ str_of_nat b @ rest) = Some (a, '','' @ str_of_nat b @ rest)"
    by (intro take_number_written) simp
  with r show ?thesis by (simp add: match_range_def expect_def take_number_written)
qed

lemma match_chunk_header: "match_chunk_start (chunk_header c) = Some (src_pos c, dst_pos c)"
proof -
  let ?s = "length (chunk_src (chunk_lines c))" and ?d = "length (chunk_dst (chunk_lines c))"
  let ?r = "'' +'' @ str_of_nat (dst_pos c) @ '','' @ str_of_nat ?d @ '' @@'' @ newline"
  have "\<not> is_digit (CHR '' '')" by code_simp
  then have "match_range ''@@ -'' (''@@ -'' @ str_of_nat (src_pos c) @ '','' @ str_of_nat ?s @ ?r) = Some (src_pos c, ?r)"
    "match_range '' +'' ?r = Some (dst_pos c, '' @@'' @ newline)"
    by (intro match_range_written; simp)+
  then show ?thesis
    by (simp only: match_chunk_start_def chunk_header_def append_assoc bind.simps prod.case)
      (simp add: expect_def)
qed

definition line_string :: "chunk_line \<Rightarrow> string" where
  "line_string l =
     (case line_type l of SRC \<Rightarrow> ''-'' | DST \<Rightarrow> ''+'' | _ \<Rightarrow> '' '') @ line_text l @ newline"

lemma write_line_wf: "wf_line l \<Longrightarrow> write_line l = Return (line_string l)"
  by (cases "line_type l") (auto simp: wf_line_def write_line_def line_string_def)

lemma prefix_newline: "prefix p (s @ newline) \<Longrightarrow> CHR 10 \<notin> set p \<Longrightarrow> prefix p s"
  by (auto simp: newline_def)

lemma parse_line_written:
  assumes "wf_line l"
  shows "parse_line (line_string l) st = add_line l st"
proof -
  obtain ps cur where st: "st = (ps, cur)" by (cases st)
  have l: "set_src (line_text l) = l" if "line_type l = SRC" using that by (simp add: set_src_def)
  have d: "set_dst (line_text l) = l" if "line_type l = DST" using that by (simp add: set_dst_def)
  have b: "set_both (line_text l) = l" if "line_type l = BOTH" using that by (simp add: set_both_def)
  have t: "CHR 10 \<notin> set (line_text l)" using assms by (simp add: wf_line_def)
  have a1: "line_type l = SRC \<Longrightarrow> \<not> prefix ''-- '' (line_text l @ newline)"
    using assms prefix_newline [of "''-- ''" "line_text l"] by (force simp: wf_line_def)
  have a2: "line_type l = DST \<Longrightarrow> \<not> prefix ''++ '' (line_text l @ newline)"
    using assms prefix_newline [of "''++ ''" "line_text l"] by (force simp: wf_line_def)
  have no1: "match_prefix ''--- '' (line_string l) = None"
    by (rule match_prefix_other, cases "line_type l") (use a1 in \<open>simp_all add: line_string_def\<close>)
  have no2: "match_prefix ''+++ '' (line_string l) = None"
    by (rule match_prefix_other, cases "line_type l") (use a2 in \<open>simp_all add: line_string_def\<close>)
  have no3: "match_chunk_start (line_string l) = None"
    by (cases "line_type l") (simp_all add: line_string_def match_chunk_start_def match_range_def expect_def)
  show ?thesis
  proof (cases "line_type l")
    case SRC
    then have "match_prefix ''-'' (line_string l) = Some (line_text l)"
      using match_prefix_written [OF t, of "''-''"] by (simp add: line_string_def)
    with SRC l st no1 no2 no3 show ?thesis by (simp add: parse_line_def)
  next
    case DST
    then have "match_prefix ''+'' (line_string l) = Some (line_text l)"
        "match_prefix ''-'' (line_string l) = None"
      using match_prefix_written [OF t, of "''+''"] by (simp_all add: line_string_def match_prefix_other)
    with DST d st no1 no2 no3 show ?thesis by (simp add: parse_line_def)
  next
    case BOTH
    then have "match_prefix '' '' (line_string l) = Some (line_text l)"
        "match_prefix ''-'' (line_string l) = None" "match_prefix ''+'' (line_string l) = None"
      using match_prefix_written [OF t, of "'' ''"] by (simp_all add: line_string_def match_prefix_other)
    with BOTH b st no1 no2 no3 show ?thesis by (simp add: parse_line_def)
  qed (use assms in \<open>simp add: wf_line_def\<close>)
qed

lemma write_lines_wf: "list_all wf_line ls \<Longrightarrow> map_res write_line ls = Return (map line_string ls)"
  by (rule map_res_Return) (simp add: list_all_iff write_line_wf)

lemma parse_lines_written:
  "list_all wf_line ls \<Longrightarrow>
    fold_res parse_line (map line_string ls) (ps @ [p\<lparr>chunks := cs @ [c]\<rparr>], Some (length ps, length cs)) =
      Return (ps @ [p\<lparr>chunks := cs @ [c\<lparr>chunk_lines := chunk_lines c @ ls\<rparr>]\<rparr>], Some (length ps, length cs))"
proof (induction ls arbitrary: c)
  case (Cons l ls)
  then have "parse_line (line_string l) (ps @ [p\<lparr>chunks := cs @ [c]\<rparr>], Some (length ps, length cs)) =
      Return (ps @ [p\<lparr>chunks := cs @ [c\<lparr>chunk_lines := chunk_lines c @ [l]\<rparr>]\<rparr>], Some (length ps, length cs))"
    by (simp add: parse_line_written add_line_def update_at_def)
  with Cons show ?case by simp
qed simp

definition chunk_strings :: "chunk \<Rightarrow> string list" where
  "chunk_strings c = chunk_header c # map line_string (chunk_lines c)"

lemma parse_header:
  "parse_line (chunk_header c) (ps @ [p\<lparr>chunks := cs\<rparr>], cur) =
    Return (ps @ [p\<lparr>chunks := cs @ [c\<lparr>chunk_lines := []\<rparr>]\<rparr>], Some (length ps, length cs))"
proof -
  have "match_prefix ''--- '' (chunk_header c) = None" "match_prefix ''+++ '' (chunk_header c) = None"
    by (rule match_prefix_other, simp add: chunk_header_def)+
  then show ?thesis by (simp add: parse_line_def match_chunk_header add_chunk_def)
qed

lemma parse_chunks_written:
  "list_all wf_chunk cs' \<Longrightarrow> \<exists>cur'.
    fold_res parse_line (concat (map chunk_strings cs')) (ps @ [p\<lparr>chunks := cs\<rparr>], cur) =
      Return (ps @ [p\<lparr>chunks := cs @ cs'\<rparr>], cur')"
proof (induction cs' arbitrary: cs cur)
  case (Cons c cs')
  have "fold_res parse_line (chunk_strings c) (ps @ [p\<lparr>chunks := cs\<rparr>], cur) =
      Return (ps @ [p\<lparr>chunks := cs @ [c]\<rparr>], Some (length ps, length cs))"
    using parse_lines_written [of "chunk_lines c", where ps = ps and p = p and cs = cs and c = "c\<lparr>chunk_lines := []\<rparr>"] Cons.prems
    by (simp add: chunk_strings_def parse_header wf_chunk_def)
  with Cons.IH [of "cs @ [c]"] Cons.prems show ?case by (simp add: fold_res_append)
qed simp

definition patch_strings :: "patch \<Rightarrow> string list" where
  "patch_strings p = (''--- '' @ patch_src p @ newline) # (''+++ '' @ patch_dst p @ newline) #
     concat (map chunk_strings (chunks p))"

lemma write_patch_wf: "wf_patch p \<Longrightarrow> write_patch p = Return (patch_strings p)"
proof -
  assume "wf_patch p"
  then have "map_res write_chunk (chunks p) = Return (map chunk_strings (chunks p))"
    by (intro map_res_Return)
      (auto simp: write_chunk_def chunk_strings_def wf_patch_def wf_chunk_def list_all_iff [of wf_chunk] write_lines_wf)
  then show ?thesis by (simp add: write_patch_def patch_strings_def)
qed

lemma parse_patches_written:
  "list_all wf_patch ps' \<Longrightarrow>
    \<exists>cur'. fold_res parse_line (concat (map patch_strings ps')) (ps, cur) = Return (ps @ ps', cur')"
proof (induction ps' arbitrary: ps cur)
  case (Cons p ps')
  let ?p = "\<lparr>patch_src = patch_src p, patch_dst = patch_dst p, chunks = []\<rparr>"
  have t: "CHR 10 \<notin> set (patch_src p)" "CHR 10 \<notin> set (patch_dst p)" "list_all wf_chunk (chunks p)"
    using Cons.prems by (simp_all add: wf_patch_def)
  have "fold_res parse_line [''--- '' @ patch_src p @ newline, ''+++ '' @ patch_dst p @ newline] (ps, cur) =
      Return (ps @ [?p\<lparr>chunks := []\<rparr>], cur)"
    using match_prefix_written [OF t(1), of "''--- ''"] match_prefix_written [OF t(2), of "''+++ ''"]
    by (simp add: parse_line_def match_prefix_other)
  moreover obtain cur1 where "fold_res parse_line (concat (map chunk_strings (chunks p)))
      (ps @ [?p\<lparr>chunks := []\<rparr>], cur) = Return (ps @ [?p\<lparr>chunks := [] @ chunks p\<rparr>], cur1)"
    using parse_chunks_written [OF t(3)] by blast
  moreover have "patch_strings p = [''--- '' @ patch_src p @ newline, ''+++ '' @ patch_dst p @ newline] @
      concat (map chunk_strings (chunks p))" by (simp add: patch_strings_def)
  moreover have "?p\<lparr>chunks := [] @ chunks p\<rparr> = p" by simp
  ultimately have "fold_res parse_line (patch_strings p) (ps, cur) = Return (ps @ [p], cur1)"
    by (simp only: fold_res_append bind_res_simps)
  with Cons.IH [of "ps @ [p]" cur1] Cons.prems show ?case by (simp add: fold_res_append)
qed simp

section \<open>What the parser returns\<close>

definition parse_inv :: "patch_state \<Rightarrow> bool" where
  "parse_inv = (\<lambda>(ps, cur). list_all wf_patch ps \<and>
     (case cur of None \<Rightarrow> True | Some (i, j) \<Rightarrow> i < length ps \<and> j < length (chunks (ps ! i))))"

lemma add_line_inv:
  assumes "parse_inv st" "wf_line l" "add_line l st = Return st'" shows "parse_inv st'"
proof -
  from assms(3) obtain ps i j where st: "st = (ps, Some (i, j))"
    by (auto simp: add_line_def split: prod.splits option.splits)
  with assms(1) have b: "i < length ps" "j < length (chunks (ps ! i))"
    and w: "list_all wf_patch ps" by (auto simp: parse_inv_def)
  then have "wf_patch (ps ! i)" by (simp add: list_all_length)
  then have c: "list_all wf_chunk (chunks (ps ! i))" by (simp add: wf_patch_def)
  then have "wf_chunk (chunks (ps ! i) ! j)" using b by (simp add: list_all_length)
  with assms(2) have "wf_chunk ((chunks (ps ! i) ! j)\<lparr>chunk_lines := chunk_lines (chunks (ps ! i) ! j) @ [l]\<rparr>)"
    by (simp add: wf_chunk_def)
  with c have "list_all wf_chunk (update_at j (\<lambda>c. c\<lparr>chunk_lines := chunk_lines c @ [l]\<rparr>) (chunks (ps ! i)))"
    by (auto simp: update_at_def list_all_iff dest!: set_update_subset_insert [THEN subsetD])
  with \<open>wf_patch (ps ! i)\<close> have "wf_patch ((ps ! i)\<lparr>chunks :=
      update_at j (\<lambda>c. c\<lparr>chunk_lines := chunk_lines c @ [l]\<rparr>) (chunks (ps ! i))\<rparr>)"
    by (simp add: wf_patch_def)
  with w have "list_all wf_patch (update_at i (\<lambda>p. p\<lparr>chunks :=
      update_at j (\<lambda>c. c\<lparr>chunk_lines := chunk_lines c @ [l]\<rparr>) (chunks p)\<rparr>) ps)"
    by (auto simp: update_at_def list_all_iff dest!: set_update_subset_insert [THEN subsetD])
  with assms(3) b st show ?thesis by (auto simp: add_line_def parse_inv_def update_at_def)
qed

lemma list_all_last: "list_all P xs \<Longrightarrow> xs \<noteq> [] \<Longrightarrow> list_all P (butlast xs) \<and> P (last xs)"
  by (auto simp: list_all_iff dest: in_set_butlastD)

lemma nth_butlast_last: "xs \<noteq> [] \<Longrightarrow> i < length xs \<Longrightarrow>
    (butlast xs @ [y]) ! i = (if i = length xs - 1 then y else xs ! i)"
  by (auto simp: nth_append nth_butlast)

lemma add_chunk_inv:
  "parse_inv st \<Longrightarrow> wf_chunk c \<Longrightarrow> add_chunk c st = Return st' \<Longrightarrow> parse_inv st'"
  by (auto simp: add_chunk_def parse_inv_def wf_patch_def nth_append split: if_splits prod.splits
      dest: list_all_last)

lemma src_text_wf:
  "match_prefix ''-'' line = Some s \<Longrightarrow> match_prefix ''--- '' line = None \<Longrightarrow> wf_line (set_src s)"
proof -
  assume m: "match_prefix ''-'' line = Some s" "match_prefix ''--- '' line = None"
  have "\<not> prefix ''-- '' s"
  proof
    assume "prefix ''-- '' s"
    then obtain u where u: "s = ''-- '' @ u" by (auto elim: prefixE)
    with m(1) have "match_prefix ''--- '' line = Some u" by (simp add: match_prefix_iff)
    with m(2) show False by simp
  qed
  with m(1) show ?thesis by (simp add: wf_line_def set_src_def match_prefix_iff)
qed

lemma dst_text_wf:
  "match_prefix ''+'' line = Some s \<Longrightarrow> match_prefix ''+++ '' line = None \<Longrightarrow> wf_line (set_dst s)"
proof -
  assume m: "match_prefix ''+'' line = Some s" "match_prefix ''+++ '' line = None"
  have "\<not> prefix ''++ '' s"
  proof
    assume "prefix ''++ '' s"
    then obtain u where u: "s = ''++ '' @ u" by (auto elim: prefixE)
    with m(1) have "match_prefix ''+++ '' line = Some u" by (simp add: match_prefix_iff)
    with m(2) show False by simp
  qed
  with m(1) show ?thesis by (simp add: wf_line_def set_dst_def match_prefix_iff)
qed

lemma both_text_wf: "match_prefix '' '' line = Some s \<Longrightarrow> wf_line (set_both s)"
  by (simp add: wf_line_def set_both_def match_prefix_iff)

lemma new_patch_inv:
  "parse_inv (ps, cur) \<Longrightarrow> CHR 10 \<notin> set s \<Longrightarrow>
    parse_inv (ps @ [\<lparr>patch_src = s, patch_dst = [], chunks = []\<rparr>], cur)"
  by (auto simp: parse_inv_def wf_patch_def nth_append split: option.splits)

lemma set_patch_dst_inv:
  "parse_inv (ps, cur) \<Longrightarrow> CHR 10 \<notin> set d \<Longrightarrow> ps \<noteq> [] \<Longrightarrow>
    parse_inv (butlast ps @ [(last ps)\<lparr>patch_dst := d\<rparr>], cur)"
  using list_all_last [of wf_patch ps]
  by (auto simp: parse_inv_def wf_patch_def nth_butlast_last last_conv_nth split: option.splits)

lemma parse_line_inv:
  assumes I: "parse_inv st" and r: "parse_line line st = Return st'" shows "parse_inv st'"
proof -
  obtain ps cur where st: "st = (ps, cur)" by (cases st)
  note r = r [unfolded parse_line_def st Let_def prod.case]
  show ?thesis
  proof (cases "match_prefix ''--- '' line")
    case (Some s)
    with r I st show ?thesis by (auto simp: match_prefix_iff intro: new_patch_inv)
  next
    case n1: None
    show ?thesis
    proof (cases "match_prefix ''+++ '' line")
      case (Some d)
      with n1 r I st show ?thesis
        by (auto simp: match_prefix_iff intro: set_patch_dst_inv split: if_splits)
    next
      case n2: None
      show ?thesis
      proof (cases "match_chunk_start line")
        case (Some ab)
        with n1 n2 r I st show ?thesis
          by (cases ab) (auto simp: wf_chunk_def elim!: add_chunk_inv [rotated 2])
      next
        case n3: None
        note r = r [unfolded n1 n2 n3 option.case]
        from r n1 n2 show ?thesis
          by (auto split: option.split_asm
              intro: add_line_inv [OF I [unfolded st]] src_text_wf dst_text_wf both_text_wf)
      qed
    qed
  qed
qed

lemma parse_patchset_wf: "parse_patchset ls = Return ps \<Longrightarrow> list_all wf_patch ps"
proof -
  assume "parse_patchset ls = Return ps"
  then obtain cur where "fold_res parse_line ls ([], None) = Return (ps, cur)"
    by (auto simp: parse_patchset_def bind_res_eq_Return)
  moreover have "parse_inv ([], None)" by (simp add: parse_inv_def)
  ultimately have "parse_inv (ps, cur)"
    by (rule fold_res_invariant [where P = parse_inv]) (rule parse_line_inv)
  then show ?thesis by (simp add: parse_inv_def)
qed

lemma write_parse: "list_all wf_patch ps \<Longrightarrow>
    map_res write_patch ps = Return (map patch_strings ps) \<and>
    parse_patchset (concat (map patch_strings ps)) = Return ps"
  using parse_patches_written [of ps "[]" None]
  by (auto simp: parse_patchset_def list_all_iff intro!: map_res_Return write_patch_wf)

text \<open>C12: a patch set that \<open>parse_patchset\<close> returns is written by \<open>Patch.write\<close> without an
  exception, and what is written parses to the same patch set.\<close>

theorem patchset_roundtrip:
  assumes "parse_patchset ls = Return ps"
  shows "\<exists>out. map_res write_patch ps = Return out \<and> parse_patchset (concat out) = Return ps"
  using write_parse [OF parse_patchset_wf [OF assms]] by blast

definition sample_diff :: "string list" where
  "sample_diff = [''--- a'' @ newline, ''+++ b'' @ newline, ''@@ -1,2 +1,2 @@'' @ newline,
     ''-x '' @ newline, ''+x'' @ newline, '' y'' @ newline]"

theorem patchset_roundtrip_witness:
  "\<exists>ps out. parse_patchset sample_diff = Return ps \<and> map_res write_patch ps = Return out \<and>
     parse_patchset (concat out) = Return ps"
proof -
  have "parse_patchset sample_diff = Return
      [\<lparr>patch_src = ''a'', patch_dst = ''b'', chunks = [\<lparr>src_pos = 1, dst_pos = 1,
        chunk_lines = [set_src ''x '', set_dst ''x'', set_both ''y'']\<rparr>]\<rparr>]"
    by code_simp
  from patchset_roundtrip [OF this] this show ?thesis by blast
qed

section \<open>What the white space pass changes\<close>

text \<open>A destination text that is the source text without its last space or tab gets it back.\<close>

definition fix_text :: "string \<Rightarrow> string \<Rightarrow> string" where
  "fix_text s d = (if s \<noteq> [] \<and> last s \<in> {CHR '' '', CHR 9} \<and> butlast s = d then s else d)"

lemma fix_line_eq:
  "d < length ls \<Longrightarrow>
    fix_line s d ls = ls[d := (ls ! d)\<lparr>line_text := fix_text (line_text (ls ! s)) (line_text (ls ! d))\<rparr>]"
proof -
  assume d: "d < length ls"
  have same: "ls[d := (ls ! d)\<lparr>line_text := line_text (ls ! d)\<rparr>] = ls" by simp
  show ?thesis
  proof (cases "line_text (ls ! s) \<noteq> [] \<and> last (line_text (ls ! s)) \<in> {CHR '' '', CHR 9} \<and>
      butlast (line_text (ls ! s)) = line_text (ls ! d)")
    case True
    then have "line_text (ls ! d) @ [last (line_text (ls ! s))] = line_text (ls ! s)"
      by (metis append_butlast_last_id)
    with True show ?thesis
      by (auto simp: fix_line_def match_whitespace_def fix_text_def update_at_def append_to_line_def)
  next
    case False
    with same show ?thesis by (auto simp: fix_line_def match_whitespace_def fix_text_def)
  qed
qed

lemma fix_line_length [simp]: "length (fix_line s d ls) = length ls"
  by (auto simp: fix_line_def update_at_def split: option.split)

lemma fix_text_same [simp]: "fix_text t t = t"
proof -
  have "butlast t \<noteq> t" if "t \<noteq> []" using that by (metis append_butlast_last_id not_Cons_self2 self_append_conv)
  then show ?thesis by (auto simp: fix_text_def)
qed

lemma fix_lines_ok: "fst (fix_lines ss ds ls) \<longleftrightarrow> length ss \<le> length ds"
  by (induction ss ds ls rule: fix_lines.induct) auto

text \<open>A line is changed at most once, by one blank, and keeps its type.\<close>

definition extends :: "chunk_line \<Rightarrow> chunk_line \<Rightarrow> bool" where
  "extends l l' \<longleftrightarrow> line_type l' = line_type l \<and>
     (line_text l' = line_text l \<or> line_text l' = line_text l @ '' '' \<or> line_text l' = line_text l @ [CHR 9])"

lemma extends_refl [simp]: "extends l l"
  by (simp add: extends_def)

lemma extends_fix: "extends l (l\<lparr>line_text := fix_text t (line_text l)\<rparr>)"
proof (cases "t \<noteq> [] \<and> last t \<in> {CHR '' '', CHR 9} \<and> butlast t = line_text l")
  case True
  then have "t = line_text l @ [last t]" by (metis append_butlast_last_id)
  with True show ?thesis by (auto simp: extends_def fix_text_def)
next
  case False
  then show ?thesis by (auto simp: extends_def fix_text_def)
qed

lemma fix_lines_extends:
  "distinct ds \<Longrightarrow> set ds \<subseteq> {..<length ls} \<Longrightarrow>
    length (snd (fix_lines ss ds ls)) = length ls \<and>
    (\<forall>i < length ls. extends (ls ! i) (snd (fix_lines ss ds ls) ! i)) \<and>
    (\<forall>i < length ls. i \<notin> set ds \<longrightarrow> snd (fix_lines ss ds ls) ! i = ls ! i)"
proof (induction ss ds ls rule: fix_lines.induct)
  case (3 s ss d ds ls)
  let ?ls = "fix_line s d ls"
  have e: "?ls = ls[d := (ls ! d)\<lparr>line_text := fix_text (line_text (ls ! s)) (line_text (ls ! d))\<rparr>]"
    using 3 by (intro fix_line_eq) simp
  from 3 have IH: "length (snd (fix_lines ss ds ?ls)) = length ls"
    "\<And>i. i < length ls \<Longrightarrow> extends (?ls ! i) (snd (fix_lines ss ds ?ls) ! i)"
    "\<And>i. i < length ls \<Longrightarrow> i \<notin> set ds \<Longrightarrow> snd (fix_lines ss ds ?ls) ! i = ?ls ! i"
    by auto
  have "extends (ls ! i) (snd (fix_lines ss ds ?ls) ! i)" if i: "i < length ls" for i
  proof (cases "i = d")
    case True
    with 3 have "snd (fix_lines ss ds ?ls) ! i = ?ls ! i" by (intro IH(3) i) simp
    with True i show ?thesis by (simp add: e extends_fix)
  next
    case False
    with IH(2) [OF i] show ?thesis by (simp add: e)
  qed
  with IH(1,3) show ?case by (auto simp: e)
qed auto

lemma chunk_positions:
  "distinct (chunk_src ls)" "set (chunk_src ls) \<subseteq> {..<length ls}"
  "distinct (chunk_dst ls)" "set (chunk_dst ls) \<subseteq> {..<length ls}"
  by (auto simp: chunk_src_def chunk_dst_def)

definition extends_chunk :: "chunk \<Rightarrow> chunk \<Rightarrow> bool" where
  "extends_chunk c c' \<longleftrightarrow> chunk_header c' = chunk_header c \<and> list_all2 extends (chunk_lines c) (chunk_lines c')"

definition extends_patch :: "patch \<Rightarrow> patch \<Rightarrow> bool" where
  "extends_patch p p' \<longleftrightarrow> patch_src p' = patch_src p \<and> patch_dst p' = patch_dst p \<and>
     list_all2 extends_chunk (chunks p) (chunks p')"

lemma extends_positions:
  "list_all2 extends ls ls' \<Longrightarrow> chunk_src ls' = chunk_src ls \<and> chunk_dst ls' = chunk_dst ls"
proof -
  assume e: "list_all2 extends ls ls'"
  then have "length ls' = length ls" and t: "\<And>i. i < length ls \<Longrightarrow> line_type (ls' ! i) = line_type (ls ! i)"
    by (auto simp: list_all2_conv_all_nth extends_def)
  then show ?thesis
    by (auto simp: chunk_src_def chunk_dst_def is_src_def is_dst_def intro!: filter_cong)
qed

lemma fix_chunk_extends: "extends_chunk c (snd (fix_chunk c))"
proof -
  let ?ls = "chunk_lines c"
  have "list_all2 extends ?ls (snd (fix_lines (chunk_src ?ls) (chunk_dst ?ls) ?ls))"
    using fix_lines_extends [OF chunk_positions(3,4), of "chunk_src ?ls" ?ls]
    by (simp add: list_all2_conv_all_nth)
  with extends_positions [OF this] show ?thesis
    by (simp add: extends_chunk_def fix_chunk_def chunk_header_def case_prod_beta)
qed

lemma fix_chunks_extends: "list_all2 extends_chunk cs (snd (fix_chunks cs))"
proof (induction cs)
  case (Cons c cs)
  have "list_all2 extends_chunk cs cs" by (rule list_all2_refl) (simp add: extends_chunk_def list_all2_refl)
  with Cons fix_chunk_extends [of c] show ?case by (auto simp: case_prod_beta)
qed simp

text \<open>The white space pass raises nothing of its own; every patch keeps its names, every
  chunk its header with positions and counts, and every line its type, with its text unchanged or
  longer by one space or tab.\<close>

theorem whitespace_pass_extends:
  "remove_trailing_whitespace_changes ls =
     (case parse_patchset ls of Inl e \<Rightarrow> Raise e | Inr ps \<Rightarrow> Return (fix_patches ps)) \<and>
   list_all2 extends_patch ps (fix_patches ps)"
proof
  show "list_all2 extends_patch ps (fix_patches ps)"
  proof (induction ps)
    case (Cons p ps)
    have "list_all2 extends_chunk cs cs" for cs
      by (rule list_all2_refl) (simp add: extends_chunk_def list_all2_refl)
    then have "list_all2 extends_patch ps ps" by (intro list_all2_refl) (simp add: extends_patch_def)
    moreover have "extends_patch p (p\<lparr>chunks := snd (fix_chunks (chunks p))\<rparr>)"
      by (simp add: extends_patch_def fix_chunks_extends)
    ultimately show ?case using Cons by (auto simp: case_prod_beta)
  qed simp
qed (simp add: remove_trailing_whitespace_changes_def bind_res_def)

text \<open>
  Source and destination lines that meet in the loop are the same object or the destination line
  is a pure DST line: then no source line is written to.
\<close>

definition unshared :: "chunk_line list \<Rightarrow> bool" where
  "unshared ls \<longleftrightarrow> list_all (\<lambda>(s, d). s = d \<or> line_type (ls ! d) = DST) (zip (chunk_src ls) (chunk_dst ls))"

lemma fix_lines_unshared:
  assumes D: "distinct ds" "set ds \<subseteq> {..<length ls}"
  shows "list_all (\<lambda>(s, d). s = d \<or> d \<notin> S) (zip ss ds) \<Longrightarrow> set ss \<subseteq> S \<Longrightarrow>
    (\<forall>i < length ls. i \<in> S \<longrightarrow> snd (fix_lines ss ds ls) ! i = ls ! i) \<and>
    (\<forall>k < min (length ss) (length ds).
      line_text (snd (fix_lines ss ds ls) ! (ds ! k)) = fix_text (line_text (ls ! (ss ! k))) (line_text (ls ! (ds ! k))))"
  using D
proof (induction ss ds ls rule: fix_lines.induct)
  case (3 s ss d ds ls)
  let ?ls = "fix_line s d ls"
  have e: "?ls = ls[d := (ls ! d)\<lparr>line_text := fix_text (line_text (ls ! s)) (line_text (ls ! d))\<rparr>]"
    using 3 by (intro fix_line_eq) simp
  have S: "?ls ! i = ls ! i" if "i \<in> S" for i
    by (cases "i = d") (use 3(2) that e in auto)
  have O: "?ls ! i = ls ! i" if "i \<noteq> d" for i
    using that by (simp add: e)
  from 3 have IH: "\<And>i. i < length ls \<Longrightarrow> i \<in> S \<Longrightarrow> snd (fix_lines ss ds ?ls) ! i = ?ls ! i"
    "\<And>k. k < min (length ss) (length ds) \<Longrightarrow> line_text (snd (fix_lines ss ds ?ls) ! (ds ! k)) =
      fix_text (line_text (?ls ! (ss ! k))) (line_text (?ls ! (ds ! k)))" by auto
  have keep: "snd (fix_lines ss ds ?ls) ! d = ?ls ! d"
    using fix_lines_extends [of ds ?ls ss] 3(4,5) by auto
  have "line_text (snd (fix_lines (s # ss) (d # ds) ls) ! ((d # ds) ! k)) =
      fix_text (line_text (ls ! ((s # ss) ! k))) (line_text (ls ! ((d # ds) ! k)))"
    if k: "k < min (length (s # ss)) (length (d # ds))" for k
  proof (cases k)
    case 0
    with keep 3(5) show ?thesis by (simp add: e)
  next
    case (Suc j)
    with k have j: "j < min (length ss) (length ds)" by simp
    then have "ss ! j \<in> S" "ds ! j \<noteq> d" using 3(3,4) by auto
    with IH(2) [OF j] Suc show ?thesis by (simp add: S O)
  qed
  with IH(1) S show ?case by simp
qed auto

text \<open>In a chunk where the source and the destination line at the same position are one
  object or a removed and an added line, the pass leaves every source line as it is and gives each
  destination line the text of its source line when they differ by one space or tab at the end.
  Without that condition it may change a source line: when a removed line precedes two context
  lines that differ by a blank, the second of them gets it too.\<close>

theorem whitespace_pass_chunk:
  assumes "unshared ls"
  shows "snd (fix_chunk \<lparr>src_pos = a, dst_pos = b, chunk_lines = ls\<rparr>) =
      \<lparr>src_pos = a, dst_pos = b, chunk_lines = snd (fix_lines (chunk_src ls) (chunk_dst ls) ls)\<rparr> \<and>
    (\<forall>i < length ls. is_src (ls ! i) \<longrightarrow> snd (fix_lines (chunk_src ls) (chunk_dst ls) ls) ! i = ls ! i) \<and>
    (\<forall>k < min (length (chunk_src ls)) (length (chunk_dst ls)).
      line_text (snd (fix_lines (chunk_src ls) (chunk_dst ls) ls) ! (chunk_dst ls ! k)) =
        fix_text (line_text (ls ! (chunk_src ls ! k))) (line_text (ls ! (chunk_dst ls ! k)))) \<and>
    (let ls' = [set_src ''q'', set_both ''a '', set_both ''a''] in
      map line_text (snd (fix_lines (chunk_src ls') (chunk_dst ls') ls')) = [''q'', ''a '', ''a ''])"
proof (intro conjI)
  let ?S = "set (chunk_src ls)"
  have "list_all (\<lambda>(s, d). s = d \<or> d \<notin> ?S) (zip (chunk_src ls) (chunk_dst ls))"
    using assms by (auto simp: unshared_def list_all_iff chunk_src_def is_src_def)
  note u = fix_lines_unshared [OF chunk_positions(3,4) this subset_refl]
  have S: "i \<in> ?S" if "i < length ls" "is_src (ls ! i)" for i using that by (simp add: chunk_src_def)
  show "\<forall>i < length ls. is_src (ls ! i) \<longrightarrow> snd (fix_lines (chunk_src ls) (chunk_dst ls) ls) ! i = ls ! i"
    using u S by blast
  show "\<forall>k < min (length (chunk_src ls)) (length (chunk_dst ls)).
      line_text (snd (fix_lines (chunk_src ls) (chunk_dst ls) ls) ! (chunk_dst ls ! k)) =
        fix_text (line_text (ls ! (chunk_src ls ! k))) (line_text (ls ! (chunk_dst ls ! k)))"
    using u by blast
  show "let ls' = [set_src ''q'', set_both ''a '', set_both ''a''] in
      map line_text (snd (fix_lines (chunk_src ls') (chunk_dst ls') ls')) = [''q'', ''a '', ''a '']"
    by code_simp
qed (simp add: fix_chunk_def case_prod_beta)

theorem whitespace_pass_chunk_witness:
  "let ls = [set_src ''x '', set_dst ''x'', set_both ''y ''] in
    \<forall>k < 2. line_text (snd (fix_lines (chunk_src ls) (chunk_dst ls) ls) ! (chunk_dst ls ! k)) =
      line_text (ls ! (chunk_src ls ! k))"
proof -
  let ?ls = "[set_src ''x '', set_dst ''x'', set_both ''y '']"
  have u: "unshared ?ls" by code_simp
  have l: "min (length (chunk_src ?ls)) (length (chunk_dst ?ls)) = 2" by code_simp
  have t: "fix_text (line_text (?ls ! (chunk_src ?ls ! k))) (line_text (?ls ! (chunk_dst ?ls ! k))) =
      line_text (?ls ! (chunk_src ?ls ! k))" if "k < 2" for k
  proof -
    have "list_all (\<lambda>k. fix_text (line_text (?ls ! (chunk_src ?ls ! k))) (line_text (?ls ! (chunk_dst ?ls ! k))) =
      line_text (?ls ! (chunk_src ?ls ! k))) [0..<2]" by code_simp
    with that show ?thesis by (auto simp: list_all_iff)
  qed
  from whitespace_pass_chunk [OF u, of 1 1]
  have "\<forall>k < 2. line_text (snd (fix_lines (chunk_src ?ls) (chunk_dst ?ls) ?ls) ! (chunk_dst ?ls ! k)) =
      fix_text (line_text (?ls ! (chunk_src ?ls ! k))) (line_text (?ls ! (chunk_dst ?ls ! k)))"
    unfolding l by blast
  with t show ?thesis unfolding Let_def by metis
qed

section \<open>Indenting files\<close>

text \<open>
  The external tools: uncrustify (None when it is not installed) with the configuration of a level,
  \<open>difflib.unified_diff\<close> between two named lists of lines, and the patch program; and the name of
  the temporary output file. Files are a map from names to lists of lines. With \<open>debug\<close> the bytes
  that uncrustify printed are written to a text stream, which is a TypeError in Python 3.
\<close>

record tools =
  uncrustify :: "nat \<Rightarrow> string list \<Rightarrow> string list option"
  unified_diff :: "string \<Rightarrow> string \<Rightarrow> string list \<Rightarrow> string list \<Rightarrow> string list"
  patch_tool :: "string list \<Rightarrow> string list \<Rightarrow> string list"
  temp_name :: "string \<Rightarrow> string"

definition indent :: "tools \<Rightarrow> bool \<Rightarrow> nat \<Rightarrow> (string \<Rightarrow> string list) \<Rightarrow> string \<Rightarrow> string list res" where
  "indent t debug level fs source =
     (case uncrustify t level (fs source) of
        None \<Rightarrow> Raise (GenericException ''uncrustify not installed'')
      | Some out \<Rightarrow>
          if debug then Raise TypeError
          else
            let diff = unified_diff t source (temp_name t source) (fs source) out in
            bind_res
              (if level < 3 then
                 bind_res (remove_trailing_whitespace_changes diff) (\<lambda>patchset.
                   case patchset of [] \<Rightarrow> Return [] | p # ps \<Rightarrow> write_patch p)
               else Return diff)
              (\<lambda>final_diff. Return (patch_tool t final_diff (fs source))))"

text \<open>The result, the files and the lines printed; in place, all files are indented before the
  first is overwritten.\<close>

definition indent_files :: "tools \<Rightarrow> string list \<Rightarrow> bool \<Rightarrow> bool \<Rightarrow> nat \<Rightarrow> bool \<Rightarrow> (string \<Rightarrow> string list)
    \<Rightarrow> (bool \<times> (string \<Rightarrow> string list) \<times> string list) res" where
  "indent_files t files diff debug level inplace fs =
     bind_res (map_res (\<lambda>f. bind_res (indent t debug level fs f) (\<lambda>out. Return (f, out))) files) (\<lambda>output.
       if inplace then Return (True, fold (\<lambda>(src, out) fs. fs(src := out)) output fs, [])
       else
         let failed = filter (\<lambda>(src, out). fs src \<noteq> out) output in
         if failed \<noteq> [] then
           Return (False, fs,
             if \<not> diff
             then (''Found '' @ str_of_nat (length failed) @ '' badly indented files:'') #
               map (\<lambda>(src, out). ''  '' @ src) failed
             else concat (map (\<lambda>(src, out). unified_diff t src (temp_name t src) (fs src) out) failed))
         else Return (True, fs, []))"

lemma map_res_pair:
  "(\<And>f. f \<in> set files \<Longrightarrow> g f = Return (h f)) \<Longrightarrow>
    map_res (\<lambda>f. bind_res (g f) (\<lambda>out. Return (f, out))) files = Return (map (\<lambda>f. (f, h f)) files)"
  by (rule map_res_Return) simp

lemma fold_update_files:
  "fold (\<lambda>(src, out) fs. fs(src := out)) (map (\<lambda>f. (f, h f)) files) fs =
    (\<lambda>f. if f \<in> set files then h f else fs f)"
  by (induction files arbitrary: fs) (auto simp: fun_eq_iff)

text \<open>When every file can be indented, \<open>indent_files\<close> in place replaces exactly the given
  files by their indented text; otherwise it changes no file, succeeds exactly when no file
  would change, and else names the files that would, in order, after their number.\<close>

theorem indent_files_correct:
  assumes "\<And>f. f \<in> set files \<Longrightarrow> indent t debug level fs f = Return (out f)"
  shows "indent_files t files diff debug level True fs =
      Return (True, \<lambda>f. if f \<in> set files then out f else fs f, []) \<and>
    indent_files t files False debug level False fs =
      (let bad = filter (\<lambda>f. fs f \<noteq> out f) files in
       Return (bad = [], fs,
         if bad = [] then []
         else (''Found '' @ str_of_nat (length bad) @ '' badly indented files:'') # map (\<lambda>f. ''  '' @ f) bad))"
proof
  note m = map_res_pair [of files "indent t debug level fs" out, OF assms]
  show "indent_files t files diff debug level True fs =
      Return (True, \<lambda>f. if f \<in> set files then out f else fs f, [])"
    by (simp add: indent_files_def m fold_update_files)
  have f: "filter (\<lambda>(src, out). fs src \<noteq> out) (map (\<lambda>f. (f, out f)) files) =
      map (\<lambda>f. (f, out f)) (filter (\<lambda>f. fs f \<noteq> out f) files)"
    by (simp add: filter_map comp_def)
  show "indent_files t files False debug level False fs =
      (let bad = filter (\<lambda>f. fs f \<noteq> out f) files in
       Return (bad = [], fs,
         if bad = [] then []
         else (''Found '' @ str_of_nat (length bad) @ '' badly indented files:'') # map (\<lambda>f. ''  '' @ f) bad))"
    by (simp add: indent_files_def m f Let_def comp_def)
qed

definition sample_tools :: tools where
  "sample_tools = \<lparr>uncrustify = (\<lambda>level ls. Some (map (dropWhile is_space) ls)),
     unified_diff = (\<lambda>a b xs ys. if xs = ys then [] else ys), patch_tool = (\<lambda>d xs. if d = [] then xs else d),
     temp_name = (\<lambda>f. ''tmp'')\<rparr>"

theorem indent_files_correct_witness:
  "indent_files sample_tools [''a.cc''] False False 3 False (\<lambda>f. [''  x'']) =
    Return (False, \<lambda>f. [''  x''], [''Found 1 badly indented files:'', ''  a.cc''])"
proof -
  have i: "indent sample_tools False 3 (\<lambda>f. [''  x'']) f = Return [''x'']" for f
    by code_simp
  have n: "str_of_nat 1 = ''1''" by code_simp
  from indent_files_correct [of "[''a.cc'']" sample_tools False 3 "\<lambda>f. [''  x'']" "\<lambda>f. [''x'']", OF i]
  show ?thesis by (simp add: Let_def n [simplified])
qed

end
