(* ===== verification/Timeline_Data.thy ===== *)
theory Timeline_Data
  imports Prelude
begin

text \<open>
  The data of the timeline viewer \<open>utils/grid.py\<close>: \<open>TimelineDataRange\<close>, \<open>TimelineEvent\<close>,
  \<open>Timeline\<close>, \<open>Timelines\<close>, \<open>Colors\<close> and \<open>read_data\<close>. Times are integers, as \<open>read_data\<close>
  reads them. Objects kept in a list and looked up by their name from the front, with a new one
  appended when there is none, are association lists by name. The program uses PyGTK and
  \<open>has_key\<close>, so its semantics is that of Python 2: a list is sorted stably by its comparison
  function and \<open>/\<close> on integers rounds down.
\<close>

section \<open>The code\<close>

record data_range =
  range_start :: int
  range_end :: int
  range_value :: string

record 'v event =
  event_at :: int
  event_value :: 'v

text \<open>The loop of both \<open>__search\<close> methods; they differ in the tests and in what they return when
  nothing is found.\<close>

function bisect_loop :: "('a \<Rightarrow> bool) \<Rightarrow> ('a \<Rightarrow> bool) \<Rightarrow> 'a list \<Rightarrow> int \<Rightarrow> int \<Rightarrow> bool \<times> int" where
  "bisect_loop before after xs l u =
     (if l \<le> u then
        (let i = (l + u) div 2; x = xs ! nat i in
         if \<not> before x \<and> \<not> after x then (True, i)
         else if before x then bisect_loop before after xs l (i - 1)
         else bisect_loop before after xs (i + 1) u)
      else (False, l))"
  by pat_completeness auto
termination
  by (relation "measure (\<lambda>(before, after, xs, l, u). nat (u - l + 1))") auto

declare bisect_loop.simps [simp del]

definition range_search :: "data_range list \<Rightarrow> int \<Rightarrow> int" where
  "range_search rs key =
     (case bisect_loop (\<lambda>r. key < range_start r) (\<lambda>r. range_end r < key) rs 0 (int (length rs) - 1) of
        (True, i) \<Rightarrow> i
      | (False, l) \<Rightarrow> -1)"

definition event_search :: "'v event list \<Rightarrow> int \<Rightarrow> int" where
  "event_search es key =
     snd (bisect_loop (\<lambda>e. key < event_at e) (\<lambda>e. event_at e < key) es 0 (int (length es) - 1))"

definition get_ranges :: "data_range list \<Rightarrow> int \<Rightarrow> int \<Rightarrow> data_range list" where
  "get_ranges rs start end' =
     (let s = range_search rs start; e = range_search rs end' in
      if s = -1 \<and> e = -1 then []
      else if s = -1 then py_slice rs 0 (e + 1)
      else if e = -1 then py_slice rs s (int (length rs))
      else py_slice rs s (e + 1))"

definition get_ranges_bounds :: "data_range list \<Rightarrow> int \<Rightarrow> int \<Rightarrow> int \<times> int" where
  "get_ranges_bounds rs start end' =
     (let s = range_search rs start; e = range_search rs end' in
      if s = -1 \<and> e = -1 then (0, 0)
      else if s = -1 then (0, e + 1)
      else if e = -1 then (s, int (length rs))
      else (s, e + 1))"

definition get_events_bounds :: "'v event list \<Rightarrow> int \<Rightarrow> int \<Rightarrow> int \<times> int" where
  "get_events_bounds es start end' = (event_search es start, event_search es end' + 1)"

definition get_events :: "'v event list \<Rightarrow> int \<Rightarrow> int \<Rightarrow> 'v event list" where
  "get_events es start end' = py_slice es (event_search es start) (event_search es end' + 1)"

definition ranges_bounds :: "data_range list \<Rightarrow> int \<times> int" where
  "ranges_bounds rs = (if rs \<noteq> [] then (range_start (hd rs), range_end (last rs)) else (0, 0))"

definition events_bounds :: "'v event list \<Rightarrow> int \<times> int" where
  "events_bounds es = (if es \<noteq> [] then (event_at (hd es), event_at (last es)) else (0, 0))"

record timeline =
  ranges :: "(string \<times> data_range list) list"
  event_str :: "(string \<times> string event list) list"
  event_int :: "(string \<times> int event list) list"

definition new_timeline :: timeline where
  "new_timeline = \<lparr>ranges = [], event_str = [], event_int = []\<rparr>"

text \<open>\<open>get_range(name).add_range(x)\<close> and its likes, and \<open>Timelines.get(name)\<close> with what is then
  done to the timeline.\<close>

definition add_named :: "string \<Rightarrow> 'a \<Rightarrow> (string \<times> 'a list) list \<Rightarrow> (string \<times> 'a list) list" where
  "add_named name x rows =
     AList.update name ((case map_of rows name of None \<Rightarrow> [] | Some xs \<Rightarrow> xs) @ [x]) rows"

definition on_timeline :: "string \<Rightarrow> (timeline \<Rightarrow> timeline) \<Rightarrow> (string \<times> timeline) list \<Rightarrow> (string \<times> timeline) list" where
  "on_timeline name f ts =
     AList.update name (f (case map_of ts name of None \<Rightarrow> new_timeline | Some t \<Rightarrow> t)) ts"

definition sort_timeline :: "timeline \<Rightarrow> timeline" where
  "sort_timeline t =
     \<lparr>ranges = map (map_prod id (sort_key range_start)) (ranges t),
      event_str = map (map_prod id (sort_key event_at)) (event_str t),
      event_int = map (map_prod id (sort_key event_at)) (event_int t)\<rparr>"

definition widen :: "int \<times> int \<Rightarrow> int \<times> int \<Rightarrow> int \<times> int" where
  "widen = (\<lambda>(row_lo, row_hi) (lo, hi). (if row_lo < lo then row_lo else lo, if hi < row_hi then row_hi else hi))"

definition timeline_bounds :: "timeline \<Rightarrow> int \<times> int" where
  "timeline_bounds t =
     fold (\<lambda>(n, es). widen (events_bounds es)) (event_int t)
       (fold (\<lambda>(n, es). widen (events_bounds es)) (event_str t)
         (fold (\<lambda>(n, rs). widen (ranges_bounds rs)) (ranges t) (0, 0)))"

definition timelines_bounds :: "(string \<times> timeline) list \<Rightarrow> int \<times> int" where
  "timelines_bounds ts = fold (\<lambda>(n, t). widen (timeline_bounds t)) ts (0, 0)"

definition get_all_range_values :: "(string \<times> timeline) list \<Rightarrow> string list" where
  "get_all_range_values ts =
     dict_keys (fold (\<lambda>r d. AList.update (range_value r) (1::int) d)
       (concat (map (\<lambda>(n, t). concat (map snd (ranges t))) ts)) [])"

subsection \<open>Colors\<close>

type_synonym color = "int \<times> int \<times> int"

text \<open>The names with a color, and the class attribute \<open>default_colors\<close>, which \<open>lookup\<close> pops.\<close>

record colors =
  named :: "(string \<times> color) list"
  default_colors :: "color list"

definition new_colors :: colors where
  "new_colors = \<lparr>named = [],
     default_colors = [(1, 0, 0), (0, 1, 0), (0, 0, 1), (1, 1, 0), (1, 0, 1), (0, 1, 1)]\<rparr>"

definition add_color :: "string \<Rightarrow> color \<Rightarrow> colors \<Rightarrow> colors" where
  "add_color name c cs = cs\<lparr>named := AList.update name c (named cs)\<rparr>"

definition lookup_color :: "string \<Rightarrow> colors \<Rightarrow> (color \<times> colors) res" where
  "lookup_color name cs =
     (case map_of (named cs) name of
        Some c \<Rightarrow> Return (c, cs)
      | None \<Rightarrow>
          if default_colors cs = [] then Raise IndexError
          else
            let c = last (default_colors cs)
            in Return (c, add_color name c (cs\<lparr>default_colors := butlast (default_colors cs)\<rparr>)))"

text \<open>The loop of \<open>main\<close> over the range values.\<close>

fun lookup_colors :: "string list \<Rightarrow> colors \<Rightarrow> (color list \<times> colors) res" where
  "lookup_colors [] cs = Return ([], cs)"
| "lookup_colors (n # ns) cs =
     bind_res (lookup_color n cs) (\<lambda>(c, cs).
     bind_res (lookup_colors ns cs) (\<lambda>(rest, cs). Return (c # rest, cs)))"

subsection \<open>Reading a file\<close>

datatype entry =
    RangeLine string string string nat nat
  | StrLine string string string nat
  | IntLine string string nat nat
  | ColorLine string nat nat nat

definition take_word :: "string \<Rightarrow> (string \<times> string) option" where
  "take_word s =
     (let w = takeWhile (\<lambda>c. c \<noteq> CHR '' '') s in
      if w = [] then None else Some (w, dropWhile (\<lambda>c. c \<noteq> CHR '' '') s))"

text \<open>A word or a number with the blank after it.\<close>

definition word_field :: "string \<Rightarrow> (string \<times> string) option" where
  "word_field s = Option.bind (take_word s) (\<lambda>(w, s). map_option (Pair w) (expect '' '' s))"

definition number_field :: "string \<Rightarrow> (nat \<times> string) option" where
  "number_field s = Option.bind (take_number s) (\<lambda>(n, s). map_option (Pair n) (expect '' '' s))"

definition hex_digit :: "char \<Rightarrow> nat option" where
  "hex_digit c =
     (let n = of_char c :: nat in
      if is_digit c then Some (n - 48)
      else if 65 \<le> n \<and> n \<le> 70 then Some (n - 55)
      else if 97 \<le> n \<and> n \<le> 102 then Some (n - 87)
      else None)"

definition take_hex :: "string \<Rightarrow> (nat \<times> string) option" where
  "take_hex s =
     (case s of
        c # d # rest \<Rightarrow>
          Option.bind (hex_digit c) (\<lambda>a. Option.bind (hex_digit d) (\<lambda>b. Some (16 * a + b, rest)))
      | _ \<Rightarrow> None)"

definition match_range_line :: "string \<Rightarrow> entry option" where
  "match_range_line s =
     Option.bind (expect ''range '' s) (\<lambda>s. Option.bind (word_field s) (\<lambda>(t, s).
     Option.bind (word_field s) (\<lambda>(n, s). Option.bind (word_field s) (\<lambda>(v, s).
     Option.bind (number_field s) (\<lambda>(a, s). Option.bind (take_number s) (\<lambda>(b, s).
       Some (RangeLine t n v a b)))))))"

definition match_str_line :: "string \<Rightarrow> entry option" where
  "match_str_line s =
     Option.bind (expect ''event-str '' s) (\<lambda>s. Option.bind (word_field s) (\<lambda>(t, s).
     Option.bind (word_field s) (\<lambda>(n, s). Option.bind (word_field s) (\<lambda>(v, s).
     Option.bind (take_number s) (\<lambda>(a, s). Some (StrLine t n v a))))))"

definition match_int_line :: "string \<Rightarrow> entry option" where
  "match_int_line s =
     Option.bind (expect ''event-int '' s) (\<lambda>s. Option.bind (word_field s) (\<lambda>(t, s).
     Option.bind (word_field s) (\<lambda>(n, s). Option.bind (number_field s) (\<lambda>(v, s).
     Option.bind (take_number s) (\<lambda>(a, s). Some (IntLine t n v a))))))"

definition match_color_line :: "string \<Rightarrow> entry option" where
  "match_color_line s =
     Option.bind (expect ''color '' s) (\<lambda>s. Option.bind (word_field s) (\<lambda>(n, s).
     Option.bind (expect ''#'' s) (\<lambda>s. Option.bind (take_hex s) (\<lambda>(r, s).
     Option.bind (take_hex s) (\<lambda>(g, s). Option.bind (take_hex s) (\<lambda>(b, s).
       Some (ColorLine n r g b)))))))"

definition match_line :: "string \<Rightarrow> entry option" where
  "match_line s =
     (case match_range_line s of Some e \<Rightarrow> Some e | None \<Rightarrow>
     (case match_str_line s of Some e \<Rightarrow> Some e | None \<Rightarrow>
     (case match_int_line s of Some e \<Rightarrow> Some e | None \<Rightarrow> match_color_line s)))"

definition apply_entry :: "entry \<Rightarrow> colors \<times> (string \<times> timeline) list \<Rightarrow> colors \<times> (string \<times> timeline) list" where
  "apply_entry e st =
     (let (cs, ts) = st in
      case e of
        RangeLine t n v a b \<Rightarrow>
          (cs, on_timeline t (\<lambda>tl. tl\<lparr>ranges :=
             add_named n \<lparr>range_start = int a, range_end = int b, range_value = v\<rparr> (ranges tl)\<rparr>) ts)
      | StrLine t n v a \<Rightarrow>
          (cs, on_timeline t (\<lambda>tl. tl\<lparr>event_str :=
             add_named n \<lparr>event_at = int a, event_value = v\<rparr> (event_str tl)\<rparr>) ts)
      | IntLine t n v a \<Rightarrow>
          (cs, on_timeline t (\<lambda>tl. tl\<lparr>event_int :=
             add_named n \<lparr>event_at = int a, event_value = int v\<rparr> (event_int tl)\<rparr>) ts)
      | ColorLine n r g b \<Rightarrow> (add_color n (int r div 255, int g div 255, int b div 255) cs, ts))"

definition read_line :: "string \<Rightarrow> colors \<times> (string \<times> timeline) list \<Rightarrow> colors \<times> (string \<times> timeline) list" where
  "read_line s st = (case match_line s of None \<Rightarrow> st | Some e \<Rightarrow> apply_entry e st)"

definition read_data :: "string list \<Rightarrow> colors \<times> (string \<times> timeline) list" where
  "read_data lines =
     (let (cs, ts) = fold read_line lines (new_colors, [])
      in (cs, map (map_prod id sort_timeline) ts))"

section \<open>Binary search\<close>

text \<open>
  What the search relies on: in a list that is in order, the items before a key come first and the
  items after it last, and no item is both. Then the loop finds an item that is neither, or ends at
  the position between the two parts.
\<close>

locale ordered_items =
  fixes ok :: "'a list \<Rightarrow> bool"
    and key_before :: "'k \<Rightarrow> 'a \<Rightarrow> bool"
    and key_after :: "'k \<Rightarrow> 'a \<Rightarrow> bool"
  assumes before_up: "ok xs \<Longrightarrow> i < j \<Longrightarrow> j < length xs \<Longrightarrow> key_before k (xs ! i) \<Longrightarrow> key_before k (xs ! j)"
    and after_down: "ok xs \<Longrightarrow> i < j \<Longrightarrow> j < length xs \<Longrightarrow> key_after k (xs ! j) \<Longrightarrow> key_after k (xs ! i)"
    and not_both: "ok xs \<Longrightarrow> i < length xs \<Longrightarrow> key_before k (xs ! i) \<Longrightarrow> \<not> key_after k (xs ! i)"
begin

lemma loop_correct:
  "ok xs \<Longrightarrow> 0 \<le> l \<Longrightarrow> u < int (length xs) \<Longrightarrow> l \<le> u + 1 \<Longrightarrow>
    (\<forall>i. int i < l \<longrightarrow> key_after k (xs ! i)) \<Longrightarrow>
    (\<forall>i. u < int i \<longrightarrow> i < length xs \<longrightarrow> key_before k (xs ! i)) \<Longrightarrow>
    \<exists>found i. bisect_loop (key_before k) (key_after k) xs l u = (found, int i) \<and>
      (if found then i < length xs \<and> \<not> key_before k (xs ! i) \<and> \<not> key_after k (xs ! i)
       else i \<le> length xs \<and> (\<forall>j < i. key_after k (xs ! j)) \<and>
         (\<forall>j. i \<le> j \<longrightarrow> j < length xs \<longrightarrow> key_before k (xs ! j)))"
proof (induction "key_before k" "key_after k" xs l u rule: bisect_loop.induct)
  case (1 xs l u)
  note prems = 1(3-8)
  note unf = bisect_loop.simps [of "key_before k" "key_after k" xs l u]
  show ?case
  proof (cases "l \<le> u")
    case False
    then have "bisect_loop (key_before k) (key_after k) xs l u = (False, l)" by (simp add: unf)
    with prems False show ?thesis
      by (intro exI [of _ False] exI [of _ "nat l"]) auto
  next
    case True
    define m where "m = (l + u) div 2"
    have m: "l \<le> m" "m \<le> u" using True by (simp_all add: m_def)
    then have n: "nat m < length xs" "int (nat m) = m" using prems by simp_all
    let ?x = "xs ! nat m"
    consider "\<not> key_before k ?x \<and> \<not> key_after k ?x" | "key_before k ?x"
      | "\<not> key_before k ?x \<and> key_after k ?x" by blast
    then show ?thesis
    proof cases
      case 1
      with True n show ?thesis
        by (intro exI [of _ True] exI [of _ "nat m"]) (simp add: unf Let_def flip: m_def)
    next
      case 2
      have "\<forall>i. m - 1 < int i \<longrightarrow> i < length xs \<longrightarrow> key_before k (xs ! i)"
      proof (intro allI impI)
        fix i assume "m - 1 < int i" "i < length xs"
        then show "key_before k (xs ! i)"
          using 2 before_up [OF prems(1), of "nat m" i k] n by (cases "i = nat m") auto
      qed
      with 1(1) [OF True m_def refl _ 2] 2 True prems m
      show ?thesis by (simp add: unf Let_def flip: m_def)
    next
      case 3
      have "\<forall>i. int i < m + 1 \<longrightarrow> key_after k (xs ! i)"
      proof (intro allI impI)
        fix i assume "int i < m + 1"
        then show "key_after k (xs ! i)"
          using 3 after_down [OF prems(1), of i "nat m" k] n by (cases "i = nat m") auto
      qed
      with 1(2) [OF True m_def refl _ _] 3 True prems m
      show ?thesis by (simp add: unf Let_def flip: m_def)
    qed
  qed
qed

lemma search_correct:
  "ok xs \<Longrightarrow> \<exists>found i.
    bisect_loop (key_before k) (key_after k) xs 0 (int (length xs) - 1) = (found, int i) \<and>
      (if found then i < length xs \<and> \<not> key_before k (xs ! i) \<and> \<not> key_after k (xs ! i)
       else i \<le> length xs \<and> (\<forall>j < i. key_after k (xs ! j)) \<and>
         (\<forall>j. i \<le> j \<longrightarrow> j < length xs \<longrightarrow> key_before k (xs ! j)))"
  by (rule loop_correct) auto

end

text \<open>Ranges that follow each other without overlap, and events in the order of their times.\<close>

definition ranges_ordered :: "data_range list \<Rightarrow> bool" where
  "ranges_ordered rs \<longleftrightarrow>
     list_all (\<lambda>r. range_start r \<le> range_end r) rs \<and> sorted_wrt (\<lambda>a b. range_end a < range_start b) rs"

definition events_ordered :: "'v event list \<Rightarrow> bool" where
  "events_ordered es \<longleftrightarrow> sorted_wrt (\<lambda>a b. event_at a < event_at b) es"

lemma ranges_ordered_nth:
  assumes "ranges_ordered rs"
  shows "i < length rs \<Longrightarrow> range_start (rs ! i) \<le> range_end (rs ! i)"
    and "i < j \<Longrightarrow> j < length rs \<Longrightarrow> range_end (rs ! i) < range_start (rs ! j)"
  using assms by (auto simp: ranges_ordered_def list_all_length sorted_wrt_iff_nth_less)

lemma ranges_ordered_mono:
  assumes o: "ranges_ordered rs" and "i \<le> j" "j < length rs"
  shows "range_start (rs ! i) \<le> range_start (rs ! j) \<and> range_end (rs ! i) \<le> range_end (rs ! j)"
proof (cases "i = j")
  case False
  then have "i < j" "i < length rs" using assms by simp_all
  then show ?thesis
    using ranges_ordered_nth(1) [OF o, of i] ranges_ordered_nth(1) [OF o, of j]
      ranges_ordered_nth(2) [OF o, of i j] assms by simp
qed simp

interpretation range_items: ordered_items ranges_ordered "\<lambda>k r. k < range_start r" "\<lambda>k r. range_end r < k"
proof unfold_locales
  fix xs :: "data_range list" and i j :: nat and k :: int
  assume o: "ranges_ordered xs"
  show "k < range_start (xs ! j)" if "i < j" "j < length xs" "k < range_start (xs ! i)"
    using ranges_ordered_nth(1) [OF o less_trans [OF that(1,2)]] ranges_ordered_nth(2) [OF o that(1,2)] that
    by simp
  show "range_end (xs ! i) < k" if "i < j" "j < length xs" "range_end (xs ! j) < k"
    using ranges_ordered_nth(1) [OF o that(2)] ranges_ordered_nth(2) [OF o that(1,2)] that by simp
  show "\<not> range_end (xs ! i) < k" if "i < length xs" "k < range_start (xs ! i)"
    using ranges_ordered_nth(1) [OF o that(1)] that by simp
qed

interpretation event_items: ordered_items events_ordered
  "\<lambda>k e. k < event_at e" "\<lambda>k (e :: 'v event). event_at e < k"
proof unfold_locales
  fix xs :: "'v event list" and i j :: nat and k :: int
  assume "events_ordered xs"
  then have o: "event_at (xs ! i) < event_at (xs ! j)" if "i < j" "j < length xs" for i j
    using that by (simp add: events_ordered_def sorted_wrt_iff_nth_less)
  show "k < event_at (xs ! j)" if "i < j" "j < length xs" "k < event_at (xs ! i)"
    using o [OF that(1,2)] that by simp
  show "event_at (xs ! i) < k" if "i < j" "j < length xs" "event_at (xs ! j) < k"
    using o [OF that(1,2)] that by simp
qed simp

text \<open>In a list in order, a filter by a bound is a part of the list.\<close>

lemma filter_drop_part:
  assumes "i \<le> length xs" and "\<And>j. j < i \<Longrightarrow> \<not> P (xs ! j)" and "\<And>j. i \<le> j \<Longrightarrow> j < length xs \<Longrightarrow> P (xs ! j)"
  shows "filter P xs = drop i xs"
proof -
  have "filter P (take i xs) = []" using assms(1,2) by (auto simp: filter_empty_conv in_set_conv_nth)
  moreover have "filter P (drop i xs) = drop i xs" using assms(3) by (auto simp: filter_id_conv in_set_conv_nth)
  ultimately show ?thesis by (metis append_take_drop_id filter_append self_append_conv2)
qed

lemma filter_take_part:
  assumes "i \<le> length xs" and "\<And>j. j < i \<Longrightarrow> P (xs ! j)" and "\<And>j. i \<le> j \<Longrightarrow> j < length xs \<Longrightarrow> \<not> P (xs ! j)"
  shows "filter P xs = take i xs"
proof -
  have "filter P (drop i xs) = []" using assms(1,3) by (auto simp: filter_empty_conv in_set_conv_nth)
  moreover have "filter P (take i xs) = take i xs" using assms(1,2) by (auto simp: filter_id_conv in_set_conv_nth)
  ultimately show ?thesis by (metis append_take_drop_id filter_append append.right_neutral)
qed

lemma py_slice_parts: "a \<le> length xs \<Longrightarrow> py_slice xs (int a) (int b) = drop a (take b xs)"
  by (auto simp: py_slice_def Let_def drop_take min_def)

section \<open>What the queries return\<close>

definition covered_time :: "int \<Rightarrow> data_range list \<Rightarrow> bool" where
  "covered_time t rs \<longleftrightarrow> list_ex (\<lambda>r. range_start r \<le> t \<and> t \<le> range_end r) rs"

lemma range_search_correct:
  assumes "ranges_ordered rs"
  shows "if covered_time t rs
    then \<exists>i. range_search rs t = int i \<and> i < length rs \<and> range_start (rs ! i) \<le> t \<and> t \<le> range_end (rs ! i)
    else range_search rs t = -1"
proof -
  obtain found i where
    s: "bisect_loop (\<lambda>r. t < range_start r) (\<lambda>r. range_end r < t) rs 0 (int (length rs) - 1) = (found, int i)"
    and r: "if found then i < length rs \<and> \<not> t < range_start (rs ! i) \<and> \<not> range_end (rs ! i) < t
       else i \<le> length rs \<and> (\<forall>j < i. range_end (rs ! j) < t) \<and>
         (\<forall>j. i \<le> j \<longrightarrow> j < length rs \<longrightarrow> t < range_start (rs ! j))"
    using range_items.search_correct [OF assms, of t] by blast
  show ?thesis
  proof (cases found)
    case True
    with r have "range_start (rs ! i) \<le> t \<and> t \<le> range_end (rs ! i)" "rs ! i \<in> set rs" by auto
    then have "covered_time t rs" by (auto simp: covered_time_def list_ex_iff)
    with True s r show ?thesis by (auto simp: range_search_def)
  next
    case False
    have "\<not> covered_time t rs"
    proof
      assume "covered_time t rs"
      then obtain j where "j < length rs" "range_start (rs ! j) \<le> t" "t \<le> range_end (rs ! j)"
        by (auto simp: covered_time_def list_ex_iff in_set_conv_nth)
      with r False show False by (cases "j < i") (fastforce simp: not_less)+
    qed
    with False s show ?thesis by (simp add: range_search_def)
  qed
qed

lemma ranges_from:
  assumes o: "ranges_ordered rs" and i: "i < length rs" "range_start (rs ! i) \<le> t" "t \<le> range_end (rs ! i)"
  shows "filter (\<lambda>r. t \<le> range_end r) rs = drop i rs"
proof (rule filter_drop_part)
  show "\<not> t \<le> range_end (rs ! j)" if "j < i" for j
    using ranges_ordered_nth(2) [OF o that i(1)] i by simp
  show "t \<le> range_end (rs ! j)" if "i \<le> j" "j < length rs" for j
    using ranges_ordered_mono [OF o that] i by simp
qed (use i in simp)

lemma ranges_upto:
  assumes o: "ranges_ordered rs" and i: "i < length rs" "range_start (rs ! i) \<le> t" "t \<le> range_end (rs ! i)"
  shows "filter (\<lambda>r. range_start r \<le> t) rs = take (Suc i) rs"
proof (rule filter_take_part)
  show "range_start (rs ! j) \<le> t" if "j < Suc i" for j
    using ranges_ordered_mono [OF o, of j i] i that by simp
  show "\<not> range_start (rs ! j) \<le> t" if "Suc i \<le> j" "j < length rs" for j
    using ranges_ordered_nth(2) [OF o, of i j] i that by simp
qed (use i in simp)

text \<open>C9: for ranges in order and a window whose start is not after its end, \<open>get_ranges\<close>
  returns the ranges that meet the window when both ends of the window lie in a range. When only
  the end does, it also returns every range before the window, and when only the start does, every
  range after it; when neither does, it returns nothing, whatever lies in the window.\<close>

theorem get_ranges_correct:
  assumes "ranges_ordered rs" and "a \<le> b"
  shows "get_ranges rs a b =
    (if covered_time a rs then
       (if covered_time b rs then filter (\<lambda>r. a \<le> range_end r \<and> range_start r \<le> b) rs
        else filter (\<lambda>r. a \<le> range_end r) rs)
     else if covered_time b rs then filter (\<lambda>r. range_start r \<le> b) rs
     else [])"
proof -
  note sa = range_search_correct [OF assms(1), of a] and sb = range_search_correct [OF assms(1), of b]
  show ?thesis
  proof (cases "covered_time a rs"; cases "covered_time b rs")
    assume c: "covered_time a rs" "covered_time b rs"
    with sa sb obtain i j where
      i: "range_search rs a = int i" "i < length rs" "range_start (rs ! i) \<le> a" "a \<le> range_end (rs ! i)"
      and j: "range_search rs b = int j" "j < length rs" "range_start (rs ! j) \<le> b" "b \<le> range_end (rs ! j)"
      by auto
    have "filter (\<lambda>r. a \<le> range_end r \<and> range_start r \<le> b) rs =
        filter (\<lambda>r. a \<le> range_end r) (filter (\<lambda>r. range_start r \<le> b) rs)"
      unfolding filter_filter by (rule filter_cong) auto
    also have "\<dots> = filter (\<lambda>r. a \<le> range_end r) (take (Suc j) rs)"
      using ranges_upto [OF assms(1) j(2-4)] by simp
    also have "\<dots> = drop i (take (Suc j) rs)"
    proof (rule ranges_from)
      show "ranges_ordered (take (Suc j) rs)"
        using assms(1) by (auto simp: ranges_ordered_def sorted_wrt_take list_all_iff dest: in_set_takeD)
      have "\<not> j < i" using ranges_ordered_nth(2) [OF assms(1), of j i] i j assms(2) by auto
      then show "i < length (take (Suc j) rs)" "range_start (take (Suc j) rs ! i) \<le> a"
        "a \<le> range_end (take (Suc j) rs ! i)" using i j by simp_all
    qed
    also have "\<dots> = get_ranges rs a b"
      using i j py_slice_parts [of i rs "Suc j"] by (simp add: get_ranges_def add.commute)
    finally show ?thesis using c by simp
  next
    assume c: "covered_time a rs" "\<not> covered_time b rs"
    with sa obtain i where
      i: "range_search rs a = int i" "i < length rs" "range_start (rs ! i) \<le> a" "a \<le> range_end (rs ! i)" by auto
    with c sb ranges_from [OF assms(1) i(2-4)] py_slice_parts [of i rs "length rs"] show ?thesis
      by (simp add: get_ranges_def)
  next
    assume c: "\<not> covered_time a rs" "covered_time b rs"
    with sb obtain j where
      j: "range_search rs b = int j" "j < length rs" "range_start (rs ! j) \<le> b" "b \<le> range_end (rs ! j)" by auto
    with c sa ranges_upto [OF assms(1) j(2-4)] py_slice_prefix [of rs "Suc j"] show ?thesis
      by (simp add: get_ranges_def add.commute)
  next
    assume "\<not> covered_time a rs" "\<not> covered_time b rs"
    with sa sb show ?thesis by (simp add: get_ranges_def)
  qed
qed

definition sample_ranges :: "data_range list" where
  "sample_ranges = [\<lparr>range_start = 0, range_end = 2, range_value = ''a''\<rparr>,
     \<lparr>range_start = 5, range_end = 6, range_value = ''b''\<rparr>]"

theorem get_ranges_correct_witness:
  "get_ranges sample_ranges 1 6 = sample_ranges \<and> get_ranges sample_ranges 3 8 = []"
proof -
  have o: "ranges_ordered sample_ranges" by code_simp
  have c: "covered_time 1 sample_ranges" "covered_time 6 sample_ranges"
    "\<not> covered_time 3 sample_ranges" "\<not> covered_time 8 sample_ranges" by code_simp+
  from get_ranges_correct [OF o, of 1 6] get_ranges_correct [OF o, of 3 8] c show ?thesis
    by (simp add: sample_ranges_def)
qed

lemma event_search_correct:
  assumes "events_ordered es"
  obtains i where "event_search es t = int i" "i \<le> length es"
    "\<And>j. j < i \<Longrightarrow> event_at (es ! j) < t"
    "\<And>j. i \<le> j \<Longrightarrow> j < length es \<Longrightarrow> t \<le> event_at (es ! j)"
    "\<And>j. i < j \<Longrightarrow> j < length es \<Longrightarrow> t < event_at (es ! j)"
proof -
  have o: "event_at (es ! i) < event_at (es ! j)" if "i < j" "j < length es" for i j
    using assms that by (simp add: events_ordered_def sorted_wrt_iff_nth_less)
  obtain found i where
    s: "bisect_loop (\<lambda>e. t < event_at e) (\<lambda>e. event_at e < t) es 0 (int (length es) - 1) = (found, int i)"
    and r: "if found then i < length es \<and> \<not> t < event_at (es ! i) \<and> \<not> event_at (es ! i) < t
       else i \<le> length es \<and> (\<forall>j < i. event_at (es ! j) < t) \<and>
         (\<forall>j. i \<le> j \<longrightarrow> j < length es \<longrightarrow> t < event_at (es ! j))"
    using event_items.search_correct [OF assms, of t] by blast
  have i: "event_search es t = int i" by (simp add: event_search_def s)
  show thesis
  proof (cases found)
    case True
    with r have e: "i < length es" "event_at (es ! i) = t" by auto
    show thesis
    proof (rule that [OF i])
      show "event_at (es ! j) < t" if "j < i" for j using o [OF that e(1)] e(2) by simp
      show "t < event_at (es ! j)" if "i < j" "j < length es" for j using o [OF that] e(2) by simp
      show "t \<le> event_at (es ! j)" if "i \<le> j" "j < length es" for j
      proof (cases "i = j")
        case False
        with that have "i < j" by simp
        from o [OF this that(2)] e(2) show ?thesis by simp
      qed (use e in simp)
    qed (use e in simp)
  next
    case False
    with r show thesis by (intro that [OF i]) (auto simp: less_imp_le)
  qed
qed

text \<open>For events at increasing times and a window whose start is not after its end,
  \<open>get_events\<close> returns the events in the window and, unless one of them is exactly at its end,
  also the first event after the window.\<close>

theorem get_events_correct:
  assumes "events_ordered es" and "a \<le> b"
  shows "get_events es a b = filter (\<lambda>e. a \<le> event_at e \<and> event_at e \<le> b) es @
    (if list_ex (\<lambda>e. event_at e = b) es then [] else take 1 (filter (\<lambda>e. b < event_at e) es))"
proof -
  obtain s where s: "event_search es a = int s" "s \<le> length es"
    "\<And>j. j < s \<Longrightarrow> event_at (es ! j) < a" "\<And>j. s \<le> j \<Longrightarrow> j < length es \<Longrightarrow> a \<le> event_at (es ! j)"
    using event_search_correct [OF assms(1), of a] by metis
  obtain e where e: "event_search es b = int e" "e \<le> length es"
    "\<And>j. j < e \<Longrightarrow> event_at (es ! j) < b" "\<And>j. e \<le> j \<Longrightarrow> j < length es \<Longrightarrow> b \<le> event_at (es ! j)"
    "\<And>j. e < j \<Longrightarrow> j < length es \<Longrightarrow> b < event_at (es ! j)"
    using event_search_correct [OF assms(1), of b] by metis
  have se: "s \<le> e"
  proof (rule ccontr)
    assume "\<not> s \<le> e"
    then have "e < s" "e < length es" using s(2) by simp_all
    with s(3) [of e] e(4) [of e] assms(2) show False by simp
  qed
  have g: "get_events es a b = drop s (take (Suc e) es)"
    using py_slice_parts [OF s(2), of "Suc e"] by (simp add: get_events_def s(1) e(1) add.commute)
  have from_s: "filter (\<lambda>x. a \<le> event_at x) (take n es) = drop s (take n es)" if "s \<le> n" for n
    by (rule filter_drop_part) (use s that in \<open>auto simp: not_le\<close>)
  show ?thesis
  proof (cases "e < length es \<and> event_at (es ! e) = b")
    case True
    have u: "filter (\<lambda>x. event_at x \<le> b) es = take (Suc e) es"
      by (rule filter_take_part) (use True e in \<open>auto simp: less_Suc_eq not_le Suc_le_eq less_imp_le\<close>)
    have "list_ex (\<lambda>x. event_at x = b) es" using True nth_mem by (auto simp: list_ex_iff)
    moreover have "filter (\<lambda>x. a \<le> event_at x \<and> event_at x \<le> b) es =
        filter (\<lambda>x. a \<le> event_at x) (filter (\<lambda>x. event_at x \<le> b) es)"
      unfolding filter_filter by (rule filter_cong) auto
    ultimately show ?thesis using u from_s [of "Suc e"] se g by simp
  next
    case False
    have less: "b < event_at (es ! j)" if "e \<le> j" "j < length es" for j
      using that False e(4,5) by (cases "e = j") (auto simp: order_less_le)
    have u: "filter (\<lambda>x. event_at x \<le> b) es = take e es"
      by (rule filter_take_part) (use less e in \<open>auto simp: not_le less_imp_le\<close>)
    have v: "filter (\<lambda>x. b < event_at x) es = drop e es"
      by (rule filter_drop_part) (use less e in \<open>auto simp: not_less less_imp_le\<close>)
    have "\<not> list_ex (\<lambda>x. event_at x = b) es"
    proof
      assume "list_ex (\<lambda>x. event_at x = b) es"
      then obtain j where "j < length es" "event_at (es ! j) = b" by (auto simp: list_ex_iff in_set_conv_nth)
      with less [of j] e(3) [of j] show False by (cases "j < e") auto
    qed
    moreover have "filter (\<lambda>x. a \<le> event_at x \<and> event_at x \<le> b) es =
        filter (\<lambda>x. a \<le> event_at x) (filter (\<lambda>x. event_at x \<le> b) es)"
      unfolding filter_filter by (rule filter_cong) auto
    moreover have "drop s (take (Suc e) es) = drop s (take e es) @ take 1 (drop e es)"
    proof -
      have "take (Suc e) es = take e es @ take 1 (drop e es)" using take_add [of e 1 es] by simp
      then show ?thesis using se e(2) by simp
    qed
    ultimately show ?thesis using u v from_s [OF se] g by simp
  qed
qed

theorem get_events_correct_witness:
  "get_events [\<lparr>event_at = 1, event_value = 10::int\<rparr>, \<lparr>event_at = 5, event_value = 20\<rparr>] 0 3 =
    [\<lparr>event_at = 1, event_value = 10\<rparr>, \<lparr>event_at = 5, event_value = 20\<rparr>]"
proof -
  have "events_ordered [\<lparr>event_at = 1, event_value = 10::int\<rparr>, \<lparr>event_at = 5, event_value = 20\<rparr>]"
    by (simp add: events_ordered_def)
  from get_events_correct [OF this, of 0 3] show ?thesis by simp
qed

section \<open>What a file is read into\<close>

definition row :: "(string \<times> 'a list) list \<Rightarrow> string \<Rightarrow> 'a list" where
  "row rows n = (case map_of rows n of None \<Rightarrow> [] | Some xs \<Rightarrow> xs)"

definition timeline_of :: "(string \<times> timeline) list \<Rightarrow> string \<Rightarrow> timeline" where
  "timeline_of ts t = (case map_of ts t of None \<Rightarrow> new_timeline | Some u \<Rightarrow> u)"

lemma row_add_named: "row (add_named n x rows) m = (if m = n then row rows n @ [x] else row rows m)"
  by (simp add: row_def add_named_def alist.lookup_store)

lemma timeline_of_on: "timeline_of (on_timeline t f ts) u = (if u = t then f (timeline_of ts t) else timeline_of ts u)"
  by (simp add: timeline_of_def on_timeline_def alist.lookup_store)

text \<open>The items that a line contributes to a row.\<close>

definition range_items_of :: "string \<Rightarrow> string \<Rightarrow> string \<Rightarrow> data_range list" where
  "range_items_of t n line =
     (case match_line line of
        Some (RangeLine t' n' v a b) \<Rightarrow>
          if t' = t \<and> n' = n then [\<lparr>range_start = int a, range_end = int b, range_value = v\<rparr>] else []
      | _ \<Rightarrow> [])"

definition str_items_of :: "string \<Rightarrow> string \<Rightarrow> string \<Rightarrow> string event list" where
  "str_items_of t n line =
     (case match_line line of
        Some (StrLine t' n' v a) \<Rightarrow>
          if t' = t \<and> n' = n then [\<lparr>event_at = int a, event_value = v\<rparr>] else []
      | _ \<Rightarrow> [])"

definition int_items_of :: "string \<Rightarrow> string \<Rightarrow> string \<Rightarrow> int event list" where
  "int_items_of t n line =
     (case match_line line of
        Some (IntLine t' n' v a) \<Rightarrow>
          if t' = t \<and> n' = n then [\<lparr>event_at = int a, event_value = int v\<rparr>] else []
      | _ \<Rightarrow> [])"

lemmas item_defs = range_items_of_def str_items_of_def int_items_of_def

lemma read_line_rows:
  "row (ranges (timeline_of (snd (read_line l st)) t)) n =
     row (ranges (timeline_of (snd st) t)) n @ range_items_of t n l"
  "row (event_str (timeline_of (snd (read_line l st)) t)) n =
     row (event_str (timeline_of (snd st) t)) n @ str_items_of t n l"
  "row (event_int (timeline_of (snd (read_line l st)) t)) n =
     row (event_int (timeline_of (snd st) t)) n @ int_items_of t n l"
  by (auto simp: read_line_def apply_entry_def item_defs timeline_of_on row_add_named
      split: option.split entry.split prod.split)

lemma read_lines_rows:
  "row (ranges (timeline_of (snd (fold read_line ls st)) t)) n =
     row (ranges (timeline_of (snd st) t)) n @ concat (map (range_items_of t n) ls)"
  "row (event_str (timeline_of (snd (fold read_line ls st)) t)) n =
     row (event_str (timeline_of (snd st) t)) n @ concat (map (str_items_of t n) ls)"
  "row (event_int (timeline_of (snd (fold read_line ls st)) t)) n =
     row (event_int (timeline_of (snd st) t)) n @ concat (map (int_items_of t n) ls)"
  by (induction ls arbitrary: st) (simp_all add: read_line_rows)

lemma row_map: "row (map (map_prod id f) rows) n = (case map_of rows n of None \<Rightarrow> [] | Some xs \<Rightarrow> f xs)"
  by (induction rows) (auto simp: row_def)

lemma sort_timeline_rows:
  "row (ranges (sort_timeline u)) n = sort_key range_start (row (ranges u) n)"
  "row (event_str (sort_timeline u)) n = sort_key event_at (row (event_str u) n)"
  "row (event_int (sort_timeline u)) n = sort_key event_at (row (event_int u) n)"
  by (simp_all add: sort_timeline_def row_map) (simp_all add: row_def split: option.split)

lemma timeline_of_map: "timeline_of (map (map_prod id sort_timeline) ts) t = sort_timeline (timeline_of ts t)"
  by (induction ts) (auto simp: timeline_of_def new_timeline_def sort_timeline_def)

definition color_of_line :: "string \<Rightarrow> string \<Rightarrow> color option \<Rightarrow> color option" where
  "color_of_line n line old =
     (case match_line line of
        Some (ColorLine n' r g b) \<Rightarrow> if n' = n then Some (int r div 255, int g div 255, int b div 255) else old
      | _ \<Rightarrow> old)"

lemma read_line_colors:
  "map_of (named (fst (read_line l st))) n = color_of_line n l (map_of (named (fst st)) n)"
  by (auto simp: read_line_def apply_entry_def add_color_def color_of_line_def alist.lookup_store
      split: option.split entry.split prod.split)

lemma read_lines_colors:
  "map_of (named (fst (fold read_line ls st))) n = fold (color_of_line n) ls (map_of (named (fst st)) n)"
  by (induction ls arbitrary: st) (simp_all add: read_line_colors)

lemma read_lines_distinct:
  "dict_wf (snd st) \<Longrightarrow> dict_wf (snd (fold read_line ls st))"
proof (induction ls arbitrary: st)
  case (Cons l ls)
  have "dict_wf (snd (read_line l st))" using Cons.prems
    by (auto simp: read_line_def apply_entry_def on_timeline_def alist.wf_store
        split: option.split entry.split prod.split)
  with Cons.IH show ?case by simp
qed simp


section \<open>Colors that run out\<close>

lemma lookup_color_cases:
  "lookup_color n cs = (case map_of (named cs) n of Some c \<Rightarrow> Return (c, cs)
    | None \<Rightarrow> if default_colors cs = [] then Raise IndexError else Return (last (default_colors cs),
        cs\<lparr>named := AList.update n (last (default_colors cs)) (named cs),
           default_colors := butlast (default_colors cs)\<rparr>))"
  by (simp add: lookup_color_def add_color_def Let_def split: option.split)

definition undefined_names :: "string list \<Rightarrow> colors \<Rightarrow> string set" where
  "undefined_names ns cs = set ns - dom (map_of (named cs))"

lemma finite_undefined [simp]: "finite (undefined_names ns cs)"
  by (simp add: undefined_names_def)

text \<open>How the colors after a lookup of several names relate to those before.\<close>

definition shared_out :: "string list \<Rightarrow> colors \<Rightarrow> colors \<Rightarrow> bool" where
  "shared_out ns cs cs' \<longleftrightarrow>
     (let k = length (default_colors cs) - card (undefined_names ns cs) in
      default_colors cs' = take k (default_colors cs) \<and>
      map_of (named cs) \<subseteq>\<^sub>m map_of (named cs') \<and>
      dom (map_of (named cs')) = dom (map_of (named cs)) \<union> set ns \<and>
      map_of (named cs') ` undefined_names ns cs = Some ` set (drop k (default_colors cs)))"

lemma shared_out_known:
  assumes "shared_out ns cs cs'" and n: "map_of (named cs) n = Some c"
  shows "shared_out (n # ns) cs cs'" "map_of (named cs') n = Some c"
    "undefined_names (n # ns) cs = undefined_names ns cs"
proof -
  show u: "undefined_names (n # ns) cs = undefined_names ns cs" using n by (auto simp: undefined_names_def)
  have "map_of (named cs) \<subseteq>\<^sub>m map_of (named cs')" using assms(1) by (simp add: shared_out_def Let_def)
  with n show "map_of (named cs') n = Some c" by (metis domI map_le_def)
  show "shared_out (n # ns) cs cs'" using assms unfolding shared_out_def u by (auto simp: Let_def)
qed

lemma undefined_names_new:
  fixes c :: color and ds :: "color list"
  assumes n: "map_of (named cs) n = None"
  defines "cs1 \<equiv> cs\<lparr>named := AList.update n c (named cs), default_colors := ds\<rparr>"
  shows "undefined_names (n # ns) cs = insert n (undefined_names ns cs1)" "n \<notin> undefined_names ns cs1"
    "card (undefined_names (n # ns) cs) = Suc (card (undefined_names ns cs1))"
proof -
  show 1: "undefined_names (n # ns) cs = insert n (undefined_names ns cs1)" and 2: "n \<notin> undefined_names ns cs1"
    using n by (auto simp: undefined_names_def cs1_def alist.lookup_store)
  show "card (undefined_names (n # ns) cs) = Suc (card (undefined_names ns cs1))" unfolding 1 using 2 by simp
qed

lemma shared_out_new:
  assumes n: "map_of (named cs) n = None" and ds: "default_colors cs = ds @ [c]"
  defines "cs1 \<equiv> cs\<lparr>named := AList.update n c (named cs), default_colors := ds\<rparr>"
  assumes sh: "shared_out ns cs1 cs'" and le: "card (undefined_names ns cs1) \<le> length ds"
  shows "shared_out (n # ns) cs cs'" "map_of (named cs') n = Some c"
proof -
  note u = undefined_names_new [OF n, where ns = ns and c = c and ds = ds, folded cs1_def]
  have cs1: "default_colors cs1 = ds" "map_of (named cs1) = (map_of (named cs))(n \<mapsto> c)"
    by (simp_all add: cs1_def alist.lookup_store)
  from sh have 1: "default_colors cs' = take (length ds - card (undefined_names ns cs1)) ds"
    and 2: "(map_of (named cs))(n \<mapsto> c) \<subseteq>\<^sub>m map_of (named cs')"
    and 3: "dom (map_of (named cs')) = insert n (dom (map_of (named cs))) \<union> set ns"
    and 4: "map_of (named cs') ` undefined_names ns cs1 =
      Some ` set (drop (length ds - card (undefined_names ns cs1)) ds)"
    by (simp_all add: shared_out_def Let_def cs1)
  show v: "map_of (named cs') n = Some c" using 2 by (auto simp: map_le_def split: if_splits)
  have k: "length (default_colors cs) - card (undefined_names (n # ns) cs) =
      length ds - card (undefined_names ns cs1)" unfolding u(3) ds by simp
  have "map_of (named cs) \<subseteq>\<^sub>m (map_of (named cs))(n \<mapsto> c)" using n by (auto simp: map_le_def)
  then have le': "map_of (named cs) \<subseteq>\<^sub>m map_of (named cs')" by (rule map_le_trans) (rule 2)
  show "shared_out (n # ns) cs cs'"
    unfolding shared_out_def Let_def k
    unfolding u(1)
    using 1 le' 3 4 v ds by auto
qed

lemma lookup_colors_correct:
  "if card (undefined_names ns cs) \<le> length (default_colors cs)
   then \<exists>cs'. lookup_colors ns cs = Return (map (\<lambda>n. the (map_of (named cs') n)) ns, cs') \<and> shared_out ns cs cs'
   else lookup_colors ns cs = Raise IndexError"
proof (induction ns arbitrary: cs)
  case Nil
  then show ?case by (simp add: undefined_names_def shared_out_def)
next
  case (Cons n ns)
  show ?case
  proof (cases "map_of (named cs) n")
    case (Some c)
    then have l: "lookup_color n cs = Return (c, cs)" by (simp add: lookup_color_cases)
    have u: "undefined_names (n # ns) cs = undefined_names ns cs"
      using Some by (auto simp: undefined_names_def)
    show ?thesis
    proof (cases "card (undefined_names ns cs) \<le> length (default_colors cs)")
      case True
      with Cons.IH [of cs] obtain cs' where
        "lookup_colors ns cs = Return (map (\<lambda>n. the (map_of (named cs') n)) ns, cs')" "shared_out ns cs cs'"
        by auto
      with l True u shared_out_known [OF this(2) Some] show ?thesis
        by (auto intro!: exI [of _ cs'])
    next
      case False
      with Cons.IH [of cs] l u show ?thesis by simp
    qed
  next
    case None
    show ?thesis
    proof (cases "default_colors cs" rule: rev_cases)
      case Nil
      have "n \<in> undefined_names (n # ns) cs" using None by (auto simp: undefined_names_def)
      then have "card (undefined_names (n # ns) cs) \<noteq> 0" by (metis card_0_eq empty_iff finite_undefined)
      with Nil None show ?thesis by (simp add: lookup_color_cases)
    next
      case (snoc ds c)
      let ?cs = "cs\<lparr>named := AList.update n c (named cs), default_colors := ds\<rparr>"
      have l: "lookup_color n cs = Return (c, ?cs)" using None snoc by (simp add: lookup_color_cases)
      note u = undefined_names_new(3) [OF None, where ns = ns and c = c and ds = ds]
      show ?thesis
      proof (cases "card (undefined_names ns ?cs) \<le> length ds")
        case True
        with Cons.IH [of ?cs] obtain cs' where
          *: "lookup_colors ns ?cs = Return (map (\<lambda>n. the (map_of (named cs') n)) ns, cs')" "shared_out ns ?cs cs'"
          by auto
        note sh = shared_out_new [OF None snoc *(2) True]
        have "lookup_colors (n # ns) cs = Return (map (\<lambda>n. the (map_of (named cs') n)) (n # ns), cs')"
          using l *(1) sh(2) by simp
        moreover have "card (undefined_names (n # ns) cs) \<le> length (default_colors cs)"
          unfolding u snoc using True by simp
        ultimately show ?thesis using sh(1) by auto
      next
        case False
        with Cons.IH [of ?cs] have "lookup_colors ns ?cs = Raise IndexError" by simp
        with l have "lookup_colors (n # ns) cs = Raise IndexError" by simp
        moreover have "\<not> card (undefined_names (n # ns) cs) \<le> length (default_colors cs)"
          unfolding u snoc using False by simp
        ultimately show ?thesis by simp
      qed
    qed
  qed
qed

text \<open>Looking up the colors of a list of names succeeds exactly when at most as many of the
  names have no color as there are default colors left; then earlier colors stay, every name has the
  color returned for it, and the names that had none share out the last default colors. Else it
  raises IndexError. With the six defaults of the class, a file with seven values that have no color
  line cannot be shown.\<close>

theorem lookup_colors_limit:
  "(if card (undefined_names ns cs) \<le> length (default_colors cs)
    then \<exists>cs'. lookup_colors ns cs = Return (map (\<lambda>n. the (map_of (named cs') n)) ns, cs') \<and>
      map_of (named cs) \<subseteq>\<^sub>m map_of (named cs') \<and>
      map_of (named cs') ` undefined_names ns cs =
        Some ` set (drop (length (default_colors cs) - card (undefined_names ns cs)) (default_colors cs))
    else lookup_colors ns cs = Raise IndexError) \<and>
   lookup_colors [''a'', ''b'', ''c'', ''d'', ''e'', ''f'', ''g''] new_colors = Raise IndexError"
proof
  show "if card (undefined_names ns cs) \<le> length (default_colors cs)
    then \<exists>cs'. lookup_colors ns cs = Return (map (\<lambda>n. the (map_of (named cs') n)) ns, cs') \<and>
      map_of (named cs) \<subseteq>\<^sub>m map_of (named cs') \<and>
      map_of (named cs') ` undefined_names ns cs =
        Some ` set (drop (length (default_colors cs) - card (undefined_names ns cs)) (default_colors cs))
    else lookup_colors ns cs = Raise IndexError"
    using lookup_colors_correct [of ns cs] by (auto simp: shared_out_def Let_def)
qed code_simp

end
