(* ===== verification/Grid_Layout.thy ===== *)
theory Grid_Layout
  imports Timeline_Data Complex_Main
begin

text \<open>
  The geometry of \<open>utils/grid.py\<close>: \<open>ScaleRenderer\<close>, \<open>TopLegendRenderer\<close> and
  \<open>TimelinesRenderer\<close>. The sizes of texts come from cairo and are arguments; coordinates are
  rational numbers. What is drawn is modelled by the positions given to cairo.
\<close>

section \<open>The scales\<close>

text \<open>\<open>while (closest*10) < data_delta\<close>, started at one: \<open>closest\<close> is an integer, the distance an
  integer in the bottom scale and a float in the middle one.\<close>

function scale_closest :: "int \<Rightarrow> rat \<Rightarrow> int" where
  "scale_closest closest d =
     (if 0 < closest \<and> of_int (closest * 10) < d then scale_closest (closest * 10) d else closest)"
  by pat_completeness auto
termination
proof (relation "measure (\<lambda>(closest, d). nat (\<lceil>d\<rceil> - closest))", goal_cases)
  case (2 closest d)
  then have "closest * 10 < \<lceil>d\<rceil>" by (simp add: less_ceiling_iff)
  with 2 show ?case by simp
qed simp

declare scale_closest.simps [simp del]

text \<open>The distance between two ticks, from integer bounds and from float bounds.\<close>

definition scale_delta :: "int \<Rightarrow> int" where
  "scale_delta data_delta =
     (let closest = scale_closest 1 (of_int data_delta) in
      if data_delta div closest = 0 then closest
      else if data_delta div closest = 1 then closest div 10
      else closest)"

definition scale_delta_float :: "rat \<Rightarrow> int" where
  "scale_delta_float data_delta =
     (let closest = scale_closest 1 data_delta in
      if data_delta / of_int closest = 0 then closest
      else if data_delta / of_int closest = 1 then closest div 10
      else closest)"

text \<open>\<open>layout\<close> keeps the distance, but first takes remainders by it.\<close>

definition scale_layout :: "int \<Rightarrow> int \<Rightarrow> int res" where
  "scale_layout lo hi =
     (let delta = scale_delta (hi - lo) in if delta = 0 then Raise ZeroDivisionError else Return delta)"

definition scale_layout_float :: "rat \<Rightarrow> rat \<Rightarrow> int res" where
  "scale_layout_float lo hi =
     (let delta = scale_delta_float (hi - lo) in if delta = 0 then Raise ZeroDivisionError else Return delta)"

text \<open>\<open>range(a, b, step)\<close> for a positive step.\<close>

definition py_range :: "int \<Rightarrow> int \<Rightarrow> int \<Rightarrow> int list" where
  "py_range a b step = map (\<lambda>i. a + int i * step) [0..<nat ((b - a + step - 1) div step)]"

text \<open>The ticks that \<open>draw\<close> marks, and their places on a scale of a given width.\<close>

definition scale_ticks :: "int \<Rightarrow> int \<Rightarrow> int \<Rightarrow> int list" where
  "scale_ticks lo hi delta = py_range (lo - lo mod delta + delta) (hi - hi mod delta + delta) delta"

definition get_position :: "int \<Rightarrow> int \<Rightarrow> int \<Rightarrow> int \<Rightarrow> int" where
  "get_position lo hi width x = (x - lo) * width div (hi - lo)"

definition scale_subticks :: "int \<Rightarrow> int \<Rightarrow> int \<Rightarrow> int list" where
  "scale_subticks lo hi delta = (if delta div 10 > 0 then scale_ticks lo hi (delta div 10) else [])"

lemma scale_closest_power: "0 < c \<Longrightarrow> \<exists>k. scale_closest c d = c * 10 ^ k"
proof (induction c d rule: scale_closest.induct)
  case (1 c d)
  show ?case
  proof (cases "of_int (c * 10) < d")
    case True
    with 1 obtain k where "scale_closest (c * 10) d = c * 10 * 10 ^ k" by auto
    then have "scale_closest c d = c * 10 ^ Suc k"
      using True 1(2) by (simp add: scale_closest.simps [of c])
    then show ?thesis ..
  next
    case False
    then show ?thesis by (auto simp: scale_closest.simps [of c] intro: exI [of _ 0])
  qed
qed

lemma scale_closest_bounds:
  "0 < c \<Longrightarrow> d \<le> of_int (scale_closest c d * 10) \<and>
    (scale_closest c d = c \<or> of_int (scale_closest c d) < d)"
proof (induction c d rule: scale_closest.induct)
  case (1 c d)
  show ?case
  proof (cases "of_int (c * 10) < d")
    case True
    then have e: "scale_closest c d = scale_closest (c * 10) d"
      using 1(2) by (simp only: scale_closest.simps [of c]) simp
    have "0 < c \<and> of_int (c * 10) < d" "0 < c * 10" using 1(2) True by simp_all
    from 1(1) [OF this] True show ?thesis unfolding e by metis
  next
    case False
    then have "scale_closest c d = c" by (simp only: scale_closest.simps [of c]) simp
    with False show ?thesis by (simp only: not_less simp_thms)
  qed
qed

lemma scale_delta_cases:
  assumes "0 \<le> d"
  shows "if d = 1 then scale_delta d = 0
    else \<exists>k. scale_delta d = 10 ^ k \<and> d \<le> 20 * scale_delta d \<and> (2 \<le> d \<longrightarrow> 2 * scale_delta d \<le> d)"
proof -
  obtain c where c: "c = scale_closest 1 (of_int d)" by blast
  obtain k where k: "c = 10 ^ k" using scale_closest_power [of 1 "of_int d"] c by auto
  have "0 < (1::int)" by simp
  from scale_closest_bounds [OF this, of "of_int d", folded c]
  have "(of_int d :: rat) \<le> of_int (c * 10)" "c = 1 \<or> (of_int c :: rat) < of_int d" by blast+
  then have up: "d \<le> c * 10" and low: "c = 1 \<or> c < d" by (simp_all only: of_int_le_iff of_int_less_iff)
  have delta: "scale_delta d = (if d div c = 0 then c else if d div c = 1 then c div 10 else c)"
    by (simp add: scale_delta_def c Let_def)
  have pos: "1 \<le> c" by (simp add: k)
  have split: "d div c * c + d mod c = d" "0 \<le> d mod c" "d mod c < c" using pos by simp_all
  consider "d < c" | "c \<le> d" "d < 2 * c" | "2 * c \<le> d" by linarith
  then show ?thesis
  proof cases
    case 1
    with low have "c = 1" by simp
    with 1 assms delta show ?thesis by (auto intro: exI [of _ 0])
  next
    case 2
    then have "d div c = 1" using pos by (intro int_div_pos_eq [of _ _ _ "d - c"]) auto
    then have delta: "scale_delta d = c div 10" using delta by simp
    show ?thesis
    proof (cases k)
      case 0
      with k 2 have "d = 1" "c = 1" by simp_all
      with delta show ?thesis by simp
    next
      case (Suc j)
      with k have j: "c = 10 * 10 ^ j" by simp
      then have "scale_delta d = 10 ^ j" using delta by simp
      moreover have "1 \<le> (10 ^ j :: int)" by simp
      with 2 j have "d \<noteq> 1" by linarith
      ultimately show ?thesis using 2 j by (auto intro!: exI [of _ j])
    qed
  next
    case 3
    then have "2 \<le> d div c" using pos zdiv_mono1 [of "2 * c" d c] by simp
    then have "scale_delta d = c" using delta by simp
    moreover have "d \<noteq> 1" using 3 pos by linarith
    ultimately have "\<exists>k. scale_delta d = 10 ^ k \<and> d \<le> 20 * scale_delta d \<and> (2 \<le> d \<longrightarrow> 2 * scale_delta d \<le> d)"
      using 3 pos up k by (intro exI [of _ k] conjI impI) linarith+
    with \<open>d \<noteq> 1\<close> show ?thesis by simp
  qed
qed

lemma div_bounds:
  assumes "0 < (m::int)"
  shows "x div m * m \<le> x" "x < (x div m + 1) * m"
proof -
  have "(x div m + 1) * m = x div m * m + m" by (simp add: distrib_right)
  with div_mult_mod_eq [of x m] pos_mod_sign [OF assms, of x] pos_mod_bound [OF assms, of x]
  show "x div m * m \<le> x" "x < (x div m + 1) * m" by linarith+
qed

lemma scale_ticks_eq:
  assumes "0 < delta"
  shows "scale_ticks lo hi delta =
    map (\<lambda>i. (lo div delta + 1 + int i) * delta) [0..<nat (hi div delta - lo div delta)]"
proof -
  let ?n = "hi div delta - lo div delta"
  have r: "hi - hi mod delta + delta - (lo - lo mod delta + delta) = ?n * delta"
    by (simp add: left_diff_distrib minus_mod_eq_div_mult)
  have "(?n * delta + delta - 1) div delta = ?n"
    using assms by (intro int_div_pos_eq [of _ _ _ "delta - 1"]) (auto simp: mult.commute)
  moreover have "lo - lo mod delta + delta + int i * delta = (lo div delta + 1 + int i) * delta" for i
    by (simp add: minus_mod_eq_div_mult distrib_right)
  ultimately show ?thesis unfolding scale_ticks_def py_range_def r by simp
qed

lemma set_scale_ticks:
  assumes "0 < delta"
  shows "set (scale_ticks lo hi delta) = {x. lo < x \<and> x \<le> hi \<and> delta dvd x}"
proof (intro equalityI subsetI)
  fix x assume "x \<in> set (scale_ticks lo hi delta)"
  then obtain i where x: "x = (lo div delta + 1 + int i) * delta"
    and "i \<in> {0..<nat (hi div delta - lo div delta)}"
    unfolding scale_ticks_eq [OF assms] set_map set_upt by blast
  then have i: "int i < hi div delta - lo div delta" by simp
  have "lo < (lo div delta + 1) * delta" by (rule div_bounds(2) [OF assms])
  also have "\<dots> \<le> x" using assms by (simp add: x mult_right_mono)
  finally have "lo < x" .
  moreover have "x \<le> hi div delta * delta" using assms i by (simp add: x mult_right_mono)
  then have "x \<le> hi" using div_mult_mod_eq [of hi delta] pos_mod_sign [OF assms, of hi] by linarith
  ultimately show "x \<in> {x. lo < x \<and> x \<le> hi \<and> delta dvd x}" by (simp add: x)
next
  fix x assume "x \<in> {x. lo < x \<and> x \<le> hi \<and> delta dvd x}"
  then obtain q where q: "x = q * delta" "lo < q * delta" "q * delta \<le> hi" by (auto simp: dvd_def mult.commute)
  have "lo div delta < q"
  proof (rule ccontr)
    assume "\<not> lo div delta < q"
    then have "q * delta \<le> lo div delta * delta" using assms by (simp add: mult_right_mono)
    with q(2) div_mult_mod_eq [of lo delta] pos_mod_sign [OF assms, of lo] show False by linarith
  qed
  moreover have "q \<le> hi div delta" using zdiv_mono1 [OF q(3) assms] assms by simp
  ultimately have "nat (q - lo div delta - 1) \<in> {0..<nat (hi div delta - lo div delta)}"
    "lo div delta + 1 + int (nat (q - lo div delta - 1)) = q" by auto
  then show "x \<in> set (scale_ticks lo hi delta)"
    unfolding scale_ticks_eq [OF assms] set_map set_upt q(1) by (metis (no_types, lifting) image_eqI)
qed

lemma sorted_scale_ticks:
  assumes "0 < delta" shows "sorted_wrt (<) (scale_ticks lo hi delta)"
  using assms by (auto simp: scale_ticks_eq sorted_wrt_iff_nth_less)

lemma length_scale_ticks:
  assumes "0 < delta" shows "int (length (scale_ticks lo hi delta)) = max 0 (hi div delta - lo div delta)"
  using assms by (simp add: scale_ticks_eq)

text \<open>For bounds in order, the bottom scale's \<open>layout\<close> raises ZeroDivisionError exactly when they
  are one apart. Otherwise the distance of the ticks is a power of ten, the ticks are the
  multiples of it above the lower and up to the upper bound, in order, at most twenty of them and
  one at least when the bounds are two or more apart, each at a place within the width.\<close>

theorem scale_layout_ticks:
  assumes "lo \<le> hi" and "0 \<le> width"
  shows "if hi - lo = 1 then scale_layout lo hi = Raise ZeroDivisionError
    else \<exists>k. scale_layout lo hi = Return (10 ^ k) \<and>
      set (scale_ticks lo hi (10 ^ k)) = {x. lo < x \<and> x \<le> hi \<and> 10 ^ k dvd x} \<and>
      sorted_wrt (<) (scale_ticks lo hi (10 ^ k)) \<and>
      length (scale_ticks lo hi (10 ^ k)) \<le> 20 \<and>
      (2 \<le> hi - lo \<longrightarrow> scale_ticks lo hi (10 ^ k) \<noteq> []) \<and>
      (\<forall>x. x \<in> set (scale_ticks lo hi (10 ^ k)) \<longrightarrow>
        0 \<le> get_position lo hi width x \<and> get_position lo hi width x \<le> width)"
proof (cases "hi - lo = 1")
  case True
  with scale_delta_cases [of "hi - lo"] show ?thesis by (simp add: scale_layout_def)
next
  case False
  with scale_delta_cases [of "hi - lo"] assms obtain k where
    k: "scale_delta (hi - lo) = 10 ^ k" "hi - lo \<le> 20 * 10 ^ k" "2 \<le> hi - lo \<longrightarrow> 2 * 10 ^ k \<le> hi - lo"
    by auto
  let ?d = "10 ^ k :: int"
  have pos: "0 < ?d" by simp
  have l: "scale_layout lo hi = Return ?d" by (simp add: scale_layout_def k(1))
  have h: "hi div ?d * ?d \<le> hi" "lo < (lo div ?d + 1) * ?d" "lo div ?d * ?d \<le> lo" "hi < (hi div ?d + 1) * ?d"
    using div_bounds [OF pos, of hi] div_bounds [OF pos, of lo] by blast+
  have "hi div ?d - lo div ?d \<le> 20"
  proof (rule ccontr)
    assume "\<not> hi div ?d - lo div ?d \<le> 20"
    then have "21 * ?d \<le> (hi div ?d - lo div ?d) * ?d" by (intro mult_right_mono) simp_all
    with h k(2) show False by (simp add: left_diff_distrib distrib_right)
  qed
  with length_scale_ticks [OF pos, of lo hi] have "length (scale_ticks lo hi ?d) \<le> 20" by linarith
  moreover have "scale_ticks lo hi ?d \<noteq> []" if "2 \<le> hi - lo"
  proof -
    have "hi div ?d - lo div ?d > 0"
    proof (rule ccontr)
      assume "\<not> hi div ?d - lo div ?d > 0"
      then have "(hi div ?d + 1) * ?d \<le> (lo div ?d + 1) * ?d" by (intro mult_right_mono) simp_all
      moreover have "(lo div ?d + 1) * ?d = lo div ?d * ?d + ?d" by (simp add: distrib_right)
      ultimately have "hi < lo + ?d" using h by linarith
      with k(3) that pos show False by linarith
    qed
    with length_scale_ticks [OF pos, of lo hi] show ?thesis by auto
  qed
  moreover have "0 \<le> get_position lo hi width x \<and> get_position lo hi width x \<le> width"
    if "lo < x \<and> x \<le> hi" for x
  proof -
    have "(x - lo) * width \<le> (hi - lo) * width" using that assms(2) by (intro mult_right_mono) simp_all
    then have "get_position lo hi width x \<le> (hi - lo) * width div (hi - lo)"
      unfolding get_position_def using that by (intro zdiv_mono1) simp_all
    moreover have "0 \<le> (x - lo) * width" using that assms(2) by simp
    ultimately show ?thesis using that by (simp add: get_position_def pos_imp_zdiv_nonneg_iff)
  qed
  moreover have "x \<in> set (scale_ticks lo hi ?d) \<Longrightarrow> lo < x \<and> x \<le> hi" for x
    by (simp add: set_scale_ticks [OF pos])
  ultimately have "\<exists>k. scale_layout lo hi = Return (10 ^ k) \<and>
      set (scale_ticks lo hi (10 ^ k)) = {x. lo < x \<and> x \<le> hi \<and> 10 ^ k dvd x} \<and>
      sorted_wrt (<) (scale_ticks lo hi (10 ^ k)) \<and>
      length (scale_ticks lo hi (10 ^ k)) \<le> 20 \<and>
      (2 \<le> hi - lo \<longrightarrow> scale_ticks lo hi (10 ^ k) \<noteq> []) \<and>
      (\<forall>x. x \<in> set (scale_ticks lo hi (10 ^ k)) \<longrightarrow>
        0 \<le> get_position lo hi width x \<and> get_position lo hi width x \<le> width)"
    using l set_scale_ticks [OF pos] sorted_scale_ticks [OF pos] by blast
  with False show ?thesis by simp
qed

theorem scale_layout_ticks_witness:
  "scale_layout 4 5 = Raise ZeroDivisionError \<and> (\<exists>k. scale_layout 0 250 = Return (10 ^ k) \<and>
     set (scale_ticks 0 250 (10 ^ k)) = {x. 0 < x \<and> x \<le> 250 \<and> 10 ^ k dvd x})"
  using scale_layout_ticks [of 4 5 100] scale_layout_ticks [of 0 250 100] by auto

section \<open>The legend\<close>

text \<open>
  One item of the loop that \<open>layout\<close> and \<open>draw\<close> share: the size of its text, and the variables
  \<open>line_height\<close>, \<open>total_height\<close> and \<open>line_used\<close>. A box is where the item is drawn and how much
  room it takes.
\<close>

type_synonym box = "rat \<times> rat \<times> rat \<times> rat"

definition legend_item :: "rat \<Rightarrow> rat \<Rightarrow> rat \<times> rat \<Rightarrow> rat \<times> rat \<times> rat \<Rightarrow> box \<times> rat \<times> rat \<times> rat" where
  "legend_item padding width ext st =
     (let (t_width, t_height) = ext;
          (line_height, total_height, line_used) = st;
          item_width = padding + padding + t_width + padding;
          item_height = t_height + padding;
          line_height = (if item_height > line_height then item_height else line_height);
          wrap = line_used + item_width > width;
          total_height = (if wrap then total_height + line_height else total_height);
          line_used = (if wrap then padding + item_width else line_used + item_width)
      in ((line_used - item_width, total_height, item_width, item_height),
          (line_height, total_height, line_used)))"

fun legend_loop :: "rat \<Rightarrow> rat \<Rightarrow> (rat \<times> rat) list \<Rightarrow> rat \<times> rat \<times> rat \<Rightarrow> box list \<times> rat \<times> rat \<times> rat" where
  "legend_loop padding width [] st = ([], st)"
| "legend_loop padding width (ext # sizes) st =
     (let (b, st) = legend_item padding width ext st;
          (bs, st) = legend_loop padding width sizes st
      in (b # bs, st))"

definition legend_height :: "rat \<Rightarrow> rat \<Rightarrow> (rat \<times> rat) list \<Rightarrow> rat" where
  "legend_height padding width sizes =
     (let (bs, line_height, total_height, line_used) = legend_loop padding width sizes (0, padding, padding)
      in total_height + line_height)"

definition legend_boxes :: "rat \<Rightarrow> rat \<Rightarrow> (rat \<times> rat) list \<Rightarrow> box list" where
  "legend_boxes padding width sizes = fst (legend_loop padding width sizes (0, padding, padding))"

text \<open>A later box is to the right in the same line or in a line that starts below.\<close>

definition box_before :: "box \<Rightarrow> box \<Rightarrow> bool" where
  "box_before = (\<lambda>(x, y, w, h) (x', y', w', h'). (y = y' \<and> x + w \<le> x') \<or> y + h \<le> y')"

definition box_in :: "rat \<Rightarrow> rat \<Rightarrow> rat \<Rightarrow> box \<Rightarrow> bool" where
  "box_in padding width height =
     (\<lambda>(x, y, w, h). padding \<le> x \<and> padding \<le> y \<and> y + h \<le> height \<and> (x + w \<le> width \<or> x = padding))"

text \<open>Boxes of the rest of the loop: further right in the current line, or in a later line.\<close>

definition box_from :: "rat \<Rightarrow> rat \<Rightarrow> rat \<Rightarrow> box \<Rightarrow> bool" where
  "box_from lu th lh b = ((fst (snd b) = th \<and> lu \<le> fst b) \<or> th + lh \<le> fst (snd b))"

lemma legend_loop_boxes:
  "0 \<le> padding \<Longrightarrow> list_all (\<lambda>(w, h). 0 \<le> w \<and> 0 \<le> h) sizes \<Longrightarrow> padding \<le> lu \<Longrightarrow> padding \<le> th \<Longrightarrow> 0 \<le> lh \<Longrightarrow>
    legend_loop padding width sizes (lh, th, lu) = (bs, lh', th', lu') \<Longrightarrow>
    lh \<le> lh' \<and> th + lh \<le> th' + lh' \<and> list_all (box_in padding width (th' + lh')) bs \<and>
    list_all (box_from lu th lh) bs \<and> sorted_wrt box_before bs"
proof (induction sizes arbitrary: lh th lu bs)
  case (Cons ext sizes)
  obtain w h where ext: "ext = (w, h)" by (cases ext)
  let ?iw = "padding + padding + w + padding" and ?ih = "h + padding"
  let ?lh = "if ?ih > lh then ?ih else lh"
  let ?wrap = "lu + ?iw > width"
  let ?th = "if ?wrap then th + ?lh else th"
  let ?lu = "if ?wrap then padding + ?iw else lu + ?iw"
  let ?b = "(?lu - ?iw, ?th, ?iw, ?ih)"
  have item: "legend_item padding width ext (lh, th, lu) = (?b, ?lh, ?th, ?lu)"
    by (simp add: legend_item_def ext Let_def)
  with Cons.prems(6) obtain bs1 where
    r: "legend_loop padding width sizes (?lh, ?th, ?lu) = (bs1, lh', th', lu')" and bs: "bs = ?b # bs1"
    by (auto split: prod.splits)
  have wh: "0 \<le> w" "0 \<le> h" using Cons.prems(2) ext by simp_all
  have IH: "?lh \<le> lh'" "?th + ?lh \<le> th' + lh'" "list_all (box_in padding width (th' + lh')) bs1"
    "list_all (box_from ?lu ?th ?lh) bs1" "sorted_wrt box_before bs1"
  proof -
    have "list_all (\<lambda>(w, h). 0 \<le> w \<and> 0 \<le> h) sizes" "padding \<le> ?lu" "padding \<le> ?th" "0 \<le> ?lh"
      using Cons.prems wh by auto
    from Cons.IH [OF Cons.prems(1) this r] show "?lh \<le> lh'" "?th + ?lh \<le> th' + lh'"
      "list_all (box_in padding width (th' + lh')) bs1"
      "list_all (box_from ?lu ?th ?lh) bs1" "sorted_wrt box_before bs1" by blast+
  qed
  have b_in: "box_in padding width (th' + lh') ?b"
    using IH(2) Cons.prems(1,3,4,5) wh by (auto simp: box_in_def split: if_splits)
  have first: "box_from lu th lh ?b"
    using Cons.prems(5) by (auto simp: box_from_def)
  have step: "box_from lu th lh b" if "box_from ?lu ?th ?lh b" for b
    using that Cons.prems(1,5) wh by (auto simp: box_from_def split: if_splits)
  then have rest: "list_all (box_from lu th lh) bs1" using IH(4) by (auto simp: list_all_iff)
  have "box_before ?b b" if "box_from ?lu ?th ?lh b" for b
    using that by (cases b) (auto simp: box_from_def box_before_def split: if_splits)
  then have "\<forall>b \<in> set bs1. box_before ?b b" using IH(4) by (simp add: list_all_iff)
  moreover have "lh \<le> ?lh" by simp
  then have "lh \<le> lh'" using IH(1) by (rule order.trans)
  moreover have "th + lh \<le> ?th + ?lh" using Cons.prems(5) by auto
  then have "th + lh \<le> th' + lh'" using IH(2) by (rule order.trans)
  ultimately show ?case using IH(3,5) b_in first rest unfolding bs list.pred_inject sorted_wrt.simps by blast
qed simp

text \<open>The legend's items never overlap and stay in the room that \<open>layout\<close> computes: each box
  is at least a padding away from the left and the top, ends above the height returned, and ends
  left of the width or starts its line.\<close>

theorem legend_layout_boxes:
  assumes "0 \<le> padding" and "list_all (\<lambda>(w, h). 0 \<le> w \<and> 0 \<le> h) sizes"
  shows "list_all (box_in padding width (legend_height padding width sizes)) (legend_boxes padding width sizes) \<and>
    sorted_wrt box_before (legend_boxes padding width sizes) \<and>
    length (legend_boxes padding width sizes) = length sizes"
proof -
  obtain bs lh th lu where r: "legend_loop padding width sizes (0, padding, padding) = (bs, lh, th, lu)"
    by (cases "legend_loop padding width sizes (0, padding, padding)") auto
  have "length (fst (legend_loop padding width sizes st)) = length sizes" for st
    by (induction sizes arbitrary: st) (simp_all add: case_prod_beta Let_def)
  from this [of "(0, padding, padding)"] have "length bs = length sizes" by (simp add: r)
  with legend_loop_boxes [OF assms _ _ _ r] r show ?thesis
    by (auto simp: legend_height_def legend_boxes_def)
qed

theorem legend_layout_boxes_witness:
  "legend_boxes 10 100 [(40, 8), (20, 12)] = [(10, 10, 70, 18), (10, 32, 50, 22)] \<and>
   sorted_wrt box_before (legend_boxes 10 100 [(40, 8), (20, 12)])"
proof -
  have "legend_boxes 10 100 [(40, 8), (20, 12)] = [(10, 10, 70, 18), (10, 32, 50, 22)]"
    by (simp add: legend_boxes_def legend_item_def)
  with legend_layout_boxes [of 10 "[(40, 8), (20, 12)]" 100] show ?thesis by simp
qed

section \<open>The timelines\<close>

text \<open>
  The sizes that \<open>TimelinesRenderer.layout\<close> computes, from the width of a text and the height of
  a line of text; \<open>get_data_x_start\<close>; and how far down \<open>draw\<close> moves over all rows.
\<close>

definition row_names :: "(string \<times> timeline) list \<Rightarrow> string list" where
  "row_names ts = concat (map (\<lambda>(n, t). map fst (ranges t) @ map fst (event_int t) @ map fst (event_str t)) ts)"

definition range_count :: "(string \<times> timeline) list \<Rightarrow> nat" where
  "range_count ts = sum_list (map (\<lambda>(n, t). length (ranges t)) ts)"

definition event_count :: "(string \<times> timeline) list \<Rightarrow> nat" where
  "event_count ts = sum_list (map (\<lambda>(n, t). length (event_int t) + length (event_str t)) ts)"

definition max_width :: "(string \<Rightarrow> rat) \<Rightarrow> string list \<Rightarrow> rat" where
  "max_width text_width names = fold (\<lambda>n w. max w (text_width n)) names 0"

definition timelines_height :: "rat \<Rightarrow> rat \<Rightarrow> (string \<times> timeline) list \<Rightarrow> rat" where
  "timelines_height padding text_height ts =
     (let left_n = of_nat (length ts); range_n = of_nat (range_count ts); event_n = of_nat (event_count ts);
          left_height = left_n * text_height + (left_n - 1) * padding;
          right_n = range_n + event_n;
          right_height = (right_n - 1) * padding + right_n * text_height;
          right_data_height = event_n * (text_height + 5) + range_n * 10 + (right_n - 1) * padding
      in max (max left_height right_height) right_data_height + padding)"

definition data_x_start :: "rat \<Rightarrow> (string \<Rightarrow> rat) \<Rightarrow> (string \<times> timeline) list \<Rightarrow> rat" where
  "data_x_start padding text_width ts =
     padding / 2 + max_width text_width (map fst ts) + padding + max_width text_width (row_names ts) + padding / 2"

definition draw_row_heights :: "rat \<Rightarrow> rat \<Rightarrow> (string \<times> timeline) list \<Rightarrow> rat list" where
  "draw_row_heights padding text_height ts =
     concat (map (\<lambda>(n, t).
       map (\<lambda>_. text_height + 5 + padding) (event_int t) @
       map (\<lambda>_. text_height + 5 + padding) (event_str t) @
       map (\<lambda>_. text_height + padding) (ranges t)) ts)"

definition draw_bottom :: "rat \<Rightarrow> rat \<Rightarrow> (string \<times> timeline) list \<Rightarrow> rat" where
  "draw_bottom padding text_height ts = fold (+) (draw_row_heights padding text_height ts) (padding / 2) - padding / 2"

text \<open>\<open>int(x)\<close> cuts off towards zero. The marks of \<open>draw_events\<close> and the rectangles of
  \<open>draw_ranges\<close>, with the window \<open>w_lo\<close>, \<open>w_hi\<close> shown at \<open>x\<close> over a width.\<close>

definition py_trunc :: "rat \<Rightarrow> int" where
  "py_trunc x = (if 0 \<le> x then \<lfloor>x\<rfloor> else \<lceil>x\<rceil>)"

definition data_x :: "rat \<Rightarrow> rat \<Rightarrow> rat \<Rightarrow> rat \<Rightarrow> rat \<Rightarrow> int" where
  "data_x x width w_lo w_hi t = py_trunc (x + (t - w_lo) * width / (w_hi - w_lo))"

definition event_marks :: "rat \<Rightarrow> rat \<Rightarrow> rat \<Rightarrow> rat \<Rightarrow> 'v event list \<Rightarrow> (int \<times> 'v) list" where
  "event_marks x width w_lo w_hi es =
     fst (fold (\<lambda>e (marks, last_x).
       let real_x = data_x x width w_lo w_hi (of_int (event_at e)) in
       if real_x > last_x + 2 then (marks @ [(real_x, event_value e)], real_x) else (marks, last_x))
       es ([], py_trunc x))"

definition range_boxes :: "rat \<Rightarrow> rat \<Rightarrow> rat \<Rightarrow> rat \<Rightarrow> data_range list \<Rightarrow> (int \<times> int \<times> string) list" where
  "range_boxes x width w_lo w_hi rs =
     fst (fold (\<lambda>r (boxes, last_x).
       let s = max (of_int (range_start r)) w_lo; e = min (of_int (range_end r)) w_hi;
           x_start = data_x x width w_lo w_hi s; x_end = data_x x width w_lo w_hi e in
       if x_end > last_x then (boxes @ [(x_start, x_end - x_start, range_value r)], x_end) else (boxes, last_x))
       rs ([], py_trunc (x - 1)))"

lemma fold_plus: "fold (+) xs (a::rat) = a + sum_list xs"
  by (induction xs arbitrary: a) (simp_all add: algebra_simps)

lemma draw_bottom_eq:
  "draw_bottom padding text_height ts =
    of_nat (event_count ts) * (text_height + 5 + padding) + of_nat (range_count ts) * (text_height + padding)"
proof -
  have "sum_list (draw_row_heights padding text_height ts) =
      of_nat (event_count ts) * (text_height + 5 + padding) + of_nat (range_count ts) * (text_height + padding)"
    by (induction ts) (auto simp: draw_row_heights_def event_count_def range_count_def map_replicate_const
        sum_list_replicate algebra_simps split: prod.splits)
  then show ?thesis by (simp add: draw_bottom_def fold_plus)
qed

text \<open>The rows drawn end within the height that \<open>layout\<close> returns when there are only event rows
  or only range rows or a line of text is at most ten high; with both kinds and higher text, and
  fewer lines on the left than rows on the right, the last rows are drawn below it.\<close>

theorem timelines_height_rows:
  assumes "0 \<le> padding" and "0 \<le> text_height"
  shows "draw_bottom padding text_height ts \<le> timelines_height padding text_height ts \<longleftrightarrow>
    event_count ts = 0 \<or> range_count ts = 0 \<or> text_height \<le> 10 \<or>
    draw_bottom padding text_height ts \<le> of_nat (length ts) * (text_height + padding)"
proof -
  let ?e = "of_nat (event_count ts) :: rat" and ?r = "of_nat (range_count ts) :: rat"
    and ?l = "of_nat (length ts) :: rat"
  have h: "timelines_height padding text_height ts = max (max (?l * (text_height + padding))
      ((?e + ?r) * (text_height + padding))) (?e * (text_height + 5) + ?r * 10 + (?e + ?r) * padding)"
    by (simp add: timelines_height_def Let_def max_add_distrib_left algebra_simps)
  have 1: "?e * (text_height + 5 + padding) + ?r * (text_height + padding) \<le> (?e + ?r) * (text_height + padding)
      \<longleftrightarrow> event_count ts = 0"
    by (simp add: algebra_simps)
  have 2: "?e * (text_height + 5 + padding) + ?r * (text_height + padding) \<le>
      ?e * (text_height + 5) + ?r * 10 + (?e + ?r) * padding \<longleftrightarrow> range_count ts = 0 \<or> text_height \<le> 10"
  proof -
    have "?e * (text_height + 5 + padding) + ?r * (text_height + padding) \<le>
        ?e * (text_height + 5) + ?r * 10 + (?e + ?r) * padding \<longleftrightarrow> ?r * text_height \<le> ?r * 10"
      by (simp add: algebra_simps)
    also have "\<dots> \<longleftrightarrow> range_count ts = 0 \<or> text_height \<le> 10"
      by (cases "range_count ts = 0") (simp_all add: mult_le_cancel_left_pos)
    finally show ?thesis .
  qed
  show ?thesis unfolding draw_bottom_eq h le_max_iff_disj 1 2 by (simp only: disj_ac)
qed

theorem timelines_height_rows_witness:
  "\<not> draw_bottom 10 12 [(''a'', \<lparr>ranges = [(''r'', [])], event_str = [], event_int = [(''e'', [])]\<rparr>)] \<le>
     timelines_height 10 12 [(''a'', \<lparr>ranges = [(''r'', [])], event_str = [], event_int = [(''e'', [])]\<rparr>)]"
  using timelines_height_rows [of 10 12 "[(''a'', \<lparr>ranges = [(''r'', [])], event_str = [], event_int = [(''e'', [])]\<rparr>)]"]
  by (simp add: event_count_def range_count_def draw_bottom_eq)

end
