(* ===== verification/Grid_Gtk.thy ===== *)
theory Grid_Gtk
  imports Grid_Layout
begin

text \<open>
  The interactive part of \<open>utils/grid.py\<close>: \<open>GraphicRenderer\<close>, whose visible range is a window of
  the data range, and \<open>GtkGraphicRenderer\<close>, a state machine over mouse events. An attribute that
  the code reads but may not have set yet is an option; reading it then is an AttributeError. The
  sizes found by the other renderers are arguments.
\<close>

section \<open>The graphic\<close>

record sizes =
  legend_height_at :: "rat \<Rightarrow> rat"
  data_height :: rat
  data_left :: rat
  scale_text_height :: rat

record graphic =
  g_start :: int
  g_end :: int
  r_start :: rat
  r_end :: rat
  g_width :: rat
  g_height :: rat

text \<open>\<open>layout\<close>: the width and height are stored before the scales may raise.\<close>

definition graphic_layout :: "rat \<Rightarrow> rat \<Rightarrow> graphic \<Rightarrow> graphic \<times> unit res" where
  "graphic_layout width height g =
     (g\<lparr>g_width := width, g_height := height\<rparr>,
      bind_res (scale_layout_float (r_start g) (r_end g)) (\<lambda>_.
      bind_res (scale_layout (g_start g) (g_end g)) (\<lambda>_. Return ())))"

definition set_range :: "rat \<Rightarrow> rat \<Rightarrow> graphic \<Rightarrow> graphic \<times> unit res" where
  "set_range start end' g =
     (let s = min start end'; e = max start end'
      in graphic_layout (g_width g) (g_height g)
           (g\<lparr>r_start := max (of_int (g_start g)) s, r_end := min (of_int (g_end g)) e\<rparr>))"

definition bot_position :: "graphic \<Rightarrow> rat \<Rightarrow> rat res" where
  "bot_position g x =
     (if g_end g = g_start g then Raise ZeroDivisionError
      else Return ((x - of_int (g_start g)) * g_width g / (of_int (g_end g) - of_int (g_start g))))"

definition selection_rectangle :: "sizes \<Rightarrow> graphic \<Rightarrow> (rat \<times> rat \<times> rat \<times> rat) res" where
  "selection_rectangle z g =
     (let y_start = legend_height_at z (g_width g) + data_height z + (scale_text_height z + 10) + 20;
          y_height = scale_text_height z + 10 + 20
      in bind_res (bot_position g (r_start g)) (\<lambda>x_start.
         bind_res (bot_position g (r_end g)) (\<lambda>x_end.
           Return (x_start, y_start, x_end - x_start, y_height))))"

definition data_rectangle :: "sizes \<Rightarrow> graphic \<Rightarrow> rat \<times> rat \<times> rat \<times> rat" where
  "data_rectangle z g =
     (data_left z, legend_height_at z (g_width g), g_width g - data_left z, data_height z)"

definition scale_data :: "sizes \<Rightarrow> graphic \<Rightarrow> rat \<Rightarrow> rat res" where
  "scale_data z g x =
     (if g_width g = data_left z then Raise ZeroDivisionError
      else Return (x / (g_width g - data_left z) * (r_end g - r_start g)))"

definition scale_selection :: "graphic \<Rightarrow> rat \<Rightarrow> rat res" where
  "scale_selection g x =
     (if g_width g = 0 then Raise ZeroDivisionError
      else Return (x / g_width g * (of_int (g_end g) - of_int (g_start g))))"

section \<open>The mouse\<close>

record gtk =
  graphic :: graphic
  moving_left :: bool
  moving_right :: bool
  moving_both :: bool
  moving_top :: bool
  moving_left_cur :: "rat option"
  moving_right_cur :: "rat option"
  moving_both_start :: "rat option"
  moving_both_cur :: "rat option"
  moving_top_start :: "rat option"
  moving_top_cur :: "rat option"
  gtk_width :: "rat option"
  force_full_redraw :: bool

definition new_gtk :: "graphic \<Rightarrow> gtk" where
  "new_gtk g = \<lparr>graphic = g, moving_left = False, moving_right = False, moving_both = False,
     moving_top = False, moving_left_cur = None, moving_right_cur = None, moving_both_start = None,
     moving_both_cur = None, moving_top_start = None, moving_top_cur = None, gtk_width = None,
     force_full_redraw = True\<rparr>"

definition attr :: "'a option \<Rightarrow> 'a res" where
  "attr x = (case x of None \<Rightarrow> Raise AttributeError | Some v \<Rightarrow> Return v)"

text \<open>Setting the range from a handler, and the redraw after it.\<close>

definition change_range :: "rat \<Rightarrow> rat \<Rightarrow> gtk \<Rightarrow> gtk \<times> bool res" where
  "change_range start end' st =
     (let (g, r) = set_range start end' (graphic st); st = st\<lparr>graphic := g\<rparr> in
      case r of
        Inl e \<Rightarrow> (st, Raise e)
      | Inr _ \<Rightarrow> (st\<lparr>force_full_redraw := True\<rparr>, Return True))"

definition button_press :: "sizes \<Rightarrow> rat \<Rightarrow> rat \<Rightarrow> gtk \<Rightarrow> gtk \<times> bool res" where
  "button_press z ev_x ev_y st =
     (case selection_rectangle z (graphic st) of
        Inl e \<Rightarrow> (st, Raise e)
      | Inr (x, y, width, height) \<Rightarrow>
          (let (d_x, d_y, d_width, d_height) = data_rectangle z (graphic st);
               in_selection = ev_y > y \<and> ev_y < y + height in
           if in_selection \<and> \<bar>ev_x - x\<bar> < 5 then (st\<lparr>moving_left := True\<rparr>, Return True)
           else if in_selection \<and> \<bar>ev_x - (x + width)\<bar> < 5 then (st\<lparr>moving_right := True\<rparr>, Return True)
           else if in_selection \<and> ev_x > x \<and> ev_x < x + width then
             (st\<lparr>moving_both := True, moving_both_start := Some ev_x, moving_both_cur := Some ev_x\<rparr>, Return True)
           else if ev_y > d_y \<and> ev_y < d_y + d_height \<and> ev_x > d_x \<and> ev_x < d_x + d_width then
             (st\<lparr>moving_top := True, moving_top_start := Some ev_x, moving_top_cur := Some ev_x\<rparr>, Return True)
           else (st, Return False)))"

definition button_release :: "gtk \<Rightarrow> gtk \<times> bool res" where
  "button_release st =
     (if moving_left st then
        (let st = st\<lparr>moving_left := False\<rparr> in
         case bind_res (attr (moving_left_cur st)) (scale_selection (graphic st)) of
           Inl e \<Rightarrow> (st, Raise e)
         | Inr left \<Rightarrow> change_range left (r_end (graphic st)) st)
      else if moving_right st then
        (let st = st\<lparr>moving_right := False\<rparr> in
         case bind_res (attr (moving_right_cur st)) (scale_selection (graphic st)) of
           Inl e \<Rightarrow> (st, Raise e)
         | Inr right \<Rightarrow> change_range (r_start (graphic st)) right st)
      else if moving_both st then
        (let st = st\<lparr>moving_both := False\<rparr> in
         case bind_res (attr (moving_both_cur st)) (\<lambda>cur. bind_res (attr (moving_both_start st)) (\<lambda>start.
             scale_selection (graphic st) (cur - start))) of
           Inl e \<Rightarrow> (st, Raise e)
         | Inr delta \<Rightarrow> change_range (r_start (graphic st) + delta) (r_end (graphic st) + delta) st)
      else if moving_top st then (st\<lparr>moving_top := False\<rparr>, Return False)
      else (st, Return False))"

definition move_left :: "rat \<Rightarrow> rat \<Rightarrow> rat \<Rightarrow> gtk \<Rightarrow> gtk" where
  "move_left x width ev_x st =
     st\<lparr>moving_left_cur := Some (if ev_x \<le> 0 then 0 else if ev_x \<ge> x + width then x + width else ev_x)\<rparr>"

text \<open>At the right edge the code assigns the width to \<open>__moving_right\<close>, the flag, and not to
  \<open>__moving_right_cur\<close>.\<close>

definition move_right :: "rat \<Rightarrow> rat \<Rightarrow> rat \<Rightarrow> gtk \<Rightarrow> gtk" where
  "move_right x w ev_x st =
     (if ev_x \<ge> w then st\<lparr>moving_right := (w \<noteq> 0)\<rparr>
      else if ev_x < x then st\<lparr>moving_right_cur := Some x\<rparr>
      else st\<lparr>moving_right_cur := Some ev_x\<rparr>)"

definition move_both :: "rat \<Rightarrow> rat \<Rightarrow> rat \<Rightarrow> rat \<Rightarrow> rat \<Rightarrow> gtk \<Rightarrow> gtk" where
  "move_both x width w start ev_x st =
     (let cur_e = w - (x + width - start); cur_s = start - x in
      st\<lparr>moving_both_cur := Some (if ev_x < cur_s then cur_s else if ev_x > cur_e then cur_e else ev_x)\<rparr>)"

text \<open>The cursor shapes are not modelled; the result says whether the event was used.\<close>

definition motion_notify :: "sizes \<Rightarrow> rat \<Rightarrow> rat \<Rightarrow> gtk \<Rightarrow> gtk \<times> bool res" where
  "motion_notify z ev_x ev_y st =
     (case selection_rectangle z (graphic st) of
        Inl e \<Rightarrow> (st, Raise e)
      | Inr (x, y, width, height) \<Rightarrow>
          if moving_left st then
            (let st = move_left x width ev_x st
             in (st, bind_res (attr (gtk_width st)) (\<lambda>_. Return True)))
          else if moving_right st then
            (case gtk_width st of
               None \<Rightarrow> (st, Raise AttributeError)
             | Some w \<Rightarrow> (move_right x w ev_x st, Return True))
          else if moving_both st then
            (case (gtk_width st, moving_both_start st) of
               (Some w, Some start) \<Rightarrow> (move_both x width w start ev_x st, Return True)
             | _ \<Rightarrow> (st, Raise AttributeError))
          else if moving_top st then
            (let st = st\<lparr>moving_top_cur := Some ev_x\<rparr> in
             case bind_res (attr (moving_top_start st)) (\<lambda>s. scale_data z (graphic st) (s - ev_x)) of
               Inl e \<Rightarrow> (st, Raise e)
             | Inr delta \<Rightarrow>
                 (case change_range (r_start (graphic st) + delta) (r_end (graphic st) + delta) st of
                    (st, Inl e) \<Rightarrow> (st, Raise e)
                  | (st, Inr _) \<Rightarrow> (st\<lparr>moving_top_start := Some ev_x\<rparr>, Return True)))
          else
            (let (d_x, d_y, d_width, d_height) = data_rectangle z (graphic st) in
             (st, Return
               ((ev_y > y \<and> ev_y < y + height \<and>
                   (\<bar>ev_x - x\<bar> < 5 \<or> \<bar>ev_x - (x + width)\<bar> < 5 \<or> (ev_x > x \<and> ev_x < x + width))) \<or>
                (ev_y > d_y \<and> ev_y < d_y + d_height \<and> ev_x > d_x \<and> ev_x < d_x + d_width)))))"

definition set_smaller_zoom :: "gtk \<Rightarrow> gtk \<times> bool res" where
  "set_smaller_zoom st =
     (let start = r_start (graphic st); end' = r_end (graphic st)
      in change_range start (start + (end' - start) * 2) st)"

definition set_bigger_zoom :: "gtk \<Rightarrow> gtk \<times> bool res" where
  "set_bigger_zoom st =
     (let start = r_start (graphic st); end' = r_end (graphic st)
      in change_range start (start + (end' - start) / 2) st)"

definition size_allocate :: "rat \<Rightarrow> rat \<Rightarrow> gtk \<Rightarrow> gtk \<times> bool res" where
  "size_allocate width height st =
     (let (g, r) = graphic_layout width height (graphic st);
          st = st\<lparr>gtk_width := Some width, graphic := g\<rparr> in
      case r of
        Inl e \<Rightarrow> (st, Raise e)
      | Inr _ \<Rightarrow> (st\<lparr>force_full_redraw := True\<rparr>, Return True))"

text \<open>The main loop reports an exception of a handler and goes on.\<close>

datatype ui_event = Press rat rat | Release | Motion rat rat | ZoomOut | ZoomIn | Resize rat rat

definition gtk_step :: "sizes \<Rightarrow> ui_event \<Rightarrow> gtk \<Rightarrow> gtk \<times> bool res" where
  "gtk_step z ev st =
     (case ev of
        Press x y \<Rightarrow> button_press z x y st
      | Release \<Rightarrow> button_release st
      | Motion x y \<Rightarrow> motion_notify z x y st
      | ZoomOut \<Rightarrow> set_smaller_zoom st
      | ZoomIn \<Rightarrow> set_bigger_zoom st
      | Resize w h \<Rightarrow> size_allocate w h st)"

definition run_events :: "sizes \<Rightarrow> ui_event list \<Rightarrow> gtk \<Rightarrow> gtk" where
  "run_events z evs st = fold (\<lambda>ev st. fst (gtk_step z ev st)) evs st"

section \<open>The visible range\<close>

lemma scale_layout_float_eq:
  "scale_layout_float lo hi = Raise ZeroDivisionError \<longleftrightarrow> hi - lo = 1"
proof -
  define d where "d = hi - lo"
  define c where "c = scale_closest 1 d"
  obtain k where k: "c = 10 ^ k" using scale_closest_power [of 1 d] by (auto simp: c_def)
  have delta: "scale_delta_float d = (if d / of_int c = 0 then c else if d / of_int c = 1 then c div 10 else c)"
    by (simp add: scale_delta_float_def c_def Let_def)
  have pos: "0 < c" by (simp add: k)
  have one: "c = 1" if "d = 1" using that by (simp add: c_def scale_closest.simps)
  have "scale_delta_float d = 0 \<longleftrightarrow> d = 1"
  proof
    assume "scale_delta_float d = 0"
    with delta pos have q: "d / of_int c = 1" "c div 10 = 0" by (auto split: if_splits)
    then have "c = 1" using k by (cases k) auto
    with q show "d = 1" by simp
  next
    assume "d = 1"
    with delta one show "scale_delta_float d = 0" by simp
  qed
  then show ?thesis by (simp add: scale_layout_float_def Let_def d_def)
qed

lemma set_range_fields:
  "r_start (fst (set_range a b g)) = max (of_int (g_start g)) (min a b)"
  "r_end (fst (set_range a b g)) = min (of_int (g_end g)) (max a b)"
  "g_start (fst (set_range a b g)) = g_start g" "g_end (fst (set_range a b g)) = g_end g"
  "g_width (fst (set_range a b g)) = g_width g"
  by (simp_all add: set_range_def graphic_layout_def Let_def)

text \<open>Whatever is asked for, the visible range starts no earlier and ends no later than the data;
  it is the part of the window asked for that lies in the data, and is turned round exactly when
  the two do not meet. The call raises ZeroDivisionError exactly when the new range or the data
  range is one unit wide.\<close>

theorem set_range_window:
  assumes "set_range a b g = (g', r)"
  shows "of_int (g_start g) \<le> r_start g' \<and> r_end g' \<le> of_int (g_end g) \<and>
    {t. r_start g' \<le> t \<and> t \<le> r_end g'} =
      {t. of_int (g_start g) \<le> t \<and> t \<le> of_int (g_end g)} \<inter> {t. min a b \<le> t \<and> t \<le> max a b} \<and>
    (g_start g \<le> g_end g \<longrightarrow>
      (r_end g' < r_start g' \<longleftrightarrow> max a b < of_int (g_start g) \<or> of_int (g_end g) < min a b) \<and>
      (r = Raise ZeroDivisionError \<longleftrightarrow> r_end g' - r_start g' = 1 \<or> g_end g - g_start g = 1))"
proof -
  have g': "g' = fst (set_range a b g)" "r = snd (set_range a b g)" using assms by simp_all
  have f: "r_start g' = max (of_int (g_start g)) (min a b)" "r_end g' = min (of_int (g_end g)) (max a b)"
    using set_range_fields(1,2) [of a b g] by (simp_all add: g')
  have 1: "r = Raise ZeroDivisionError \<longleftrightarrow> r_end g' - r_start g' = 1 \<or> g_end g - g_start g = 1"
    if "g_start g \<le> g_end g"
  proof -
    have "scale_layout (g_start g) (g_end g) = Raise ZeroDivisionError \<longleftrightarrow> g_end g - g_start g = 1"
      using scale_delta_cases [of "g_end g - g_start g"] that
      by (auto simp: scale_layout_def Let_def split: if_splits)
    moreover have "scale_layout (g_start g) (g_end g) = Raise ZeroDivisionError \<or>
        (\<exists>d. scale_layout (g_start g) (g_end g) = Return d)" by (simp add: scale_layout_def Let_def)
    moreover have "r = bind_res (scale_layout_float (r_start g') (r_end g'))
        (\<lambda>_. bind_res (scale_layout (g_start g) (g_end g)) (\<lambda>_. Return ()))"
      unfolding f unfolding g'(2) by (simp add: set_range_def graphic_layout_def Let_def)
    moreover have "scale_layout_float (r_start g') (r_end g') = Raise ZeroDivisionError \<or>
        (\<exists>d. scale_layout_float (r_start g') (r_end g') = Return d)"
      by (simp add: scale_layout_float_def Let_def)
    ultimately show ?thesis using scale_layout_float_eq [of "r_start g'" "r_end g'"] by auto
  qed
  have 2: "r_end g' < r_start g' \<longleftrightarrow> max a b < of_int (g_start g) \<or> of_int (g_end g) < min a b"
    if "g_start g \<le> g_end g"
  proof -
    have "(of_int (g_start g) :: rat) \<le> of_int (g_end g)" using that by simp
    then show ?thesis unfolding f by (auto simp: min_def max_def)
  qed
  have 3: "{t. r_start g' \<le> t \<and> t \<le> r_end g'} =
      {t. of_int (g_start g) \<le> t \<and> t \<le> of_int (g_end g)} \<inter> {t. min a b \<le> t \<and> t \<le> max a b}"
    unfolding f by auto
  show ?thesis using 1 2 3 by (simp add: f)
qed

definition sample_graphic :: graphic where
  "sample_graphic = \<lparr>g_start = 0, g_end = 100, r_start = 40, r_end = 60, g_width = 200, g_height = 100\<rparr>"

theorem set_range_window_witness:
  "r_end (fst (set_range 110 120 sample_graphic)) < r_start (fst (set_range 110 120 sample_graphic)) \<and>
   snd (set_range 10 11 sample_graphic) = Raise ZeroDivisionError"
proof -
  obtain g r where a: "set_range 110 120 sample_graphic = (g, r)" by (cases "set_range 110 120 sample_graphic")
  obtain g' r' where b: "set_range 10 11 sample_graphic = (g', r')" by (cases "set_range 10 11 sample_graphic")
  have f: "r_start g' = 10" "r_end g' = 11"
    using set_range_fields(1,2) [of 10 11 sample_graphic] unfolding b by (simp_all add: sample_graphic_def)
  from set_range_window [OF a] set_range_window [OF b] f show ?thesis
    unfolding a b by (simp add: sample_graphic_def)
qed

section \<open>Dragging\<close>

lemma change_range_fields:
  "graphic (fst (change_range a b st)) = fst (set_range a b (graphic st))"
  by (simp add: change_range_def Let_def split: prod.split sum.split)

text \<open>A state that is ready for a drag: laid out at a positive width, with the window in the data and
  no button held.\<close>

definition ready_state :: "gtk \<Rightarrow> bool" where
  "ready_state st \<longleftrightarrow>
     (let g = graphic st in
      gtk_width st = Some (g_width g) \<and> 0 < g_width g \<and> g_start g < g_end g \<and>
      of_int (g_start g) \<le> r_start g \<and> r_start g \<le> r_end g \<and> r_end g \<le> of_int (g_end g) \<and>
      \<not> moving_left st \<and> \<not> moving_right st \<and> \<not> moving_both st \<and> \<not> moving_top st)"

text \<open>The pixels of the window's ends.\<close>

definition pixel :: "graphic \<Rightarrow> rat \<Rightarrow> rat" where
  "pixel g t = (t - of_int (g_start g)) * g_width g / (of_int (g_end g) - of_int (g_start g))"

lemma selection_rectangle_ready:
  "g_start g < g_end g \<Longrightarrow> selection_rectangle z g =
    Return (pixel g (r_start g), legend_height_at z (g_width g) + data_height z + (scale_text_height z + 10) + 20,
      pixel g (r_end g) - pixel g (r_start g), scale_text_height z + 10 + 20)"
  by (simp add: selection_rectangle_def bot_position_def pixel_def Let_def)

lemma pixel_scale:
  assumes "g_start g < g_end g" and "0 < g_width g"
  shows "(pixel g t - pixel g u) / g_width g * (of_int (g_end g) - of_int (g_start g)) = t - u"
    and "pixel g (of_int (g_start g)) = 0" and "pixel g (of_int (g_end g)) = g_width g"
    and "t \<le> u \<Longrightarrow> pixel g t \<le> pixel g u"
proof -
  let ?d = "of_int (g_end g) - of_int (g_start g) :: rat"
  have d: "0 < ?d" using assms(1) by simp
  have "pixel g t - pixel g u = (t - u) * g_width g / ?d"
    by (simp add: pixel_def flip: diff_divide_distrib) (simp add: left_diff_distrib)
  then show "(pixel g t - pixel g u) / g_width g * ?d = t - u" using d assms(2) by simp
  show "pixel g (of_int (g_start g)) = 0" "pixel g (of_int (g_end g)) = g_width g"
    using d by (simp_all add: pixel_def)
  show "pixel g t \<le> pixel g u" if "t \<le> u"
    using that d assms(2) by (simp add: pixel_def divide_right_mono mult_right_mono)
qed

definition clamp :: "rat \<Rightarrow> rat \<Rightarrow> rat \<Rightarrow> rat" where
  "clamp lo hi x = (if x < lo then lo else if x > hi then hi else x)"

lemma motions_both:
  assumes "g_start (graphic st) < g_end (graphic st)" "moving_both st" "\<not> moving_left st" "\<not> moving_right st"
    "gtk_width st = Some w" "moving_both_start st = Some x0"
  shows "run_events z (map (\<lambda>(x, y). Motion x y) ms) st =
    st\<lparr>moving_both_cur := (if ms = [] then moving_both_cur st
      else Some (clamp (x0 - pixel (graphic st) (r_start (graphic st)))
        (w - (pixel (graphic st) (r_end (graphic st)) - x0)) (fst (last ms))))\<rparr>"
  using assms
proof (induction ms arbitrary: st)
  case (Cons m ms)
  let ?cur = "clamp (x0 - pixel (graphic st) (r_start (graphic st)))
        (w - (pixel (graphic st) (r_end (graphic st)) - x0)) (fst m)"
  have step: "fst (gtk_step z (Motion (fst m) (snd m)) st) = st\<lparr>moving_both_cur := Some ?cur\<rparr>"
    using Cons.prems
    by (simp add: gtk_step_def motion_notify_def selection_rectangle_ready move_both_def clamp_def Let_def)
  have "run_events z (map (\<lambda>(x, y). Motion x y) (m # ms)) st =
      run_events z (map (\<lambda>(x, y). Motion x y) ms) (st\<lparr>moving_both_cur := Some ?cur\<rparr>)"
    using step by (simp add: run_events_def case_prod_beta)
  with Cons.IH [of "st\<lparr>moving_both_cur := Some ?cur\<rparr>"] Cons.prems show ?case by simp
qed (simp add: run_events_def)

text \<open>C16: dragging the selected window by its middle, with any number of mouse movements however far
  outside, and releasing the button, moves the window without changing its length, by the distance
  the mouse has moved as far as the data allow it, and keeps it within the data.\<close>

theorem drag_window:
  assumes ready: "ready_state st"
    and press: "button_press z x0 y0 st = (st1, Return True)" "moving_both st1"
  shows "\<exists>cur. cur = (if ms = [] then x0 else clamp (x0 - pixel (graphic st) (r_start (graphic st)))
      (g_width (graphic st) - (pixel (graphic st) (r_end (graphic st)) - x0)) (fst (last ms))) \<and>
    (let g = graphic st;
         g' = graphic (run_events z (Press x0 y0 # map (\<lambda>(x, y). Motion x y) ms @ [Release]) st);
         delta = (cur - x0) / g_width g * (of_int (g_end g) - of_int (g_start g)) in
     r_start g' = r_start g + delta \<and> r_end g' = r_end g + delta \<and>
     of_int (g_start g) \<le> r_start g' \<and> r_end g' \<le> of_int (g_end g) \<and>
     r_end g' - r_start g' = r_end g - r_start g)"
proof -
  let ?g = "graphic st"
  let ?a = "pixel ?g (r_start ?g)" and ?b = "pixel ?g (r_end ?g)" and ?W = "g_width ?g"
  let ?d = "of_int (g_end ?g) - of_int (g_start ?g) :: rat"
  have r: "gtk_width st = Some ?W" "0 < ?W" "g_start ?g < g_end ?g" "of_int (g_start ?g) \<le> r_start ?g"
    "r_start ?g \<le> r_end ?g" "r_end ?g \<le> of_int (g_end ?g)"
    "\<not> moving_left st" "\<not> moving_right st" "\<not> moving_both st" "\<not> moving_top st"
    using ready by (simp_all add: ready_state_def Let_def)
  have st1: "st1 = st\<lparr>moving_both := True, moving_both_start := Some x0, moving_both_cur := Some x0\<rparr>"
    using press r(3,9) by (auto simp: button_press_def selection_rectangle_ready data_rectangle_def Let_def
        split: if_splits)
  let ?cur = "if ms = [] then x0 else clamp (x0 - ?a) (?W - (?b - x0)) (fst (last ms))"
  let ?delta = "(?cur - x0) / ?W * ?d"
  define st2 where "st2 = st1\<lparr>moving_both_cur := Some ?cur\<rparr>"
  have "run_events z (map (\<lambda>(x, y). Motion x y) ms) st1 = st2"
    using motions_both [of st1 ?W x0 z ms] r unfolding st2_def st1 by simp
  then have e: "run_events z (Press x0 y0 # map (\<lambda>(x, y). Motion x y) ms @ [Release]) st = fst (button_release st2)"
    using press(1) by (simp add: run_events_def gtk_step_def)
  have g': "graphic (fst (button_release st2)) = fst (set_range (r_start ?g + ?delta) (r_end ?g + ?delta) ?g)"
    using r by (simp add: button_release_def st2_def st1 attr_def scale_selection_def Let_def change_range_fields)
  note px = pixel_scale [OF r(3,2)]
  have a: "0 \<le> ?a" "?a \<le> ?b" "?b \<le> ?W"
    using px(4) [OF r(4)] px(4) [OF r(5)] px(4) [OF r(6)] px(2,3) by simp_all
  then have cur: "- ?a \<le> ?cur - x0" "?cur - x0 \<le> ?W - ?b" by (auto simp: clamp_def)
  have scale: "x / ?W * ?d \<le> y / ?W * ?d" if "x \<le> y" for x y
    using that r(2,3) by (intro mult_right_mono divide_right_mono) simp_all
  have ends: "- ?a / ?W * ?d = of_int (g_start ?g) - r_start ?g" "(?W - ?b) / ?W * ?d = of_int (g_end ?g) - r_end ?g"
    using px(1) [of "of_int (g_start ?g)" "r_start ?g"] px(1) [of "of_int (g_end ?g)" "r_end ?g"] px(2,3) by simp_all
  have "of_int (g_start ?g) \<le> r_start ?g + ?delta" "r_end ?g + ?delta \<le> of_int (g_end ?g)"
    using scale [OF cur(1)] scale [OF cur(2)] unfolding ends by simp_all
  then have "r_start (graphic (fst (button_release st2))) = r_start ?g + ?delta"
    "r_end (graphic (fst (button_release st2))) = r_end ?g + ?delta"
    "of_int (g_start ?g) \<le> r_start ?g + ?delta" "r_end ?g + ?delta \<le> of_int (g_end ?g)"
    using r(5) unfolding g' set_range_fields by simp_all
  then show ?thesis unfolding e by (intro exI [of _ ?cur]) (simp add: Let_def)
qed

definition sample_sizes :: sizes where
  "sample_sizes = \<lparr>legend_height_at = (\<lambda>w. 30), data_height = 50, data_left = 40, scale_text_height = 10\<rparr>"

definition sample_gtk :: gtk where
  "sample_gtk = (new_gtk sample_graphic)\<lparr>gtk_width := Some 200\<rparr>"

lemma sample_ready: "ready_state sample_gtk"
  by (simp add: ready_state_def sample_gtk_def new_gtk_def sample_graphic_def)

theorem drag_window_witness:
  "let g' = graphic (run_events sample_sizes [Press 100 130, Motion 500 0, Release] sample_gtk)
   in r_end g' - r_start g' = 20 \<and> r_end g' \<le> 100"
proof -
  let ?st1 = "sample_gtk\<lparr>moving_both := True, moving_both_start := Some 100, moving_both_cur := Some 100\<rparr>"
  have p: "button_press sample_sizes 100 130 sample_gtk = (?st1, Return True)"
    by (simp add: button_press_def selection_rectangle_def bot_position_def data_rectangle_def
        sample_gtk_def new_gtk_def sample_graphic_def sample_sizes_def Let_def)
  have v: "r_end (graphic sample_gtk) - r_start (graphic sample_gtk) = 20" "g_end (graphic sample_gtk) = 100"
    by (simp_all add: sample_gtk_def new_gtk_def sample_graphic_def)
  from drag_window [OF sample_ready p, of "[(500, 0)]"] v show ?thesis by (auto simp: Let_def)
qed

text \<open>After a press on the left edge of the selected window, a release without a movement raises
  AttributeError when that edge has not been dragged before; after a press on the right edge the same
  happens even after movements, if all of them are beyond the right end of the widget. The range
  stays as it was.\<close>

theorem drag_edges_unset:
  assumes ready: "ready_state st"
  shows "(button_press z x0 y0 st = (st1, Return True) \<longrightarrow> moving_left st1 \<longrightarrow> moving_left_cur st = None \<longrightarrow>
      snd (button_release st1) = Raise AttributeError \<and> graphic (fst (button_release st1)) = graphic st) \<and>
    (button_press z x0 y0 st = (st1, Return True) \<longrightarrow> moving_right st1 \<longrightarrow> moving_right_cur st = None \<longrightarrow>
      list_all (\<lambda>(x, y). g_width (graphic st) \<le> x) ms \<longrightarrow>
      (let st2 = run_events z (map (\<lambda>(x, y). Motion x y) ms) st1 in
       snd (button_release st2) = Raise AttributeError \<and> graphic (fst (button_release st2)) = graphic st))"
proof (intro conjI impI)
  let ?g = "graphic st"
  have r: "gtk_width st = Some (g_width ?g)" "0 < g_width ?g" "g_start ?g < g_end ?g"
    "\<not> moving_left st" "\<not> moving_right st"
    using ready by (simp_all add: ready_state_def Let_def)
  assume press: "button_press z x0 y0 st = (st1, Return True)"
  {
    assume "moving_left st1" "moving_left_cur st = None"
    with press r have "st1 = st\<lparr>moving_left := True\<rparr>"
      by (auto simp: button_press_def selection_rectangle_ready data_rectangle_def Let_def split: if_splits)
    with \<open>moving_left_cur st = None\<close>
    show "snd (button_release st1) = Raise AttributeError" "graphic (fst (button_release st1)) = ?g"
      by (simp_all add: button_release_def attr_def Let_def)
  }
  assume "moving_right st1" and cur: "moving_right_cur st = None"
    and ms: "list_all (\<lambda>(x, y). g_width ?g \<le> x) ms"
  with press r have st1: "st1 = st\<lparr>moving_right := True\<rparr>"
    by (auto simp: button_press_def selection_rectangle_ready data_rectangle_def Let_def split: if_splits)
  have "run_events z (map (\<lambda>(x, y). Motion x y) ms) st1 = st1"
    using ms
  proof (induction ms)
    case (Cons m ms)
    have "fst (gtk_step z (Motion (fst m) (snd m)) st1) = st1"
      using Cons.prems r by (auto simp: st1 gtk_step_def motion_notify_def selection_rectangle_ready move_right_def)
    with Cons show ?case by (simp add: run_events_def case_prod_beta)
  qed (simp add: run_events_def)
  with cur r show "let st2 = run_events z (map (\<lambda>(x, y). Motion x y) ms) st1 in
      snd (button_release st2) = Raise AttributeError \<and> graphic (fst (button_release st2)) = ?g"
    by (simp add: st1 button_release_def attr_def Let_def)
qed

theorem drag_edges_unset_witness:
  "snd (button_release (fst (button_press sample_sizes 80 130 sample_gtk))) = Raise AttributeError \<and>
   (let st2 = run_events sample_sizes [Motion 300 0] (fst (button_press sample_sizes 120 130 sample_gtk))
    in snd (button_release st2) = Raise AttributeError)"
proof -
  have l: "button_press sample_sizes 80 130 sample_gtk = (sample_gtk\<lparr>moving_left := True\<rparr>, Return True)"
    and r: "button_press sample_sizes 120 130 sample_gtk = (sample_gtk\<lparr>moving_right := True\<rparr>, Return True)"
    by (simp_all add: button_press_def selection_rectangle_def bot_position_def data_rectangle_def
        sample_gtk_def new_gtk_def sample_graphic_def sample_sizes_def Let_def)
  have u: "moving_left_cur sample_gtk = None" "moving_right_cur sample_gtk = None"
    "g_width (graphic sample_gtk) = 200"
    by (simp_all add: sample_gtk_def new_gtk_def sample_graphic_def)
  from drag_edges_unset [OF sample_ready, of sample_sizes 80 130 "sample_gtk\<lparr>moving_left := True\<rparr>"]
    drag_edges_unset [OF sample_ready, of sample_sizes 120 130 "sample_gtk\<lparr>moving_right := True\<rparr>" "[(300, 0)]"]
  show ?thesis using l r u by (simp add: Let_def)
qed

end
