(* ===== verification/Rc_File.thy ===== *)
theory Rc_File
  imports Prelude
begin

text \<open>
  The configuration file readers of \<open>utils.py\<close>, which \<open>test.py\<close> and the build scripts share: a
  list or a Boolean is found by the name of its variable in a text file. The file system is an
  argument, a path's lines or None for a missing file, and so is Python's \<open>eval\<close> on the text
  found, since the files hold arbitrary Python expressions.
\<close>

type_synonym files = "string \<Rightarrow> string list option"

section \<open>The code\<close>

definition strip_comment :: "string \<Rightarrow> string" where
  "strip_comment line = (if CHR ''#'' \<in> set line then hd (split_once (CHR ''#'') line) else line)"

text \<open>\<open>text.split('=', 1)[1].strip()\<close>\<close>

definition after_equals :: "string \<Rightarrow> string res" where
  "after_equals s = (case split_once (CHR ''='') s of [k, v] \<Rightarrow> Return (str_strip v) | _ \<Rightarrow> Raise IndexError)"

text \<open>The loop of \<open>get_list_from_file\<close>: the text collected up to the line that closes the list.\<close>

fun scan_list :: "string \<Rightarrow> string list \<Rightarrow> string \<Rightarrow> bool \<Rightarrow> string option" where
  "scan_list list_name [] list_string parsing_multiline_list = None"
| "scan_list list_name (l # ls) list_string parsing_multiline_list =
     (let line = strip_comment l
      in if str_in list_name line \<or> parsing_multiline_list
         then let acc = list_string @ line
              in if CHR '']'' \<in> set acc then Some acc else scan_list list_name ls acc True
         else scan_list list_name ls list_string parsing_multiline_list)"

definition get_list_from_file ::
  "files \<Rightarrow> (string \<Rightarrow> 'a list res) \<Rightarrow> string \<Rightarrow> string \<Rightarrow> 'a list res" where
  "get_list_from_file fs eval_list file_path list_name =
     (case fs file_path of
        None \<Rightarrow> Return []
      | Some ls \<Rightarrow>
          (case scan_list list_name ls [] False of
             None \<Rightarrow> Return []
           | Some s \<Rightarrow> bind_res (after_equals s) eval_list))"

text \<open>The loop of \<open>get_bool_from_file\<close>: None when \<open>bool_found\<close> stays False.\<close>

fun scan_bool :: "(string \<Rightarrow> bool res) \<Rightarrow> string \<Rightarrow> string list \<Rightarrow> bool option res" where
  "scan_bool eval_bool bool_name [] = Return None"
| "scan_bool eval_bool bool_name (l # ls) =
     (let line = strip_comment l
      in if str_in bool_name line
         then bind_res (after_equals line) (\<lambda>v. bind_res (eval_bool v) (\<lambda>b. Return (Some b)))
         else scan_bool eval_bool bool_name ls)"

text \<open>\<open>bool_found\<close> is assigned only when the file exists.\<close>

definition get_bool_from_file ::
  "files \<Rightarrow> (string \<Rightarrow> bool res) \<Rightarrow> string \<Rightarrow> string \<Rightarrow> bool \<Rightarrow> bool res" where
  "get_bool_from_file fs eval_bool file_path bool_name value_if_missing =
     (case fs file_path of
        None \<Rightarrow> Raise (UnboundLocalError ''bool_found'')
      | Some ls \<Rightarrow>
          bind_res (scan_bool eval_bool bool_name ls)
            (\<lambda>found. Return (case found of Some b \<Rightarrow> b | None \<Rightarrow> value_if_missing)))"

record ns3rc =
  config_file_exists :: bool
  modules_enabled :: "string list"
  examples_enabled :: bool
  tests_enabled :: bool

text \<open>\<open>home\<close> is what \<open>os.path.expanduser('~/')\<close> gives.\<close>

definition ns3rc_path :: "files \<Rightarrow> string \<Rightarrow> string option" where
  "ns3rc_path fs home =
     (if fs ''.ns3rc'' \<noteq> None then Some ''.ns3rc''
      else if fs (home @ ''.ns3rc'') \<noteq> None then Some (home @ ''.ns3rc'') else None)"

definition read_config_file ::
  "files \<Rightarrow> (string \<Rightarrow> string list res) \<Rightarrow> (string \<Rightarrow> bool res) \<Rightarrow> string \<Rightarrow> ns3rc res" where
  "read_config_file fs eval_list eval_bool home =
     (case ns3rc_path fs home of
        None \<Rightarrow> Return \<lparr>config_file_exists = False, modules_enabled = [''all_modules''],
                  examples_enabled = False, tests_enabled = False\<rparr>
      | Some path \<Rightarrow>
          bind_res (get_list_from_file fs eval_list path ''modules_enabled'') (\<lambda>ms.
          bind_res (get_bool_from_file fs eval_bool path ''examples_enabled'' False) (\<lambda>ex.
          bind_res (get_bool_from_file fs eval_bool path ''tests_enabled'' False) (\<lambda>ts.
            Return \<lparr>config_file_exists = True,
                    modules_enabled = (if ms = [] then [''all_modules''] else ms),
                    examples_enabled = ex, tests_enabled = ts\<rparr>))))"

section \<open>What the loops find\<close>

lemma strip_comment_id: "CHR ''#'' \<notin> set l \<Longrightarrow> strip_comment l = l"
  by (simp add: strip_comment_def)

lemma strip_comment_no_hash: "CHR ''#'' \<notin> set (strip_comment l)"
  by (auto simp: strip_comment_def split_once_def dest: set_takeWhileD)

lemma after_equals_written:
  "CHR ''='' \<notin> set k \<Longrightarrow> after_equals (k @ CHR ''='' # v) = Return (str_strip v)"
proof -
  assume "CHR ''='' \<notin> set k"
  then have a: "\<And>x. x \<in> set k \<Longrightarrow> x \<noteq> CHR ''=''" by auto
  have "takeWhile (\<lambda>x. x \<noteq> CHR ''='') (k @ CHR ''='' # v) = k"
    "dropWhile (\<lambda>x. x \<noteq> CHR ''='') (k @ CHR ''='' # v) = CHR ''='' # v"
    using a by (simp_all add: takeWhile_append2 dropWhile_append2)
  then show ?thesis by (simp add: after_equals_def split_once_def)
qed

definition mentions :: "string \<Rightarrow> string \<Rightarrow> bool" where
  "mentions name l \<longleftrightarrow> str_in name (strip_comment l)"

lemma scan_bool_skip:
  "\<forall>l \<in> set pre. \<not> mentions name l \<Longrightarrow> scan_bool ev name (pre @ ls) = scan_bool ev name ls"
  by (induction pre) (auto simp: mentions_def Let_def)

lemma scan_list_skip:
  "\<forall>l \<in> set pre. \<not> mentions name l \<Longrightarrow> scan_list name (pre @ ls) acc False = scan_list name ls acc False"
  by (induction pre) (auto simp: mentions_def Let_def)

lemma scan_list_multiline:
  assumes "\<forall>l \<in> set mid. CHR '']'' \<notin> set (strip_comment l)" and "CHR '']'' \<notin> set acc"
    and "CHR '']'' \<in> set (strip_comment l)"
  shows "scan_list name (mid @ l # post) acc True = Some (acc @ concat (map strip_comment mid) @ strip_comment l)"
  using assms by (induction mid arbitrary: acc) (auto simp: Let_def)

text \<open>
  A list written over several lines is read whole: from the first line that mentions its name to
  the first line after it that has a closing bracket, comments removed.
\<close>

lemma scan_list_written:
  assumes "\<forall>l \<in> set pre. \<not> mentions name l" and "mentions name opening"
    and "\<forall>l \<in> set (opening # mid). CHR '']'' \<notin> set (strip_comment l)"
    and "CHR '']'' \<in> set (strip_comment closing)"
  shows "scan_list name (pre @ opening # mid @ closing # post) [] False =
     Some (strip_comment opening @ concat (map strip_comment mid) @ strip_comment closing)"
  using assms scan_list_multiline [of mid "strip_comment opening" closing name post]
  by (simp add: scan_list_skip mentions_def Let_def)

lemma scan_bool_first:
  assumes "\<forall>l \<in> set pre. \<not> mentions name l" and "strip_comment l = k @ CHR ''='' # v"
    and "str_in name (strip_comment l)" and "CHR ''='' \<notin> set k"
  shows "scan_bool ev name (pre @ l # post) =
     bind_res (ev (str_strip v)) (\<lambda>b. Return (Some b))"
  using assms by (simp add: scan_bool_skip Let_def after_equals_written)

lemma scan_bool_absent:
  "\<forall>l \<in> set ls. \<not> mentions name l \<Longrightarrow> scan_bool ev name ls = Return None"
  by (induction ls) (auto simp: mentions_def Let_def)

lemma scan_bool_error:
  "scan_bool ev name ls = Raise e \<Longrightarrow> e = IndexError \<or> (\<exists>v. ev v = Raise e)"
  by (induction ls)
    (auto simp: Let_def after_equals_def bind_res_eq_Raise split: if_splits list.splits)

lemma get_bool_present_error:
  assumes "get_bool_from_file fs ev path name d = Raise e" and "fs path \<noteq> None"
  shows "e = IndexError \<or> (\<exists>v. ev v = Raise e)"
  using assms scan_bool_error
  by (auto simp: get_bool_from_file_def bind_res_eq_Raise split: option.splits)

lemma get_list_error:
  assumes "get_list_from_file fs ev path name = Raise e"
  shows "e = IndexError \<or> (\<exists>v. ev v = Raise e)"
  using assms
  by (auto simp: get_list_from_file_def bind_res_eq_Raise after_equals_def split: option.splits list.splits)

lemma ns3rc_path_exists: "ns3rc_path fs home = Some path \<Longrightarrow> fs path \<noteq> None"
  by (auto simp: ns3rc_path_def split: if_splits)

section \<open>The configuration\<close>

lemma read_config_file_cases:
  shows "fs path = None \<Longrightarrow>
      get_bool_from_file fs ev path name d = Raise (UnboundLocalError ''bool_found'')"
    and "fs path = Some (pre @ [k @ CHR ''='' # v] @ post) \<Longrightarrow> (\<forall>l \<in> set pre. \<not> mentions name l) \<Longrightarrow>
      mentions name (k @ CHR ''='' # v) \<Longrightarrow> CHR ''#'' \<notin> set (k @ v) \<Longrightarrow> CHR ''='' \<notin> set k \<Longrightarrow>
      get_bool_from_file fs ev path name d = ev (str_strip v)"
    and "fs path = Some ls \<Longrightarrow> (\<forall>l \<in> set ls. \<not> mentions name l) \<Longrightarrow>
      get_bool_from_file fs ev path name d = Return d"
    and "fs ''.ns3rc'' = None \<Longrightarrow> fs (home @ ''.ns3rc'') = None \<Longrightarrow>
      read_config_file fs el ev home =
        Return \<lparr>config_file_exists = False, modules_enabled = [''all_modules''],
                examples_enabled = False, tests_enabled = False\<rparr>"
    and "fs ''.ns3rc'' \<noteq> None \<Longrightarrow> fs' ''.ns3rc'' = fs ''.ns3rc'' \<Longrightarrow>
      read_config_file fs' el ev home = read_config_file fs el ev home"
    and "read_config_file fs el ev home = Raise e \<Longrightarrow>
      e = IndexError \<or> (\<exists>v. el v = Raise e) \<or> (\<exists>v. ev v = Raise e)"
proof -
  show "fs path = None \<Longrightarrow>
      get_bool_from_file fs ev path name d = Raise (UnboundLocalError ''bool_found'')"
    by (simp add: get_bool_from_file_def)
  show "get_bool_from_file fs ev path name d = ev (str_strip v)"
    if "fs path = Some (pre @ [k @ CHR ''='' # v] @ post)" "\<forall>l \<in> set pre. \<not> mentions name l"
      "mentions name (k @ CHR ''='' # v)" "CHR ''#'' \<notin> set (k @ v)" "CHR ''='' \<notin> set k"
  proof -
    have "strip_comment (k @ CHR ''='' # v) = k @ CHR ''='' # v"
      using that(4) by (simp add: strip_comment_id)
    with that scan_bool_first [of pre name "k @ CHR ''='' # v" k v ev post] show ?thesis
      by (cases "ev (str_strip v)") (simp_all add: get_bool_from_file_def mentions_def)
  qed
  show "fs path = Some ls \<Longrightarrow> (\<forall>l \<in> set ls. \<not> mentions name l) \<Longrightarrow>
      get_bool_from_file fs ev path name d = Return d"
    by (simp add: get_bool_from_file_def scan_bool_absent)
  show "fs ''.ns3rc'' = None \<Longrightarrow> fs (home @ ''.ns3rc'') = None \<Longrightarrow>
      read_config_file fs el ev home =
        Return \<lparr>config_file_exists = False, modules_enabled = [''all_modules''],
                examples_enabled = False, tests_enabled = False\<rparr>"
    by (simp add: read_config_file_def ns3rc_path_def)
  show "fs ''.ns3rc'' \<noteq> None \<Longrightarrow> fs' ''.ns3rc'' = fs ''.ns3rc'' \<Longrightarrow>
      read_config_file fs' el ev home = read_config_file fs el ev home"
    by (simp add: read_config_file_def ns3rc_path_def get_list_from_file_def get_bool_from_file_def)
  assume r: "read_config_file fs el ev home = Raise e"
  then obtain path where p: "ns3rc_path fs home = Some path"
    by (auto simp: read_config_file_def split: option.splits)
  from r p show "e = IndexError \<or> (\<exists>v. el v = Raise e) \<or> (\<exists>v. ev v = Raise e)"
    using get_list_error get_bool_present_error ns3rc_path_exists [OF p]
    by (auto simp: read_config_file_def bind_res_eq_Raise) blast+
qed

text \<open>A Boolean that the file does not mention is read as the default, the first line that
  mentions it decides, and asking a file that does not exist raises UnboundLocalError instead of
  giving the default; \<open>read_config_file\<close> never gets there: without a file it returns the
  defaults, the file of the current directory hides the one in the home directory, and the only
  errors are those of the values themselves and a line with the name and no equals sign.\<close>

theorem read_config_file_correct:
  "(fs path = None \<longrightarrow> get_bool_from_file fs ev path name d = Raise (UnboundLocalError ''bool_found'')) \<and>
   (\<forall>pre k v post. fs path = Some (pre @ [k @ CHR ''='' # v] @ post) \<longrightarrow>
      (\<forall>l \<in> set pre. \<not> mentions name l) \<longrightarrow> mentions name (k @ CHR ''='' # v) \<longrightarrow>
      CHR ''#'' \<notin> set (k @ v) \<longrightarrow> CHR ''='' \<notin> set k \<longrightarrow>
      get_bool_from_file fs ev path name d = ev (str_strip v)) \<and>
   (\<forall>ls. fs path = Some ls \<longrightarrow> (\<forall>l \<in> set ls. \<not> mentions name l) \<longrightarrow>
      get_bool_from_file fs ev path name d = Return d) \<and>
   (fs ''.ns3rc'' = None \<longrightarrow> fs (home @ ''.ns3rc'') = None \<longrightarrow>
      read_config_file fs el ev home =
        Return \<lparr>config_file_exists = False, modules_enabled = [''all_modules''],
                examples_enabled = False, tests_enabled = False\<rparr>) \<and>
   (\<forall>fs'. fs ''.ns3rc'' \<noteq> None \<longrightarrow> fs' ''.ns3rc'' = fs ''.ns3rc'' \<longrightarrow>
      read_config_file fs' el ev home = read_config_file fs el ev home) \<and>
   (\<forall>e. read_config_file fs el ev home = Raise e \<longrightarrow>
      e = IndexError \<or> (\<exists>v. el v = Raise e) \<or> (\<exists>v. ev v = Raise e))"
  by (intro conjI allI impI) (rule read_config_file_cases; assumption)+

text \<open>At concrete files: a missing one, the three lines a Boolean can be read from, no
  configuration at all, the current directory before the home directory, and a value that raises.\<close>

theorem read_config_file_correct_witness:
  "get_bool_from_file (\<lambda>p. None) (\<lambda>s. Return True) ''rc'' ''tests_enabled'' False =
     Raise (UnboundLocalError ''bool_found'') \<and>
   get_bool_from_file (\<lambda>p. Some [''tests_enabled = True'']) (\<lambda>s. Return (s = ''True'')) ''rc'' ''tests_enabled'' False =
     Return True \<and>
   get_bool_from_file (\<lambda>p. Some [''# tests_enabled = True'']) (\<lambda>s. Return (s = ''True'')) ''rc'' ''tests_enabled'' False =
     Return False \<and>
   read_config_file (\<lambda>p. None) (\<lambda>s. Return []) (\<lambda>s. Return True) ''/root/'' =
     Return \<lparr>config_file_exists = False, modules_enabled = [''all_modules''],
             examples_enabled = False, tests_enabled = False\<rparr> \<and>
   read_config_file (\<lambda>p. Some []) (\<lambda>s. Return []) (\<lambda>s. Return True) ''/root/'' =
     read_config_file (\<lambda>p. if p = ''.ns3rc'' then Some [] else None) (\<lambda>s. Return []) (\<lambda>s. Return True) ''/root/'' \<and>
   (\<exists>e. read_config_file (\<lambda>p. Some [''examples_enabled = maybe'']) (\<lambda>s. Return []) (\<lambda>s. Raise KeyError) ''/'' =
      Raise e \<and> e \<in> {IndexError, KeyError})"
proof (intro conjI)
  let ?line = "\<lambda>l. (\<lambda>p. Some [l]) :: files" and ?ev = "\<lambda>s. Return (s = ''True'') :: bool res"
  note law = read_config_file_correct [where path = "''rc''" and name = "''tests_enabled''" and d = False
      and el = "\<lambda>s. Return []"]
  show "get_bool_from_file (\<lambda>p. None) (\<lambda>s. Return True) ''rc'' ''tests_enabled'' False =
     Raise (UnboundLocalError ''bool_found'')"
    using law [of "\<lambda>p. None" "\<lambda>s. Return True", THEN conjunct1] by simp
  have "get_bool_from_file (?line ''tests_enabled = True'') ?ev ''rc'' ''tests_enabled'' False = ?ev (str_strip '' True'')"
    using law [of "?line ''tests_enabled = True''" ?ev, THEN conjunct2, THEN conjunct1, THEN spec [of _ "[]"],
        THEN spec [of _ "''tests_enabled ''"], THEN spec [of _ "'' True''"], THEN spec [of _ "[]"]]
    by (simp add: mentions_def strip_comment_def)
  then show "get_bool_from_file (?line ''tests_enabled = True'') ?ev ''rc'' ''tests_enabled'' False = Return True"
    by (simp add: str_strip_def is_space_def)
  show "get_bool_from_file (?line ''# tests_enabled = True'') ?ev ''rc'' ''tests_enabled'' False = Return False"
    using law [of "?line ''# tests_enabled = True''" ?ev, THEN conjunct2, THEN conjunct2, THEN conjunct1]
    by (simp add: mentions_def strip_comment_def split_once_def)
  show "read_config_file (\<lambda>p. None) (\<lambda>s. Return []) (\<lambda>s. Return True) ''/root/'' =
     Return \<lparr>config_file_exists = False, modules_enabled = [''all_modules''],
             examples_enabled = False, tests_enabled = False\<rparr>"
    using law [of "\<lambda>p. None" "\<lambda>s. Return True" "''/root/''", THEN conjunct2, THEN conjunct2,
        THEN conjunct2, THEN conjunct1]
    by simp
  show "read_config_file (\<lambda>p. Some []) (\<lambda>s. Return []) (\<lambda>s. Return True) ''/root/'' =
     read_config_file (\<lambda>p. if p = ''.ns3rc'' then Some [] else None) (\<lambda>s. Return []) (\<lambda>s. Return True) ''/root/''"
    by (rule law [of "\<lambda>p. if p = ''.ns3rc'' then Some [] else None" "\<lambda>s. Return True" "''/root/''",
          THEN conjunct2, THEN conjunct2, THEN conjunct2, THEN conjunct2, THEN conjunct1,
          THEN spec, THEN mp, THEN mp]) simp_all
  have r: "read_config_file (\<lambda>p. Some [''examples_enabled = maybe'']) (\<lambda>s. Return [])
      (\<lambda>s. Raise KeyError) ''/'' = Raise KeyError"
    by (simp add: read_config_file_def ns3rc_path_def get_list_from_file_def get_bool_from_file_def
        strip_comment_def after_equals_def split_once_def)
  with law [of "?line ''examples_enabled = maybe''" "\<lambda>s. Raise KeyError" "''/''",
      THEN conjunct2, THEN conjunct2, THEN conjunct2, THEN conjunct2, THEN conjunct2]
  have "KeyError \<in> {IndexError, KeyError}" by simp
  with r show "\<exists>e. read_config_file (\<lambda>p. Some [''examples_enabled = maybe'']) (\<lambda>s. Return [])
      (\<lambda>s. Raise KeyError) ''/'' = Raise e \<and> e \<in> {IndexError, KeyError}"
    by (intro exI [of _ KeyError]) simp
qed

end
