(* ===== verification/Test_Jobs.thy ===== *)
theory Test_Jobs
  imports Complex_Main Rc_File "HOL-Library.Multiset"
begin

text \<open>
  The work of \<open>test.py\<close>: the options, the configuration read from waf, the jobs, the commands they
  run, and which suites, examples and Python examples are queued. What a process does, the file
  system, Python's \<open>eval\<close> and the listing printed by the C++ test runner are arguments.
\<close>

section \<open>Paths\<close>

text \<open>\<open>os.path\<close> on POSIX systems.\<close>

abbreviation slash :: char where "slash \<equiv> CHR ''/''"

definition path_join :: "string \<Rightarrow> string \<Rightarrow> string" where
  "path_join a b =
     (if startswith b ''/'' then b
      else if a = [] \<or> endswith a ''/'' then a @ b else a @ ''/'' @ b)"

definition basename :: "string \<Rightarrow> string" where
  "basename p = last (split_on slash p)"

definition dirname :: "string \<Rightarrow> string" where
  "dirname p =
     (let head = rev (dropWhile (\<lambda>c. c \<noteq> slash) (rev p)); stripped = rev (dropWhile (\<lambda>c. c = slash) (rev head))
      in if stripped = [] then head else stripped)"

fun norm_components :: "bool \<Rightarrow> string list \<Rightarrow> string list \<Rightarrow> string list" where
  "norm_components absolute [] acc = rev acc"
| "norm_components absolute (c # cs) acc =
     (if c = [] \<or> c = ''.'' then norm_components absolute cs acc
      else if c \<noteq> ''..'' \<or> (\<not> absolute \<and> acc = []) \<or> (acc \<noteq> [] \<and> hd acc = ''..'')
      then norm_components absolute cs (c # acc)
      else norm_components absolute cs (tl acc))"

definition normpath :: "string \<Rightarrow> string" where
  "normpath p =
     (if p = [] then ''.''
      else
        (let absolute = startswith p ''/'';
             initial = (if startswith p ''//'' \<and> \<not> startswith p ''///'' then ''//''
                        else if absolute then ''/'' else []);
             comps = norm_components absolute (split_on slash p) [];
             r = initial @ str_join ''/'' comps
         in if r = [] then ''.'' else r))"

definition abspath :: "string \<Rightarrow> string \<Rightarrow> string" where
  "abspath getcwd p = normpath (if startswith p ''/'' then p else path_join getcwd p)"

definition path_parts :: "string \<Rightarrow> string \<Rightarrow> string list" where
  "path_parts getcwd p = filter (\<lambda>x. x \<noteq> []) (split_on slash (abspath getcwd p))"

definition relpath :: "string \<Rightarrow> string \<Rightarrow> string \<Rightarrow> string" where
  "relpath getcwd p start =
     (let start_list = path_parts getcwd start; path_list = path_parts getcwd p;
          i = length (longest_common_prefix start_list path_list);
          rel_list = replicate (length start_list - i) ''..'' @ drop i path_list
      in if rel_list = [] then ''.'' else str_join ''/'' rel_list)"

section \<open>Options and configuration\<close>

record options =
  buildpath :: string
  constrain :: string
  duration :: bool
  example :: string
  update_data :: bool
  fullness :: string
  valgrind :: bool
  multiple :: bool
  pyexample :: string
  suite :: string

definition default_options :: options where
  "default_options =
     \<lparr>buildpath = [], constrain = [], duration = False, example = [], update_data = False,
      fullness = ''QUICK'', valgrind = False, multiple = False, pyexample = [], suite = []\<rparr>"

text \<open>The globals that \<open>read_waf_config\<close> sets, and the working directory.\<close>

record config =
  NSC_ENABLED :: bool
  ENABLE_EXAMPLES :: bool
  ENABLE_PYTHON_BINDINGS :: bool
  EXAMPLE_DIRECTORIES :: "string list"
  NS3_ENABLED_MODULES :: "string list"
  NS3_ENABLED_CONTRIBUTED_MODULES :: "string list"
  APPNAME :: string
  VERSION :: string
  BUILD_PROFILE :: string
  PYTHON :: "string list"
  NS3_BASEDIR :: string
  NS3_BUILDDIR :: string
  getcwd :: string

definition BUILD_PROFILE_SUFFIX :: "config \<Rightarrow> string" where
  "BUILD_PROFILE_SUFFIX cfg = (if BUILD_PROFILE cfg = ''release'' then [] else ''-'' @ BUILD_PROFILE cfg)"

text \<open>\<open>"%s%s-%s%s" % (APPNAME, VERSION, name, BUILD_PROFILE_SUFFIX)\<close>\<close>

definition program_name :: "config \<Rightarrow> string \<Rightarrow> string" where
  "program_name cfg name = APPNAME cfg @ VERSION cfg @ ''-'' @ name @ BUILD_PROFILE_SUFFIX cfg"

definition runner_cmd :: "config \<Rightarrow> string \<Rightarrow> string" where
  "runner_cmd cfg arguments = path_join ''utils'' (program_name cfg ''test-runner'' @ arguments)"

definition core_valgrind_skip_tests :: "string list" where
  "core_valgrind_skip_tests =
     [''ns3-tcp-cwnd'', ''nsc-tcp-loss'', ''ns3-tcp-interoperability'', ''routing-click'',
      ''lte-rr-ff-mac-scheduler'', ''lte-tdmt-ff-mac-scheduler'', ''lte-fdmt-ff-mac-scheduler'',
      ''lte-pf-ff-mac-scheduler'', ''lte-tta-ff-mac-scheduler'', ''lte-fdbet-ff-mac-scheduler'',
      ''lte-ttbet-ff-mac-scheduler'', ''lte-fdtbfq-ff-mac-scheduler'',
      ''lte-tdtbfq-ff-mac-scheduler'', ''lte-pss-ff-mac-scheduler'']"

definition core_nsc_missing_skip_tests :: "string list" where
  "core_nsc_missing_skip_tests = [''ns3-tcp-cwnd'', ''nsc-tcp-loss'', ''ns3-tcp-interoperability'']"

section \<open>Jobs\<close>

text \<open>The elapsed time is the exact value of the float.\<close>

record job =
  is_break :: bool
  is_skip :: bool
  skip_reason :: string
  is_example :: bool
  is_pyexample :: bool
  shell_command :: string
  display_name :: string
  basedir :: string
  tempdir :: string
  cwd :: string
  tmp_file_name :: string
  returncode :: int
  elapsed_time :: rat
  build_path :: string

definition new_job :: job where
  "new_job =
     \<lparr>is_break = False, is_skip = False, skip_reason = [], is_example = False, is_pyexample = False,
      shell_command = [], display_name = [], basedir = [], tempdir = [], cwd = [],
      tmp_file_name = [], returncode = 0, elapsed_time = 0, build_path = []\<rparr>"

definition skip_job :: "string \<Rightarrow> job \<Rightarrow> job" where
  "skip_job reason j = j\<lparr>is_skip := True, skip_reason := reason\<rparr>"

definition break_job :: job where
  "break_job = new_job\<lparr>is_break := True\<rparr>"

section \<open>Running a command\<close>

text \<open>
  \<open>bytes.decode()\<close>: UTF-8 as Python reads it, without overlong forms, surrogates and code points
  beyond Unicode; None stands for UnicodeDecodeError.
\<close>

definition utf8_tail :: "nat \<Rightarrow> bool" where
  "utf8_tail b \<longleftrightarrow> 128 \<le> b \<and> b < 192"

fun utf8_decode :: "nat list \<Rightarrow> nat list option" where
  "utf8_decode [] = Some []"
| "utf8_decode (a # bs) =
     (if a < 128 then map_option ((#) a) (utf8_decode bs)
      else if 194 \<le> a \<and> a < 224 then
        (case bs of
           b # r \<Rightarrow>
             if utf8_tail b then map_option ((#) ((a - 192) * 64 + (b - 128))) (utf8_decode r) else None
         | _ \<Rightarrow> None)
      else if 224 \<le> a \<and> a < 240 then
        (case bs of
           b # c # r \<Rightarrow>
             let p = (a - 224) * 4096 + (b - 128) * 64 + (c - 128)
             in if utf8_tail b \<and> utf8_tail c \<and> 2048 \<le> p \<and> \<not> (55296 \<le> p \<and> p \<le> 57343)
                then map_option ((#) p) (utf8_decode r) else None
         | _ \<Rightarrow> None)
      else if 240 \<le> a \<and> a < 245 then
        (case bs of
           b # c # d # r \<Rightarrow>
             let p = (a - 240) * 262144 + (b - 128) * 4096 + (c - 128) * 64 + (d - 128)
             in if utf8_tail b \<and> utf8_tail c \<and> utf8_tail d \<and> 65536 \<le> p \<and> p \<le> 1114111
                then map_option ((#) p) (utf8_decode r) else None
         | _ \<Rightarrow> None)
      else None)"

text \<open>What a finished process leaves, and the two types that a Python 3 output may have.\<close>

record proc_result =
  pr_returncode :: int
  pr_stdout :: "nat list"
  pr_stderr :: "nat list"
  pr_time :: rat

datatype py_text = Str "nat list" | Bytes "nat list"

definition try_decode :: "nat list \<Rightarrow> py_text" where
  "try_decode bs = (case utf8_decode bs of Some t \<Rightarrow> Str t | None \<Rightarrow> Bytes bs)"

definition is_str :: "py_text \<Rightarrow> bool" where
  "is_str out = (case out of Str _ \<Rightarrow> True | Bytes _ \<Rightarrow> False)"

text \<open>\<open>s.decode()\<close>: a \<open>str\<close> has no such method in Python 3.\<close>

definition decode_output :: "py_text \<Rightarrow> nat list res" where
  "decode_output out =
     (case out of
        Str _ \<Rightarrow> Raise AttributeError
      | Bytes bs \<Rightarrow>
          (case utf8_decode bs of Some t \<Rightarrow> Return t | None \<Rightarrow> Raise (ValueError ''UnicodeDecodeError'')))"

type_synonym shell = "string \<Rightarrow> string \<Rightarrow> proc_result"

definition job_command :: "config \<Rightarrow> string \<Rightarrow> bool \<Rightarrow> bool \<Rightarrow> string \<Rightarrow> string res" where
  "job_command cfg cmd grind is_python build =
     bind_res
       (if is_python
        then bind_res (py_nth (PYTHON cfg) 0)
               (\<lambda>python. Return (python @ '' '' @ path_join (NS3_BASEDIR cfg) cmd))
        else if build \<noteq> [] then Return (path_join build cmd)
        else Return (path_join (NS3_BUILDDIR cfg) cmd))
       (\<lambda>path_cmd.
         Return
           (if grind
            then ''valgrind --suppressions='' @ path_join (NS3_BASEDIR cfg) ''testpy.supp'' @
                 '' --leak-check=full --show-reachable=yes --error-exitcode=2 --errors-for-leak-kinds=all '' @
                 path_cmd
            else path_cmd))"

definition run_job_synchronously ::
  "config \<Rightarrow> shell \<Rightarrow> string \<Rightarrow> string \<Rightarrow> bool \<Rightarrow> bool \<Rightarrow> string \<Rightarrow> (int \<times> py_text \<times> py_text \<times> rat) res" where
  "run_job_synchronously cfg sh cmd directory grind is_python build =
     bind_res (job_command cfg cmd grind is_python build) (\<lambda>c.
       let r = sh c directory;
           retval = pr_returncode r;
           stdout_results = try_decode (pr_stdout r);
           retval = (if is_str stdout_results then retval else 1);
           stderr_results = try_decode (pr_stderr r);
           retval = (if is_str stderr_results then retval else 1)
       in Return (retval, stdout_results, stderr_results, pr_time r))"

text \<open>The work of \<open>worker_thread.run\<close> on a job that is neither a break nor skipped.\<close>

definition perform_job :: "options \<Rightarrow> config \<Rightarrow> shell \<Rightarrow> job \<Rightarrow> job res" where
  "perform_job opts cfg sh j =
     bind_res
       (if is_example j \<or> is_pyexample j
        then run_job_synchronously cfg sh (shell_command j) (cwd j) (valgrind opts) (is_pyexample j) (build_path j)
        else run_job_synchronously cfg sh
               (shell_command j @ '' --xml --tempdir='' @ tempdir j @ '' --out='' @ tmp_file_name j @ '' '' @
                (if update_data opts then ''--update-data'' else []))
               (cwd j) (valgrind opts) False [])
       (\<lambda>(rc, _, _, et). Return (j\<lparr>returncode := rc, elapsed_time := et\<rparr>))"

text \<open>The \<open>--kinds\<close> option: run the test runner and print what it lists.\<close>

definition print_kinds :: "config \<Rightarrow> shell \<Rightarrow> nat list res" where
  "print_kinds cfg sh =
     bind_res (run_job_synchronously cfg sh (runner_cmd cfg '' --print-test-type-list'') (getcwd cfg) False False [])
       (\<lambda>(rc, out, err, et). decode_output out)"

section \<open>The test suites to run\<close>

text \<open>
  \<open>listing cmd\<close> is the decoded output of the test runner for a command, None when it cannot be
  decoded: the code decodes it once more then, which raises.
\<close>

type_synonym listing = "string \<Rightarrow> string option"

definition list_suites :: "listing \<Rightarrow> string \<Rightarrow> string res" where
  "list_suites listing cmd =
     (case listing cmd of Some s \<Rightarrow> Return s | None \<Rightarrow> Raise (ValueError ''UnicodeDecodeError''))"

abbreviation newline :: char where "newline \<equiv> CHR 0x0A"

definition select_suites :: "options \<Rightarrow> config \<Rightarrow> listing \<Rightarrow> (string \<times> bool) res" where
  "select_suites opts cfg listing =
     (if suite opts \<noteq> []
      then bind_res (list_suites listing (runner_cmd cfg '' --print-test-name-list'')) (\<lambda>suites.
             if suite opts \<in> set (split_on newline suites)
             then Return (suite opts @ [newline], True) else Raise (SystemExit 2))
      else if example opts = [] \<and> pyexample opts = []
      then bind_res
             (list_suites listing
               (runner_cmd cfg
                 (if constrain opts \<noteq> [] then '' --print-test-name-list --test-type='' @ constrain opts
                  else '' --print-test-name-list'')))
             (\<lambda>suites. Return (suites, False))
      else Return ([], False))"

fun remove_tests :: "string list \<Rightarrow> string list \<Rightarrow> string list" where
  "remove_tests [] suite_list = suite_list"
| "remove_tests (t # ts) suite_list =
     remove_tests ts (if t \<in> set suite_list then remove1 t suite_list else suite_list)"

definition suite_list :: "options \<Rightarrow> config \<Rightarrow> listing \<Rightarrow> string list res" where
  "suite_list opts cfg listing =
     bind_res (select_suites opts cfg listing) (\<lambda>(suites, single_suite).
       if \<not> single_suite \<and> constrain opts \<noteq> ''performance''
       then bind_res
              (list_suites listing (runner_cmd cfg '' --print-test-name-list --test-type=performance''))
              (\<lambda>performance_tests.
                Return (remove_tests (split_on newline performance_tests) (split_on newline suites)))
       else Return (split_on newline suites))"

section \<open>The examples to run\<close>

text \<open>\<open>name.split(' ', 1)\<close>: the name and the arguments, if any.\<close>

definition example_parts :: "string \<Rightarrow> string \<times> string option" where
  "example_parts s = (case split_once (CHR '' '') s of [n, a] \<Rightarrow> (n, Some a) | _ \<Rightarrow> (s, None))"

definition with_arguments :: "string \<Rightarrow> string option \<Rightarrow> string" where
  "with_arguments s args = (case args of None \<Rightarrow> s | Some a \<Rightarrow> s @ '' '' @ a)"

record examples =
  example_tests :: "(string \<times> string \<times> string \<times> string) list"
  example_names_original :: "string list"
  python_tests :: "(string \<times> string) list"

definition no_examples :: examples where
  "no_examples = \<lparr>example_tests = [], example_names_original = [], python_tests = []\<rparr>"

definition add_cpp_example ::
  "config \<Rightarrow> files \<Rightarrow> string \<Rightarrow> string \<times> string \<times> string \<Rightarrow> examples \<Rightarrow> examples" where
  "add_cpp_example cfg fs cpp_executable_dir = (\<lambda>(example_name_original, do_run, do_valgrind_run) ex.
     let (name, args) = example_parts example_name_original;
         example_path = path_join cpp_executable_dir (program_name cfg name);
         example_name = path_join (relpath (getcwd cfg) cpp_executable_dir (NS3_BUILDDIR cfg)) name
     in if fs example_path \<noteq> None
        then ex\<lparr>example_tests := example_tests ex @
                  [(with_arguments example_name args, with_arguments example_path args, do_run, do_valgrind_run)],
                example_names_original := example_names_original ex @ [example_name_original]\<rparr>
        else ex)"

definition add_python_example :: "files \<Rightarrow> string \<Rightarrow> string \<times> string \<Rightarrow> examples \<Rightarrow> examples" where
  "add_python_example fs python_script_dir = (\<lambda>(example_name, do_run) ex.
     let (name, args) = example_parts example_name;
         example_path = path_join python_script_dir name
     in if fs example_path \<noteq> None
        then ex\<lparr>python_tests := python_tests ex @ [(with_arguments example_path args, do_run)]\<rparr>
        else ex)"

record evals =
  eval_cpp :: "string \<Rightarrow> (string \<times> string \<times> string) list res"
  eval_python :: "string \<Rightarrow> (string \<times> string) list res"
  eval_cond :: "string \<Rightarrow> bool res"

definition parse_examples_to_run_file ::
  "config \<Rightarrow> files \<Rightarrow> evals \<Rightarrow> string \<Rightarrow> string \<Rightarrow> string \<Rightarrow> examples \<Rightarrow> examples res" where
  "parse_examples_to_run_file cfg fs ev examples_to_run_path cpp_executable_dir python_script_dir ex =
     (if fs examples_to_run_path = None then Return ex
      else
        bind_res (get_list_from_file fs (eval_cpp ev) examples_to_run_path ''cpp_examples'') (\<lambda>cpp.
        let ex1 = fold (add_cpp_example cfg fs cpp_executable_dir) cpp ex
        in bind_res (get_list_from_file fs (eval_python ev) examples_to_run_path ''python_examples'')
             (\<lambda>python. Return (fold (add_python_example fs python_script_dir) python ex1))))"

definition parse_directory :: "config \<Rightarrow> files \<Rightarrow> evals \<Rightarrow> string \<Rightarrow> examples \<Rightarrow> examples res" where
  "parse_directory cfg fs ev directory ex =
     (let example_directory = path_join ''examples'' directory
      in parse_examples_to_run_file cfg fs ev (path_join example_directory ''examples-to-run.py'')
           (path_join (NS3_BUILDDIR cfg) example_directory) example_directory ex)"

text \<open>\<open>module[len("ns3-"):]\<close> in the directory \<open>tree_dir\<close>, which is src or contrib.\<close>

definition parse_module :: "config \<Rightarrow> files \<Rightarrow> evals \<Rightarrow> string \<Rightarrow> string \<Rightarrow> examples \<Rightarrow> examples res" where
  "parse_module cfg fs ev tree_dir module_name ex =
     (let module_directory = path_join tree_dir (drop (length ''ns3-'') module_name);
          example_directory = path_join module_directory ''examples''
      in parse_examples_to_run_file cfg fs ev
           (path_join (path_join module_directory ''test'') ''examples-to-run.py'')
           (path_join (NS3_BUILDDIR cfg) example_directory) example_directory ex)"

definition all_examples :: "config \<Rightarrow> files \<Rightarrow> evals \<Rightarrow> examples res" where
  "all_examples cfg fs ev =
     bind_res (fold_res (parse_directory cfg fs ev) (EXAMPLE_DIRECTORIES cfg) no_examples) (\<lambda>ex.
     bind_res (fold_res (parse_module cfg fs ev ''src'') (NS3_ENABLED_MODULES cfg) ex)
       (fold_res (parse_module cfg fs ev ''contrib'') (NS3_ENABLED_CONTRIBUTED_MODULES cfg)))"

section \<open>Dispatching\<close>

text \<open>What \<open>run_tests\<close> has computed when it starts to dispatch.\<close>

record plan =
  p_options :: options
  p_config :: config
  p_evals :: evals
  p_suites :: "string list"
  p_examples :: examples
  p_programs :: "string list"
  p_scripts :: "string list"
  p_output_dir :: string

definition suite_job :: "plan \<Rightarrow> string \<Rightarrow> job" where
  "suite_job p test =
     (let opts = p_options p; cfg = p_config p;
          mult = (if multiple opts then [] else '' --stop-on-failure'');
          full = (if fullness opts \<noteq> [] then '' --fullness='' @ to_upper (fullness opts) else '' --fullness=QUICK'');
          j = new_job\<lparr>display_name := test,
                tmp_file_name := path_join (p_output_dir p) (test @ ''.xml''),
                cwd := getcwd cfg, basedir := getcwd cfg, tempdir := p_output_dir p,
                shell_command := runner_cmd cfg ('' --test-name='' @ test @ mult @ full)\<rparr>;
          j1 = (if valgrind opts \<and> test \<in> set core_valgrind_skip_tests
                then skip_job ''crashes valgrind'' j else j)
      in if \<not> NSC_ENABLED cfg \<and> test \<in> set core_nsc_missing_skip_tests
         then skip_job ''requires NSC'' j1 else j1)"

fun suite_jobs :: "plan \<Rightarrow> string list \<Rightarrow> job list" where
  "suite_jobs p [] = []"
| "suite_jobs p (t # ts) =
     (let test = str_strip t
      in if test \<noteq> [] then suite_job p test # suite_jobs p ts else suite_jobs p ts)"

text \<open>The last program of a name wins.\<close>

definition programs_dictionary :: "string list \<Rightarrow> (string \<times> string) list" where
  "programs_dictionary ps = fold (\<lambda>p d. AList.update (basename p) p d) ps []"

definition example_base :: "plan \<Rightarrow> job" where
  "example_base p =
     new_job\<lparr>cwd := p_output_dir p, basedir := getcwd (p_config p), tempdir := p_output_dir p\<rparr>"

definition test_program :: "string \<Rightarrow> string" where
  "test_program test = basename (fst (example_parts test))"

definition example_job :: "plan \<Rightarrow> string \<times> string \<times> string \<times> string \<Rightarrow> job list res" where
  "example_job p = (\<lambda>(name, test, do_run, do_valgrind_run).
     if map_of (programs_dictionary (p_programs p)) (test_program test) = None then Return []
     else bind_res (eval_cond (p_evals p) do_run) (\<lambda>b.
       if \<not> b then Return []
       else
         (let j = (example_base p)\<lparr>is_example := True, display_name := name, shell_command := test,
                    build_path := buildpath (p_options p)\<rparr>
          in if valgrind (p_options p)
             then bind_res (eval_cond (p_evals p) do_valgrind_run) (\<lambda>v.
                    Return [if v then j else skip_job ''skip in valgrind runs'' j])
             else Return [j])))"

definition single_example_job :: "plan \<Rightarrow> job list" where
  "single_example_job p =
     (case map_of (programs_dictionary (p_programs p)) (program_name (p_config p) (example (p_options p))) of
        None \<Rightarrow> []
      | Some path \<Rightarrow>
          let example_path = abspath (getcwd (p_config p)) path
          in [(example_base p)\<lparr>is_example := True, display_name := example_path,
                shell_command := example_path, build_path := buildpath (p_options p)\<rparr>])"

definition pyexample_job :: "plan \<Rightarrow> string \<times> string \<Rightarrow> job list res" where
  "pyexample_job p = (\<lambda>(test, do_run).
     if test_program test \<notin> set (p_scripts p) then Return []
     else bind_res (eval_cond (p_evals p) do_run) (\<lambda>b.
       if \<not> b then Return []
       else
         (let j = (example_base p)\<lparr>is_pyexample := True, display_name := test, shell_command := test\<rparr>;
              j1 = (if valgrind (p_options p) then skip_job ''skip in valgrind runs'' j else j)
          in Return [if \<not> ENABLE_PYTHON_BINDINGS (p_config p)
                     then skip_job ''requires Python bindings'' j1 else j1])))"

definition single_pyexample_job :: "plan \<Rightarrow> job list" where
  "single_pyexample_job p =
     (let py = pyexample (p_options p)
      in if basename py \<notin> set (p_scripts p) then []
         else [(example_base p)\<lparr>is_pyexample := True, display_name := py, shell_command := py\<rparr>])"

definition unconstrained :: "options \<Rightarrow> bool" where
  "unconstrained opts \<longleftrightarrow> suite opts = [] \<and> example opts = [] \<and> pyexample opts = []"

definition example_jobs :: "plan \<Rightarrow> job list res" where
  "example_jobs p =
     (let opts = p_options p
      in if unconstrained opts
         then if (constrain opts = [] \<or> constrain opts = ''example'') \<and> ENABLE_EXAMPLES (p_config p)
              then bind_res (map_res (example_job p) (example_tests (p_examples p))) (\<lambda>js. Return (concat js))
              else Return []
         else if example opts \<noteq> [] then Return (single_example_job p) else Return [])"

definition pyexample_jobs :: "plan \<Rightarrow> job list res" where
  "pyexample_jobs p =
     (let opts = p_options p
      in if unconstrained opts
         then if (constrain opts = [] \<or> constrain opts = ''pyexample'') \<and> ENABLE_EXAMPLES (p_config p)
              then bind_res (map_res (pyexample_job p) (python_tests (p_examples p))) (\<lambda>js. Return (concat js))
              else Return []
         else if pyexample opts \<noteq> [] then Return (single_pyexample_job p) else Return [])"

definition dispatch_jobs :: "plan \<Rightarrow> job list res" where
  "dispatch_jobs p =
     bind_res (example_jobs p) (\<lambda>ex.
     bind_res (pyexample_jobs p) (\<lambda>py. Return (suite_jobs p (p_suites p) @ ex @ py)))"

section \<open>Commands and their results\<close>

lemma job_command_cases:
  "job_command cfg cmd grind is_python build = Raise e \<longleftrightarrow> is_python \<and> PYTHON cfg = [] \<and> e = IndexError"
  by (auto simp: job_command_def bind_res_eq_Raise py_nth_def Let_def split: if_splits)

lemma run_job_Return:
  "job_command cfg cmd grind is_python build = Return c \<Longrightarrow>
   run_job_synchronously cfg sh cmd dir grind is_python build =
     Return (if utf8_decode (pr_stdout (sh c dir)) \<noteq> None \<and> utf8_decode (pr_stderr (sh c dir)) \<noteq> None
             then pr_returncode (sh c dir) else 1,
             try_decode (pr_stdout (sh c dir)), try_decode (pr_stderr (sh c dir)), pr_time (sh c dir))"
  by (auto simp: run_job_synchronously_def Let_def try_decode_def is_str_def split: option.splits)

lemma run_job_Raise:
  "run_job_synchronously cfg sh cmd dir grind is_python build = Raise e \<longleftrightarrow>
     is_python \<and> PYTHON cfg = [] \<and> e = IndexError"
  by (simp add: run_job_synchronously_def bind_res_eq_Raise job_command_cases Let_def)

lemma perform_job_Raise:
  "perform_job opts cfg sh j = Raise e \<longleftrightarrow>
     is_pyexample j \<and> PYTHON cfg = [] \<and> e = IndexError"
  by (auto simp: perform_job_def bind_res_eq_Raise run_job_Raise)

lemma perform_job_fields:
  "perform_job opts cfg sh j = Return j' \<Longrightarrow> \<exists>rc et. j' = j\<lparr>returncode := rc, elapsed_time := et\<rparr>"
  by (auto simp: perform_job_def bind_res_eq_Return split: prod.splits)

lemma decode_try_decode:
  "decode_output (try_decode bs) =
     Raise (if utf8_decode bs \<noteq> None then AttributeError else ValueError ''UnicodeDecodeError'')"
  by (auto simp: decode_output_def try_decode_def split: option.splits)

lemma utf8_decode_ascii: "\<forall>b \<in> set bs. b < 128 \<Longrightarrow> utf8_decode bs = Some bs"
  by (induction bs) auto

text \<open>C21: Running a command gives the return code of the process when both its outputs are UTF-8
  text, and 1 otherwise, with the undecodable output as bytes; the only error is a Python job
  without a configured Python. For that reason the \<open>--kinds\<close> option never works: whatever the
  test runner prints, decoding its output once more raises AttributeError on the text, or
  UnicodeDecodeError.\<close>

theorem run_job_correct:
  "(\<forall>c r. job_command cfg cmd grind is_python build = Return c \<longrightarrow> r = sh c dir \<longrightarrow>
      (\<exists>out err. run_job_synchronously cfg sh cmd dir grind is_python build =
          Return (if is_str out \<and> is_str err then pr_returncode r else 1, out, err, pr_time r) \<and>
        (is_str out \<longleftrightarrow> utf8_decode (pr_stdout r) \<noteq> None) \<and>
        (\<forall>bs. out = Bytes bs \<longrightarrow> bs = pr_stdout r) \<and>
        (is_str err \<longleftrightarrow> utf8_decode (pr_stderr r) \<noteq> None))) \<and>
   (\<forall>e. run_job_synchronously cfg sh cmd dir grind is_python build = Raise e \<longleftrightarrow>
      is_python \<and> PYTHON cfg = [] \<and> e = IndexError) \<and>
   (\<exists>e. print_kinds cfg sh = Raise e \<and> e \<in> {AttributeError, ValueError ''UnicodeDecodeError''})"
proof (intro conjI allI impI)
  show "run_job_synchronously cfg sh cmd dir grind is_python build = Raise e \<longleftrightarrow>
      is_python \<and> PYTHON cfg = [] \<and> e = IndexError" for e
    by (rule run_job_Raise)
  show "\<exists>out err. run_job_synchronously cfg sh cmd dir grind is_python build =
          Return (if is_str out \<and> is_str err then pr_returncode r else 1, out, err, pr_time r) \<and>
        (is_str out \<longleftrightarrow> utf8_decode (pr_stdout r) \<noteq> None) \<and>
        (\<forall>bs. out = Bytes bs \<longrightarrow> bs = pr_stdout r) \<and>
        (is_str err \<longleftrightarrow> utf8_decode (pr_stderr r) \<noteq> None)"
    if c: "job_command cfg cmd grind is_python build = Return c" and r: "r = sh c dir" for c r
    unfolding r
    by (intro exI [of _ "try_decode (pr_stdout (sh c dir))"] exI [of _ "try_decode (pr_stderr (sh c dir))"])
      (auto simp: run_job_Return [OF c] try_decode_def is_str_def split: option.splits)
  obtain c where c: "job_command cfg (runner_cmd cfg '' --print-test-type-list'') False False [] = Return c"
    by (cases "job_command cfg (runner_cmd cfg '' --print-test-type-list'') False False []")
      (auto simp: job_command_cases)
  show "\<exists>e. print_kinds cfg sh = Raise e \<and> e \<in> {AttributeError, ValueError ''UnicodeDecodeError''}"
    by (auto simp: print_kinds_def run_job_Return [OF c] decode_try_decode)
qed

definition sample_config :: config where
  "sample_config =
     \<lparr>NSC_ENABLED = False, ENABLE_EXAMPLES = True, ENABLE_PYTHON_BINDINGS = True,
      EXAMPLE_DIRECTORIES = [''udp''], NS3_ENABLED_MODULES = [''ns3-core''],
      NS3_ENABLED_CONTRIBUTED_MODULES = [], APPNAME = ''ns'', VERSION = ''3-dev'',
      BUILD_PROFILE = ''debug'', PYTHON = [''python3''], NS3_BASEDIR = ''/ns3'',
      NS3_BUILDDIR = ''/ns3/build'', getcwd = ''/ns3''\<rparr>"

theorem run_job_correct_witness:
  "\<exists>out err. run_job_synchronously sample_config
       (\<lambda>c d. \<lparr>pr_returncode = 0, pr_stdout = [200], pr_stderr = [79, 75], pr_time = 2\<rparr>)
       ''a.out'' ''/tmp'' False False [] =
     Return (if is_str out \<and> is_str err then 0 else 1, out, err, 2) \<and> \<not> is_str out \<and> is_str err"
proof -
  let ?sh = "\<lambda>c d. \<lparr>pr_returncode = 0, pr_stdout = [200], pr_stderr = [79, 75], pr_time = 2\<rparr>"
  have c: "job_command sample_config ''a.out'' False False [] = Return ''/ns3/build/a.out''"
    by (simp add: job_command_def sample_config_def path_join_def suffix_def)
  from run_job_correct [of sample_config "''a.out''" False False "[]" ?sh "''/tmp''"] c obtain out err where
    "run_job_synchronously sample_config ?sh ''a.out'' ''/tmp'' False False [] =
       Return (if is_str out \<and> is_str err then 0 else 1, out, err, 2)"
    "\<not> is_str out" "is_str err"
    by (elim conjE allE [of _ "''/ns3/build/a.out''"]) (auto simp: utf8_decode_ascii)
  then show ?thesis by blast
qed

section \<open>Which suites run\<close>

lemma mset_remove_tests: "mset (remove_tests ts xs) = mset xs - mset ts"
  by (induction ts xs rule: remove_tests.induct) (auto simp: mset_remove1)

lemma set_remove_tests: "set (remove_tests ts xs) \<subseteq> set xs"
  using mset_remove_tests [of ts xs] by (metis diff_subset_eq_self set_mset_mono set_mset_mset)

lemma subseq_remove_tests: "subseq (remove_tests ts xs) xs"
proof (induction ts xs rule: remove_tests.induct)
  case (2 t ts xs)
  have "subseq (remove1 t xs) xs" by (induction xs) auto
  with 2 show ?case by (auto intro: subseq_order.order_trans)
qed simp

lemma split_on_notin: "w \<in> set (split_on c s) \<Longrightarrow> c \<notin> set w"
  by (induction s arbitrary: w) (auto split: if_splits list.splits)

lemma split_on_no_sep: "c \<notin> set s \<Longrightarrow> split_on c s = [s]"
  by (induction s) auto

lemma split_on_trailing: "c \<notin> set s \<Longrightarrow> split_on c (s @ [c]) = [s, []]"
  by (induction s) auto

lemma map_display_suite_jobs:
  "map display_name (suite_jobs p ts) = filter (\<lambda>t. t \<noteq> []) (map str_strip ts)"
  by (induction p ts rule: suite_jobs.induct) (auto simp: Let_def suite_job_def skip_job_def)

lemma suite_list_cases:
  assumes "listing (runner_cmd cfg '' --print-test-name-list'') = Some all"
    and "listing (runner_cmd cfg ('' --print-test-name-list --test-type='' @ constrain opts)) = Some kind"
    and "listing (runner_cmd cfg '' --print-test-name-list --test-type=performance'') = Some perf"
  shows "suite opts \<noteq> [] \<Longrightarrow>
      suite_list opts cfg listing =
        (if suite opts \<in> set (split_on newline all) then Return [suite opts, []] else Raise (SystemExit 2))"
    and "suite opts = [] \<Longrightarrow> example opts = [] \<Longrightarrow> pyexample opts = [] \<Longrightarrow>
      \<exists>ts. suite_list opts cfg listing = Return ts \<and>
        (let xs = split_on newline (if constrain opts = [] then all else kind)
         in subseq ts xs \<and>
            mset ts = mset xs - (if constrain opts = ''performance'' then {#} else mset (split_on newline perf)))"
    and "suite opts = [] \<Longrightarrow> example opts \<noteq> [] \<or> pyexample opts \<noteq> [] \<Longrightarrow>
      \<exists>ts. suite_list opts cfg listing = Return ts \<and> suite_jobs p ts = []"
proof -
  show "suite_list opts cfg listing =
      (if suite opts \<in> set (split_on newline all) then Return [suite opts, []] else Raise (SystemExit 2))"
    if "suite opts \<noteq> []"
    using that assms(1) split_on_notin [of "suite opts" newline all]
    by (auto simp: suite_list_def select_suites_def list_suites_def split_on_trailing)
  show "\<exists>ts. suite_list opts cfg listing = Return ts \<and>
      (let xs = split_on newline (if constrain opts = [] then all else kind)
       in subseq ts xs \<and>
          mset ts = mset xs - (if constrain opts = ''performance'' then {#} else mset (split_on newline perf)))"
    if "suite opts = []" "example opts = []" "pyexample opts = []"
    using that assms
    by (auto simp: suite_list_def select_suites_def list_suites_def subseq_remove_tests mset_remove_tests
        Let_def)
  have e: "ts = [] \<or> ts = [[]] \<Longrightarrow> suite_jobs p ts = []" for ts
    by (auto simp: str_strip_def)
  show "\<exists>ts. suite_list opts cfg listing = Return ts \<and> suite_jobs p ts = []"
    if "suite opts = []" "example opts \<noteq> [] \<or> pyexample opts \<noteq> []"
  proof -
    have "set (remove_tests (split_on newline perf) [[]]) \<subseteq> {[]}"
      using set_remove_tests [of "split_on newline perf" "[[]]"] by simp
    moreover have "size (mset (remove_tests (split_on newline perf) [[]])) \<le> size (mset [[] :: string])"
      unfolding mset_remove_tests by (rule size_mset_mono) simp
    ultimately have "remove_tests (split_on newline perf) [[]] = [] \<or>
        remove_tests (split_on newline perf) [[]] = [[]]"
      by (cases "remove_tests (split_on newline perf) [[]]") auto
    with e have "suite_jobs p (remove_tests (split_on newline perf) [[]]) = []" by blast
    with that assms(3) e [of "[[]]"] show ?thesis
      by (auto simp: suite_list_def select_suites_def list_suites_def)
  qed
qed

text \<open>\<open>--suite\<close> queues exactly the requested suite when the test runner lists it, a
  performance test included, and exits with status 2 otherwise; without a suite or an example the
  queued suites are those of the (constrained) listing in its order, less the performance tests
  unless the constraint asks for them; with only an example no suite is queued.\<close>

theorem suite_list_correct:
  assumes "listing (runner_cmd cfg '' --print-test-name-list'') = Some all"
    and "listing (runner_cmd cfg ('' --print-test-name-list --test-type='' @ constrain opts)) = Some kind"
    and "listing (runner_cmd cfg '' --print-test-name-list --test-type=performance'') = Some perf"
  shows "if suite opts \<noteq> []
     then suite_list opts cfg listing =
        (if suite opts \<in> set (split_on newline all) then Return [suite opts, []] else Raise (SystemExit 2))
     else if example opts = [] \<and> pyexample opts = []
     then \<exists>ts. suite_list opts cfg listing = Return ts \<and>
        (let xs = split_on newline (if constrain opts = [] then all else kind)
         in subseq ts xs \<and>
            mset ts = mset xs - (if constrain opts = ''performance'' then {#} else mset (split_on newline perf)))
     else \<exists>ts. suite_list opts cfg listing = Return ts \<and> suite_jobs p ts = []"
  using suite_list_cases [OF assms] by (cases "suite opts = []") simp_all

definition sample_plan :: plan where
  "sample_plan =
     \<lparr>p_options = default_options, p_config = sample_config,
      p_evals = \<lparr>eval_cpp = (\<lambda>s. Return []), eval_python = (\<lambda>s. Return []),
        eval_cond = (\<lambda>s. Return (s = ''True''))\<rparr>,
      p_suites = [''nsc-tcp-loss'', ''wifi '', []],
      p_examples = \<lparr>example_tests = [(''udp/echo'', ''/b/ns3-dev-echo-debug --n=1'', ''True'', ''False'')],
        example_names_original = [''echo --n=1''], python_tests = [(''examples/a.py'', ''True'')]\<rparr>,
      p_programs = [''build/ns3-dev-echo-debug''], p_scripts = [''a.py''], p_output_dir = ''out''\<rparr>"

theorem suite_list_correct_witness:
  "suite_list (default_options\<lparr>suite := ''x''\<rparr>) sample_config (\<lambda>cmd. Some ''x'') = Return [''x'', []] \<and>
   (\<exists>ts. suite_list default_options sample_config (\<lambda>cmd. Some ''x'') = Return ts \<and> mset ts = {#}) \<and>
   (\<exists>ts. suite_list (default_options\<lparr>example := ''x''\<rparr>) sample_config (\<lambda>cmd. Some ''x'') = Return ts \<and>
     suite_jobs sample_plan ts = [])"
  using suite_list_correct [of "\<lambda>cmd. Some ''x''" sample_config "''x''" "default_options\<lparr>suite := ''x''\<rparr>" "''x''" "''x''"]
    suite_list_correct [of "\<lambda>cmd. Some ''x''" sample_config "''x''" default_options "''x''" "''x''"]
    suite_list_correct [of "\<lambda>cmd. Some ''x''" sample_config "''x''" "default_options\<lparr>example := ''x''\<rparr>" "''x''" "''x''" sample_plan]
  by (auto simp: default_options_def)

section \<open>Which jobs are queued\<close>

lemma suite_job_fields:
  "is_break (suite_job p t) = False" "is_example (suite_job p t) = False"
  "is_pyexample (suite_job p t) = False" "display_name (suite_job p t) = t"
  "is_skip (suite_job p t) \<longleftrightarrow>
     valgrind (p_options p) \<and> t \<in> set core_valgrind_skip_tests \<or>
     \<not> NSC_ENABLED (p_config p) \<and> t \<in> set core_nsc_missing_skip_tests"
  "skip_reason (suite_job p t) =
     (if \<not> NSC_ENABLED (p_config p) \<and> t \<in> set core_nsc_missing_skip_tests then ''requires NSC''
      else if valgrind (p_options p) \<and> t \<in> set core_valgrind_skip_tests then ''crashes valgrind'' else [])"
  by (simp_all add: suite_job_def Let_def skip_job_def new_job_def)

definition queued_suite :: "plan \<Rightarrow> string \<Rightarrow> job \<Rightarrow> bool" where
  "queued_suite p t j \<longleftrightarrow>
     \<not> is_example j \<and> \<not> is_pyexample j \<and> \<not> is_break j \<and> display_name j = t \<and>
     (is_skip j \<longleftrightarrow>
       valgrind (p_options p) \<and> t \<in> set core_valgrind_skip_tests \<or>
       \<not> NSC_ENABLED (p_config p) \<and> t \<in> set core_nsc_missing_skip_tests) \<and>
     (is_skip j \<longrightarrow>
       skip_reason j =
         (if \<not> NSC_ENABLED (p_config p) \<and> t \<in> set core_nsc_missing_skip_tests then ''requires NSC''
          else ''crashes valgrind''))"

lemma queued_suite_job: "queued_suite p t (suite_job p t)"
  unfolding queued_suite_def suite_job_fields by (simp only: simp_thms) argo

lemma suite_jobs_queued:
  "list_all2 (queued_suite p) (filter (\<lambda>t. t \<noteq> []) (map str_strip ts)) (suite_jobs p ts)"
  by (induction p ts rule: suite_jobs.induct) (simp_all add: Let_def queued_suite_job)

text \<open>What the plan says of an example: its program was built and its condition holds.\<close>

definition example_wanted :: "plan \<Rightarrow> string \<times> string \<times> string \<times> string \<Rightarrow> bool" where
  "example_wanted p = (\<lambda>(name, test, do_run, do_valgrind_run).
     map_of (programs_dictionary (p_programs p)) (test_program test) \<noteq> None \<and>
     eval_cond (p_evals p) do_run = Return True)"

definition pyexample_wanted :: "plan \<Rightarrow> string \<times> string \<Rightarrow> bool" where
  "pyexample_wanted p = (\<lambda>(test, do_run).
     test_program test \<in> set (p_scripts p) \<and> eval_cond (p_evals p) do_run = Return True)"

definition example_skipped :: "plan \<Rightarrow> string \<times> string \<times> string \<times> string \<Rightarrow> bool" where
  "example_skipped p = (\<lambda>(name, test, do_run, do_valgrind_run).
     valgrind (p_options p) \<and> eval_cond (p_evals p) do_valgrind_run = Return False)"

text \<open>The job of an example, and of a Python example.\<close>

definition queued_example :: "plan \<Rightarrow> string \<times> string \<times> string \<times> string \<Rightarrow> job \<Rightarrow> bool" where
  "queued_example p e j \<longleftrightarrow>
     is_example j \<and> \<not> is_pyexample j \<and> \<not> is_break j \<and> display_name j = fst e \<and>
     shell_command j = fst (snd e) \<and> (is_skip j \<longleftrightarrow> example_skipped p e)"

definition queued_pyexample :: "plan \<Rightarrow> string \<times> string \<Rightarrow> job \<Rightarrow> bool" where
  "queued_pyexample p e j \<longleftrightarrow>
     is_pyexample j \<and> \<not> is_example j \<and> \<not> is_break j \<and> display_name j = fst e \<and>
     shell_command j = fst e \<and>
     (is_skip j \<longleftrightarrow> valgrind (p_options p) \<or> \<not> ENABLE_PYTHON_BINDINGS (p_config p))"

lemma skip_job_fields [simp]:
  "is_skip (skip_job r j)" "is_break (skip_job r j) = is_break j"
  "is_example (skip_job r j) = is_example j" "is_pyexample (skip_job r j) = is_pyexample j"
  "display_name (skip_job r j) = display_name j" "shell_command (skip_job r j) = shell_command j"
  by (simp_all add: skip_job_def)

lemma example_base_fields [simp]:
  "is_skip (example_base p) = False" "is_break (example_base p) = False"
  "is_example (example_base p) = False" "is_pyexample (example_base p) = False"
  by (simp_all add: example_base_def new_job_def)

lemma example_job_Return:
  assumes "example_job p e = Return js"
  shows "if example_wanted p e then \<exists>j. js = [j] \<and> queued_example p e j else js = []"
proof -
  obtain name test run grind where e: "e = (name, test, run, grind)" by (cases e)
  show ?thesis
  proof (cases "map_of (programs_dictionary (p_programs p)) (test_program test)")
    case None
    with assms e show ?thesis by (simp add: example_job_def example_wanted_def)
  next
    case (Some path)
    with assms e obtain b where b: "eval_cond (p_evals p) run = Return b"
      by (auto simp: example_job_def bind_res_eq_Return)
    show ?thesis
    proof (cases "b \<and> valgrind (p_options p)")
      case True
      with assms e Some b obtain v where "eval_cond (p_evals p) grind = Return v"
        by (auto simp: example_job_def bind_res_eq_Return Let_def)
      with True assms e Some b show ?thesis
        by (auto simp: example_job_def example_wanted_def queued_example_def example_skipped_def Let_def)
    next
      case False
      with assms e Some b show ?thesis
        by (auto simp: example_job_def example_wanted_def queued_example_def example_skipped_def Let_def)
    qed
  qed
qed

lemma pyexample_job_Return:
  assumes "pyexample_job p e = Return js"
  shows "if pyexample_wanted p e then \<exists>j. js = [j] \<and> queued_pyexample p e j else js = []"
proof -
  obtain test run where e: "e = (test, run)" by (cases e)
  show ?thesis
  proof (cases "test_program test \<in> set (p_scripts p)")
    case False
    with assms e show ?thesis by (simp add: pyexample_job_def pyexample_wanted_def)
  next
    case True
    with assms e obtain b where b: "eval_cond (p_evals p) run = Return b"
      by (auto simp: pyexample_job_def bind_res_eq_Return)
    with True assms e show ?thesis
      by (cases b) (auto simp: pyexample_job_def pyexample_wanted_def queued_pyexample_def Let_def)
  qed
qed

lemma map_res_concat:
  assumes "map_res f xs = Return yss"
    and "\<And>x ys. x \<in> set xs \<Longrightarrow> f x = Return ys \<Longrightarrow>
      (if W x then \<exists>y. ys = [y] \<and> P x y else ys = [])"
  shows "list_all2 P (filter W xs) (concat yss)"
  using assms
proof (induction xs arbitrary: yss)
  case (Cons x xs)
  then obtain ys zss where f: "f x = Return ys" and z: "map_res f xs = Return zss" and "yss = ys # zss"
    by (auto simp: bind_res_eq_Return)
  moreover have "list_all2 P (filter W xs) (concat zss)"
    by (rule Cons.IH [OF z]) (rule Cons.prems(2), auto)
  moreover have "if W x then \<exists>y. ys = [y] \<and> P x y else ys = []"
    using Cons.prems(2) [of x ys] f by simp
  ultimately show ?case by (cases "W x") auto
qed simp

definition runs_examples :: "plan \<Rightarrow> string \<Rightarrow> bool" where
  "runs_examples p kind \<longleftrightarrow>
     unconstrained (p_options p) \<and> constrain (p_options p) \<in> {[], kind} \<and> ENABLE_EXAMPLES (p_config p)"

lemma example_jobs_Return:
  assumes "example_jobs p = Return js" and "runs_examples p ''example''"
  shows "list_all2 (queued_example p)
         (filter (example_wanted p) (example_tests (p_examples p))) js"
proof -
  from assms obtain jss where "map_res (example_job p) (example_tests (p_examples p)) = Return jss"
    and "js = concat jss"
    by (auto simp: example_jobs_def runs_examples_def Let_def bind_res_eq_Return)
  then show ?thesis
    using map_res_concat [of "example_job p" _ jss "example_wanted p", OF _ example_job_Return] by blast
qed

lemma pyexample_jobs_Return:
  assumes "pyexample_jobs p = Return js" and "runs_examples p ''pyexample''"
  shows "list_all2 (queued_pyexample p)
         (filter (pyexample_wanted p) (python_tests (p_examples p))) js"
proof -
  from assms obtain jss where "map_res (pyexample_job p) (python_tests (p_examples p)) = Return jss"
    and "js = concat jss"
    by (auto simp: pyexample_jobs_def runs_examples_def Let_def bind_res_eq_Return)
  then show ?thesis
    using map_res_concat [of "pyexample_job p" _ jss "pyexample_wanted p", OF _ pyexample_job_Return] by blast
qed

lemma example_jobs_others:
  assumes "example_jobs p = Return js" and "\<not> runs_examples p ''example''"
  shows "js = (if example (p_options p) \<noteq> [] then single_example_job p else [])"
  using assms by (auto simp: example_jobs_def runs_examples_def Let_def unconstrained_def split: if_splits)

lemma pyexample_jobs_others:
  assumes "pyexample_jobs p = Return js" and "\<not> runs_examples p ''pyexample''"
  shows "js = (if pyexample (p_options p) \<noteq> [] then single_pyexample_job p else [])"
  using assms by (auto simp: pyexample_jobs_def runs_examples_def Let_def unconstrained_def split: if_splits)

lemma single_jobs_no_break:
  "j \<in> set (single_example_job p) \<Longrightarrow> \<not> is_break j"
  "j \<in> set (single_pyexample_job p) \<Longrightarrow> \<not> is_break j"
  by (auto simp: single_example_job_def single_pyexample_job_def Let_def example_base_def new_job_def
      split: option.splits if_splits)

lemma list_all2_set2: "list_all2 P xs ys \<Longrightarrow> y \<in> set ys \<Longrightarrow> \<exists>x \<in> set xs. P x y"
  by (auto simp: list_all2_conv_all_nth in_set_conv_nth) (metis nth_mem)

lemma dispatch_no_break:
  assumes "dispatch_jobs p = Return js" and "j \<in> set js"
  shows "\<not> is_break j"
proof -
  from assms(1) obtain ex py where e: "example_jobs p = Return ex" and y: "pyexample_jobs p = Return py"
    and js: "js = suite_jobs p (p_suites p) @ ex @ py"
    by (auto simp: dispatch_jobs_def bind_res_eq_Return)
  have "\<not> is_break j" if "j \<in> set ex"
  proof (cases "runs_examples p ''example''")
    case True
    from list_all2_set2 [OF example_jobs_Return [OF e True] that] show ?thesis
      by (auto simp: queued_example_def)
  next
    case False
    from that example_jobs_others [OF e False] single_jobs_no_break(1) show ?thesis
      by (auto split: if_splits)
  qed
  moreover have "\<not> is_break j" if "j \<in> set py"
  proof (cases "runs_examples p ''pyexample''")
    case True
    from list_all2_set2 [OF pyexample_jobs_Return [OF y True] that] show ?thesis
      by (auto simp: queued_pyexample_def)
  next
    case False
    from that pyexample_jobs_others [OF y False] single_jobs_no_break(2) show ?thesis
      by (auto split: if_splits)
  qed
  moreover have "\<not> is_break j" if "j \<in> set (suite_jobs p (p_suites p))"
    using list_all2_set2 [OF suite_jobs_queued that] by (auto simp: queued_suite_def)
  ultimately show ?thesis using assms(2) js by auto
qed

text \<open>C14: A plain run queues, in this order, every named test suite, every example whose
  program was built and whose condition holds, and every Python example that was built and whose
  condition holds, and nothing else. A suite is marked as skipped exactly when it crashes valgrind
  and valgrind is on or needs the missing NSC, the second reason prevailing; an example when its
  valgrind condition fails under valgrind; a Python example under valgrind or without bindings.
  No queued job is a break.\<close>

theorem dispatch_correct:
  assumes "dispatch_jobs p = Return js"
  shows "\<exists>su ex py. js = su @ ex @ py \<and>
      list_all2 (queued_suite p) (filter (\<lambda>t. t \<noteq> []) (map str_strip (p_suites p))) su \<and>
      (if runs_examples p ''example''
       then list_all2 (queued_example p)
            (filter (example_wanted p) (example_tests (p_examples p))) ex
       else ex = (if example (p_options p) \<noteq> [] then single_example_job p else [])) \<and>
      (if runs_examples p ''pyexample''
       then list_all2 (queued_pyexample p)
            (filter (pyexample_wanted p) (python_tests (p_examples p))) py
       else py = (if pyexample (p_options p) \<noteq> [] then single_pyexample_job p else [])) \<and>
      (\<forall>j \<in> set js. \<not> is_break j)"
proof -
  from assms obtain ex py where e: "example_jobs p = Return ex" and y: "pyexample_jobs p = Return py"
    and js: "js = suite_jobs p (p_suites p) @ ex @ py"
    by (auto simp: dispatch_jobs_def bind_res_eq_Return)
  show ?thesis
  proof (rule exI [of _ "suite_jobs p (p_suites p)"], rule exI [of _ ex], rule exI [of _ py], intro conjI)
    show "\<forall>j \<in> set js. \<not> is_break j" using dispatch_no_break [OF assms] by blast
    show "if runs_examples p ''example''
       then list_all2 (queued_example p)
            (filter (example_wanted p) (example_tests (p_examples p))) ex
       else ex = (if example (p_options p) \<noteq> [] then single_example_job p else [])"
      using example_jobs_Return [OF e] example_jobs_others [OF e] by simp
    show "if runs_examples p ''pyexample''
       then list_all2 (queued_pyexample p)
            (filter (pyexample_wanted p) (python_tests (p_examples p))) py
       else py = (if pyexample (p_options p) \<noteq> [] then single_pyexample_job p else [])"
      using pyexample_jobs_Return [OF y] pyexample_jobs_others [OF y] by simp
  qed (use js suite_jobs_queued in blast)+
qed

theorem dispatch_correct_witness:
  "\<exists>js. dispatch_jobs sample_plan = Return js \<and> map display_name js = [''nsc-tcp-loss'', ''wifi'', ''udp/echo'', ''examples/a.py''] \<and>
     (\<forall>j \<in> set js. \<not> is_break j)"
proof -
  define js where "js = projr (dispatch_jobs sample_plan)"
  have r: "isl (dispatch_jobs sample_plan) = False" by code_simp
  have "map display_name (projr (dispatch_jobs sample_plan)) =
      [''nsc-tcp-loss'', ''wifi'', ''udp/echo'', ''examples/a.py'']"
    by code_simp
  moreover from r have d: "dispatch_jobs sample_plan = Return js"
    by (cases "dispatch_jobs sample_plan") (auto simp: js_def)
  moreover have "\<forall>j \<in> set js. \<not> is_break j" using dispatch_correct [OF d] by blast
  ultimately show ?thesis unfolding js_def
    by (intro exI [of _ "projr (dispatch_jobs sample_plan)"] conjI)
qed

section \<open>Library paths\<close>

text \<open>
  \<open>make_paths\<close> on the environment of the process, which is a dictionary. \<open>have_PYTHONPATH\<close> is
  computed before \<open>PYTHONPATH\<close> is assigned.
\<close>

type_synonym environment = "(string \<times> string) list"

definition environ_add :: "string \<Rightarrow> string \<Rightarrow> environment \<Rightarrow> environment" where
  "environ_add k s en = AList.update k ((case map_of en k of Some v \<Rightarrow> v | None \<Rightarrow> []) @ s) en"

definition python_path :: "config \<Rightarrow> string" where
  "python_path cfg = path_join (path_join (NS3_BUILDDIR cfg) ''bindings'') ''python''"

definition library_variable :: "string \<Rightarrow> string \<times> string" where
  "library_variable platform =
     (if platform = ''darwin'' then (''DYLD_LIBRARY_PATH'', '':'')
      else if platform = ''win32'' then (''PATH'', '';'')
      else if platform = ''cygwin'' then (''PATH'', '':'')
      else (''LD_LIBRARY_PATH'', '':''))"

definition make_paths :: "config \<Rightarrow> string \<Rightarrow> string list \<Rightarrow> environment \<Rightarrow> environment" where
  "make_paths cfg platform module_path en =
     (let pypath = python_path cfg;
          en1 = AList.update ''PYTHONPATH'' pypath en;
          en2 = (if map_of en ''PYTHONPATH'' = None then AList.update ''PYTHONPATH'' pypath en1
                 else environ_add ''PYTHONPATH'' ('':'' @ pypath) en1);
          (var, sep) = library_variable platform;
          en3 = (if map_of en var = None then AList.update var [] en2 else en2)
      in fold (\<lambda>path. environ_add var (sep @ path)) module_path en3)"

lemma lookup_environ_add:
  "map_of (environ_add k s en) =
     (map_of en)(k \<mapsto> (case map_of en k of Some v \<Rightarrow> v | None \<Rightarrow> []) @ s)"
  by (simp add: environ_add_def alist.lookup_store)

lemma fold_environ_add:
  "map_of en var = Some v \<Longrightarrow>
   map_of (fold (\<lambda>path. environ_add var (sep @ path)) ps en) =
     (map_of en)(var \<mapsto> v @ concat (map (\<lambda>path. sep @ path) ps))"
  by (induction ps arbitrary: en v) (auto simp: lookup_environ_add map_upd_triv)

lemma library_variable_not_python: "fst (library_variable platform) \<noteq> ''PYTHONPATH''"
  by (simp add: library_variable_def)

text \<open>The function \<open>make_paths\<close> appends every module path with its separator to the library path variable
  of the platform, which starts empty when it is not set, and leaves the other variables alone;
  \<open>PYTHONPATH\<close>, however, loses what the user has set: it becomes the path of the bindings, twice
  when it was set.\<close>

theorem make_paths_correct:
  "let (var, sep) = library_variable platform in
   map_of (make_paths cfg platform module_path en) =
     (map_of en)
       (''PYTHONPATH'' \<mapsto>
          (if map_of en ''PYTHONPATH'' = None then python_path cfg
           else python_path cfg @ '':'' @ python_path cfg),
        var \<mapsto> (case map_of en var of Some v \<Rightarrow> v | None \<Rightarrow> []) @ concat (map (\<lambda>path. sep @ path) module_path))"
proof -
  obtain var sep where v: "library_variable platform = (var, sep)" by (cases "library_variable platform")
  with library_variable_not_python [of platform] have n: "var \<noteq> ''PYTHONPATH''" by simp
  define en1 where "en1 = AList.update ''PYTHONPATH'' (python_path cfg) en"
  define en2 where "en2 = (if map_of en ''PYTHONPATH'' = None then AList.update ''PYTHONPATH'' (python_path cfg) en1
      else environ_add ''PYTHONPATH'' ('':'' @ python_path cfg) en1)"
  define en3 where "en3 = (if map_of en var = None then AList.update var [] en2 else en2)"
  define py where "py = (if map_of en ''PYTHONPATH'' = None then python_path cfg
      else python_path cfg @ '':'' @ python_path cfg)"
  have "map_of en2 = (map_of en)(''PYTHONPATH'' \<mapsto> py)"
    by (simp add: en2_def en1_def py_def alist.lookup_store lookup_environ_add)
  then have "map_of en3 = (map_of en)(''PYTHONPATH'' \<mapsto> py, var \<mapsto> (case map_of en var of Some v \<Rightarrow> v | None \<Rightarrow> []))"
    using n by (auto simp: en3_def alist.lookup_store)
  then have m3: "map_of en3 = (map_of en)(''PYTHONPATH'' \<mapsto> py, var \<mapsto> (case map_of en var of Some v \<Rightarrow> v | None \<Rightarrow> []))" .
  then have "map_of en3 var = Some (case map_of en var of Some v \<Rightarrow> v | None \<Rightarrow> [])" by simp
  note f = fold_environ_add [OF this, of sep module_path]
  have mk: "make_paths cfg platform module_path en = fold (\<lambda>path. environ_add var (sep @ path)) module_path en3"
    unfolding make_paths_def v Let_def prod.case en1_def en2_def en3_def ..
  from m3 have "map_of (make_paths cfg platform module_path en) = (map_of en)(''PYTHONPATH'' \<mapsto> py,
      var \<mapsto> (case map_of en var of Some v \<Rightarrow> v | None \<Rightarrow> []) @ concat (map (\<lambda>path. sep @ path) module_path))"
    unfolding mk f by simp
  then show ?thesis by (simp add: v py_def)
qed

end
