(* ===== verification/Test_Workers.thy ===== *)
theory Test_Workers
  imports Test_Jobs
begin

text \<open>
  The worker threads of \<open>test.py\<close> and its main thread, which dispatches the jobs, collects the
  results and joins the threads. The threads interleave: an action is one step of the main thread,
  one step of a worker or the arrival of Control-C, a step is one operation on a shared queue or
  on the flag \<open>thread_exit\<close>, and an execution is any sequence of actions that are enabled.
\<close>

section \<open>Queues\<close>

text \<open>
  What the threads rely on when they share a queue: it hands out what was put, in the order of the
  puts, and only an empty queue makes \<open>get\<close> wait.
\<close>

locale fifo_queue =
  fixes wf :: "'q \<Rightarrow> bool"
    and items :: "'q \<Rightarrow> 'a list"
    and put :: "'a \<Rightarrow> 'q \<Rightarrow> 'q option"
    and get :: "'q \<Rightarrow> ('a \<times> 'q) option"
  assumes put_enabled: "wf q \<Longrightarrow> put x q \<noteq> None"
    and put_items: "wf q \<Longrightarrow> put x q = Some q' \<Longrightarrow> wf q' \<and> items q' = items q @ [x]"
    and get_waits: "wf q \<Longrightarrow> get q = None \<longleftrightarrow> items q = []"
    and get_items: "wf q \<Longrightarrow> get q = Some (x, q') \<Longrightarrow> wf q' \<and> items q = x # items q'"
begin

lemma put_get_order:
  assumes "wf q" and "put x q = Some q'" and "get q' = Some (y, r)"
  shows "y # items r = items q @ [x]"
  using put_items [OF assms(1,2)] get_items [of q' y r] assms(3) by auto

text \<open>What one side still has to put and what the queue holds: the order the other side sees.\<close>

lemma put_future: "wf q \<Longrightarrow> put x q = Some q' \<Longrightarrow> items q' @ later = items q @ x # later"
  using put_items by fastforce

lemma get_future:
  "wf q \<Longrightarrow> get q = Some (x, q') \<Longrightarrow> items q @ later = drop m all \<Longrightarrow>
   m < length all \<and> x = all ! m \<and> items q' @ later = drop (Suc m) all"
proof -
  assume "wf q" and "get q = Some (x, q')" and f: "items q @ later = drop m all"
  then have "items q = x # items q'" using get_items by blast
  with f have d: "x # (items q' @ later) = drop m all" by simp
  then have m: "m < length all" by (cases "m < length all") auto
  have "x # (items q' @ later) = all ! m # drop (Suc m) all"
    using d Cons_nth_drop_Suc [OF m] by (simp only:)
  with m show ?thesis by simp
qed

end

text \<open>\<open>queue.Queue(maxsize)\<close>: \<open>put\<close> waits on a full queue, and a size of 0 is no limit.\<close>

record py_queue =
  maxsize :: int
  contents :: "job list"

definition Queue :: "int \<Rightarrow> py_queue" where
  "Queue n = \<lparr>maxsize = n, contents = []\<rparr>"

definition queue_put :: "job \<Rightarrow> py_queue \<Rightarrow> py_queue option" where
  "queue_put j q =
     (if 0 < maxsize q \<and> maxsize q \<le> int (length (contents q)) then None
      else Some (q\<lparr>contents := contents q @ [j]\<rparr>))"

definition queue_get :: "py_queue \<Rightarrow> (job \<times> py_queue) option" where
  "queue_get q = (case contents q of [] \<Rightarrow> None | j # js \<Rightarrow> Some (j, q\<lparr>contents := js\<rparr>))"

definition unbounded :: "py_queue \<Rightarrow> bool" where
  "unbounded q \<longleftrightarrow> maxsize q \<le> 0"

interpretation job_queue: fifo_queue unbounded contents queue_put queue_get
  by unfold_locales (auto simp: unbounded_def queue_put_def queue_get_def split: list.splits if_splits)

section \<open>Collecting results\<close>

datatype status = PASS | FAIL | VALGR | SKIP | CRASH

fun status_text :: "status \<Rightarrow> string" where
  "status_text PASS = ''PASS''"
| "status_text FAIL = ''FAIL''"
| "status_text VALGR = ''VALGR''"
| "status_text SKIP = ''SKIP''"
| "status_text CRASH = ''CRASH''"

record summary =
  passed_tests :: nat
  failed_testnames :: "string list"
  crashed_testnames :: "string list"
  valgrind_testnames :: "string list"
  skipped_testnames :: "string list"
  failed_tests :: nat
  crashed_tests :: nat
  valgrind_errors :: nat
  skipped_tests :: nat
  printed :: "string list"
  xml_results :: string

definition xml_head :: string where
  "xml_head = ''<?xml version=\"1.0\"?>'' @ [newline] @ ''<Results>'' @ [newline]"

definition new_summary :: summary where
  "new_summary =
     \<lparr>passed_tests = 0, failed_testnames = [], crashed_testnames = [], valgrind_testnames = [],
      skipped_testnames = [], failed_tests = 0, crashed_tests = 0, valgrind_errors = 0,
      skipped_tests = 0, printed = [], xml_results = xml_head\<rparr>"

definition job_status :: "job \<Rightarrow> status" where
  "job_status j =
     (if is_skip j then SKIP
      else if returncode j = 0 then PASS
      else if returncode j = 1 then FAIL
      else if returncode j = 2 then VALGR else CRASH)"

definition count_job :: "job \<Rightarrow> summary \<Rightarrow> summary" where
  "count_job j s =
     (case job_status j of
        SKIP \<Rightarrow> s\<lparr>skipped_tests := skipped_tests s + 1,
                  skipped_testnames := skipped_testnames s @ [display_name j @ '' ('' @ skip_reason j @ '')'']\<rparr>
      | PASS \<Rightarrow> s\<lparr>passed_tests := passed_tests s + 1\<rparr>
      | FAIL \<Rightarrow> s\<lparr>failed_tests := failed_tests s + 1, failed_testnames := failed_testnames s @ [display_name j]\<rparr>
      | VALGR \<Rightarrow> s\<lparr>valgrind_errors := valgrind_errors s + 1,
                  valgrind_testnames := valgrind_testnames s @ [display_name j]\<rparr>
      | CRASH \<Rightarrow> s\<lparr>crashed_tests := crashed_tests s + 1,
                  crashed_testnames := crashed_testnames s @ [display_name j]\<rparr>)"

text \<open>\<open>"%.3f" % x\<close>: the exact value rounded to thousandths, ties to even.\<close>

definition round_half_even :: "rat \<Rightarrow> int" where
  "round_half_even x =
     (let f = \<lfloor>x\<rfloor>; d = x - of_int f
      in if d < 1 / 2 \<or> (d = 1 / 2 \<and> even f) then f else f + 1)"

definition format_time :: "rat \<Rightarrow> string" where
  "format_time x =
     (let k = nat (round_half_even (1000 * \<bar>x\<bar>)); r = k mod 1000
      in (if x < 0 then ''-'' else []) @ str_of_nat (k div 1000) @ ''.'' @
         [digit_char (r div 100), digit_char (r div 10 mod 10), digit_char (r mod 10)])"

definition job_kind :: "job \<Rightarrow> string" where
  "job_kind j = (if is_example j \<or> is_pyexample j then ''Example'' else ''TestSuite'')"

definition status_line :: "options \<Rightarrow> job \<Rightarrow> string" where
  "status_line opts j =
     (if duration opts \<or> constrain opts = ''performance''
      then status_text (job_status j) @ '' ('' @ format_time (elapsed_time j) @ ''): '' @ job_kind j @ '' '' @
           display_name j
      else status_text (job_status j) @ '': '' @ job_kind j @ '' '' @ display_name j)"

abbreviation text_line :: "string \<Rightarrow> string" where
  "text_line s \<equiv> s @ [newline]"

definition example_xml :: "job \<Rightarrow> string" where
  "example_xml j =
     text_line ''<Example>'' @
     text_line (''  <Name>'' @ display_name j @ ''</Name>'') @
     text_line (''  <Result>'' @ status_text (job_status j) @ ''</Result>'') @
     text_line (''  <Time real=\"'' @ format_time (elapsed_time j) @ ''\"/>'') @
     text_line ''</Example>''"

definition skip_xml :: "job \<Rightarrow> string" where
  "skip_xml j =
     text_line ''<Test>'' @
     text_line (''  <Name>'' @ display_name j @ ''</Name>'') @
     text_line ''  <Result>SKIP</Result>'' @
     text_line (''  <Reason>'' @ skip_reason j @ ''</Reason>'') @
     text_line ''</Test>''"

definition crash_xml :: "job \<Rightarrow> string" where
  "crash_xml j =
     text_line ''<Test>'' @
     text_line (''  <Name>'' @ display_name j @ ''</Name>'') @
     text_line ''  <Result>CRASH</Result>'' @
     text_line ''</Test>''"

text \<open>
  What is appended to the results file: for a suite that left its own file, the contents of that
  file, which \<open>open\<close> does not find when \<open>tmp\<close> has no such name.
\<close>

definition job_xml :: "(string \<Rightarrow> string option) \<Rightarrow> job \<Rightarrow> string res" where
  "job_xml tmp j =
     (if is_example j \<or> is_pyexample j then Return (example_xml j)
      else if is_skip j then Return (skip_xml j)
      else if returncode j = 0 \<or> returncode j = 1 \<or> returncode j = 2
      then (case tmp (tmp_file_name j) of
              Some t \<Rightarrow> Return t | None \<Rightarrow> Raise (OSError ''No such file or directory''))
      else Return (crash_xml j))"

definition collect_job :: "options \<Rightarrow> (string \<Rightarrow> string option) \<Rightarrow> job \<Rightarrow> summary \<Rightarrow> summary res" where
  "collect_job opts tmp j s =
     (if is_break j then Return s
      else
        (let s1 = count_job j s; s2 = s1\<lparr>printed := printed s1 @ [status_line opts j]\<rparr>
         in bind_res (job_xml tmp j) (\<lambda>x. Return (s2\<lparr>xml_results := xml_results s2 @ x\<rparr>))))"

definition finish_xml :: "summary \<Rightarrow> summary" where
  "finish_xml s = s\<lparr>xml_results := xml_results s @ text_line ''</Results>''\<rparr>"

definition exit_status :: "nat \<Rightarrow> summary \<Rightarrow> int" where
  "exit_status total_tests s = (if passed_tests s + skipped_tests s = total_tests then 0 else 1)"

section \<open>The threads\<close>

text \<open>
  A worker waits for a job, looks at the one it got, runs it, or hands it back. \<open>Died\<close> is a worker
  whose job raised.
\<close>

datatype worker = Waiting | Holding job | Running job | Delivering job | Stopped | Died

record env =
  e_options :: options
  e_config :: config
  e_shell :: shell
  e_files :: "string \<Rightarrow> string option"

text \<open>
  The main thread's own state is what it still has to do: the puts left of its dispatch loops, the
  iterations left of its collection loop, and the number of joined threads.
\<close>

record pool =
  input_queue :: py_queue
  output_queue :: py_queue
  threads :: "worker list"
  thread_exit :: bool
  to_put :: "job list"
  to_get :: nat
  joined :: nat
  tally :: "summary res"

definition start_pool :: "job list \<Rightarrow> nat \<Rightarrow> pool" where
  "start_pool js processors =
     \<lparr>input_queue = Queue 0, output_queue = Queue 0, threads = replicate processors Waiting,
      thread_exit = False, to_put = js @ replicate processors break_job, to_get = length js,
      joined = 0, tally = Return new_summary\<rparr>"

definition set_worker :: "nat \<Rightarrow> worker \<Rightarrow> pool \<Rightarrow> pool" where
  "set_worker i w p = p\<lparr>threads := (threads p)[i := w]\<rparr>"

text \<open>One step of \<open>worker_thread.run\<close>.\<close>

definition worker_step :: "env \<Rightarrow> nat \<Rightarrow> pool \<Rightarrow> pool option" where
  "worker_step e i p =
     (if length (threads p) \<le> i then None
      else
        (case threads p ! i of
           Waiting \<Rightarrow>
             (case queue_get (input_queue p) of
                None \<Rightarrow> None
              | Some (j, q) \<Rightarrow> Some (set_worker i (Holding j) (p\<lparr>input_queue := q\<rparr>)))
         | Holding j \<Rightarrow>
             Some (if is_break j then set_worker i Stopped p
                   else if thread_exit p then set_worker i (Delivering (j\<lparr>is_break := True\<rparr>)) p
                   else if is_skip j then set_worker i (Delivering j) p
                   else set_worker i (Running j) p)
         | Running j \<Rightarrow>
             Some (case perform_job (e_options e) (e_config e) (e_shell e) j of
                     Inl _ \<Rightarrow> set_worker i Died p
                   | Inr j' \<Rightarrow> set_worker i (Delivering j') p)
         | Delivering j \<Rightarrow>
             (case queue_put j (output_queue p) of
                None \<Rightarrow> None
              | Some q \<Rightarrow> Some (set_worker i Waiting (p\<lparr>output_queue := q\<rparr>)))
         | Stopped \<Rightarrow> None
         | Died \<Rightarrow> None))"

text \<open>One step of the main thread, which has died when \<open>tally\<close> is an exception.\<close>

definition main_step :: "env \<Rightarrow> pool \<Rightarrow> pool option" where
  "main_step e p =
     (case tally p of
        Inl _ \<Rightarrow> None
      | Inr s \<Rightarrow>
          (case to_put p of
             j # js \<Rightarrow>
               (case queue_put j (input_queue p) of
                  None \<Rightarrow> None
                | Some q \<Rightarrow> Some (p\<lparr>input_queue := q, to_put := js\<rparr>))
           | [] \<Rightarrow>
               if 0 < to_get p
               then (case queue_get (output_queue p) of
                       None \<Rightarrow> None
                     | Some (j, q) \<Rightarrow>
                         Some (p\<lparr>output_queue := q, to_get := to_get p - 1,
                                 tally := collect_job (e_options e) (e_files e) j s\<rparr>))
               else if joined p < length (threads p)
               then (if threads p ! joined p = Stopped \<or> threads p ! joined p = Died
                     then Some (p\<lparr>joined := joined p + 1\<rparr>) else None)
               else None))"

datatype action = Main | Worker nat | Interrupt

fun pool_action :: "env \<Rightarrow> action \<Rightarrow> pool \<Rightarrow> pool option" where
  "pool_action e Main p = main_step e p"
| "pool_action e (Worker i) p = worker_step e i p"
| "pool_action e Interrupt p = Some (p\<lparr>thread_exit := True\<rparr>)"

inductive execution :: "env \<Rightarrow> pool \<Rightarrow> action list \<Rightarrow> pool \<Rightarrow> bool" for e :: env and p0 :: pool where
  started: "execution e p0 [] p0"
| action: "execution e p0 acts p \<Longrightarrow> pool_action e a p = Some q \<Longrightarrow> execution e p0 (acts @ [a]) q"

inductive_cases execution_snocE: "execution e p0 (acts @ [a]) q"

definition finished :: "pool \<Rightarrow> bool" where
  "finished p \<longleftrightarrow>
     (\<exists>s. tally p = Return s) \<and> to_put p = [] \<and> to_get p = 0 \<and> joined p = length (threads p)"

section \<open>Every execution is short\<close>

fun weight :: "worker \<Rightarrow> nat" where
  "weight (Holding j) = 4"
| "weight (Running j) = 3"
| "weight (Delivering j) = 2"
| "weight w = 0"

definition work_left :: "pool \<Rightarrow> nat" where
  "work_left p =
     6 * length (to_put p) + 5 * length (contents (input_queue p)) + sum_list (map weight (threads p)) +
     length (contents (output_queue p)) + (length (threads p) - joined p)"

text \<open>A total over the threads after one of them changed.\<close>

lemma sum_list_set:
  fixes f :: "'a \<Rightarrow> 'b :: comm_monoid_add"
  shows "i < length ts \<Longrightarrow> sum_list (map f (ts[i := w])) + f (ts ! i) = sum_list (map f ts) + f w"
proof (induction ts arbitrary: i)
  case (Cons t ts)
  show ?case
  proof (cases i)
    case (Suc k)
    with Cons have "sum_list (map f (ts[k := w])) + f (ts ! k) = sum_list (map f ts) + f w" by simp
    with Suc show ?thesis by (simp add: ac_simps)
  qed (simp add: ac_simps)
qed simp

lemma queue_simps:
  "queue_put j q = Some q' \<Longrightarrow> contents q' = contents q @ [j]"
  "queue_get q = Some (j, q') \<Longrightarrow> contents q = j # contents q'"
  by (auto simp: queue_put_def queue_get_def split: if_splits list.splits)

lemma set_worker_simps [simp]:
  "input_queue (set_worker i w p) = input_queue p" "output_queue (set_worker i w p) = output_queue p"
  "thread_exit (set_worker i w p) = thread_exit p" "to_put (set_worker i w p) = to_put p"
  "to_get (set_worker i w p) = to_get p" "joined (set_worker i w p) = joined p"
  "tally (set_worker i w p) = tally p" "length (threads (set_worker i w p)) = length (threads p)"
  "threads (set_worker i w p) = (threads p)[i := w]"
  by (simp_all add: set_worker_def)

lemma worker_step_cases:
  assumes "worker_step e i p = Some q"
  obtains (take) j iq where "i < length (threads p)" "threads p ! i = Waiting"
      "queue_get (input_queue p) = Some (j, iq)" "q = set_worker i (Holding j) (p\<lparr>input_queue := iq\<rparr>)"
    | (stop) j where "i < length (threads p)" "threads p ! i = Holding j" "is_break j"
      "q = set_worker i Stopped p"
    | (abandon) j where "i < length (threads p)" "threads p ! i = Holding j" "\<not> is_break j" "thread_exit p"
      "q = set_worker i (Delivering (j\<lparr>is_break := True\<rparr>)) p"
    | (skip) j where "i < length (threads p)" "threads p ! i = Holding j" "\<not> is_break j" "\<not> thread_exit p"
      "is_skip j" "q = set_worker i (Delivering j) p"
    | (launch) j where "i < length (threads p)" "threads p ! i = Holding j" "\<not> is_break j"
      "\<not> thread_exit p" "\<not> is_skip j" "q = set_worker i (Running j) p"
    | (run) j j' where "i < length (threads p)" "threads p ! i = Running j"
      "perform_job (e_options e) (e_config e) (e_shell e) j = Return j'" "q = set_worker i (Delivering j') p"
    | (die) j x where "i < length (threads p)" "threads p ! i = Running j"
      "perform_job (e_options e) (e_config e) (e_shell e) j = Raise x" "q = set_worker i Died p"
    | (deliver) j oq where "i < length (threads p)" "threads p ! i = Delivering j"
      "queue_put j (output_queue p) = Some oq" "q = set_worker i Waiting (p\<lparr>output_queue := oq\<rparr>)"
proof -
  from assms have i: "i < length (threads p)" by (simp add: worker_step_def split: if_splits)
  show ?thesis
  proof (cases "threads p ! i")
    case Waiting
    with assms i obtain j iq where "queue_get (input_queue p) = Some (j, iq)"
      "q = set_worker i (Holding j) (p\<lparr>input_queue := iq\<rparr>)"
      by (auto simp: worker_step_def split: option.splits)
    with i Waiting show ?thesis by (rule take)
  next
    case (Holding j)
    with assms i stop abandon skip launch show ?thesis by (auto simp: worker_step_def split: if_splits)
  next
    case (Running j)
    with assms i run die show ?thesis
      by (cases "perform_job (e_options e) (e_config e) (e_shell e) j") (auto simp: worker_step_def)
  next
    case (Delivering j)
    with assms i deliver show ?thesis by (auto simp: worker_step_def split: option.splits)
  next
    case Stopped
    with assms i show ?thesis by (simp add: worker_step_def)
  next
    case Died
    with assms i show ?thesis by (simp add: worker_step_def)
  qed
qed

lemma worker_step_decreases:
  assumes "worker_step e i p = Some q"
  shows "work_left q < work_left p"
proof -
  have i: "i < length (threads p)" using assms by (auto simp: worker_step_def split: if_splits)
  have w: "sum_list (map weight ((threads p)[i := w])) + weight (threads p ! i) =
      sum_list (map weight (threads p)) + weight w" for w
    by (rule sum_list_set [OF i])
  from assms show ?thesis
  proof (cases rule: worker_step_cases)
    case (take j iq)
    with w [of "Holding j"] queue_simps(2) [OF take(3)] show ?thesis by (simp add: work_left_def)
  next
    case (stop j)
    with w [of Stopped] show ?thesis by (simp add: work_left_def)
  next
    case (abandon j)
    with w [of "Delivering (j\<lparr>is_break := True\<rparr>)"] show ?thesis by (simp add: work_left_def)
  next
    case (skip j)
    with w [of "Delivering j"] show ?thesis by (simp add: work_left_def)
  next
    case (launch j)
    with w [of "Running j"] show ?thesis by (simp add: work_left_def)
  next
    case (run j j')
    with w [of "Delivering j'"] show ?thesis by (simp add: work_left_def)
  next
    case (die j x)
    with w [of Died] show ?thesis by (simp add: work_left_def)
  next
    case (deliver j oq)
    with w [of Waiting] queue_simps(1) [OF deliver(3)] show ?thesis by (simp add: work_left_def)
  qed
qed

lemma main_step_decreases: "main_step e p = Some q \<Longrightarrow> work_left q < work_left p"
  by (auto simp: main_step_def work_left_def dest: queue_simps split: option.splits if_splits
      sum.splits list.splits)

lemma interrupt_keeps_work: "work_left (p\<lparr>thread_exit := True\<rparr>) = work_left p"
  by (simp add: work_left_def)

lemma execution_bounded:
  "execution e p0 acts p \<Longrightarrow> length (filter (\<lambda>a. a \<noteq> Interrupt) acts) + work_left p \<le> work_left p0"
proof (induction rule: execution.induct)
  case (action acts p a q)
  then show ?case
    using worker_step_decreases main_step_decreases
    by (cases a) (fastforce simp: interrupt_keeps_work)+
qed simp

lemma work_left_start: "work_left (start_pool js n) = 6 * (length js + n) + n"
  by (simp add: work_left_def start_pool_def Queue_def sum_list_replicate)

section \<open>No job is lost\<close>

text \<open>
  Where the jobs are: those a worker still has to treat, those it treated, and the workers that
  took their break.
\<close>

fun untreated :: "worker \<Rightarrow> job multiset" where
  "untreated (Holding j) = (if is_break j then {#} else {#j#})"
| "untreated (Running j) = {#j#}"
| "untreated w = {#}"

fun treated :: "worker \<Rightarrow> job multiset" where
  "treated (Delivering j) = {#j#}"
| "treated w = {#}"

fun on_break :: "worker \<Rightarrow> nat" where
  "on_break (Holding j) = (if is_break j then 1 else 0)"
| "on_break Stopped = 1"
| "on_break w = 0"

definition performed :: "env \<Rightarrow> job \<Rightarrow> job" where
  "performed e j =
     (if is_skip j then j
      else (case perform_job (e_options e) (e_config e) (e_shell e) j of Inl _ \<Rightarrow> j | Inr j' \<Rightarrow> j'))"

definition abandoned :: "job \<Rightarrow> job" where
  "abandoned j = j\<lparr>is_break := True\<rparr>"

text \<open>Jobs that can be run, and whose results file is there when it is read.\<close>

definition sound_jobs :: "env \<Rightarrow> job list \<Rightarrow> bool" where
  "sound_jobs e js \<longleftrightarrow>
     (\<forall>j \<in> set js. \<not> is_break j \<and>
        (\<exists>j'. perform_job (e_options e) (e_config e) (e_shell e) j = Return j') \<and>
        (\<exists>t. job_xml (e_files e) (performed e j) = Return t))"

abbreviation collected :: "env \<Rightarrow> job list \<Rightarrow> summary res" where
  "collected e rs \<equiv> fold_res (collect_job (e_options e) (e_files e)) rs new_summary"

definition queues_inv :: "job list \<Rightarrow> nat \<Rightarrow> pool \<Rightarrow> nat \<Rightarrow> bool" where
  "queues_inv js n p m \<longleftrightarrow>
     unbounded (input_queue p) \<and> unbounded (output_queue p) \<and> length (threads p) = n \<and>
     m \<le> length js + n \<and> contents (input_queue p) @ to_put p = drop m (js @ replicate n break_job)"

definition jobs_inv :: "env \<Rightarrow> job list \<Rightarrow> pool \<Rightarrow> nat \<Rightarrow> job multiset \<Rightarrow> job multiset \<Rightarrow> job list \<Rightarrow> bool" where
  "jobs_inv e js p m dn lost rs \<longleftrightarrow>
     mset (take m js) = sum_list (map untreated (threads p)) + dn + lost \<and>
     image_mset (performed e) dn + image_mset abandoned lost =
       sum_list (map treated (threads p)) + mset (contents (output_queue p)) + mset rs \<and>
     (thread_exit p \<or> lost = {#})"

definition threads_inv :: "job list \<Rightarrow> pool \<Rightarrow> nat \<Rightarrow> bool" where
  "threads_inv js p m \<longleftrightarrow>
     sum_list (map on_break (threads p)) = m - length js \<and> Died \<notin> set (threads p) \<and>
     (\<forall>j. Running j \<in> set (threads p) \<longrightarrow> j \<in> set js \<and> \<not> is_skip j) \<and>
     (\<forall>j. Holding j \<in> set (threads p) \<longrightarrow> j \<in> set js \<or> is_break j) \<and>
     (\<forall>k < joined p. threads p ! k = Stopped)"

definition main_inv :: "env \<Rightarrow> job list \<Rightarrow> pool \<Rightarrow> job list \<Rightarrow> bool" where
  "main_inv e js p rs \<longleftrightarrow>
     to_get p + length rs = length js \<and> (to_put p = [] \<or> rs = []) \<and>
     (\<exists>s. tally p = Return s \<and> collected e rs = Return s) \<and>
     joined p \<le> length (threads p) \<and> (joined p = 0 \<or> to_get p = 0 \<and> to_put p = [])"

definition pool_inv ::
  "env \<Rightarrow> job list \<Rightarrow> nat \<Rightarrow> pool \<Rightarrow> nat \<Rightarrow> job multiset \<Rightarrow> job multiset \<Rightarrow> job list \<Rightarrow> bool" where
  "pool_inv e js n p m dn lost rs \<longleftrightarrow>
     queues_inv js n p m \<and> jobs_inv e js p m dn lost rs \<and> threads_inv js p m \<and> main_inv e js p rs"

lemma sum_list_replicate_empty: "sum_list (replicate n {#}) = {#}"
  by (induction n) auto

lemma pool_inv_start: "pool_inv e js n (start_pool js n) 0 {#} {#} []"
  by (auto simp: pool_inv_def queues_inv_def jobs_inv_def threads_inv_def main_inv_def start_pool_def
      Queue_def unbounded_def sum_list_replicate_empty sum_list_replicate)

text \<open>What one worker's step keeps of the other threads.\<close>

lemma threads_inv_set:
  assumes "threads_inv js p m" and "i < length (threads p)" and "threads p ! i \<noteq> Stopped"
    and "w \<noteq> Died" and "\<And>j. w = Running j \<Longrightarrow> j \<in> set js \<and> \<not> is_skip j"
    and "\<And>j. w = Holding j \<Longrightarrow> j \<in> set js \<or> is_break j"
    and "m' - length js + on_break (threads p ! i) = m - length js + on_break w"
    and "threads q = (threads p)[i := w]" and "joined q = joined p"
  shows "threads_inv js q m'"
proof -
  have "sum_list (map on_break ((threads p)[i := w])) + on_break (threads p ! i) =
      sum_list (map on_break (threads p)) + on_break w"
    by (rule sum_list_set [OF assms(2)])
  with assms(1,7) have s: "sum_list (map on_break ((threads p)[i := w])) = m' - length js"
    by (simp add: threads_inv_def)
  have "\<not> i < joined p" using assms(1,3) by (auto simp: threads_inv_def)
  then have "\<forall>k < joined q. threads q ! k = Stopped"
    using assms(1,8,9) by (auto simp: threads_inv_def nth_list_update)
  moreover have "x \<in> set (threads q) \<Longrightarrow> x = w \<or> x \<in> set (threads p)" for x
    using set_update_subset_insert [of "threads p" i w] assms(8) by auto
  ultimately show ?thesis
    using s assms(1,4,5,6,8) unfolding threads_inv_def by metis
qed

lemma sums_set:
  assumes "i < length ts"
  shows "sum_list (map untreated (ts[i := w])) + untreated (ts ! i) = sum_list (map untreated ts) + untreated w"
    and "sum_list (map treated (ts[i := w])) + treated (ts ! i) = sum_list (map treated ts) + treated w"
  by (rule sum_list_set [OF assms])+

lemma nth_jobs_breaks:
  assumes "m < length js + n"
  shows "(js @ replicate n break_job) ! m = (if m < length js then js ! m else break_job)"
  using assms by (simp add: nth_append)

lemma break_job_is_break [simp]: "is_break break_job"
  by (simp add: break_job_def)

lemma main_inv_same:
  "main_inv e js p rs \<Longrightarrow> to_get q = to_get p \<Longrightarrow> to_put q = to_put p \<Longrightarrow> tally q = tally p \<Longrightarrow>
   joined q = joined p \<Longrightarrow> length (threads q) = length (threads p) \<Longrightarrow> main_inv e js q rs"
  unfolding main_inv_def by metis

lemma worker_take_inv:
  assumes "pool_inv e js n p m dn lost rs" and "sound_jobs e js"
    and "i < length (threads p)" and "threads p ! i = Waiting"
    and "queue_get (input_queue p) = Some (j, iq)"
    and q: "q = set_worker i (Holding j) (p\<lparr>input_queue := iq\<rparr>)"
  shows "pool_inv e js n q (Suc m) dn lost rs"
proof -
  from assms(1) have Q: "queues_inv js n p m" and J: "jobs_inv e js p m dn lost rs"
    and T: "threads_inv js p m" and M: "main_inv e js p rs"
    by (simp_all add: pool_inv_def)
  from Q have u: "unbounded (input_queue p)"
    and f: "contents (input_queue p) @ to_put p = drop m (js @ replicate n break_job)"
    by (simp_all add: queues_inv_def)
  from job_queue.get_future [OF u assms(5) f]
  have m: "m < length js + n" and j: "j = (js @ replicate n break_job) ! m"
    and f': "contents iq @ to_put p = drop (Suc m) (js @ replicate n break_job)"
    by auto
  have u': "unbounded iq" using job_queue.get_items [OF u assms(5)] by simp
  have Q': "queues_inv js n q (Suc m)"
    using Q u' m f' by (simp add: queues_inv_def q)
  have jj: "j = (if m < length js then js ! m else break_job)"
    using j nth_jobs_breaks [OF m] by simp
  have b: "is_break j \<longleftrightarrow> \<not> m < length js" and js: "m < length js \<Longrightarrow> j \<in> set js"
    using jj assms(2) by (auto simp: sound_jobs_def)
  have t: "mset (take (Suc m) js) = mset (take m js) + untreated (Holding j)"
    using jj b by (cases "m < length js") (simp_all add: take_Suc_conv_app_nth)
  have J': "jobs_inv e js q (Suc m) dn lost rs"
    using J t sums_set [OF assms(3), of "Holding j"] assms(4)
    by (simp add: jobs_inv_def q)
  have "threads_inv js q (Suc m)"
    by (rule threads_inv_set [OF T assms(3), where w = "Holding j"])
      (use b js assms(4) in \<open>auto simp: q\<close>)
  moreover have "main_inv e js q rs" by (rule main_inv_same [OF M]) (simp_all add: q)
  ultimately show ?thesis using Q' J' by (simp add: pool_inv_def)
qed

text \<open>A step of a worker that touches no queue.\<close>

lemma worker_local_inv:
  fixes lost' :: "job multiset"
  assumes "pool_inv e js n p m dn lost rs" and "i < length (threads p)" and "threads p ! i \<noteq> Stopped"
    and "w \<noteq> Died" and "\<And>j. w = Running j \<Longrightarrow> j \<in> set js \<and> \<not> is_skip j" and "\<And>j. w \<noteq> Holding j"
    and "on_break (threads p ! i) = on_break w"
    and "untreated (threads p ! i) = untreated w + dn' + lost'"
    and "treated w = treated (threads p ! i) + image_mset (performed e) dn' + image_mset abandoned lost'"
    and "thread_exit p \<or> lost' = {#}"
  shows "pool_inv e js n (set_worker i w p) m (dn + dn') (lost + lost') rs"
proof -
  from assms(1) have Q: "queues_inv js n p m" and J: "jobs_inv e js p m dn lost rs"
    and T: "threads_inv js p m" and M: "main_inv e js p rs"
    by (simp_all add: pool_inv_def)
  note s = sums_set [OF assms(2), of w]
  have "sum_list (map untreated (threads p)) = sum_list (map untreated ((threads p)[i := w])) + dn' + lost'"
    using s(1) assms(8) by (simp add: ac_simps)
  moreover have "sum_list (map treated ((threads p)[i := w])) =
      sum_list (map treated (threads p)) + image_mset (performed e) dn' + image_mset abandoned lost'"
    using s(2) assms(9) by (simp add: ac_simps)
  ultimately have J': "jobs_inv e js (set_worker i w p) m (dn + dn') (lost + lost') rs"
    using J assms(10) by (auto simp: jobs_inv_def ac_simps)
  have "threads_inv js (set_worker i w p) m"
    by (rule threads_inv_set [OF T assms(2,3,4)]) (use assms(5,6,7) in auto)
  moreover have "main_inv e js (set_worker i w p) rs" by (rule main_inv_same [OF M]) simp_all
  moreover have "queues_inv js n (set_worker i w p) m" using Q by (simp add: queues_inv_def)
  ultimately show ?thesis using J' by (simp add: pool_inv_def)
qed

lemma worker_deliver_inv:
  assumes "pool_inv e js n p m dn lost rs" and "i < length (threads p)" and "threads p ! i = Delivering j"
    and "queue_put j (output_queue p) = Some oq"
    and q: "q = set_worker i Waiting (p\<lparr>output_queue := oq\<rparr>)"
  shows "pool_inv e js n q m dn lost rs"
proof -
  from assms(1) have Q: "queues_inv js n p m" and J: "jobs_inv e js p m dn lost rs"
    and T: "threads_inv js p m" and M: "main_inv e js p rs"
    by (simp_all add: pool_inv_def)
  from Q have "unbounded (output_queue p)" by (simp add: queues_inv_def)
  from job_queue.put_items [OF this assms(4)]
  have o: "unbounded oq" "contents oq = contents (output_queue p) @ [j]" by auto
  have J': "jobs_inv e js q m dn lost rs"
    using J sums_set [OF assms(2), of Waiting] assms(3) o(2) by (simp add: jobs_inv_def q)
  have "threads_inv js q m"
    by (rule threads_inv_set [OF T assms(2), where w = Waiting]) (use assms(3) in \<open>auto simp: q\<close>)
  moreover have "main_inv e js q rs" by (rule main_inv_same [OF M]) (simp_all add: q)
  moreover have "queues_inv js n q m" using Q o(1) by (simp add: queues_inv_def q)
  ultimately show ?thesis using J' by (simp add: pool_inv_def)
qed

lemma worker_step_inv:
  assumes inv: "pool_inv e js n p m dn lost rs" and sound: "sound_jobs e js"
    and "worker_step e i p = Some q"
  shows "\<exists>m dn lost. pool_inv e js n q m dn lost rs"
proof -
  have held: "j \<in> set js \<or> is_break j" if "i < length (threads p)" "threads p ! i = Holding j" for j
  proof -
    have "Holding j \<in> set (threads p)" using that by (metis nth_mem)
    then show ?thesis using inv by (simp add: pool_inv_def threads_inv_def)
  qed
  have running: "j \<in> set js \<and> \<not> is_skip j" if "i < length (threads p)" "threads p ! i = Running j" for j
  proof -
    have "Running j \<in> set (threads p)" using that by (metis nth_mem)
    then show ?thesis using inv by (simp add: pool_inv_def threads_inv_def)
  qed
  note wl = worker_local_inv [OF inv, where i = i]
  from assms(3) show ?thesis
  proof (cases rule: worker_step_cases)
    case (take j iq)
    from worker_take_inv [OF inv sound take(1,2,3,4)] show ?thesis by blast
  next
    case (stop j)
    with wl [where w = Stopped and dn' = "{#}" and lost' = "{#}"] show ?thesis by auto
  next
    case (abandon j)
    with wl [where w = "Delivering (j\<lparr>is_break := True\<rparr>)" and dn' = "{#}" and lost' = "{#j#}"]
    show ?thesis by (auto simp: abandoned_def)
  next
    case (skip j)
    with wl [where w = "Delivering j" and dn' = "{#j#}" and lost' = "{#}"]
    show ?thesis by (auto simp: performed_def)
  next
    case (launch j)
    with held wl [where w = "Running j" and dn' = "{#}" and lost' = "{#}"] show ?thesis by auto
  next
    case (run j j')
    with running [of j] wl [where w = "Delivering j'" and dn' = "{#j#}" and lost' = "{#}"]
    show ?thesis by (auto simp: performed_def)
  next
    case (die j x)
    with running [of j] sound show ?thesis by (auto simp: sound_jobs_def)
  next
    case (deliver j oq)
    from worker_deliver_inv [OF inv deliver] show ?thesis by blast
  qed
qed

section \<open>The main thread\<close>

lemma main_step_cases:
  assumes "main_step e p = Some q"
  obtains (dispatch) s j js iq where "tally p = Return s" "to_put p = j # js"
      "queue_put j (input_queue p) = Some iq" "q = p\<lparr>input_queue := iq, to_put := js\<rparr>"
    | (collect) s j oq where "tally p = Return s" "to_put p = []" "0 < to_get p"
      "queue_get (output_queue p) = Some (j, oq)"
      "q = p\<lparr>output_queue := oq, to_get := to_get p - 1, tally := collect_job (e_options e) (e_files e) j s\<rparr>"
    | (join) s where "tally p = Return s" "to_put p = []" "to_get p = 0" "joined p < length (threads p)"
      "threads p ! joined p = Stopped \<or> threads p ! joined p = Died" "q = p\<lparr>joined := joined p + 1\<rparr>"
  using assms that
  by (auto simp: main_step_def split: sum.splits list.splits option.splits if_splits)

lemma performed_no_break: "is_break (performed e j) = is_break j"
proof (cases "perform_job (e_options e) (e_config e) (e_shell e) j")
  case (Inr j')
  from perform_job_fields [OF this] Inr show ?thesis by (auto simp: performed_def)
qed (simp add: performed_def)

lemma collect_performed:
  assumes "sound_jobs e js" and "j \<in> set js"
  shows "\<exists>t. collect_job (e_options e) (e_files e) (performed e j) s = Return t"
  using assms by (auto simp: sound_jobs_def collect_job_def Let_def)

lemma collect_abandoned: "collect_job opts tmp (abandoned j) s = Return s"
  by (simp add: collect_job_def abandoned_def)

lemma main_dispatch_inv:
  assumes inv: "pool_inv e js n p m dn lost rs" and "to_put p = j # ks"
    and "queue_put j (input_queue p) = Some iq" and q: "q = p\<lparr>input_queue := iq, to_put := ks\<rparr>"
  shows "pool_inv e js n q m dn lost rs"
proof -
  from inv have Q: "queues_inv js n p m" by (simp add: pool_inv_def)
  then have "unbounded (input_queue p)" by (simp add: queues_inv_def)
  from job_queue.put_items [OF this assms(3)] job_queue.put_future [OF this assms(3), of ks] Q assms(2)
  have "queues_inv js n q m" by (simp add: queues_inv_def q)
  moreover have "main_inv e js q rs"
    using inv assms(2) by (auto simp: pool_inv_def main_inv_def q)
  ultimately show ?thesis using inv by (simp add: pool_inv_def jobs_inv_def threads_inv_def q)
qed

lemma main_collect_inv:
  assumes inv: "pool_inv e js n p m dn lost rs" and sound: "sound_jobs e js"
    and "tally p = Return s" and "to_put p = []" and "0 < to_get p"
    and "queue_get (output_queue p) = Some (j, oq)"
    and q: "q = p\<lparr>output_queue := oq, to_get := to_get p - 1, tally := collect_job (e_options e) (e_files e) j s\<rparr>"
  shows "pool_inv e js n q m dn lost (rs @ [j])"
proof -
  from inv have Q: "queues_inv js n p m" and J: "jobs_inv e js p m dn lost rs" and M: "main_inv e js p rs"
    by (simp_all add: pool_inv_def)
  from Q have u: "unbounded (output_queue p)" by (simp add: queues_inv_def)
  from job_queue.get_items [OF u assms(6)]
  have o: "unbounded oq" "contents (output_queue p) = j # contents oq" by auto
  have J': "jobs_inv e js q m dn lost (rs @ [j])"
    using J o(2) by (simp add: jobs_inv_def q ac_simps)
  from J o(2) have "j \<in># image_mset (performed e) dn + image_mset abandoned lost"
    by (simp add: jobs_inv_def)
  moreover have "set_mset dn \<subseteq> set js"
  proof -
    from J have "set_mset (mset (take m js)) = set_mset (sum_list (map untreated (threads p)) + dn + lost)"
      by (simp only: jobs_inv_def)
    then have "set_mset dn \<subseteq> set (take m js)" by auto
    then show ?thesis using set_take_subset [of m js] by blast
  qed
  ultimately obtain t where t: "collect_job (e_options e) (e_files e) j s = Return t"
    using collect_performed [OF sound] collect_abandoned by fastforce
  have "collected e (rs @ [j]) = Return t"
    using M assms(3) t by (auto simp: main_inv_def fold_res_append)
  then have "main_inv e js q (rs @ [j])"
    using M assms(4,5) t by (auto simp: main_inv_def q)
  with Q J' o(1) inv show ?thesis by (simp add: pool_inv_def queues_inv_def threads_inv_def q)
qed

lemma main_join_inv:
  assumes inv: "pool_inv e js n p m dn lost rs" and "to_put p = []" and "to_get p = 0"
    and "joined p < length (threads p)"
    and "threads p ! joined p = Stopped \<or> threads p ! joined p = Died"
  shows "pool_inv e js n (p\<lparr>joined := joined p + 1\<rparr>) m dn lost rs"
proof -
  have "threads p ! joined p \<noteq> Died"
    using inv assms(4) by (metis nth_mem pool_inv_def threads_inv_def)
  with inv assms show ?thesis
    by (auto simp: pool_inv_def queues_inv_def jobs_inv_def threads_inv_def main_inv_def less_Suc_eq)
qed

lemma main_step_inv:
  assumes inv: "pool_inv e js n p m dn lost rs" and sound: "sound_jobs e js"
    and "main_step e p = Some q"
  shows "\<exists>rs. pool_inv e js n q m dn lost rs"
  using assms(3)
proof (cases rule: main_step_cases)
  case dispatch
  from main_dispatch_inv [OF inv dispatch(2,3,4)] show ?thesis by blast
next
  case collect
  from main_collect_inv [OF inv sound collect] show ?thesis by blast
next
  case join
  from main_join_inv [OF inv join(2,3,4,5)] join(6) show ?thesis by blast
qed

lemma interrupt_inv:
  "pool_inv e js n p m dn lost rs \<Longrightarrow> pool_inv e js n (p\<lparr>thread_exit := True\<rparr>) m dn lost rs"
  by (auto simp: pool_inv_def queues_inv_def jobs_inv_def threads_inv_def main_inv_def)

lemma execution_inv:
  "execution e (start_pool js n) acts p \<Longrightarrow> sound_jobs e js \<Longrightarrow> \<exists>m dn lost rs. pool_inv e js n p m dn lost rs"
proof (induction rule: execution.induct)
  case started
  then show ?case using pool_inv_start by blast
next
  case (action acts p a q)
  then obtain m dn lost rs where "pool_inv e js n p m dn lost rs" by blast
  note inv = this
  show ?case
  proof (cases a)
    case Main
    with action.hyps main_step_inv [OF inv action.prems] show ?thesis by auto
  next
    case (Worker i)
    with action.hyps have "worker_step e i p = Some q" by simp
    from worker_step_inv [OF inv action.prems this] show ?thesis by blast
  next
    case Interrupt
    with action.hyps interrupt_inv [OF inv] show ?thesis by auto
  qed
qed

lemma execution_thread_exit:
  "execution e (start_pool js n) acts p \<Longrightarrow> thread_exit p \<longleftrightarrow> Interrupt \<in> set acts"
proof (induction rule: execution.induct)
  case (action acts p a q)
  show ?case
  proof (cases a)
    case Main
    with action show ?thesis by (auto elim!: main_step_cases)
  next
    case (Worker i)
    with action show ?thesis by (auto elim!: worker_step_cases)
  qed (use action in auto)
qed (simp add: start_pool_def)

section \<open>The pool always finishes\<close>

lemma on_break_full:
  "sum_list (map on_break ts) \<le> length ts"
  "sum_list (map on_break ts) = length ts \<Longrightarrow> w \<in> set ts \<Longrightarrow> on_break w = 1"
proof -
  have le: "on_break w \<le> 1" for w by (cases w) auto
  show a: "sum_list (map on_break ts) \<le> length ts" for ts
    by (induction ts) (use le in \<open>auto simp: add_le_mono [of _ 1, simplified]\<close>)
  show "sum_list (map on_break ts) = length ts \<Longrightarrow> w \<in> set ts \<Longrightarrow> on_break w = 1"
  proof (induction ts)
    case (Cons t ts)
    have "on_break t = 1" "sum_list (map on_break ts) = length ts"
      using Cons.prems(1) le [of t] a [of ts] by auto
    with Cons show ?case by auto
  qed simp
qed

definition idle :: "worker \<Rightarrow> bool" where
  "idle w \<longleftrightarrow> w = Waiting \<or> w = Stopped \<or> w = Died"

lemma idle_sums:
  "\<forall>w \<in> set ts. idle w \<Longrightarrow> sum_list (map untreated ts) = {#} \<and> sum_list (map treated ts) = {#}"
  by (induction ts) (auto simp: idle_def)

lemma busy_worker_enabled:
  assumes "unbounded (output_queue p)" and "i < length (threads p)" and "\<not> idle (threads p ! i)"
  shows "worker_step e i p \<noteq> None"
  using assms job_queue.put_enabled
  by (cases "threads p ! i") (auto simp: idle_def worker_step_def split: option.splits)

lemma waiting_worker_enabled:
  "i < length (threads p) \<Longrightarrow> threads p ! i = Waiting \<Longrightarrow> contents (input_queue p) \<noteq> [] \<Longrightarrow>
   worker_step e i p \<noteq> None"
  by (auto simp: worker_step_def queue_get_def split: list.splits)

text \<open>With every worker idle and something left to do, the main thread or a waiting worker can go on.\<close>

lemma idle_pool_input:
  assumes inv: "pool_inv e js n p m dn lost rs" and idle: "\<forall>w \<in> set (threads p). idle w"
    and put: "to_put p = []" and get: "0 < to_get p" and out: "contents (output_queue p) = []"
  shows "contents (input_queue p) \<noteq> [] \<and> (\<forall>w \<in> set (threads p). w = Waiting)"
proof -
  from inv have Q: "queues_inv js n p m" and J: "jobs_inv e js p m dn lost rs"
    and T: "threads_inv js p m" and M: "main_inv e js p rs"
    by (simp_all add: pool_inv_def)
  note z = idle_sums [OF idle]
  have "size (mset (take m js)) = size dn + size lost" "size dn + size lost = length rs"
    using J z out by (simp_all add: jobs_inv_def flip: size_union) (metis size_image_mset size_mset size_union)
  then have "min (length js) m = length rs" by simp
  moreover have "length rs < length js" using M get by (simp add: main_inv_def)
  ultimately have m: "m < length js" by linarith
  with Q put have "contents (input_queue p) \<noteq> []" by (simp add: queues_inv_def)
  moreover have "w = Waiting" if "w \<in> set (threads p)" for w
  proof -
    from T m have "sum_list (map on_break (threads p)) = 0" by (simp add: threads_inv_def)
    with that have "on_break w = 0" by (simp add: sum_list_eq_0_iff)
    with that idle T show ?thesis by (auto simp: idle_def threads_inv_def)
  qed
  ultimately show ?thesis by blast
qed

lemma pool_progress:
  assumes inv: "pool_inv e js n p m dn lost rs" and "0 < n" and "\<not> finished p"
  shows "\<exists>a. a \<noteq> Interrupt \<and> pool_action e a p \<noteq> None"
proof -
  from inv have Q: "queues_inv js n p m" and T: "threads_inv js p m" and M: "main_inv e js p rs"
    by (simp_all add: pool_inv_def)
  from M obtain s where s: "tally p = Return s" by (auto simp: main_inv_def)
  from Q have u: "unbounded (input_queue p)" "unbounded (output_queue p)" and n: "length (threads p) = n"
    by (simp_all add: queues_inv_def)
  have w: "worker_step e i p \<noteq> None \<Longrightarrow> ?thesis" for i by (rule exI [of _ "Worker i"]) auto
  have m: "main_step e p \<noteq> None \<Longrightarrow> ?thesis" by (rule exI [of _ Main]) auto
  show ?thesis
  proof (cases "\<forall>w \<in> set (threads p). idle w")
    case False
    then obtain i where "i < length (threads p)" "\<not> idle (threads p ! i)" by (metis in_set_conv_nth)
    from busy_worker_enabled [OF u(2) this] w show ?thesis by blast
  next
    case idle: True
    show ?thesis
    proof (cases "to_put p")
      case (Cons j ks)
      with s job_queue.put_enabled [OF u(1), of j] have "main_step e p \<noteq> None"
        by (auto simp: main_step_def split: option.splits)
      with m show ?thesis by blast
    next
      case put: Nil
      show ?thesis
      proof (cases "0 < to_get p")
        case get: True
        show ?thesis
        proof (cases "contents (output_queue p)")
          case Nil
          from idle_pool_input [OF inv idle put get this] waiting_worker_enabled [of 0 p e] n assms(2) w
          show ?thesis by (metis nth_mem)
        next
          case (Cons j ks)
          with s put get m show ?thesis by (auto simp: main_step_def queue_get_def)
        qed
      next
        case get: False
        with assms(3) s put M have j: "joined p < length (threads p)"
          by (auto simp: finished_def main_inv_def)
        show ?thesis
        proof (cases "threads p ! joined p = Waiting")
          case False
          with idle j have "threads p ! joined p = Stopped \<or> threads p ! joined p = Died"
            by (auto simp: idle_def)
          with s put get j m show ?thesis by (auto simp: main_step_def)
        next
          case True
          have "threads p ! joined p \<in> set (threads p)" using j by (rule nth_mem)
          moreover have "on_break (threads p ! joined p) \<noteq> 1" using True by simp
          moreover note j
          ultimately have "sum_list (map on_break (threads p)) < n"
            using n on_break_full [of "threads p"] by (metis le_neq_implies_less)
          with T Q put have "contents (input_queue p) \<noteq> []" by (auto simp: threads_inv_def queues_inv_def)
          from waiting_worker_enabled [OF j True this] w show ?thesis by blast
        qed
      qed
    qed
  qed
qed

lemma execution_to_end:
  assumes "execution e (start_pool js n) acts p" and "sound_jobs e js" and "0 < n"
  shows "\<exists>more q. execution e (start_pool js n) (acts @ more) q \<and> Interrupt \<notin> set more \<and> finished q"
  using assms(1)
proof (induction "work_left p" arbitrary: acts p rule: less_induct)
  case less
  show ?case
  proof (cases "finished p")
    case True
    with less.prems show ?thesis by (intro exI [of _ "[]"] exI [of _ p]) simp
  next
    case False
    from execution_inv [OF less.prems assms(2)] obtain m dn lost rs where "pool_inv e js n p m dn lost rs"
      by blast
    from pool_progress [OF this assms(3) False] obtain a q where a: "a \<noteq> Interrupt" "pool_action e a p = Some q"
      by blast
    have "work_left q < work_left p"
      using a worker_step_decreases main_step_decreases by (cases a) auto
    from less.hyps [OF this execution.action [OF less.prems a(2)]] obtain more r where
      "execution e (start_pool js n) ((acts @ [a]) @ more) r" "Interrupt \<notin> set more" "finished r"
      by blast
    with a(1) show ?thesis by (intro exI [of _ "a # more"] exI [of _ r]) auto
  qed
qed

text \<open>C2: However the threads are scheduled, the pool makes at most six steps for every job and
  every break and one more for every thread; until it has finished some thread can make a step,
  so it never deadlocks; and every execution can be continued to the end without another
  interrupt. This needs one worker at least, jobs that can be started and the results files of
  the suites.\<close>

theorem pool_terminates:
  assumes "execution e (start_pool js n) acts p" and "sound_jobs e js" and "0 < n"
  shows "length (filter (\<lambda>a. a \<noteq> Interrupt) acts) \<le> 6 * (length js + n) + n \<and>
    (finished p \<or> (\<exists>a q. a \<noteq> Interrupt \<and> pool_action e a p = Some q)) \<and>
    (\<exists>more q. execution e (start_pool js n) (acts @ more) q \<and> Interrupt \<notin> set more \<and> finished q)"
proof (intro conjI)
  show "length (filter (\<lambda>a. a \<noteq> Interrupt) acts) \<le> 6 * (length js + n) + n"
    using execution_bounded [OF assms(1)] by (simp add: work_left_start)
  from execution_inv [OF assms(1,2)] obtain m dn lost rs where "pool_inv e js n p m dn lost rs" by blast
  from pool_progress [OF this assms(3)]
  show "finished p \<or> (\<exists>a q. a \<noteq> Interrupt \<and> pool_action e a p = Some q)" by blast
  show "\<exists>more q. execution e (start_pool js n) (acts @ more) q \<and> Interrupt \<notin> set more \<and> finished q"
    by (rule execution_to_end [OF assms])
qed

definition sample_env :: env where
  "sample_env =
     \<lparr>e_options = default_options, e_config = sample_config,
      e_shell = (\<lambda>c d. \<lparr>pr_returncode = 0, pr_stdout = [], pr_stderr = [], pr_time = 1\<rparr>),
      e_files = (\<lambda>f. None)\<rparr>"

definition sample_jobs :: "job list" where
  "sample_jobs =
     [new_job\<lparr>is_example := True, display_name := ''echo''\<rparr>,
      skip_job ''requires NSC'' (new_job\<lparr>display_name := ''nsc''\<rparr>)]"

lemma sample_jobs_sound: "sound_jobs sample_env sample_jobs"
proof -
  have "\<exists>j'. perform_job (e_options sample_env) (e_config sample_env) (e_shell sample_env) j = Return j'"
    if "\<not> is_pyexample j" for j
    using that perform_job_Raise [of "e_options sample_env" "e_config sample_env" "e_shell sample_env" j]
    by (cases "perform_job (e_options sample_env) (e_config sample_env) (e_shell sample_env) j") auto
  moreover have "is_example (performed sample_env j) = is_example j \<and>
      is_pyexample (performed sample_env j) = is_pyexample j" for j
    using perform_job_fields [of "e_options sample_env" "e_config sample_env" "e_shell sample_env" j]
    by (auto simp: performed_def split: sum.splits)
  moreover have "is_skip j \<Longrightarrow> performed sample_env j = j" for j by (simp add: performed_def)
  ultimately show ?thesis
    by (simp add: sound_jobs_def sample_jobs_def job_xml_def new_job_def)
qed

theorem pool_terminates_witness:
  "\<exists>acts q. execution sample_env (start_pool sample_jobs 2) acts q \<and> finished q"
  using pool_terminates [OF execution.started sample_jobs_sound, of 2] by auto

section \<open>The summary\<close>

abbreviation has_status :: "status \<Rightarrow> job \<Rightarrow> bool" where
  "has_status st j \<equiv> \<not> is_break j \<and> job_status j = st"

lemma collect_job_counts:
  assumes "collect_job opts tmp j s = Return t"
  shows "passed_tests t = passed_tests s + (if has_status PASS j then 1 else 0)"
    and "skipped_tests t = skipped_tests s + (if has_status SKIP j then 1 else 0)"
    and "failed_tests t = failed_tests s + (if has_status FAIL j then 1 else 0)"
    and "crashed_tests t = crashed_tests s + (if has_status CRASH j then 1 else 0)"
    and "valgrind_errors t = valgrind_errors s + (if has_status VALGR j then 1 else 0)"
  using assms
  by (auto simp: collect_job_def count_job_def bind_res_eq_Return Let_def split: if_splits status.splits)

lemma fold_collect_counts:
  assumes "fold_res (collect_job opts tmp) rs s = Return t"
  shows "passed_tests t = passed_tests s + size (filter_mset (has_status PASS) (mset rs)) \<and>
    skipped_tests t = skipped_tests s + size (filter_mset (has_status SKIP) (mset rs)) \<and>
    failed_tests t = failed_tests s + size (filter_mset (has_status FAIL) (mset rs)) \<and>
    crashed_tests t = crashed_tests s + size (filter_mset (has_status CRASH) (mset rs)) \<and>
    valgrind_errors t = valgrind_errors s + size (filter_mset (has_status VALGR) (mset rs))"
  using assms
proof (induction rs arbitrary: s)
  case (Cons j rs)
  then obtain u where u: "collect_job opts tmp j s = Return u" and f: "fold_res (collect_job opts tmp) rs u = Return t"
    by (auto simp: bind_res_eq_Return)
  from Cons.IH [OF f] collect_job_counts [OF u] show ?case by simp
qed simp

text \<open>The jobs of a collection whose treatment gives a status.\<close>

definition with_status :: "env \<Rightarrow> status \<Rightarrow> job multiset \<Rightarrow> nat" where
  "with_status e st M = size (filter_mset (\<lambda>j. job_status (performed e j) = st) M)"

lemma filter_performed:
  assumes "\<forall>j \<in># dn. \<not> is_break j"
  shows "size (filter_mset (has_status st) (image_mset (performed e) dn + image_mset abandoned lost)) =
    with_status e st dn"
proof -
  have "filter_mset (has_status st) (image_mset abandoned lost) = {#}"
    by (induction lost) (auto simp: abandoned_def)
  moreover have "size (filter_mset (has_status st) (image_mset (performed e) dn)) = with_status e st dn"
    using assms by (induction dn) (auto simp: with_status_def performed_no_break)
  ultimately show ?thesis by simp
qed

lemma with_status_sum:
  "with_status e PASS M + with_status e SKIP M =
     size (filter_mset (\<lambda>j. job_status (performed e j) \<in> {PASS, SKIP}) M)"
  by (induction M) (auto simp: with_status_def)

lemma size_filter_all: "size (filter_mset P M) = size M \<longleftrightarrow> (\<forall>x \<in># M. P x)"
proof (induction M)
  case (add x M)
  have "size (filter_mset P M) \<noteq> Suc (size M)"
    using size_filter_mset_lesseq [of P M] by linarith
  with add show ?case by (cases "P x") auto
qed simp

lemma all_with_status:
  "with_status e PASS M + with_status e SKIP M = size M \<longleftrightarrow>
     (\<forall>j \<in># M. job_status (performed e j) \<in> {PASS, SKIP})"
  unfolding with_status_sum by (rule size_filter_all)

lemma finished_pool:
  assumes inv: "pool_inv e js n p m dn lost rs" and "finished p"
  shows "mset js = dn + lost" "mset rs = image_mset (performed e) dn + image_mset abandoned lost"
    "contents (input_queue p) = []" "contents (output_queue p) = []" "\<forall>w \<in> set (threads p). w = Stopped"
proof -
  from inv have Q: "queues_inv js n p m" and J: "jobs_inv e js p m dn lost rs"
    and T: "threads_inv js p m" and M: "main_inv e js p rs"
    by (simp_all add: pool_inv_def)
  show stop: "\<forall>w \<in> set (threads p). w = Stopped"
    using T assms(2) by (metis finished_def in_set_conv_nth threads_inv_def)
  then have idle: "\<forall>w \<in> set (threads p). idle w" by (simp add: idle_def)
  note z = idle_sums [OF idle]
  have "size dn + size lost = length (contents (output_queue p)) + length rs"
    using J z by (simp add: jobs_inv_def) (metis size_image_mset size_mset size_union)
  moreover have "size dn + size lost = min (length js) m"
    using J z by (simp add: jobs_inv_def) (metis length_take size_mset size_union)
  moreover have "length rs = length js" using M assms(2) by (simp add: main_inv_def finished_def)
  ultimately have m: "length js \<le> m" and "length (contents (output_queue p)) = 0" by linarith+
  from this(2) show o: "contents (output_queue p) = []" by simp
  from J z m o show "mset js = dn + lost" "mset rs = image_mset (performed e) dn + image_mset abandoned lost"
    by (simp_all add: jobs_inv_def)
  have "\<forall>w \<in> set ts. w = Stopped \<Longrightarrow> sum_list (map on_break ts) = length ts" for ts
    by (induction ts) auto
  with stop Q have "sum_list (map on_break (threads p)) = n" by (simp add: queues_inv_def)
  then show "contents (input_queue p) = []"
    using T Q m by (auto simp: threads_inv_def queues_inv_def)
qed

text \<open>C1: When the pool has finished, every dispatched job was treated exactly once or, only
  after an interrupt, handed back untreated; the workers have stopped and the queues are empty.
  The counters are those of the treated jobs run one after the other, whatever the number of
  threads and their scheduling, and the exit status is 0 exactly when no job was handed back and
  every job passed or was skipped.\<close>

theorem pool_results:
  assumes "execution e (start_pool js n) acts p" and "sound_jobs e js" and "finished p"
  shows "\<exists>dn lost rs s. tally p = Return s \<and> mset js = dn + lost \<and>
      (Interrupt \<notin> set acts \<longrightarrow> lost = {#}) \<and>
      mset rs = image_mset (performed e) dn + image_mset abandoned lost \<and> collected e rs = Return s \<and>
      passed_tests s = with_status e PASS dn \<and> skipped_tests s = with_status e SKIP dn \<and>
      failed_tests s = with_status e FAIL dn \<and> crashed_tests s = with_status e CRASH dn \<and>
      valgrind_errors s = with_status e VALGR dn \<and>
      (exit_status (length js) s = 0 \<longleftrightarrow>
        lost = {#} \<and> (\<forall>j \<in> set js. job_status (performed e j) \<in> {PASS, SKIP})) \<and>
      (\<forall>w \<in> set (threads p). w = Stopped) \<and>
      contents (input_queue p) = [] \<and> contents (output_queue p) = []"
proof -
  from execution_inv [OF assms(1,2)] obtain m dn lost rs where inv: "pool_inv e js n p m dn lost rs" by blast
  note f = finished_pool [OF inv assms(3)]
  from inv obtain s where s: "tally p = Return s" and c: "collected e rs = Return s"
    by (auto simp: pool_inv_def main_inv_def)
  have nb: "\<forall>j \<in># dn. \<not> is_break j"
  proof
    fix j assume "j \<in># dn"
    then have "j \<in># mset js" using f(1) by simp
    then show "\<not> is_break j" using assms(2) by (simp add: sound_jobs_def)
  qed
  note counts = fold_collect_counts [OF c, unfolded f(2) filter_performed [OF nb]]
  have l: "Interrupt \<notin> set acts \<longrightarrow> lost = {#}"
    using inv execution_thread_exit [OF assms(1)] by (auto simp: pool_inv_def jobs_inv_def)
  have "length js = size dn + size lost" using f(1) by (metis size_mset size_union)
  moreover have "with_status e PASS dn + with_status e SKIP dn \<le> size dn"
    unfolding with_status_sum by (rule size_filter_mset_lesseq)
  ultimately have "passed_tests s + skipped_tests s = length js \<longleftrightarrow>
      lost = {#} \<and> with_status e PASS dn + with_status e SKIP dn = size dn"
    using counts by (auto simp: new_summary_def)
  also have "\<dots> \<longleftrightarrow> lost = {#} \<and> (\<forall>j \<in> set js. job_status (performed e j) \<in> {PASS, SKIP})"
    unfolding all_with_status using f(1) by (metis add.right_neutral set_mset_mset)
  finally have x: "exit_status (length js) s = 0 \<longleftrightarrow>
      lost = {#} \<and> (\<forall>j \<in> set js. job_status (performed e j) \<in> {PASS, SKIP})"
    by (simp add: exit_status_def)
  show ?thesis
    by (rule exI [of _ dn], rule exI [of _ lost], rule exI [of _ rs], rule exI [of _ s])
      (use s c f l x counts in \<open>simp add: new_summary_def\<close>)
qed

theorem pool_results_witness:
  "\<exists>acts p s. execution sample_env (start_pool sample_jobs 2) acts p \<and> tally p = Return s \<and>
     (\<forall>w \<in> set (threads p). w = Stopped) \<and> exit_status 2 s = 0"
proof -
  from execution_to_end [OF execution.started sample_jobs_sound, of 2] obtain acts p where
    x: "execution sample_env (start_pool sample_jobs 2) acts p" "Interrupt \<notin> set acts" "finished p"
    by auto
  have r: "job_command sample_config [] False False [] = Return ''/ns3/build/''"
    by (simp add: job_command_def sample_config_def path_join_def suffix_def)
  have ok: "\<forall>j \<in> set sample_jobs. job_status (performed sample_env j) \<in> {PASS, SKIP}"
    by (simp add: sample_jobs_def performed_def job_status_def perform_job_def sample_env_def
        default_options_def new_job_def run_job_Return [OF r] skip_job_def)
  have l: "length sample_jobs = 2" by (simp add: sample_jobs_def)
  from pool_results [OF x(1) sample_jobs_sound x(3)] x(2) ok obtain s where
    "tally p = Return s" "exit_status (length sample_jobs) s = 0" "\<forall>w \<in> set (threads p). w = Stopped"
    by blast
  with x(1) l show ?thesis by auto
qed

end
