(* ===== verification/Xml_Tree.thy ===== *)
theory Xml_Tree
  imports Prelude
begin

text \<open>
  The element trees of \<open>xml.etree.ElementTree\<close>, as \<open>test.py\<close> and \<open>flowmon-parse-results.py\<close> read
  them, after the library has parsed the file.
\<close>

text \<open>An element: its tag, its attributes, its text (None without any) and its children.\<close>

datatype xml =
  Elem (tag_of: string) (attrs_of: "(string \<times> string) list") (text_of: "string option") (children_of: "xml list")

definition findall :: "xml \<Rightarrow> string \<Rightarrow> xml list" where
  "findall e t = filter (\<lambda>c. tag_of c = t) (children_of e)"

text \<open>The path \<open>t/u\<close>.\<close>

definition findall_path :: "xml \<Rightarrow> string \<Rightarrow> string \<Rightarrow> xml list" where
  "findall_path e t u = concat (map (\<lambda>c. findall c u) (findall e t))"

definition find_elem :: "xml \<Rightarrow> string \<Rightarrow> xml option" where
  "find_elem e t = (case findall e t of [] \<Rightarrow> None | c # cs \<Rightarrow> Some c)"

text \<open>\<open>e.find(t).text\<close>: None has no attribute \<open>text\<close>.\<close>

definition find_text :: "xml \<Rightarrow> string \<Rightarrow> string option res" where
  "find_text e t = (case find_elem e t of None \<Rightarrow> Raise AttributeError | Some c \<Rightarrow> Return (text_of c))"

text \<open>\<open>e.get(k)\<close>\<close>

definition get_attr :: "xml \<Rightarrow> string \<Rightarrow> string option" where
  "get_attr e k = map_of (attrs_of e) k"

lemma findall_smaller: "c \<in> set (findall e t) \<Longrightarrow> size c < size e"
  by (cases e) (auto simp: findall_def dest!: size_list_estimation' [of _ _ _ size, OF _ order_refl])

lemma map_res_cong [fundef_cong]:
  "xs = ys \<Longrightarrow> (\<And>x. x \<in> set ys \<Longrightarrow> f x = g x) \<Longrightarrow> map_res f xs = map_res g ys"
  by (induction xs arbitrary: ys) auto

end
