(* ===== verification/Test_Report.thy ===== *)
theory Test_Report
  imports Test_Workers Xml_Tree
begin

text \<open>
  The reports of \<open>test.py\<close>: the results file, parsed by \<open>xml.etree.ElementTree\<close> into a tree, is
  translated to text and to HTML. A report is the string written to its file; an exception ends
  the program before the file is closed.
\<close>

text \<open>\<open>"%s" % x\<close> for a text that may be None.\<close>

definition show_text :: "string option \<Rightarrow> string" where
  "show_text t = (case t of None \<Rightarrow> ''None'' | Some s \<Rightarrow> s)"

section \<open>The text report\<close>

record test_info =
  t_result :: "string option"
  t_name :: "string option"
  t_reason :: "string option"
  t_time :: "string option"

definition read_test :: "xml \<Rightarrow> test_info res" where
  "read_test test =
     bind_res (find_text test ''Result'') (\<lambda>result.
     bind_res (find_text test ''Name'') (\<lambda>name.
       Return
         \<lparr>t_result = result, t_name = name,
          t_reason = (case find_elem test ''Reason'' of Some r \<Rightarrow> text_of r | None \<Rightarrow> Some []),
          t_time = (case find_elem test ''Time'' of Some t \<Rightarrow> map_of (attrs_of t) ''real'' | None \<Rightarrow> Some [])\<rparr>))"

definition detail_line :: "xml \<Rightarrow> string \<Rightarrow> string \<Rightarrow> string res" where
  "detail_line details label t =
     bind_res (find_text details t) (\<lambda>x. Return (text_line (''      '' @ label @ show_text x)))"

definition details_text :: "xml \<Rightarrow> string res" where
  "details_text details =
     bind_res (detail_line details ''Message:   '' ''Message'') (\<lambda>m.
     bind_res (detail_line details ''Condition: '' ''Condition'') (\<lambda>c.
     bind_res (detail_line details ''Actual:    '' ''Actual'') (\<lambda>a.
     bind_res (detail_line details ''Limit:     '' ''Limit'') (\<lambda>l.
     bind_res (detail_line details ''File:      '' ''File'') (\<lambda>f.
     bind_res (detail_line details ''Line:      '' ''Line'') (\<lambda>n.
       Return (text_line ''    Details:'' @ m @ c @ a @ l @ f @ n)))))))"

text \<open>A reason that is present and not empty is put into parentheses.\<close>

definition reason_text :: "string option \<Rightarrow> string" where
  "reason_text r = (case r of None \<Rightarrow> ''None'' | Some [] \<Rightarrow> [] | Some s \<Rightarrow> '' ('' @ s @ '')'')"

definition test_line :: "test_info \<Rightarrow> string" where
  "test_line i =
     text_line (show_text (t_result i) @ '': Test Suite \"'' @ show_text (t_name i) @ ''\" ('' @
       show_text (t_time i) @ '')'' @ reason_text (t_reason i))"

function node_to_text :: "xml \<Rightarrow> string res" where
  "node_to_text test =
     bind_res (read_test test) (\<lambda>i.
     bind_res (map_res details_text (findall test ''FailureDetails'')) (\<lambda>ds.
     bind_res (map_res node_to_text (findall test ''Test'')) (\<lambda>cs.
       Return (test_line i @ concat ds @ concat cs))))"
  by pat_completeness auto
termination by (relation "measure size") (auto intro: findall_smaller)

declare node_to_text.simps [simp del]

definition example_text :: "xml \<Rightarrow> string res" where
  "example_text ex =
     bind_res (find_text ex ''Result'') (\<lambda>result.
     bind_res (find_text ex ''Name'') (\<lambda>name.
       Return
         (text_line (show_text result @ '': Example \"'' @ show_text name @ ''\" ('' @
            show_text (case find_elem ex ''Time'' of Some t \<Rightarrow> map_of (attrs_of t) ''real'' | None \<Rightarrow> Some []) @
            '')''))))"

definition translate_to_text :: "xml \<Rightarrow> string res" where
  "translate_to_text et =
     bind_res (map_res node_to_text (findall et ''Test'')) (\<lambda>ts.
     bind_res (map_res example_text (findall et ''Example'')) (\<lambda>es. Return (concat ts @ concat es)))"

section \<open>The HTML report\<close>

definition cell :: "string \<Rightarrow> string" where
  "cell s = text_line (''<td>'' @ s @ ''</td>'')"

definition colored_cell :: "string \<Rightarrow> string \<Rightarrow> string" where
  "colored_cell color s = text_line (''<td style=\"color:'' @ color @ ''\">'' @ s @ ''</td>'')"

definition suite_heading :: "test_info \<Rightarrow> string" where
  "suite_heading i =
     (let result = show_text (t_result i); name = show_text (t_name i);
          time = show_text (t_time i); reason = show_text (t_reason i)
      in if t_result i = Some ''PASS''
         then text_line (''<h3 style=\"color:green\">'' @ result @ '': '' @ name @ '' ('' @ time @ '')</h3>'')
         else if t_result i = Some ''SKIP''
         then text_line (''<h3 style=\"color:#ff6600\">'' @ result @ '': '' @ name @ '' ('' @ time @ '') ('' @
                reason @ '')</h3>'')
         else text_line (''<h3 style=\"color:red\">'' @ result @ '': '' @ name @ '' ('' @ time @ '')</h3>''))"

text \<open>The table of a suite that crashed, was skipped or failed valgrind.\<close>

definition no_details_row :: "string option \<Rightarrow> string" where
  "no_details_row result =
     text_line ''<tr>'' @
     (if result = Some ''SKIP'' then colored_cell ''#ff6600'' (show_text result)
      else colored_cell ''red'' (show_text result)) @
     text_line ''</tr>''"

definition detail_field :: "xml \<Rightarrow> string \<Rightarrow> string \<Rightarrow> string \<Rightarrow> string res" where
  "detail_field details label t rest =
     bind_res (find_text details t) (\<lambda>x. Return (''<b>'' @ label @ '': </b>'' @ show_text x @ rest))"

definition details_cell :: "xml \<Rightarrow> string res" where
  "details_cell details =
     bind_res (detail_field details ''Message'' ''Message'' '', '') (\<lambda>m.
     bind_res (detail_field details ''Condition'' ''Condition'' '', '') (\<lambda>c.
     bind_res (detail_field details ''Actual'' ''Actual'' '', '') (\<lambda>a.
     bind_res (detail_field details ''Limit'' ''Limit'' '', '') (\<lambda>l.
     bind_res (detail_field details ''File'' ''File'' '', '') (\<lambda>f.
     bind_res (detail_field details ''Line'' ''Line'' []) (\<lambda>n.
       Return (''<td>'' @ m @ c @ a @ l @ f @ n @ text_line ''</td>'')))))))"

text \<open>The rows of a failed case; the last line of each is what the code writes.\<close>

fun failure_rows :: "test_info \<Rightarrow> bool \<Rightarrow> xml list \<Rightarrow> string res" where
  "failure_rows i first_row [] = Return []"
| "failure_rows i first_row (d # ds) =
     bind_res (details_cell d) (\<lambda>c.
     bind_res (failure_rows i False ds) (\<lambda>r.
       Return
         (text_line ''<tr>'' @
          (if first_row
           then colored_cell ''red'' (show_text (t_result i)) @ cell (show_text (t_name i)) @
                cell (show_text (t_time i))
           else cell [] @ cell [] @ cell []) @
          c @ text_line ''</td>'' @ r)))"

definition case_rows :: "xml \<Rightarrow> string res" where
  "case_rows c =
     bind_res (read_test c) (\<lambda>i.
       if t_result i = Some ''FAIL'' then failure_rows i True (findall c ''FailureDetails'')
       else Return
         (text_line ''<tr>'' @ colored_cell ''green'' (show_text (t_result i)) @
          cell (show_text (t_name i)) @ cell (show_text (t_time i)) @ cell (show_text (t_reason i)) @
          text_line ''</tr>''))"

definition no_cases :: "string option \<Rightarrow> bool" where
  "no_cases result \<longleftrightarrow> result \<in> {Some ''CRASH'', Some ''SKIP'', Some ''VALGR''}"

definition table_head :: "test_info \<Rightarrow> string" where
  "table_head i = suite_heading i @ text_line ''<table border=\"1\">'' @ text_line ''<th> Result </th>''"

definition cases_head :: "string option \<Rightarrow> string" where
  "cases_head result =
     text_line ''<th>Test Case Name</th>'' @ text_line ''<th> Time </th>'' @
     (if result = Some ''FAIL'' then text_line ''<th>Failure Details</th>'' else [])"

definition suite_html :: "xml \<Rightarrow> string res" where
  "suite_html s =
     bind_res (read_test s) (\<lambda>i.
       bind_res
         (if no_cases (t_result i) then Return (no_details_row (t_result i))
          else
            bind_res (map_res case_rows (findall s ''Test''))
              (\<lambda>rows. Return (cases_head (t_result i) @ concat rows)))
         (\<lambda>body. Return (table_head i @ body @ text_line ''</table>'')))"

definition example_html :: "xml \<Rightarrow> string res" where
  "example_html e =
     bind_res (read_test e) (\<lambda>i.
       Return
         (text_line ''<tr>'' @
          (if t_result i = Some ''PASS'' then colored_cell ''green'' (show_text (t_result i))
           else if t_result i = Some ''SKIP''
           then text_line (''<td style=\"color:#ff6600\">'' @ show_text (t_result i) @ ''</fd>'')
           else colored_cell ''red'' (show_text (t_result i))) @
          cell (show_text (t_name i)) @ cell (show_text (t_time i)) @ cell (show_text (t_reason i)) @
          text_line ''</tr>''))"

definition translate_to_html :: "xml \<Rightarrow> string res" where
  "translate_to_html et =
     bind_res (map_res suite_html (findall et ''Test'')) (\<lambda>suites.
     bind_res (map_res example_html (findall et ''Example'')) (\<lambda>examples.
       Return
         (text_line ''<html>'' @ text_line ''<body>'' @
          text_line ''<center><h1>ns-3 Test Results</h1></center>'' @
          text_line ''<h2>Test Suites</h2>'' @ concat suites @
          text_line ''<h2>Examples</h2>'' @ text_line ''<table border=\"1\">'' @
          text_line ''<th> Result </th>'' @ text_line ''<th>Example Name</th>'' @
          text_line ''<th>Elapsed Time</th>'' @ text_line ''<th>Details</th>'' @ concat examples @
          text_line ''</table>'' @ text_line ''</body>'' @ text_line ''</html>'')))"

section \<open>Well nested tags\<close>

text \<open>
  A reader of tags: outside a tag it waits for the opening bracket; the text of a tag, collected
  in reverse, opens an element or closes the innermost open one.
\<close>

definition read_tag :: "string \<Rightarrow> string list \<Rightarrow> string list option" where
  "read_tag t open_tags =
     (case t of
        CHR ''/'' # name \<Rightarrow> (case open_tags of n # ns \<Rightarrow> if n = name then Some ns else None | [] \<Rightarrow> None)
      | _ \<Rightarrow> Some (takeWhile (\<lambda>c. c \<noteq> CHR '' '') t # open_tags))"

fun scan_tags :: "string \<Rightarrow> string option \<Rightarrow> string list \<Rightarrow> (string option \<times> string list) option" where
  "scan_tags [] m open_tags = Some (m, open_tags)"
| "scan_tags (c # cs) None open_tags =
     (if c = CHR ''<'' then scan_tags cs (Some []) open_tags else scan_tags cs None open_tags)"
| "scan_tags (c # cs) (Some t) open_tags =
     (if c = CHR ''>''
      then (case read_tag (rev t) open_tags of None \<Rightarrow> None | Some open' \<Rightarrow> scan_tags cs None open')
      else scan_tags cs (Some (c # t)) open_tags)"

definition well_nested :: "string \<Rightarrow> bool" where
  "well_nested s \<longleftrightarrow> scan_tags s None [] = Some (None, [])"

text \<open>Pieces of a report that leave the open elements alone, change them, or can never be nested.\<close>

definition pushes :: "string list \<Rightarrow> string list \<Rightarrow> string \<Rightarrow> bool" where
  "pushes before after s \<longleftrightarrow> (\<forall>st. scan_tags s None (before @ st) = Some (None, after @ st))"

definition never_nested :: "string \<Rightarrow> bool" where
  "never_nested s \<longleftrightarrow> (\<forall>st. scan_tags s None st = None)"

abbreviation keeps :: "string \<Rightarrow> bool" where "keeps \<equiv> pushes [] []"

lemma scan_append:
  "scan_tags (xs @ ys) m st = (case scan_tags xs m st of None \<Rightarrow> None | Some (m', st') \<Rightarrow> scan_tags ys m' st')"
  by (induction xs m st rule: scan_tags.induct) (auto split: option.splits)

lemma pushes_append: "pushes a b s \<Longrightarrow> pushes b c t \<Longrightarrow> pushes a c (s @ t)"
  by (simp add: pushes_def scan_append)

lemma never_nested_append:
  "never_nested s \<Longrightarrow> never_nested (s @ t)"
  by (simp add: never_nested_def scan_append)

lemma pushes_never_nested: "keeps s \<Longrightarrow> never_nested t \<Longrightarrow> never_nested (s @ t)"
  by (simp add: never_nested_def pushes_def scan_append)

lemma keeps_concat: "\<forall>s \<in> set ss. keeps s \<Longrightarrow> keeps (concat ss)"
  by (induction ss) (auto simp: pushes_append, simp add: pushes_def)

lemma never_nested_concat:
  assumes "\<forall>s \<in> set ss. keeps s \<or> never_nested s" and "s \<in> set ss" and "never_nested s"
  shows "never_nested (concat ss)"
  using assms
  by (induction ss) (auto intro: never_nested_append pushes_never_nested)

lemma keeps_text: "CHR ''<'' \<notin> set s \<Longrightarrow> keeps s"
proof -
  assume "CHR ''<'' \<notin> set s"
  then have "scan_tags s None st = Some (None, st)" for st by (induction s) auto
  then show ?thesis by (simp add: pushes_def)
qed

section \<open>The report is well nested\<close>

text \<open>Texts without an opening bracket, throughout a tree.\<close>

abbreviation plain :: "string \<Rightarrow> bool" where "plain s \<equiv> CHR ''<'' \<notin> set s"

fun plain_xml :: "xml \<Rightarrow> bool" where
  "plain_xml (Elem t attrs txt cs) \<longleftrightarrow>
     (\<forall>(k, v) \<in> set attrs. plain v) \<and> plain (show_text txt) \<and> (\<forall>c \<in> set cs. plain_xml c)"

lemma plain_find: "plain_xml e \<Longrightarrow> c \<in> set (findall e t) \<Longrightarrow> plain_xml c"
  by (cases e) (auto simp: findall_def)

lemma plain_find_elem: "plain_xml e \<Longrightarrow> find_elem e t = Some c \<Longrightarrow> plain_xml c"
  by (auto simp: find_elem_def split: list.splits intro: plain_find [of e _ t])

lemma plain_text: "plain_xml e \<Longrightarrow> plain (show_text (text_of e))"
  by (cases e) simp

lemma plain_find_text: "plain_xml e \<Longrightarrow> find_text e t = Return x \<Longrightarrow> plain (show_text x)"
proof -
  assume "plain_xml e" and "find_text e t = Return x"
  then obtain c where "find_elem e t = Some c" "x = text_of c"
    by (auto simp: find_text_def split: option.splits)
  with plain_text [OF plain_find_elem [OF \<open>plain_xml e\<close>]] show ?thesis by blast
qed

lemma plain_attr: "plain_xml e \<Longrightarrow> plain (show_text (map_of (attrs_of e) k))"
  by (cases e) (auto simp: show_text_def split: option.splits dest: map_of_SomeD)

definition plain_info :: "test_info \<Rightarrow> bool" where
  "plain_info i \<longleftrightarrow>
     plain (show_text (t_result i)) \<and> plain (show_text (t_name i)) \<and>
     plain (show_text (t_reason i)) \<and> plain (show_text (t_time i))"

lemma plain_read_test:
  assumes "plain_xml e" and "read_test e = Return i"
  shows "plain_info i"
proof -
  from assms(2) obtain r n where r: "find_text e ''Result'' = Return r" and n: "find_text e ''Name'' = Return n"
    and i: "i = \<lparr>t_result = r, t_name = n,
        t_reason = (case find_elem e ''Reason'' of Some r \<Rightarrow> text_of r | None \<Rightarrow> Some []),
        t_time = (case find_elem e ''Time'' of Some t \<Rightarrow> map_of (attrs_of t) ''real'' | None \<Rightarrow> Some [])\<rparr>"
    by (auto simp: read_test_def bind_res_eq_Return)
  have "plain (show_text (t_reason i))"
    using plain_text plain_find_elem [OF assms(1)]
    by (cases "find_elem e ''Reason''") (auto simp: i show_text_def [of "Some []"])
  moreover have "plain (show_text (t_time i))"
    using plain_attr plain_find_elem [OF assms(1)]
    by (cases "find_elem e ''Time''") (auto simp: i show_text_def [of "Some []"])
  ultimately show ?thesis
    using plain_find_text [OF assms(1) r] plain_find_text [OF assms(1) n] by (simp add: plain_info_def i)
qed

lemma scan_plain: "plain s \<Longrightarrow> scan_tags s None st = Some (None, st)"
  using keeps_text [of s] by (simp add: pushes_def)

lemmas scan_piece = pushes_def never_nested_def scan_append scan_plain read_tag_def

lemma cell_keeps: "plain s \<Longrightarrow> keeps (cell s)"
  by (simp add: cell_def scan_piece)

lemma colored_cell_keeps:
  "plain s \<Longrightarrow> keeps (colored_cell ''green'' s)"
  "plain s \<Longrightarrow> keeps (colored_cell ''red'' s)"
  "plain s \<Longrightarrow> keeps (colored_cell ''#ff6600'' s)"
  by (simp_all add: colored_cell_def scan_piece)

lemma row_pieces:
  "pushes st (''tr'' # st) (text_line ''<tr>'')" "pushes (''tr'' # st) st (text_line ''</tr>'')"
  by (simp_all add: scan_piece)

lemma pushes_more: "keeps s \<Longrightarrow> pushes a a s"
  by (simp add: pushes_def)

lemma row_keeps: "keeps s \<Longrightarrow> keeps (text_line ''<tr>'' @ s @ text_line ''</tr>'')"
  by (rule pushes_append [OF row_pieces(1) pushes_append [OF pushes_more row_pieces(2)]])

lemma heading_keeps: "plain_info i \<Longrightarrow> keeps (suite_heading i)"
  by (auto simp: suite_heading_def plain_info_def Let_def scan_piece)

lemma no_details_keeps: "plain_info i \<Longrightarrow> keeps (no_details_row (t_result i))"
  unfolding no_details_row_def plain_info_def
  by (rule row_keeps) (use colored_cell_keeps [of "show_text (t_result i)"] in presburger)

definition failed_case :: "xml \<Rightarrow> bool" where
  "failed_case c \<longleftrightarrow>
     (\<exists>i. read_test c = Return i \<and> t_result i = Some ''FAIL'') \<and> findall c ''FailureDetails'' \<noteq> []"

definition broken_suite :: "xml \<Rightarrow> bool" where
  "broken_suite s \<longleftrightarrow>
     (\<exists>i. read_test s = Return i \<and> \<not> no_cases (t_result i)) \<and> (\<exists>c \<in> set (findall s ''Test''). failed_case c)"

definition skipped_example :: "xml \<Rightarrow> bool" where
  "skipped_example e \<longleftrightarrow> (\<exists>i. read_test e = Return i \<and> t_result i = Some ''SKIP'')"

lemma detail_field_keeps:
  assumes "plain_xml d" and "detail_field d label t rest = Return s" and "plain label" and "plain rest"
  shows "keeps s"
proof -
  from assms(2) obtain x where x: "find_text d t = Return x"
    and s: "s = ''<b>'' @ label @ '': </b>'' @ show_text x @ rest"
    by (auto simp: detail_field_def bind_res_eq_Return)
  show ?thesis using plain_find_text [OF assms(1) x] assms(3,4) by (simp add: s scan_piece)
qed

lemma data_keeps: "keeps s \<Longrightarrow> keeps (''<td>'' @ s @ text_line ''</td>'')"
  by (simp add: scan_piece)

lemma details_cell_keeps:
  assumes "plain_xml d" and "details_cell d = Return s"
  shows "keeps s"
proof -
  from assms(2) obtain m c a l f n where
    p: "detail_field d ''Message'' ''Message'' '', '' = Return m" "detail_field d ''Condition'' ''Condition'' '', '' = Return c"
      "detail_field d ''Actual'' ''Actual'' '', '' = Return a" "detail_field d ''Limit'' ''Limit'' '', '' = Return l"
      "detail_field d ''File'' ''File'' '', '' = Return f" "detail_field d ''Line'' ''Line'' [] = Return n"
    and s: "s = ''<td>'' @ m @ c @ a @ l @ f @ n @ text_line ''</td>''"
    by (auto simp: details_cell_def bind_res_eq_Return)
  note k = p [THEN detail_field_keeps [OF assms(1)]]
  have "keeps (m @ c @ a @ l @ f @ n)"
    by (intro pushes_append [where b = "[]"] k) simp_all
  from data_keeps [OF this] show ?thesis by (simp add: s)
qed

lemma unclosed_row:
  assumes "keeps s"
  shows "never_nested (text_line ''<tr>'' @ s @ text_line ''</td>'' @ r)"
  using assms by (simp add: scan_piece)

lemma failure_rows_never_nested:
  assumes "plain_info i" and "\<forall>d \<in> set (d # ds). plain_xml d" and "failure_rows i b (d # ds) = Return s"
  shows "never_nested s"
proof -
  from assms(3) obtain c r where c: "details_cell d = Return c"
    and s: "s = text_line ''<tr>'' @
          ((if b then colored_cell ''red'' (show_text (t_result i)) @ cell (show_text (t_name i)) @
                cell (show_text (t_time i)) else cell [] @ cell [] @ cell []) @ c) @ text_line ''</td>'' @ r"
    by (auto simp: bind_res_eq_Return)
  have "keeps c" using details_cell_keeps [OF _ c] assms(2) by simp
  moreover have "keeps (if b then colored_cell ''red'' (show_text (t_result i)) @ cell (show_text (t_name i)) @
                cell (show_text (t_time i)) else cell [] @ cell [] @ cell [])"
    using assms(1) by (auto simp: plain_info_def intro!: pushes_append [where b = "[]"] cell_keeps colored_cell_keeps)
  ultimately show ?thesis unfolding s by (intro unclosed_row pushes_append [where b = "[]"])
qed

lemma case_rows_nested:
  assumes "plain_xml c" and "case_rows c = Return s"
  shows "if failed_case c then never_nested s else keeps s"
proof -
  from assms(2) obtain i where i: "read_test c = Return i" by (auto simp: case_rows_def bind_res_eq_Return)
  note pl = plain_read_test [OF assms(1) i]
  show ?thesis
  proof (cases "t_result i = Some ''FAIL''")
    case True
    with assms(2) i have f: "failure_rows i True (findall c ''FailureDetails'') = Return s"
      by (simp add: case_rows_def)
    show ?thesis
    proof (cases "findall c ''FailureDetails''")
      case Nil
      with f have "s = []" by simp
      with Nil show ?thesis by (simp add: failed_case_def pushes_def)
    next
      case (Cons d ds)
      have "\<forall>x \<in> set (d # ds). plain_xml x" using plain_find [OF assms(1)] Cons by metis
      from failure_rows_never_nested [OF pl this f [unfolded Cons]] True i Cons
      show ?thesis by (auto simp: failed_case_def)
    qed
  next
    case False
    with assms(2) i have s: "s = text_line ''<tr>'' @ (colored_cell ''green'' (show_text (t_result i)) @
          cell (show_text (t_name i)) @ cell (show_text (t_time i)) @ cell (show_text (t_reason i))) @
          text_line ''</tr>''"
      by (simp add: case_rows_def)
    have "keeps s" unfolding s
      using pl by (intro row_keeps pushes_append [where b = "[]"] cell_keeps colored_cell_keeps)
        (simp_all add: plain_info_def)
    with False i show ?thesis by (auto simp: failed_case_def)
  qed
qed

text \<open>Parts of a report: nested exactly when none of the pieces is broken.\<close>

definition nested_unless :: "bool \<Rightarrow> string \<Rightarrow> bool" where
  "nested_unless broken s \<longleftrightarrow> (if broken then never_nested s else keeps s)"

lemma nested_unless_concat:
  assumes "map_res f xs = Return ss" and "\<And>x s. x \<in> set xs \<Longrightarrow> f x = Return s \<Longrightarrow> nested_unless (B x) s"
  shows "nested_unless (\<exists>x \<in> set xs. B x) (concat ss)"
  using assms
proof (induction xs arbitrary: ss)
  case Nil
  then show ?case by (simp add: nested_unless_def pushes_def)
next
  case (Cons x xs)
  then obtain s ts where s: "f x = Return s" and t: "map_res f xs = Return ts" and ss: "ss = s # ts"
    by (auto simp: bind_res_eq_Return)
  have "nested_unless (B x) s" using Cons.prems(2) s by simp
  moreover have "nested_unless (\<exists>x \<in> set xs. B x) (concat ts)"
    by (rule Cons.IH [OF t]) (rule Cons.prems(2), simp_all)
  ultimately show ?case
    by (auto simp: nested_unless_def ss never_nested_append pushes_never_nested pushes_append split: if_splits)
qed

lemma nested_unless_in:
  assumes "nested_unless broken s" and "pushes [] a pre" and "pushes a [] post"
  shows "nested_unless broken (pre @ s @ post)"
  using assms by (auto simp: nested_unless_def pushes_def never_nested_def scan_append)

lemma table_pieces:
  "pushes [] [''table''] (text_line ''<table border=\"1\">'')" "pushes [''table''] [] (text_line ''</table>'')"
  "keeps (text_line ''<th> Result </th>'')" "keeps (text_line ''<th>Test Case Name</th>'')"
  "keeps (text_line ''<th> Time </th>'')" "keeps (text_line ''<th>Failure Details</th>'')"
  by (simp_all add: scan_piece)

lemma head_pieces:
  assumes "plain_info i"
  shows "pushes [] [''table''] (table_head i)" "keeps (cases_head result)"
proof -
  show "pushes [] [''table''] (table_head i)"
    unfolding table_head_def
    by (rule pushes_append [OF heading_keeps [OF assms]], rule pushes_append [OF table_pieces(1)],
        rule pushes_more, rule table_pieces)
  show "keeps (cases_head result)"
    unfolding cases_head_def
    by (rule pushes_append [OF table_pieces(4)], rule pushes_append [OF table_pieces(5)])
      (use table_pieces(6) in \<open>simp add: pushes_def [of "[]" "[]" "[]"]\<close>)
qed

lemma suite_html_nested:
  assumes "plain_xml s" and "suite_html s = Return t"
  shows "nested_unless (broken_suite s) t"
proof -
  from assms(2) obtain i where i: "read_test s = Return i" by (auto simp: suite_html_def bind_res_eq_Return)
  note pl = plain_read_test [OF assms(1) i]
  show ?thesis
  proof (cases "no_cases (t_result i)")
    case True
    with assms(2) i have t: "t = table_head i @ no_details_row (t_result i) @ text_line ''</table>''"
      by (simp add: suite_html_def)
    have "nested_unless False (no_details_row (t_result i))"
      using no_details_keeps [OF pl] by (simp add: nested_unless_def)
    from nested_unless_in [OF this head_pieces(1) [OF pl] table_pieces(2)] True i show ?thesis
      by (simp only: t broken_suite_def) simp
  next
    case False
    with assms(2) i obtain rows where rows: "map_res case_rows (findall s ''Test'') = Return rows"
      and t: "t = (table_head i @ cases_head (t_result i)) @ concat rows @ text_line ''</table>''"
      by (auto simp: suite_html_def bind_res_eq_Return)
    have head: "pushes [] [''table''] (table_head i @ cases_head (t_result i))"
      by (rule pushes_append [OF head_pieces(1) [OF pl]], rule pushes_more, rule head_pieces(2) [OF pl])
    have "nested_unless (\<exists>c \<in> set (findall s ''Test''). failed_case c) (concat rows)"
      by (rule nested_unless_concat [OF rows])
        (use case_rows_nested plain_find [OF assms(1)] in \<open>unfold nested_unless_def, blast\<close>)
    from nested_unless_in [OF this head table_pieces(2)] show ?thesis
      using False i by (simp only: t broken_suite_def) simp
  qed
qed

lemma skip_cell_never:
  "never_nested (text_line ''<tr>'' @ text_line (''<td style=\"color:#ff6600\">SKIP</fd>'') @ r)"
  by (simp add: scan_piece)

lemma example_html_nested:
  assumes "plain_xml e" and "example_html e = Return s"
  shows "nested_unless (skipped_example e) s"
proof -
  from assms(2) obtain i where i: "read_test e = Return i" by (auto simp: example_html_def bind_res_eq_Return)
  note pl = plain_read_test [OF assms(1) i]
  show ?thesis
  proof (cases "t_result i = Some ''SKIP''")
    case True
    with assms(2) i have s: "s = text_line ''<tr>'' @ text_line ''<td style=\"color:#ff6600\">SKIP</fd>'' @
        cell (show_text (t_name i)) @ cell (show_text (t_time i)) @ cell (show_text (t_reason i)) @ text_line ''</tr>''"
      by (simp add: example_html_def show_text_def)
    from skip_cell_never True i show ?thesis by (simp only: s nested_unless_def skipped_example_def) auto
  next
    case False
    define c where "c = (if t_result i = Some ''PASS'' then ''green'' else ''red'')"
    from False assms(2) i have s: "s = text_line ''<tr>'' @ (colored_cell c (show_text (t_result i)) @
        cell (show_text (t_name i)) @ cell (show_text (t_time i)) @ cell (show_text (t_reason i))) @ text_line ''</tr>''"
      by (cases "t_result i = Some ''PASS''") (simp_all add: example_html_def c_def)
    have "keeps (colored_cell c (show_text (t_result i)))"
      using pl colored_cell_keeps [of "show_text (t_result i)"] unfolding c_def plain_info_def by presburger
    then have "keeps s" unfolding s
      using pl by (intro row_keeps pushes_append [where b = "[]"] cell_keeps) (simp_all add: plain_info_def)
    with False i show ?thesis by (simp add: nested_unless_def skipped_example_def)
  qed
qed

lemma report_pieces:
  "pushes [] [''body'', ''html'']
     (text_line ''<html>'' @ text_line ''<body>'' @ text_line ''<center><h1>ns-3 Test Results</h1></center>'' @
      text_line ''<h2>Test Suites</h2>'')"
  "pushes [''body'', ''html''] [''table'', ''body'', ''html'']
     (text_line ''<h2>Examples</h2>'' @ text_line ''<table border=\"1\">'' @ text_line ''<th> Result </th>'' @
      text_line ''<th>Example Name</th>'' @ text_line ''<th>Elapsed Time</th>'' @ text_line ''<th>Details</th>'')"
  "pushes [''table'', ''body'', ''html''] []
     (text_line ''</table>'' @ text_line ''</body>'' @ text_line ''</html>'')"
  by (simp_all add: scan_piece)

lemma nested_unless_pushes:
  "nested_unless broken s \<Longrightarrow> if broken then never_nested s else pushes a a s"
  by (simp add: nested_unless_def pushes_more)

text \<open>C18: When no text of the results file has an opening bracket, the tags of the HTML report are
  well nested exactly when no failed case of a suite that ran has failure details and no example
  was skipped: the rows of failure details are closed with the wrong tag, and the result cell of a
  skipped example with a tag that does not exist.\<close>

theorem translate_to_html_nested:
  assumes "plain_xml et" and "translate_to_html et = Return s"
  shows "well_nested s \<longleftrightarrow>
    (\<forall>suite \<in> set (findall et ''Test''). \<not> broken_suite suite) \<and>
    (\<forall>ex \<in> set (findall et ''Example''). \<not> skipped_example ex)"
proof -
  from assms(2) obtain su ex where su: "map_res suite_html (findall et ''Test'') = Return su"
    and ex: "map_res example_html (findall et ''Example'') = Return ex"
    and s: "s = (text_line ''<html>'' @ text_line ''<body>'' @ text_line ''<center><h1>ns-3 Test Results</h1></center>'' @
          text_line ''<h2>Test Suites</h2>'') @ concat su @
        (text_line ''<h2>Examples</h2>'' @ text_line ''<table border=\"1\">'' @ text_line ''<th> Result </th>'' @
          text_line ''<th>Example Name</th>'' @ text_line ''<th>Elapsed Time</th>'' @ text_line ''<th>Details</th>'') @
        concat ex @ (text_line ''</table>'' @ text_line ''</body>'' @ text_line ''</html>'')"
    (is "s = ?a @ _ @ ?b @ _ @ ?c")
    by (auto simp: translate_to_html_def bind_res_eq_Return)
  have "nested_unless (\<exists>x \<in> set (findall et ''Test''). broken_suite x) (concat su)"
    by (rule nested_unless_concat [OF su]) (use suite_html_nested plain_find [OF assms(1)] in blast)
  moreover have "nested_unless (\<exists>x \<in> set (findall et ''Example''). skipped_example x) (concat ex)"
    by (rule nested_unless_concat [OF ex]) (use example_html_nested plain_find [OF assms(1)] in blast)
  moreover have "scan_tags ?a None [] = Some (None, [''body'', ''html''])"
    using report_pieces(1) by (simp only: pushes_def) auto
  moreover have "scan_tags ?b None [''body'', ''html''] = Some (None, [''table'', ''body'', ''html''])"
    using report_pieces(2) by (simp only: pushes_def) (metis append_Nil2)
  moreover have "scan_tags ?c None [''table'', ''body'', ''html''] = Some (None, [])"
    using report_pieces(3) by (simp only: pushes_def) (metis append_Nil2)
  ultimately show ?thesis
    unfolding s well_nested_def nested_unless_def never_nested_def pushes_def scan_append [of ?a]
      scan_append [of "concat su"] scan_append [of ?b] scan_append [of "concat ex"]
    by (simp only: option.case prod.case append_Nil split: if_splits) auto
qed

definition leaf :: "string \<Rightarrow> string \<Rightarrow> xml" where
  "leaf t s = Elem t [] (Some s) []"

definition sample_example :: "string \<Rightarrow> xml" where
  "sample_example result =
     Elem ''Results'' [] None
       [Elem ''Example'' [] None [leaf ''Name'' ''echo'', leaf ''Result'' result, Elem ''Time'' [(''real'', ''0.1'')] None []]]"

theorem translate_to_html_nested_witness:
  "(\<exists>s. translate_to_html (sample_example ''PASS'') = Return s \<and> well_nested s) \<and>
   (\<exists>s. translate_to_html (sample_example ''SKIP'') = Return s \<and> \<not> well_nested s)"
proof -
  have pl: "plain_xml (sample_example r)" if "plain r" for r
    using that by (simp add: sample_example_def leaf_def show_text_def)
  have rd: "read_test e = Return \<lparr>t_result = Some r, t_name = Some ''echo'', t_reason = Some [], t_time = Some ''0.1''\<rparr>"
    if "e \<in> set (findall (sample_example r) ''Example'')" for e r
    using that by (simp add: sample_example_def findall_def leaf_def read_test_def find_text_def find_elem_def)
  have no: "findall (sample_example r) ''Test'' = []" for r
    by (simp add: sample_example_def findall_def)
  have ex: "\<exists>s. translate_to_html (sample_example r) = Return s" for r
    by (simp add: translate_to_html_def no sample_example_def findall_def leaf_def read_test_def
        find_text_def find_elem_def example_html_def)
  have some: "findall (sample_example r) ''Example'' \<noteq> []" for r
    by (simp add: sample_example_def findall_def)
  obtain s where s: "translate_to_html (sample_example ''PASS'') = Return s" using ex by blast
  have "plain ''PASS''" "plain ''SKIP''" by simp_all
  note plains = this [THEN pl]
  have "well_nested s"
    using translate_to_html_nested [OF plains(1) s] rd [of _ "''PASS''"] no
    by (auto simp: skipped_example_def)
  moreover obtain t where t: "translate_to_html (sample_example ''SKIP'') = Return t" using ex by blast
  moreover have "\<not> well_nested t"
    using translate_to_html_nested [OF plains(2) t] rd [of _ "''SKIP''"] some [of "''SKIP''"]
    by (cases "findall (sample_example ''SKIP'') ''Example''") (auto simp: skipped_example_def)
  ultimately show ?thesis using s by blast
qed

end
