(* ===== verification/Viz_Threads.thy ===== *)
theory Viz_Threads
  imports Prelude Complex_Main
begin

text \<open>
  The two threads of the visualizer (\<open>core.py\<close> of \<open>src/visualizer\<close>): the simulation thread,
  which runs the simulator up to a target time when the event \<open>go\<close> is set, and the thread of the
  user interface, whose timer updates the view, moves the target and sets \<open>go\<close>. They share a
  lock. An action is one step of either thread; while the view waits for the lock it runs the main
  loop, so other events of the user interface come in between.
\<close>

section \<open>State\<close>

text \<open>The points of \<open>SimulationThread.run\<close> between which the other thread may act.\<close>

datatype sim_pc = AtTop | WaitGo | Clearing | CheckQuit | Locking | Simulating | Exited

text \<open>The points of \<open>update_view_timeout\<close>; the last keeps the pause messages it took.\<close>

datatype view_pc = Trying | Updating | Finishing "string list"

datatype quit_pc = Staying | QuitSet | Joining | Left

datatype holder = Sim | View

record viz =
  lock_held :: "holder option"
  go :: bool
  quit :: bool
  now :: rat
  target_time :: rat
  sample_period :: rat
  speed :: rat
  sim :: sim_pc
  pause_messages :: "string list"
  model_updates :: nat
  playing :: bool
  timeout_id :: "nat option"
  sources :: "nat list"
  next_source :: nat
  stale_removals :: nat
  frames :: "(nat \<times> view_pc) list"
  quitting :: quit_pc

abbreviation SAMPLE_PERIOD :: rat where "SAMPLE_PERIOD \<equiv> 1 / 10"

section \<open>The simulation thread\<close>

text \<open>
  \<open>SimulatorRunUntil\<close> is C++: it returns at once when the time is not before the target, and stops
  at the target or earlier, at a pause or the end of the simulation. Its outcome, the new time and
  the pause messages, is an argument.
\<close>

definition run_until :: "viz \<Rightarrow> rat \<times> string list \<Rightarrow> bool" where
  "run_until s = (\<lambda>(t, msgs).
     if target_time s \<le> now s then t = now s \<and> msgs = [] else now s \<le> t \<and> t \<le> target_time s)"

definition sim_step :: "rat \<times> string list \<Rightarrow> viz \<Rightarrow> viz option" where
  "sim_step out s =
     (case sim s of
        AtTop \<Rightarrow> Some (s\<lparr>sim := if quit s then Exited else WaitGo\<rparr>)
      | WaitGo \<Rightarrow> if go s then Some (s\<lparr>sim := Clearing\<rparr>) else None
      | Clearing \<Rightarrow> Some (s\<lparr>go := False, sim := CheckQuit\<rparr>)
      | CheckQuit \<Rightarrow> Some (s\<lparr>sim := if quit s then Exited else Locking\<rparr>)
      | Locking \<Rightarrow>
          if lock_held s = None then Some (s\<lparr>lock_held := Some Sim, sim := Simulating\<rparr>) else None
      | Simulating \<Rightarrow>
          if run_until s out
          then Some (s\<lparr>now := fst out, pause_messages := pause_messages s @ snd out,
                       model_updates := model_updates s + 1, lock_held := None, sim := AtTop\<rparr>)
          else None
      | Exited \<Rightarrow> None)"

section \<open>The timer\<close>

text \<open>\<open>GLib.source_remove\<close> of a source that is not there any more is an error of GLib.\<close>

definition source_remove :: "nat \<Rightarrow> viz \<Rightarrow> viz" where
  "source_remove i s =
     (if i \<in> set (sources s) then s\<lparr>sources := removeAll i (sources s)\<rparr>
      else s\<lparr>stale_removals := stale_removals s + 1\<rparr>)"

definition remove_timeout :: "viz \<Rightarrow> viz" where
  "remove_timeout s = (case timeout_id s of Some i \<Rightarrow> source_remove i s | None \<Rightarrow> s)"

definition start_update_timer :: "viz \<Rightarrow> viz" where
  "start_update_timer s =
     (let s1 = remove_timeout s
      in s1\<lparr>sources := next_source s1 # sources s1, timeout_id := Some (next_source s1),
            next_source := next_source s1 + 1\<rparr>)"

text \<open>The toggle button calls its handler when its state changes.\<close>

definition on_play_button_toggled :: "viz \<Rightarrow> viz" where
  "on_play_button_toggled s = (if playing s then start_update_timer s else remove_timeout s)"

definition set_playing :: "bool \<Rightarrow> viz \<Rightarrow> viz" where
  "set_playing b s = (if playing s = b then s else on_play_button_toggled (s\<lparr>playing := b\<rparr>))"

definition speed_changed :: "rat \<Rightarrow> viz \<Rightarrow> viz" where
  "speed_changed v s = start_update_timer (s\<lparr>speed := v, sample_period := SAMPLE_PERIOD * v\<rparr>)"

section \<open>The thread of the user interface\<close>

text \<open>
  The innermost call of \<open>update_view_timeout\<close>: it takes the lock, updates the view and the target
  under the lock, and acts on the pause messages after it.
\<close>

definition view_step :: "viz \<Rightarrow> viz option" where
  "view_step s =
     (case frames s of
        [] \<Rightarrow> None
      | (i, Trying) # fs \<Rightarrow>
          if lock_held s = None then Some (s\<lparr>lock_held := Some View, frames := (i, Updating) # fs\<rparr>) else None
      | (i, Updating) # fs \<Rightarrow>
          Some (s\<lparr>target_time := now s + sample_period s, lock_held := None, pause_messages := [],
                  frames := (i, Finishing (pause_messages s)) # fs\<rparr>)
      | (i, Finishing msgs) # fs \<Rightarrow>
          let s1 = (if msgs \<noteq> [] then set_playing False s else s)
          in if playing s1 then Some (s1\<lparr>go := True, frames := fs\<rparr>)
             else Some (s1\<lparr>timeout_id := None, sources := removeAll i (sources s1), frames := fs\<rparr>))"

text \<open>Events are handled when no handler is active but calls that wait for the lock.\<close>

definition in_main_loop :: "viz \<Rightarrow> bool" where
  "in_main_loop s \<longleftrightarrow>
     quitting s = Staying \<and> (case frames s of [] \<Rightarrow> True | (i, pc) # fs \<Rightarrow> pc = Trying)"

datatype ui_action =
    TimerFires nat
  | ModelUpdate
  | PlayClicked
  | SpeedChanged rat
  | QuitRequested

definition ui_step :: "ui_action \<Rightarrow> viz \<Rightarrow> viz option" where
  "ui_step a s =
     (if \<not> in_main_loop s then None
      else
        (case a of
           TimerFires i \<Rightarrow>
             if i \<in> set (sources s) \<and> i \<notin> fst ` set (frames s)
             then Some (s\<lparr>frames := (i, Trying) # frames s\<rparr>) else None
         | ModelUpdate \<Rightarrow>
             if 0 < model_updates s \<and> lock_held s = None
             then Some (s\<lparr>model_updates := model_updates s - 1\<rparr>) else None
         | PlayClicked \<Rightarrow> Some (set_playing (\<not> playing s) s)
         | SpeedChanged v \<Rightarrow>
             if 1 / 100 \<le> v \<and> v \<le> 10 then Some (speed_changed v s) else None
         | QuitRequested \<Rightarrow>
             Some ((remove_timeout s)\<lparr>timeout_id := None, quit := True, quitting := QuitSet\<rparr>)))"

text \<open>The rest of \<open>_quit\<close>: \<open>go.set()\<close> and \<open>join()\<close>.\<close>

definition quit_step :: "viz \<Rightarrow> viz option" where
  "quit_step s =
     (case quitting s of
        QuitSet \<Rightarrow> Some (s\<lparr>go := True, quitting := Joining\<rparr>)
      | Joining \<Rightarrow> if sim s = Exited then Some (s\<lparr>quitting := Left\<rparr>) else None
      | _ \<Rightarrow> None)"

datatype viz_action = SimStep "rat \<times> string list" | ViewStep | UiStep ui_action | QuitStep

fun viz_step :: "viz_action \<Rightarrow> viz \<Rightarrow> viz option" where
  "viz_step (SimStep out) s = sim_step out s"
| "viz_step ViewStep s = (if quitting s = Staying then view_step s else None)"
| "viz_step (UiStep a) s = ui_step a s"
| "viz_step QuitStep s = quit_step s"

text \<open>After \<open>create_gui\<close>, which starts the timer for the initial speed, and the start of the thread.\<close>

definition new_viz :: viz where
  "new_viz =
     speed_changed 1
       \<lparr>lock_held = None, go = False, quit = False, now = 0, target_time = 0, sample_period = SAMPLE_PERIOD,
        speed = 1, sim = AtTop, pause_messages = [], model_updates = 0, playing = False,
        timeout_id = None, sources = [], next_source = 0, stale_removals = 0, frames = [],
        quitting = Staying\<rparr>"

inductive viz_run :: "viz \<Rightarrow> viz_action list \<Rightarrow> viz \<Rightarrow> bool" where
  start: "viz_run s [] s"
| continue: "viz_run s acts t \<Longrightarrow> viz_step a t = Some u \<Longrightarrow> viz_run s (acts @ [a]) u"

inductive_cases viz_run_snocE: "viz_run s (acts @ [a]) u"

fun run_actions :: "viz_action list \<Rightarrow> viz \<Rightarrow> viz option" where
  "run_actions [] s = Some s"
| "run_actions (a # acts) s = (case viz_step a s of None \<Rightarrow> None | Some t \<Rightarrow> run_actions acts t)"

section \<open>What every interleaving keeps\<close>

fun updating :: "(nat \<times> view_pc) list \<Rightarrow> bool" where
  "updating ((i, Updating) # fs) = True"
| "updating fs = False"

fun waiting :: "(nat \<times> view_pc) list \<Rightarrow> bool" where
  "waiting [] = True"
| "waiting ((i, pc) # fs) \<longleftrightarrow> pc = Trying \<and> waiting fs"

definition lock_inv :: "viz \<Rightarrow> bool" where
  "lock_inv s \<longleftrightarrow>
     (lock_held s = Some Sim \<longleftrightarrow> sim s = Simulating) \<and> (lock_held s = Some View \<longleftrightarrow> updating (frames s)) \<and>
     waiting (tl (frames s))"

definition time_inv :: "viz \<Rightarrow> bool" where
  "time_inv s \<longleftrightarrow>
     now s \<le> target_time s \<and> target_time s \<le> now s + 1 \<and> 0 < sample_period s \<and> sample_period s \<le> 1"

definition quit_inv :: "viz \<Rightarrow> bool" where
  "quit_inv s \<longleftrightarrow>
     (quit s \<longleftrightarrow> quitting s \<noteq> Staying) \<and>
     (quitting s = Staying \<or> waiting (frames s)) \<and>
     (quitting s = Joining \<longrightarrow> sim s = WaitGo \<longrightarrow> go s)"

definition viz_inv :: "viz \<Rightarrow> bool" where
  "viz_inv s \<longleftrightarrow> lock_inv s \<and> time_inv s \<and> quit_inv s"

text \<open>The timer functions change only the timer.\<close>

lemma source_remove_keeps [simp]:
  "lock_held (source_remove i s) = lock_held s" "go (source_remove i s) = go s"
  "quit (source_remove i s) = quit s" "now (source_remove i s) = now s"
  "target_time (source_remove i s) = target_time s" "sample_period (source_remove i s) = sample_period s"
  "sim (source_remove i s) = sim s" "frames (source_remove i s) = frames s"
  "quitting (source_remove i s) = quitting s" "playing (source_remove i s) = playing s"
  by (simp_all add: source_remove_def)

lemma remove_timeout_keeps [simp]:
  "lock_held (remove_timeout s) = lock_held s" "go (remove_timeout s) = go s"
  "quit (remove_timeout s) = quit s" "now (remove_timeout s) = now s"
  "target_time (remove_timeout s) = target_time s" "sample_period (remove_timeout s) = sample_period s"
  "sim (remove_timeout s) = sim s" "frames (remove_timeout s) = frames s"
  "quitting (remove_timeout s) = quitting s" "playing (remove_timeout s) = playing s"
  by (simp_all add: remove_timeout_def split: option.splits)

lemma start_update_timer_keeps [simp]:
  "lock_held (start_update_timer s) = lock_held s" "go (start_update_timer s) = go s"
  "quit (start_update_timer s) = quit s" "now (start_update_timer s) = now s"
  "target_time (start_update_timer s) = target_time s"
  "sample_period (start_update_timer s) = sample_period s"
  "sim (start_update_timer s) = sim s" "frames (start_update_timer s) = frames s"
  "quitting (start_update_timer s) = quitting s" "playing (start_update_timer s) = playing s"
  by (simp_all add: start_update_timer_def Let_def)

lemma set_playing_keeps [simp]:
  "lock_held (set_playing b s) = lock_held s" "go (set_playing b s) = go s"
  "quit (set_playing b s) = quit s" "now (set_playing b s) = now s"
  "target_time (set_playing b s) = target_time s" "sample_period (set_playing b s) = sample_period s"
  "sim (set_playing b s) = sim s" "frames (set_playing b s) = frames s"
  "quitting (set_playing b s) = quitting s" "playing (set_playing b s) = b"
  by (simp_all add: set_playing_def on_play_button_toggled_def)

lemmas viz_invs = viz_inv_def lock_inv_def time_inv_def quit_inv_def

lemma waiting_not_updating: "waiting fs \<Longrightarrow> \<not> updating fs"
  by (cases fs rule: waiting.cases) auto

lemma waiting_tl: "waiting fs \<Longrightarrow> waiting (tl fs)"
  by (cases fs rule: waiting.cases) auto

lemma viz_inv_new: "viz_inv new_viz"
  by (simp add: viz_invs new_viz_def speed_changed_def start_update_timer_def remove_timeout_def)

lemma sim_step_inv:
  assumes "viz_inv s" and "sim_step out s = Some t"
  shows "viz_inv t"
proof -
  have "lock_inv t" using assms
    by (cases "sim s") (auto simp: sim_step_def viz_inv_def lock_inv_def split: if_splits)
  moreover have "time_inv t" using assms
    by (cases "sim s") (auto simp: sim_step_def viz_inv_def time_inv_def run_until_def split: if_splits prod.splits)
  moreover have "quit_inv t" using assms
    by (cases "sim s") (auto simp: sim_step_def viz_inv_def quit_inv_def split: if_splits)
  ultimately show ?thesis by (simp add: viz_inv_def)
qed

lemma view_step_inv:
  assumes "viz_inv s" and "quitting s = Staying" and "view_step s = Some t"
  shows "viz_inv t"
proof (cases "frames s")
  case Nil
  with assms(3) show ?thesis by (simp add: view_step_def)
next
  case (Cons f fs)
  obtain i pc where f: "f = (i, pc)" by (cases f)
  have w: "waiting fs" using assms(1) Cons by (simp add: viz_invs)
  note u = waiting_not_updating [OF w] waiting_tl [OF w]
  show ?thesis
  proof (cases pc)
    case (Finishing msgs)
    define s1 where "s1 = (if msgs \<noteq> [] then set_playing False s else s)"
    have k: "lock_held s1 = lock_held s" "sim s1 = sim s" "now s1 = now s" "target_time s1 = target_time s"
      "sample_period s1 = sample_period s" "quit s1 = quit s" "quitting s1 = quitting s"
      by (simp_all add: s1_def)
    from assms(3) Cons f Finishing
    have t: "t = (if playing s1 then s1\<lparr>go := True, frames := fs\<rparr>
        else s1\<lparr>timeout_id := None, sources := removeAll i (sources s1), frames := fs\<rparr>)"
      by (simp add: view_step_def s1_def Let_def split: if_splits)
    have "lock_held s \<noteq> Some View" using assms(1) Cons f Finishing by (simp add: viz_invs)
    with assms(1,2) u k show ?thesis by (simp add: t viz_invs)
  next
    case Trying
    with assms Cons f w show ?thesis by (auto simp: view_step_def viz_invs split: if_splits)
  next
    case Updating
    with assms Cons f w show ?thesis by (auto simp: view_step_def viz_invs)
  qed
qed

lemma main_loop_waiting: "lock_inv s \<Longrightarrow> in_main_loop s \<Longrightarrow> waiting (frames s)"
  by (cases "frames s" rule: waiting.cases) (auto simp: lock_inv_def in_main_loop_def)

lemma viz_inv_same:
  assumes "viz_inv s" and "lock_held t = lock_held s" and "sim t = sim s" and "frames t = frames s"
    and "now t = now s" and "target_time t = target_time s" and "0 < sample_period t" and "sample_period t \<le> 1"
    and "quit t = quit s" and "quitting t = quitting s" and "go t = go s"
  shows "viz_inv t"
  using assms(1) unfolding viz_invs assms(2-6) assms(9-11) using assms(7,8) by blast

lemma ui_step_inv:
  assumes "viz_inv s" and "ui_step a s = Some t"
  shows "viz_inv t"
proof -
  have loop: "in_main_loop s" using assms(2) by (simp add: ui_step_def split: if_splits)
  then have q: "quitting s = Staying" by (simp add: in_main_loop_def)
  have w: "waiting (frames s)" using main_loop_waiting [OF _ loop] assms(1) by (simp add: viz_inv_def)
  note same = viz_inv_same [OF assms(1)]
  have sp: "0 < sample_period s" "sample_period s \<le> 1" using assms(1) by (simp_all add: viz_invs)
  show ?thesis
  proof (cases a)
    case (TimerFires i)
    with assms loop have t: "t = s\<lparr>frames := (i, Trying) # frames s\<rparr>"
      by (simp add: ui_step_def split: if_splits)
    from assms(1) q w waiting_not_updating [OF w] show ?thesis by (simp add: t viz_invs)
  next
    case ModelUpdate
    with assms loop have "t = s\<lparr>model_updates := model_updates s - 1\<rparr>"
      by (simp add: ui_step_def split: if_splits)
    then show ?thesis by (intro same) (simp_all add: sp)
  next
    case PlayClicked
    with assms loop have "t = set_playing (\<not> playing s) s" by (simp add: ui_step_def)
    then show ?thesis by (intro same) (simp_all add: sp)
  next
    case (SpeedChanged v)
    with assms loop have "t = speed_changed v s" "1 / 100 \<le> v" "v \<le> 10"
      by (simp_all add: ui_step_def split: if_splits)
    then show ?thesis by (intro same) (simp_all add: speed_changed_def)
  next
    case QuitRequested
    with assms loop have t: "t = (remove_timeout s)\<lparr>timeout_id := None, quit := True, quitting := QuitSet\<rparr>"
      by (simp add: ui_step_def)
    from assms(1) q w show ?thesis by (simp add: t viz_invs)
  qed
qed

lemma quit_step_inv: "viz_inv s \<Longrightarrow> quit_step s = Some t \<Longrightarrow> viz_inv t"
  by (cases "quitting s") (auto simp: quit_step_def viz_invs split: if_splits)

lemma viz_step_inv: "viz_inv s \<Longrightarrow> viz_step a s = Some t \<Longrightarrow> viz_inv t"
  by (cases a) (auto intro: sim_step_inv view_step_inv ui_step_inv quit_step_inv split: if_splits)

lemma viz_run_inv: "viz_run s acts t \<Longrightarrow> viz_inv s \<Longrightarrow> viz_inv t"
  by (induction rule: viz_run.induct) (auto intro: viz_step_inv)

text \<open>Only the simulation thread moves the time, forwards.\<close>

lemma viz_step_now:
  assumes "viz_step a s = Some t"
  shows "now s \<le> now t" and "now t \<noteq> now s \<Longrightarrow> sim s = Simulating"
proof -
  have "now s \<le> now t \<and> (now t \<noteq> now s \<longrightarrow> sim s = Simulating)"
  proof (cases a)
    case (SimStep out)
    with assms show ?thesis
      by (cases "sim s") (auto simp: sim_step_def run_until_def split: if_splits prod.splits)
  next
    case ViewStep
    with assms have v: "view_step s = Some t" by (simp split: if_splits)
    show ?thesis
    proof (cases "frames s")
      case Nil
      with v show ?thesis by (simp add: view_step_def)
    next
      case (Cons f fs)
      obtain i pc where "f = (i, pc)" by (cases f)
      with v Cons show ?thesis
        by (cases pc) (auto simp: view_step_def Let_def split: if_splits)
    qed
  next
    case (UiStep b)
    with assms show ?thesis
      by (cases b) (auto simp: ui_step_def speed_changed_def split: if_splits)
  next
    case QuitStep
    with assms show ?thesis by (cases "quitting s") (auto simp: quit_step_def split: if_splits)
  qed
  then show "now s \<le> now t" "now t \<noteq> now s \<Longrightarrow> sim s = Simulating" by auto
qed

lemma viz_run_now: "viz_run s acts t \<Longrightarrow> now s \<le> now t"
  by (induction rule: viz_run.induct) (auto dest: viz_step_now(1))

text \<open>C6: Whatever the interleaving of the two threads, the view is never updated while the
  simulator runs, since each holds the lock then; the simulated time never goes back, never passes
  the target and is never more than one second behind it; and the time only moves in the
  simulation thread.\<close>

theorem viz_threads_safe:
  assumes "viz_run new_viz acts s"
  shows "\<not> (sim s = Simulating \<and> updating (frames s)) \<and>
    (sim s = Simulating \<longrightarrow> lock_held s = Some Sim) \<and> (updating (frames s) \<longrightarrow> lock_held s = Some View) \<and>
    0 \<le> now s \<and> now s \<le> target_time s \<and> target_time s \<le> now s + 1 \<and>
    (\<forall>a t. viz_step a s = Some t \<longrightarrow> now s \<le> now t \<and> (now s < now t \<longrightarrow> sim s = Simulating))"
proof -
  have inv: "viz_inv s" using viz_run_inv [OF assms viz_inv_new] .
  then have l: "lock_held s = Some Sim \<longleftrightarrow> sim s = Simulating" "lock_held s = Some View \<longleftrightarrow> updating (frames s)"
    and t: "now s \<le> target_time s" "target_time s \<le> now s + 1"
    by (simp_all add: viz_invs)
  have "now new_viz = 0" by (simp add: new_viz_def speed_changed_def)
  with viz_run_now [OF assms] have "0 \<le> now s" by simp
  moreover have "now s \<le> now u \<and> (now s < now u \<longrightarrow> sim s = Simulating)" if "viz_step a s = Some u" for a u
    using viz_step_now [OF that] by auto
  moreover from l have "\<not> (sim s = Simulating \<and> updating (frames s))" by auto
  ultimately show ?thesis using l t by blast
qed

text \<open>The start of a simulated period: play, one timeout, and the simulation thread.\<close>

definition sample_actions :: "viz_action list" where
  "sample_actions =
     [SimStep (0, []), UiStep PlayClicked, UiStep (TimerFires 1), ViewStep, ViewStep, ViewStep,
      SimStep (0, []), SimStep (0, []), SimStep (0, []), SimStep (0, [])]"

lemma viz_run_append: "viz_run s acts t \<Longrightarrow> run_actions rest t = Some u \<Longrightarrow> viz_run s (acts @ rest) u"
proof (induction rest arbitrary: acts t)
  case (Cons a rest)
  then obtain v where v: "viz_step a t = Some v" and r: "run_actions rest v = Some u"
    by (auto split: option.splits)
  from Cons.IH [OF viz_run.continue [OF Cons.prems(1) v] r] show ?case by simp
qed simp

lemma viz_run_actions: "run_actions acts s = Some t \<Longrightarrow> viz_run s acts t"
  using viz_run_append [OF viz_run.start] by simp

theorem viz_threads_safe_witness:
  "\<exists>s. viz_run new_viz sample_actions s \<and> sim s = Simulating \<and> target_time s = 1 / 10 \<and>
     lock_held s = Some Sim \<and> now s \<le> target_time s"
proof -
  obtain s where r: "run_actions sample_actions new_viz = Some s" and s: "sim s = Simulating" "target_time s = 1 / 10"
    by (simp add: sample_actions_def new_viz_def speed_changed_def start_update_timer_def remove_timeout_def
        set_playing_def on_play_button_toggled_def source_remove_def ui_step_def in_main_loop_def
        view_step_def sim_step_def)
  from viz_threads_safe [OF viz_run_actions [OF r]] s viz_run_actions [OF r] show ?thesis by blast
qed

section \<open>Quitting\<close>

fun steps_to_exit :: "sim_pc \<Rightarrow> nat" where
  "steps_to_exit Exited = 0"
| "steps_to_exit AtTop = 1"
| "steps_to_exit CheckQuit = 1"
| "steps_to_exit Clearing = 2"
| "steps_to_exit Simulating = 2"
| "steps_to_exit WaitGo = 3"
| "steps_to_exit Locking = 3"

definition quit_rank :: "viz \<Rightarrow> nat" where
  "quit_rank s = (if quitting s = Left then 0 else Suc (steps_to_exit (sim s)))"

definition leaving :: "viz \<Rightarrow> bool" where
  "leaving s \<longleftrightarrow> viz_inv s \<and> (quitting s = Joining \<or> quitting s = Left \<and> sim s = Exited)"

lemma leaving_step:
  assumes "leaving s" and "viz_step a s = Some t"
  shows "leaving t \<and> quit_rank t < quit_rank s"
proof -
  have inv: "viz_inv t" using viz_step_inv assms by (auto simp: leaving_def)
  have q: "quitting s \<noteq> Staying" "quit s" using assms(1) by (auto simp: leaving_def viz_invs)
  show ?thesis
  proof (cases a)
    case (SimStep out)
    with assms q inv show ?thesis
      by (cases "sim s") (auto simp: sim_step_def leaving_def quit_rank_def split: if_splits prod.splits)
  next
    case QuitStep
    with assms inv show ?thesis by (auto simp: quit_step_def leaving_def quit_rank_def split: if_splits)
  qed (use assms q in \<open>simp_all add: ui_step_def in_main_loop_def\<close>)
qed

lemma leaving_enabled:
  assumes "leaving s" and "quitting s \<noteq> Left"
  shows "\<exists>a t. viz_step a s = Some t"
proof (cases "sim s = Exited")
  case True
  with assms show ?thesis by (intro exI [of _ QuitStep]) (auto simp: leaving_def quit_step_def)
next
  case False
  have j: "quitting s = Joining" and inv: "viz_inv s" using assms by (auto simp: leaving_def)
  then have w: "waiting (frames s)" and t: "now s \<le> target_time s" and g: "sim s = WaitGo \<longrightarrow> go s"
    and l: "lock_held s = Some Sim \<longleftrightarrow> sim s = Simulating" "lock_held s = Some View \<longleftrightarrow> updating (frames s)"
    by (simp_all add: viz_invs)
  have "sim s = Locking \<longrightarrow> lock_held s = None"
  proof (cases "lock_held s")
    case (Some h)
    with l waiting_not_updating [OF w] show ?thesis by (cases h) auto
  qed simp
  moreover have "run_until s (now s, [])" using t by (simp add: run_until_def)
  ultimately have "sim_step (now s, []) s \<noteq> None"
    using False g by (cases "sim s") (simp_all add: sim_step_def)
  then show ?thesis by (intro exI [of _ "SimStep (now s, [])"]) auto
qed

lemma leaving_run:
  "leaving s \<Longrightarrow> run_actions acts s = Some t \<Longrightarrow> leaving t \<and> length acts + quit_rank t \<le> quit_rank s"
proof (induction acts arbitrary: s)
  case (Cons a acts)
  then obtain u where u: "viz_step a s = Some u" and r: "run_actions acts u = Some t"
    by (auto split: option.splits)
  from leaving_step [OF Cons.prems(1) u] Cons.IH [OF _ r] show ?case by fastforce
qed simp

text \<open>C17: When the window is closed and the user interface waits in \<open>join\<close> for the simulation
  thread, at most four more steps are made, whatever the simulation thread was doing and wherever
  the simulator stops, some step is always possible until it has been joined, and the last one
  leaves the program: a thread that waits for \<open>go\<close> or the lock is never left waiting.\<close>

theorem viz_quit_terminates:
  assumes "viz_run new_viz acts s" and "quitting s = Joining" and "run_actions rest s = Some t"
  shows "length rest \<le> 4 \<and> ((\<exists>a u. viz_step a t = Some u) \<or> quitting t = Left)"
proof -
  have "leaving s" using viz_run_inv [OF assms(1) viz_inv_new] assms(2) by (simp add: leaving_def)
  from leaving_run [OF this assms(3)] have "leaving t" "length rest + quit_rank t \<le> quit_rank s" by auto
  moreover have "steps_to_exit (sim s) \<le> 3" by (cases "sim s") auto
  then have "quit_rank s \<le> 4" by (simp add: quit_rank_def)
  ultimately show ?thesis using leaving_enabled by auto
qed

theorem viz_quit_terminates_witness:
  "\<exists>acts s t. viz_run new_viz acts s \<and> quitting s = Joining \<and> sim s = WaitGo \<and>
     run_actions [SimStep (0, []), SimStep (0, []), SimStep (0, []), QuitStep] s = Some t \<and> quitting t = Left"
proof -
  let ?acts = "[SimStep (0, []), UiStep QuitRequested, QuitStep]"
  let ?rest = "[SimStep (0, []), SimStep (0, []), SimStep (0, []), QuitStep]"
  obtain s t where r: "run_actions ?acts new_viz = Some s" and s: "quitting s = Joining" "sim s = WaitGo"
    and m: "run_actions ?rest s = Some t" and left: "quitting t = Left"
    by (simp add: new_viz_def speed_changed_def start_update_timer_def remove_timeout_def
        source_remove_def ui_step_def in_main_loop_def sim_step_def quit_step_def)
  from viz_quit_terminates [OF viz_run_actions [OF r] s(1) m] have "(\<exists>a u. viz_step a t = Some u) \<or> quitting t = Left"
    by blast
  with viz_run_actions [OF r] s m left show ?thesis by blast
qed

section \<open>The timer is removed twice\<close>

text \<open>
  Pausing removes the source of the timer and keeps its identifier, so that the next start removes
  a source that is gone: play, pause and play again make GLib report an error.
\<close>

lemma play_pause_play:
  "\<exists>s. run_actions [UiStep PlayClicked, UiStep PlayClicked, UiStep PlayClicked] new_viz = Some s \<and>
     stale_removals s = 1"
  by (simp add: new_viz_def speed_changed_def start_update_timer_def remove_timeout_def set_playing_def
      on_play_button_toggled_def source_remove_def ui_step_def in_main_loop_def)

end
