(* ===== verification/Viz_Svg.thy ===== *)
theory Viz_Svg
  imports Prelude Complex_Main
begin

text \<open>
  The SVG canvas item of the visualizer (\<open>svgitem.py\<close> of \<open>src/visualizer\<close>): its position, its size and
  the scale at which it is painted. The image itself is rendered by librsvg and is here its natural
  size. Lengths are exact rationals.
\<close>

record svg_icon =
  svg_x :: rat
  svg_y :: rat
  scale_x :: rat
  scale_y :: rat
  handle_width :: rat
  handle_height :: rat
  svg_width :: rat
  svg_height :: rat
  custom_width :: "rat option"
  custom_height :: "rat option"

definition new_svg :: "rat \<Rightarrow> rat \<Rightarrow> rat \<times> rat \<Rightarrow> svg_icon" where
  "new_svg x y natural =
     \<lparr>svg_x = x, svg_y = y, scale_x = 1, scale_y = 1, handle_width = fst natural,
      handle_height = snd natural, svg_width = fst natural, svg_height = snd natural,
      custom_width = None, custom_height = None\<rparr>"

definition divide :: "rat \<Rightarrow> rat \<Rightarrow> rat res" where
  "divide a b = (if b = 0 then Raise ZeroDivisionError else Return (a / b))"

definition size_changed :: "svg_icon \<Rightarrow> svg_icon res" where
  "size_changed s =
     (case (custom_width s, custom_height s) of
        (None, None) \<Rightarrow>
          Return (s\<lparr>svg_width := handle_width s, svg_height := handle_height s, scale_x := 1, scale_y := 1\<rparr>)
      | (Some w, None) \<Rightarrow>
          bind_res (divide w (handle_width s)) (\<lambda>k.
            Return (s\<lparr>svg_width := w, scale_x := k, scale_y := k, svg_height := handle_height s * k\<rparr>))
      | (None, Some h) \<Rightarrow>
          bind_res (divide h (handle_height s)) (\<lambda>k.
            Return (s\<lparr>svg_height := h, scale_y := k, scale_x := k, svg_width := handle_width s * k\<rparr>))
      | (Some w, Some h) \<Rightarrow>
          bind_res (divide w (handle_width s)) (\<lambda>kx. bind_res (divide h (handle_height s)) (\<lambda>ky.
            Return (s\<lparr>svg_width := w, svg_height := h, scale_x := kx, scale_y := ky\<rparr>))))"

datatype svg_property = SvgX | SvgY | SvgWidth | SvgHeight | SvgOther string

definition do_set_property :: "svg_property \<Rightarrow> rat \<Rightarrow> svg_icon \<Rightarrow> svg_icon res" where
  "do_set_property p v s =
     (case p of
        SvgX \<Rightarrow> Return (s\<lparr>svg_x := v\<rparr>)
      | SvgY \<Rightarrow> Return (s\<lparr>svg_y := v\<rparr>)
      | SvgWidth \<Rightarrow> size_changed (s\<lparr>custom_width := Some v\<rparr>)
      | SvgHeight \<Rightarrow> size_changed (s\<lparr>custom_height := Some v\<rparr>)
      | SvgOther n \<Rightarrow> Raise AttributeError)"

text \<open>Reading the width puts back the natural size of the image.\<close>

definition do_get_property :: "svg_property \<Rightarrow> svg_icon \<Rightarrow> (rat \<times> svg_icon) res" where
  "do_get_property p s =
     (case p of
        SvgX \<Rightarrow> Return (svg_x s, s)
      | SvgY \<Rightarrow> Return (svg_y s, s)
      | SvgWidth \<Rightarrow>
          let t = s\<lparr>svg_width := handle_width s, svg_height := handle_height s\<rparr> in Return (svg_width t, t)
      | SvgHeight \<Rightarrow> Return (svg_height s, s)
      | SvgOther n \<Rightarrow> Raise AttributeError)"

text \<open>The cairo transformation of \<open>do_simple_paint\<close>, on a point of the image.\<close>

definition painted_at :: "svg_icon \<Rightarrow> rat \<times> rat \<Rightarrow> rat \<times> rat" where
  "painted_at s = (\<lambda>(u, v). (svg_x s + scale_x s * u, svg_y s + scale_y s * v))"

definition do_simple_update :: "svg_icon \<Rightarrow> rat \<times> rat \<times> rat \<times> rat" where
  "do_simple_update s = (svg_x s, svg_y s, svg_x s + svg_width s, svg_y s + svg_height s)"

definition do_simple_is_item_at :: "rat \<Rightarrow> rat \<Rightarrow> svg_icon \<Rightarrow> bool" where
  "do_simple_is_item_at x y s \<longleftrightarrow>
     \<not> ((x < svg_x s \<or> x > svg_x s + svg_width s) \<or> (y < svg_y s \<or> y > svg_y s + svg_height s))"

section \<open>The area of an icon is where it is painted\<close>

fun set_properties :: "(svg_property \<times> rat) list \<Rightarrow> svg_icon \<Rightarrow> svg_icon res" where
  "set_properties [] s = Return s"
| "set_properties ((p, v) # pvs) s = bind_res (do_set_property p v s) (set_properties pvs)"

definition svg_ok :: "svg_icon \<Rightarrow> bool" where
  "svg_ok s \<longleftrightarrow>
     0 < handle_width s \<and> 0 < handle_height s \<and> 0 < scale_x s \<and> 0 < scale_y s \<and>
     svg_width s = scale_x s * handle_width s \<and> svg_height s = scale_y s * handle_height s \<and>
     (\<forall>w. custom_width s = Some w \<longrightarrow> 0 < w \<and> svg_width s = w) \<and>
     (\<forall>h. custom_height s = Some h \<longrightarrow> 0 < h \<and> svg_height s = h) \<and>
     (custom_width s = None \<or> custom_height s = None \<longrightarrow> scale_x s = scale_y s) \<and>
     (custom_width s = None \<and> custom_height s = None \<longrightarrow> scale_x s = 1)"

lemma svg_ok_new: "0 < fst natural \<Longrightarrow> 0 < snd natural \<Longrightarrow> svg_ok (new_svg x y natural)"
  by (simp add: svg_ok_def new_svg_def)

definition good_value :: "svg_property \<times> rat \<Rightarrow> bool" where
  "good_value = (\<lambda>(p, v). (case p of SvgOther n \<Rightarrow> False | SvgX \<Rightarrow> True | SvgY \<Rightarrow> True | _ \<Rightarrow> 0 < v))"

lemma svg_ok_parts:
  assumes "svg_ok s"
  shows "0 < handle_width s" "0 < handle_height s" "custom_width s = Some w \<Longrightarrow> 0 < w"
    "custom_height s = Some h \<Longrightarrow> 0 < h"
  using assms by (simp_all add: svg_ok_def)

lemma size_changed_ok:
  assumes "0 < handle_width s" "0 < handle_height s" "\<And>w. custom_width s = Some w \<Longrightarrow> 0 < w"
    "\<And>h. custom_height s = Some h \<Longrightarrow> 0 < h"
  shows "\<exists>t. size_changed s = Return t \<and> svg_ok t \<and>
    handle_width t = handle_width s \<and> handle_height t = handle_height s \<and> svg_x t = svg_x s \<and>
    svg_y t = svg_y s \<and> custom_width t = custom_width s \<and> custom_height t = custom_height s"
  using assms
  by (cases "custom_width s"; cases "custom_height s")
    (simp_all add: size_changed_def svg_ok_def divide_def mult.commute)

lemma set_property_ok:
  assumes "svg_ok s" and "good_value (p, v)"
  shows "\<exists>t. do_set_property p v s = Return t \<and> svg_ok t \<and>
    handle_width t = handle_width s \<and> handle_height t = handle_height s \<and>
    svg_x t = (if p = SvgX then v else svg_x s) \<and> svg_y t = (if p = SvgY then v else svg_y s) \<and>
    custom_width t = (if p = SvgWidth then Some v else custom_width s) \<and>
    custom_height t = (if p = SvgHeight then Some v else custom_height s)"
proof (cases p)
  case SvgWidth
  with assms show ?thesis
    using size_changed_ok [of "s\<lparr>custom_width := Some v\<rparr>"] svg_ok_parts [OF assms(1)]
    by (simp add: do_set_property_def good_value_def)
next
  case SvgHeight
  with assms show ?thesis
    using size_changed_ok [of "s\<lparr>custom_height := Some v\<rparr>"] svg_ok_parts [OF assms(1)]
    by (simp add: do_set_property_def good_value_def)
qed (use assms in \<open>auto simp: do_set_property_def good_value_def svg_ok_def\<close>)

text \<open>The value last set of a property.\<close>

definition last_set :: "svg_property \<Rightarrow> (svg_property \<times> rat) list \<Rightarrow> rat option" where
  "last_set p pvs = map_of (rev pvs) p"

lemma last_set_simps [simp]:
  "last_set p [] = None"
  "last_set p ((q, v) # pvs) = (case last_set p pvs of Some w \<Rightarrow> Some w | None \<Rightarrow> if p = q then Some v else None)"
  by (auto simp: last_set_def map_add_def split: option.splits)

lemma set_properties_ok:
  assumes "svg_ok s" and "\<forall>pv\<in>set pvs. good_value pv"
  shows "\<exists>t. set_properties pvs s = Return t \<and> svg_ok t \<and>
    handle_width t = handle_width s \<and> handle_height t = handle_height s \<and>
    svg_x t = (case last_set SvgX pvs of Some v \<Rightarrow> v | None \<Rightarrow> svg_x s) \<and>
    svg_y t = (case last_set SvgY pvs of Some v \<Rightarrow> v | None \<Rightarrow> svg_y s) \<and>
    custom_width t = (case last_set SvgWidth pvs of Some v \<Rightarrow> Some v | None \<Rightarrow> custom_width s) \<and>
    custom_height t = (case last_set SvgHeight pvs of Some v \<Rightarrow> Some v | None \<Rightarrow> custom_height s)"
  using assms
proof (induction pvs arbitrary: s)
  case (Cons pv pvs)
  obtain p v where pv: "pv = (p, v)" by (cases pv)
  from Cons.prems pv set_property_ok [of s p v] obtain u where
    u: "do_set_property p v s = Return u" "svg_ok u" "handle_width u = handle_width s"
      "handle_height u = handle_height s" "svg_x u = (if p = SvgX then v else svg_x s)"
      "svg_y u = (if p = SvgY then v else svg_y s)"
      "custom_width u = (if p = SvgWidth then Some v else custom_width s)"
      "custom_height u = (if p = SvgHeight then Some v else custom_height s)" by auto
  from Cons.IH [OF u(2)] Cons.prems(2) obtain t where
    t: "set_properties pvs u = Return t" "svg_ok t" "handle_width t = handle_width u"
      "handle_height t = handle_height u"
      "svg_x t = (case last_set SvgX pvs of Some v \<Rightarrow> v | None \<Rightarrow> svg_x u)"
      "svg_y t = (case last_set SvgY pvs of Some v \<Rightarrow> v | None \<Rightarrow> svg_y u)"
      "custom_width t = (case last_set SvgWidth pvs of Some v \<Rightarrow> Some v | None \<Rightarrow> custom_width u)"
      "custom_height t = (case last_set SvgHeight pvs of Some v \<Rightarrow> Some v | None \<Rightarrow> custom_height u)"
    by auto
  show ?case
    by (rule exI [of _ t], simp add: pv u(1) t(1-4) u(3,4), simp add: t(5-8) u(5-8) split: option.splits)
qed simp

text \<open>The rectangle that \<open>do_simple_is_item_at\<close> tests is the one the image is painted on.\<close>

lemma painted_area:
  assumes "svg_ok s"
  shows "do_simple_is_item_at x y s \<longleftrightarrow>
    (\<exists>u v. 0 \<le> u \<and> u \<le> handle_width s \<and> 0 \<le> v \<and> v \<le> handle_height s \<and> painted_at s (u, v) = (x, y))"
proof
  assume at: "do_simple_is_item_at x y s"
  let ?u = "(x - svg_x s) / scale_x s" and ?v = "(y - svg_y s) / scale_y s"
  have "0 \<le> ?u \<and> ?u \<le> handle_width s \<and> 0 \<le> ?v \<and> ?v \<le> handle_height s \<and> painted_at s (?u, ?v) = (x, y)"
    using assms at
    by (auto simp: do_simple_is_item_at_def svg_ok_def painted_at_def divide_le_eq mult.commute)
  then show "\<exists>u v. 0 \<le> u \<and> u \<le> handle_width s \<and> 0 \<le> v \<and> v \<le> handle_height s \<and> painted_at s (u, v) = (x, y)"
    by blast
next
  assume "\<exists>u v. 0 \<le> u \<and> u \<le> handle_width s \<and> 0 \<le> v \<and> v \<le> handle_height s \<and> painted_at s (u, v) = (x, y)"
  with assms show "do_simple_is_item_at x y s"
    by (auto simp: do_simple_is_item_at_def svg_ok_def painted_at_def mult_left_mono not_less
        dest: mult_nonneg_nonneg [of "scale_x s"] mult_nonneg_nonneg [of "scale_y s"])
qed

text \<open>The size of an icon follows the properties set last, both dimensions with one set keep the
  natural proportions, and the area that reacts to the pointer is exactly the area painted. Reading
  the width answers the natural width and makes it the size of the icon.\<close>

theorem svg_area_correct:
  assumes "0 < w0" and "0 < h0" and "\<forall>pv\<in>set pvs. good_value pv"
  shows "\<exists>s. set_properties pvs (new_svg x0 y0 (w0, h0)) = Return s \<and>
    (svg_width s, svg_height s) =
      (case (last_set SvgWidth pvs, last_set SvgHeight pvs) of
         (None, None) \<Rightarrow> (w0, h0)
       | (Some w, None) \<Rightarrow> (w, h0 * (w / w0))
       | (None, Some h) \<Rightarrow> (w0 * (h / h0), h)
       | (Some w, Some h) \<Rightarrow> (w, h)) \<and>
    (\<forall>x y. do_simple_is_item_at x y s \<longleftrightarrow>
       (\<exists>u v. 0 \<le> u \<and> u \<le> w0 \<and> 0 \<le> v \<and> v \<le> h0 \<and> painted_at s (u, v) = (x, y))) \<and>
    do_get_property SvgWidth s = Return (w0, s\<lparr>svg_width := w0, svg_height := h0\<rparr>)"
proof -
  let ?s = "new_svg x0 y0 (w0, h0)"
  have ok: "svg_ok ?s" using assms by (intro svg_ok_new) simp_all
  have new: "handle_width ?s = w0" "handle_height ?s = h0" "custom_width ?s = None" "custom_height ?s = None"
    by (simp_all add: new_svg_def)
  from set_properties_ok [OF ok assms(3)] obtain s where
    s: "set_properties pvs ?s = Return s" "svg_ok s" "handle_width s = w0" "handle_height s = h0"
      "custom_width s = last_set SvgWidth pvs" "custom_height s = last_set SvgHeight pvs"
    by (auto simp: new split: option.splits)
  have size: "(svg_width s, svg_height s) =
      (case (custom_width s, custom_height s) of
         (None, None) \<Rightarrow> (w0, h0)
       | (Some w, None) \<Rightarrow> (w, h0 * (w / w0))
       | (None, Some h) \<Rightarrow> (w0 * (h / h0), h)
       | (Some w, Some h) \<Rightarrow> (w, h))"
    using s(2) assms(1,2) by (auto simp: svg_ok_def s(3,4) split: option.splits)
  show ?thesis
    by (rule exI [of _ s])
      (use s size painted_area [OF s(2)] in \<open>simp add: do_get_property_def Let_def\<close>)
qed

theorem svg_area_correct_witness:
  "\<exists>s. set_properties [(SvgWidth, 30)] (new_svg 0 0 (60, 40)) = Return s \<and>
     (svg_width s, svg_height s) = (30, 20)"
  using svg_area_correct [of 60 40 "[(SvgWidth, 30)]" 0 0] by (auto simp: good_value_def)

end
