(* ===== verification/Viz_Nodes.thy ===== *)
theory Viz_Nodes
  imports Viz_Svg "HOL-Library.Word"
begin

text \<open>
  The nodes of the visualizer (\<open>core.py\<close> and \<open>base.py\<close> of \<open>src/visualizer\<close>): their appearance,
  selection and position on the canvas, the nodes whose transmissions are shown, and dragging a
  node with the mouse. Coordinates are exact rationals; the canvas items are the properties that
  the code sets. The mobility models of ns-3 are a map from node indices to positions.
\<close>

unbundle bit_operations_syntax

type_synonym point = "rat \<times> rat"

section \<open>Coordinates\<close>

abbreviation PIXELS_PER_METER :: rat where "PIXELS_PER_METER \<equiv> 3"

definition transform_distance_simulation_to_canvas :: "rat \<Rightarrow> rat" where
  "transform_distance_simulation_to_canvas d = d * PIXELS_PER_METER"

definition transform_point_simulation_to_canvas :: "point \<Rightarrow> point" where
  "transform_point_simulation_to_canvas = (\<lambda>(x, y). (x * PIXELS_PER_METER, y * PIXELS_PER_METER))"

definition transform_distance_canvas_to_simulation :: "rat \<Rightarrow> rat" where
  "transform_distance_canvas_to_simulation d = d / PIXELS_PER_METER"

definition transform_point_canvas_to_simulation :: "point \<Rightarrow> point" where
  "transform_point_canvas_to_simulation = (\<lambda>(x, y). (x / PIXELS_PER_METER, y / PIXELS_PER_METER))"

section \<open>Nodes\<close>

text \<open>The properties that \<open>_update_appearance\<close> sets on the canvas item.\<close>

record appearance =
  radius :: rat
  fill_color_rgba :: "32 word"
  line_width :: rat
  stroke_color :: string

text \<open>A canvas label exists once a label has been set.\<close>

record node =
  node_index :: nat
  is_selected :: bool
  is_highlighted :: bool
  color :: "32 word"
  node_size :: rat
  label :: "string option"
  label_pos :: point
  svg_item :: "svg_icon option"
  svg_align :: "rat \<times> rat"
  center :: point
  shown :: appearance

definition appearance_of :: "node \<Rightarrow> appearance" where
  "appearance_of n =
     (let r = transform_distance_simulation_to_canvas (node_size n);
          alpha = (if svg_item n \<noteq> None then 0x80 else 0xff)
      in \<lparr>radius = r, fill_color_rgba = (color n AND 0xffffff00) OR alpha,
          line_width = (if is_selected n then r * (3 / 10) else r * (15 / 100)),
          stroke_color = (if is_highlighted n then ''yellow'' else ''black'')\<rparr>)"

definition update_svg_position :: "rat \<times> rat \<Rightarrow> point \<Rightarrow> svg_icon \<Rightarrow> svg_icon" where
  "update_svg_position = (\<lambda>(align_x, align_y) (x, y) s.
     s\<lparr>svg_x := x - (1 - align_x) * svg_width s, svg_y := y - (1 - align_y) * svg_height s\<rparr>)"

text \<open>\<open>set_position\<close>, the part on the node's own items.\<close>

definition move_node :: "point \<Rightarrow> node \<Rightarrow> node" where
  "move_node p n =
     (let n1 = n\<lparr>center := p, svg_item := map_option (update_svg_position (svg_align n) p) (svg_item n)\<rparr>
      in if label n = None then n1 else n1\<lparr>label_pos := (fst p, snd p + node_size n * 3)\<rparr>)"

text \<open>A set label is put at the node again.\<close>

definition update_appearance :: "node \<Rightarrow> node" where
  "update_appearance n =
     (let n1 = n\<lparr>shown := appearance_of n\<rparr>
      in if label n = None then n1 else move_node (center n) n1)"

definition new_node :: "nat \<Rightarrow> node" where
  "new_node i =
     update_appearance
       \<lparr>node_index = i, is_selected = False, is_highlighted = False, color = 0x808080ff, node_size = 1,
        label = None, label_pos = (0, 0), svg_item = None, svg_align = (0, 0), center = (0, 0),
        shown = \<lparr>radius = 0, fill_color_rgba = 0, line_width = 0, stroke_color = []\<rparr>\<rparr>"

definition set_selected :: "bool \<Rightarrow> node \<Rightarrow> node" where
  "set_selected b n = update_appearance (n\<lparr>is_selected := b\<rparr>)"

definition set_highlighted :: "bool \<Rightarrow> node \<Rightarrow> node" where
  "set_highlighted b n = update_appearance (n\<lparr>is_highlighted := b\<rparr>)"

definition set_size :: "rat \<Rightarrow> node \<Rightarrow> node" where
  "set_size r n = update_appearance (n\<lparr>node_size := r\<rparr>)"

text \<open>A named color is parsed by Gdk into three 16-bit components.\<close>

definition rgb_color :: "16 word \<times> 16 word \<times> 16 word \<Rightarrow> 32 word" where
  "rgb_color = (\<lambda>(r, g, b).
     push_bit 24 (ucast (drop_bit 8 r)) OR push_bit 16 (ucast (drop_bit 8 g)) OR
     push_bit 8 (ucast (drop_bit 8 b)) OR 0xff)"

definition set_color :: "32 word \<Rightarrow> node \<Rightarrow> node" where
  "set_color c n = update_appearance (n\<lparr>color := c\<rparr>)"

text \<open>\<open>basestring\<close> is gone in Python 3, so that the assertion of \<open>set_label\<close> cannot be evaluated.\<close>

definition set_label :: "string \<Rightarrow> node \<Rightarrow> node res" where
  "set_label s n = Raise (NameError ''basestring'')"

text \<open>
  \<open>svgitem\<close> is None when its import failed. The image is loaded by librsvg; its natural size is an
  argument. Without a width and a height nothing has been changed when the error is raised.
\<close>

definition set_optional :: "svg_property \<Rightarrow> rat option \<Rightarrow> svg_icon \<Rightarrow> svg_icon res" where
  "set_optional p v s =
     (case v of None \<Rightarrow> Return s | Some d \<Rightarrow> do_set_property p (transform_distance_simulation_to_canvas d) s)"

definition set_svg_icon ::
  "bool \<Rightarrow> rat \<times> rat \<Rightarrow> rat option \<Rightarrow> rat option \<Rightarrow> rat \<times> rat \<Rightarrow> node \<Rightarrow> node res" where
  "set_svg_icon svgitem natural width height align n =
     (if width = None \<and> height = None then Raise (ValueError ''either width or height must be given'')
      else if \<not> svgitem then Raise AttributeError
      else
        bind_res (set_optional SvgWidth width (new_svg (fst (center n)) (snd (center n)) natural)) (\<lambda>s.
        bind_res (set_optional SvgHeight height s) (\<lambda>t.
          Return (update_appearance
            (n\<lparr>svg_item := Some (update_svg_position align (center n) t), svg_align := align\<rparr>)))))"

section \<open>The visualizer\<close>

datatype show_mode = Show_all | Show_none | Show_selected

record drag_state =
  canvas0 :: point
  sim0 :: point

record visualizer =
  nodes :: "(nat \<times> node) list"
  selected_node :: "nat option"
  show_transmissions_mode :: show_mode
  nodes_of_interest :: "nat list"
  bounds :: "rat \<times> rat \<times> rat \<times> rat"
  mobility :: "nat \<Rightarrow> point option"
  node_drag_state :: "drag_state option"
  node_count :: nat

definition interest_of :: "visualizer \<Rightarrow> nat list" where
  "interest_of v =
     (case show_transmissions_mode v of
        Show_all \<Rightarrow> [0..<node_count v]
      | Show_none \<Rightarrow> []
      | Show_selected \<Rightarrow> (case selected_node v of None \<Rightarrow> [] | Some i \<Rightarrow> [i]))"

definition set_show_transmissions_mode :: "show_mode \<Rightarrow> visualizer \<Rightarrow> visualizer" where
  "set_show_transmissions_mode m v =
     (let v1 = v\<lparr>show_transmissions_mode := m\<rparr> in v1\<lparr>nodes_of_interest := interest_of v1\<rparr>)"

definition new_visualizer :: "nat \<Rightarrow> (nat \<Rightarrow> point option) \<Rightarrow> visualizer" where
  "new_visualizer n mob =
     set_show_transmissions_mode Show_all
       \<lparr>nodes = [], selected_node = None, show_transmissions_mode = Show_all, nodes_of_interest = [],
        bounds = (-10000, -10000, 10000, 10000), mobility = mob, node_drag_state = None,
        node_count = n\<rparr>"

text \<open>\<open>get_node\<close> creates the view of a node when it is asked for first.\<close>

definition get_node :: "nat \<Rightarrow> visualizer \<Rightarrow> visualizer" where
  "get_node i v =
     (case map_of (nodes v) i of
        Some n \<Rightarrow> v
      | None \<Rightarrow> v\<lparr>nodes := AList.update i (new_node i) (nodes v)\<rparr>)"

definition change_node :: "nat \<Rightarrow> (node \<Rightarrow> node) \<Rightarrow> visualizer \<Rightarrow> visualizer" where
  "change_node i f v =
     (case map_of (nodes v) i of
        Some n \<Rightarrow> v\<lparr>nodes := AList.update i (f n) (nodes v)\<rparr>
      | None \<Rightarrow> v)"

definition set_position :: "nat \<Rightarrow> point \<Rightarrow> visualizer \<Rightarrow> visualizer" where
  "set_position i p v =
     (let v1 = change_node i (move_node p) v; (x, y) = p; (min_x, min_y, max_x, max_y) = bounds v1
      in v1\<lparr>bounds := (min x min_x, min y min_y, max x max_x, max y max_y)\<rparr>)"

text \<open>\<open>get_position\<close> of the view of a node.\<close>

definition position_of :: "nat \<Rightarrow> visualizer \<Rightarrow> point" where
  "position_of i v = (case map_of (nodes v) i of Some n \<Rightarrow> center n | None \<Rightarrow> (0, 0))"

text \<open>What \<open>select_node\<close> may be called with: None, an index, a node of ns-3, a node view, or else.\<close>

datatype node_ref = NoNode | NodeIndex nat | Ns3Node nat | NodeView nat | OtherObject

definition resolve_node :: "node_ref \<Rightarrow> visualizer \<Rightarrow> nat option res" where
  "resolve_node r v =
     (case r of
        NoNode \<Rightarrow> Return None
      | NodeView i \<Rightarrow> Return (Some i)
      | NodeIndex i \<Rightarrow> if map_of (nodes v) i = None then Raise KeyError else Return (Some i)
      | Ns3Node i \<Rightarrow> if map_of (nodes v) i = None then Raise KeyError else Return (Some i)
      | OtherObject \<Rightarrow> Raise TypeError)"

definition mark_selected :: "bool \<Rightarrow> nat option \<Rightarrow> visualizer \<Rightarrow> visualizer" where
  "mark_selected b i v = (case i of None \<Rightarrow> v | Some k \<Rightarrow> change_node k (set_selected b) v)"

definition select_node :: "node_ref \<Rightarrow> visualizer \<Rightarrow> visualizer res" where
  "select_node r v =
     bind_res (resolve_node r v) (\<lambda>i.
       if i = selected_node v then Return v
       else
         (let v1 = mark_selected False (selected_node v) v;
              v2 = v1\<lparr>selected_node := i\<rparr>;
              v3 = mark_selected True i v2
          in Return
               (if show_transmissions_mode v3 = Show_selected then v3\<lparr>nodes_of_interest := interest_of v3\<rparr>
                else v3)))"

section \<open>Dragging\<close>

definition begin_node_drag :: "nat \<Rightarrow> point \<Rightarrow> visualizer \<Rightarrow> visualizer" where
  "begin_node_drag i pointer v =
     (case mobility v i of
        None \<Rightarrow> v
      | Some pos \<Rightarrow>
          if node_drag_state v \<noteq> None then v
          else v\<lparr>node_drag_state := Some \<lparr>canvas0 = pointer, sim0 = pos\<rparr>\<rparr>)"

definition node_drag_motion :: "nat \<Rightarrow> point \<Rightarrow> visualizer \<Rightarrow> visualizer" where
  "node_drag_motion i pointer v =
     (case (mobility v i, node_drag_state v) of
        (Some _, Some d) \<Rightarrow>
          let dx = fst pointer - fst (canvas0 d); dy = snd pointer - snd (canvas0 d);
              pos = (fst (sim0 d) + transform_distance_canvas_to_simulation dx,
                     snd (sim0 d) + transform_distance_canvas_to_simulation dy)
          in set_position i (transform_point_simulation_to_canvas pos)
               (v\<lparr>mobility := (mobility v)(i \<mapsto> pos)\<rparr>)
      | _ \<Rightarrow> v)"

definition end_node_drag :: "visualizer \<Rightarrow> visualizer" where
  "end_node_drag v = v\<lparr>node_drag_state := None\<rparr>"

text \<open>\<open>_update_node_positions\<close>, which every update of the view calls.\<close>

definition update_node_positions :: "visualizer \<Rightarrow> visualizer" where
  "update_node_positions v =
     fold (\<lambda>i v. case mobility v i of
                   Some pos \<Rightarrow> set_position i (transform_point_simulation_to_canvas pos) v
                 | None \<Rightarrow> v)
       (dict_keys (nodes v)) v"

section \<open>Events\<close>

datatype mouse_button = LeftButton | MiddleButton | RightButton

datatype viz_event =
    ShowMode show_mode
  | NodeWanted nat
  | CanvasPressed mouse_button
  | NodePressed nat mouse_button point
  | NodeReleased nat mouse_button
  | PointerMoved nat point
  | PointerEntered nat
  | PointerLeft nat
  | SizeChanged rat
  | ColorSet nat "32 word"
  | IconSet nat bool "rat \<times> rat" "rat option" "rat option" "rat \<times> rat"
  | LabelSet nat string
  | SelectCalled node_ref
  | PositionsUpdated

definition change_node_res :: "nat \<Rightarrow> (node \<Rightarrow> node res) \<Rightarrow> visualizer \<Rightarrow> visualizer res" where
  "change_node_res i f v =
     (case map_of (nodes v) i of
        Some n \<Rightarrow> bind_res (f n) (\<lambda>m. Return (v\<lparr>nodes := AList.update i m (nodes v)\<rparr>))
      | None \<Rightarrow> Return v)"

fun viz_event_step :: "viz_event \<Rightarrow> visualizer \<Rightarrow> visualizer res" where
  "viz_event_step (ShowMode m) v = Return (set_show_transmissions_mode m v)"
| "viz_event_step (NodeWanted i) v = Return (get_node i v)"
| "viz_event_step (CanvasPressed b) v = (if b = LeftButton then select_node NoNode v else Return v)"
| "viz_event_step (NodePressed i b p) v =
     (case b of
        LeftButton \<Rightarrow> select_node (NodeView i) v
      | RightButton \<Rightarrow> Return v
      | MiddleButton \<Rightarrow> Return (begin_node_drag i p v))"
| "viz_event_step (NodeReleased i b) v = Return (if b = MiddleButton then end_node_drag v else v)"
| "viz_event_step (PointerMoved i p) v = Return (node_drag_motion i p v)"
| "viz_event_step (PointerEntered i) v = Return (change_node i (set_highlighted True) v)"
| "viz_event_step (PointerLeft i) v = Return (change_node i (set_highlighted False) v)"
| "viz_event_step (SizeChanged r) v = Return (v\<lparr>nodes := map (\<lambda>(i, n). (i, set_size r n)) (nodes v)\<rparr>)"
| "viz_event_step (ColorSet i c) v = Return (change_node i (set_color c) v)"
| "viz_event_step (IconSet i svgitem natural w h al) v = change_node_res i (set_svg_icon svgitem natural w h al) v"
| "viz_event_step (LabelSet i s) v = change_node_res i (set_label s) v"
| "viz_event_step (SelectCalled r) v = select_node r v"
| "viz_event_step PositionsUpdated v = Return (update_node_positions v)"

section \<open>The state after any events\<close>

text \<open>
  The node of an event has a canvas item, so its view exists. Sizes are positive, as those of an
  image that librsvg has loaded.
\<close>

fun event_node :: "viz_event \<Rightarrow> nat option" where
  "event_node (NodePressed i b p) = Some i"
| "event_node (NodeReleased i b) = Some i"
| "event_node (PointerMoved i p) = Some i"
| "event_node (PointerEntered i) = Some i"
| "event_node (PointerLeft i) = Some i"
| "event_node (ColorSet i c) = Some i"
| "event_node (IconSet i b s w h al) = Some i"
| "event_node (LabelSet i s) = Some i"
| "event_node (SelectCalled (NodeView i)) = Some i"
| "event_node e = None"

fun sizes_positive :: "viz_event \<Rightarrow> bool" where
  "sizes_positive (IconSet i svgitem natural w h al) \<longleftrightarrow>
     0 < fst natural \<and> 0 < snd natural \<and> (\<forall>d\<in>set_option w. 0 < d) \<and> (\<forall>d\<in>set_option h. 0 < d)"
| "sizes_positive e \<longleftrightarrow> True"

definition event_possible :: "viz_event \<Rightarrow> visualizer \<Rightarrow> bool" where
  "event_possible e v \<longleftrightarrow>
     sizes_positive e \<and> (case event_node e of None \<Rightarrow> True | Some i \<Rightarrow> map_of (nodes v) i \<noteq> None)"

text \<open>Histories: an event whose handler raises leaves the state as it was before it.\<close>

inductive viz_history :: "nat \<Rightarrow> (nat \<Rightarrow> point option) \<Rightarrow> viz_event list \<Rightarrow> visualizer \<Rightarrow> bool"
  for n :: nat and mob :: "nat \<Rightarrow> point option" where
  fresh: "viz_history n mob [] (new_visualizer n mob)"
| handled: "viz_history n mob es v \<Longrightarrow> event_possible e v \<Longrightarrow> viz_event_step e v = Return w \<Longrightarrow>
    viz_history n mob (es @ [e]) w"
| raised: "viz_history n mob es v \<Longrightarrow> event_possible e v \<Longrightarrow> viz_event_step e v = Raise x \<Longrightarrow>
    viz_history n mob (es @ [e]) v"

definition in_bounds :: "point \<Rightarrow> rat \<times> rat \<times> rat \<times> rat \<Rightarrow> bool" where
  "in_bounds = (\<lambda>(x, y) (min_x, min_y, max_x, max_y). min_x \<le> x \<and> x \<le> max_x \<and> min_y \<le> y \<and> y \<le> max_y)"

text \<open>What holds of one node: its looks are up to date and its icon is at its place.\<close>

definition node_ok :: "nat \<Rightarrow> node \<Rightarrow> bool" where
  "node_ok i n \<longleftrightarrow>
     node_index n = i \<and> shown n = appearance_of n \<and> label n = None \<and>
     (\<forall>s. svg_item n = Some s \<longrightarrow> svg_ok s \<and> s = update_svg_position (svg_align n) (center n) s)"

definition node_in :: "visualizer \<Rightarrow> nat \<Rightarrow> node \<Rightarrow> bool" where
  "node_in v i n \<longleftrightarrow>
     node_ok i n \<and> (is_selected n \<longleftrightarrow> selected_node v = Some i) \<and> in_bounds (center n) (bounds v)"

definition viz_ok :: "visualizer \<Rightarrow> bool" where
  "viz_ok v \<longleftrightarrow>
     dict_wf (nodes v) \<and> (\<forall>i n. map_of (nodes v) i = Some n \<longrightarrow> node_in v i n) \<and>
     (\<forall>i. selected_node v = Some i \<longrightarrow> map_of (nodes v) i \<noteq> None) \<and>
     nodes_of_interest v = interest_of v \<and> in_bounds (0, 0) (bounds v)"

lemma update_svg_position_idem [simp]:
  "update_svg_position a p (update_svg_position a q s) = update_svg_position a p s"
  by (cases a; cases p; cases q) (simp add: update_svg_position_def)

lemma svg_ok_position [simp]: "svg_ok (update_svg_position a p s) = svg_ok s"
  by (cases a; cases p) (simp add: update_svg_position_def svg_ok_def)

lemma update_appearance_fields [simp]:
  "label n = None \<Longrightarrow> update_appearance n = n\<lparr>shown := appearance_of n\<rparr>"
  by (simp add: update_appearance_def Let_def)

lemma appearance_of_shown [simp]: "appearance_of (n\<lparr>shown := a\<rparr>) = appearance_of n"
  by (simp add: appearance_of_def)

lemma move_node_fields [simp]:
  "label n = None \<Longrightarrow> move_node p n = n\<lparr>center := p, svg_item := map_option (update_svg_position (svg_align n) p) (svg_item n)\<rparr>"
  by (simp add: move_node_def Let_def)

lemma node_ok_update:
  "node_index n = i \<Longrightarrow> label n = None \<Longrightarrow> (\<forall>s. svg_item n = Some s \<longrightarrow> svg_ok s \<and> s = update_svg_position (svg_align n) (center n) s) \<Longrightarrow>
   node_ok i (update_appearance n)"
  by (simp add: node_ok_def)

lemma node_ok_setters:
  assumes "node_ok i n"
  shows "node_ok i (set_selected b n)" "node_ok i (set_highlighted b n)" "node_ok i (set_size r n)"
    "node_ok i (set_color c n)"
  unfolding set_selected_def set_highlighted_def set_size_def set_color_def
  by (rule node_ok_update; use assms in \<open>simp add: node_ok_def\<close>)+

lemma node_ok_move: "node_ok i n \<Longrightarrow> node_ok i (move_node p n)"
  by (auto simp: node_ok_def appearance_of_def)

lemma node_ok_new: "node_ok i (new_node i)"
  unfolding new_node_def by (rule node_ok_update) simp_all

lemma set_optional_ok:
  assumes "svg_ok s" and "\<forall>d\<in>set_option v. 0 < d" and "p = SvgWidth \<or> p = SvgHeight"
  shows "\<exists>t. set_optional p v s = Return t \<and> svg_ok t"
proof (cases v)
  case (Some d)
  then have "good_value (p, transform_distance_simulation_to_canvas d)"
    using assms by (auto simp: good_value_def transform_distance_simulation_to_canvas_def)
  from set_property_ok [OF assms(1) this] Some show ?thesis by (auto simp: set_optional_def)
qed (use assms in \<open>simp add: set_optional_def\<close>)

text \<open>An icon with a positive size is set unless the import of \<open>svgitem\<close> failed.\<close>

lemma set_svg_icon_cases:
  assumes "sizes_positive (IconSet i b s w h al)"
  obtains (raised) e where "set_svg_icon b s w h al n = Raise e"
    "e = ValueError ''either width or height must be given'' \<or> \<not> b \<and> e = AttributeError"
  | (placed) t where "svg_ok t" "set_svg_icon b s w h al n = Return (update_appearance
      (n\<lparr>svg_item := Some (update_svg_position al (center n) t), svg_align := al\<rparr>))"
proof (cases "(w = None \<and> h = None) \<or> \<not> b")
  case True
  then show thesis
    by (intro raised [of "if w = None \<and> h = None then ValueError ''either width or height must be given''
        else AttributeError"]) (auto simp: set_svg_icon_def)
next
  case False
  have "svg_ok (new_svg (fst (center n)) (snd (center n)) s)"
    using assms by (intro svg_ok_new) simp_all
  from set_optional_ok [OF this, of w SvgWidth] assms obtain u where
    u: "set_optional SvgWidth w (new_svg (fst (center n)) (snd (center n)) s) = Return u" "svg_ok u"
    by auto
  from set_optional_ok [OF u(2), of h SvgHeight] assms obtain t where
    t: "set_optional SvgHeight h u = Return t" "svg_ok t" by auto
  have "\<not> (w = None \<and> h = None)" "b" using False by blast+
  then have "set_svg_icon b s w h al n = Return (update_appearance
      (n\<lparr>svg_item := Some (update_svg_position al (center n) t), svg_align := al\<rparr>))"
    unfolding set_svg_icon_def by (simp only: if_False u(1) t(1) bind_res_simps not_True_eq_False)
  with t(2) show thesis by (rule placed)
qed

lemma node_ok_icon:
  assumes "node_ok i n" and "sizes_positive (IconSet j b s w h al)" and "set_svg_icon b s w h al n = Return m"
  shows "node_ok i m \<and> is_selected m = is_selected n \<and> center m = center n"
  using assms(2)
proof (cases rule: set_svg_icon_cases [of j b s w h al n])
  case (placed t)
  with assms(1,3) have m: "m = update_appearance
      (n\<lparr>svg_item := Some (update_svg_position al (center n) t), svg_align := al\<rparr>)" "label n = None"
    by (simp_all add: node_ok_def)
  show ?thesis unfolding m(1)
    by (intro conjI node_ok_update) (use assms(1) m(2) placed(1) in \<open>simp_all add: node_ok_def\<close>)
qed (use assms(3) in simp)

text \<open>The other properties of a node that its setters keep.\<close>

lemma setter_keeps:
  assumes "label n = None"
  shows "is_selected (set_highlighted b n) = is_selected n" "center (set_highlighted b n) = center n"
    "is_selected (set_size r n) = is_selected n" "center (set_size r n) = center n"
    "is_selected (set_color c n) = is_selected n" "center (set_color c n) = center n"
    "is_selected (set_selected b n) = b" "center (set_selected b n) = center n"
    "is_selected (move_node p n) = is_selected n" "center (move_node p n) = p"
  using assms
  by (simp_all add: set_highlighted_def set_size_def set_color_def set_selected_def)

lemma in_bounds_grow:
  "in_bounds p b \<Longrightarrow> in_bounds p (case b of (min_x, min_y, max_x, max_y) \<Rightarrow>
     (min x min_x, min y min_y, max x max_x, max y max_y))"
  by (cases b; cases p) (auto simp: in_bounds_def)

lemma interest_of_keeps [simp]:
  "interest_of (v\<lparr>nodes := ns\<rparr>) = interest_of v" "interest_of (v\<lparr>bounds := b\<rparr>) = interest_of v"
  "interest_of (v\<lparr>mobility := mob\<rparr>) = interest_of v" "interest_of (v\<lparr>node_drag_state := d\<rparr>) = interest_of v"
  by (simp_all add: interest_of_def split: show_mode.splits)

text \<open>Changing one node and nothing else.\<close>

lemma viz_ok_change:
  assumes "viz_ok v" and "map_of (nodes v) i = Some n" and "node_in v i m"
  shows "viz_ok (v\<lparr>nodes := AList.update i m (nodes v)\<rparr>)"
  using assms
  by (auto simp: viz_ok_def node_in_def alist.lookup_store alist.wf_store)

lemma viz_ok_change_node:
  assumes "viz_ok v" and "\<And>n. map_of (nodes v) i = Some n \<Longrightarrow> node_in v i n \<Longrightarrow> node_in v i (f n)"
  shows "viz_ok (change_node i f v)"
proof (cases "map_of (nodes v) i")
  case (Some n)
  then have "node_in v i n" using assms(1) by (simp add: viz_ok_def)
  with assms Some show ?thesis by (simp add: change_node_def viz_ok_change)
qed (use assms(1) in \<open>simp add: change_node_def\<close>)

lemma node_in_ok: "node_in v i n \<Longrightarrow> node_ok i n \<and> label n = None"
  by (simp add: node_in_def node_ok_def)

lemma viz_ok_get_node: "viz_ok v \<Longrightarrow> viz_ok (get_node i v)"
proof (cases "map_of (nodes v) i")
  case None
  assume ok: "viz_ok v"
  have "center (new_node i) = (0, 0)" "\<not> is_selected (new_node i)" by (simp_all add: new_node_def)
  with ok None node_ok_new [of i] show ?thesis
    by (auto simp: get_node_def viz_ok_def node_in_def alist.lookup_store alist.wf_store)
qed (simp add: get_node_def)

lemma viz_ok_set_position:
  assumes "viz_ok v"
  shows "viz_ok (set_position i p v)"
proof -
  obtain x y where p: "p = (x, y)" by (cases p)
  obtain a b c d where b: "bounds v = (a, b, c, d)" by (cases "bounds v") auto
  let ?b = "(min x a, min y b, max x c, max y d)"
  have keep: "bounds (change_node i (move_node p) w) = bounds w" for w
    by (simp add: change_node_def split: option.splits)
  have r: "set_position i p v = (change_node i (move_node p) (v\<lparr>bounds := ?b\<rparr>))"
    by (cases "map_of (nodes v) i") (simp_all add: set_position_def p b change_node_def Let_def)
  have grow: "in_bounds q (bounds v) \<Longrightarrow> in_bounds q ?b" for q
    using in_bounds_grow [of q "bounds v" x y] by (simp add: b)
  have "viz_ok (v\<lparr>bounds := ?b\<rparr>)"
    using assms grow by (auto simp: viz_ok_def node_in_def)
  moreover have "in_bounds p ?b" by (simp add: p in_bounds_def)
  ultimately show ?thesis unfolding r
    by (intro viz_ok_change_node) (auto simp: node_in_def node_ok_def setter_keeps appearance_of_def)
qed

lemma viz_ok_setters:
  assumes "viz_ok v"
  shows "viz_ok (change_node i (set_highlighted b) v)" "viz_ok (change_node i (set_color c) v)"
  using assms by (auto intro!: viz_ok_change_node simp: node_in_def node_ok_setters setter_keeps dest: node_in_ok)
    (auto simp: node_in_def node_ok_setters setter_keeps node_ok_def)

lemma viz_ok_size: "viz_ok v \<Longrightarrow> viz_ok (v\<lparr>nodes := map (\<lambda>(i, n). (i, set_size r n)) (nodes v)\<rparr>)"
proof -
  assume ok: "viz_ok v"
  have m: "map_of (map (\<lambda>(i, n). (i, set_size r n)) ns) i = map_option (set_size r) (map_of ns i)" for ns i
    by (induction ns) auto
  have k: "map fst (map (\<lambda>(i, n). (i, set_size r n)) ns) = map fst ns" for ns
    by (induction ns) auto
  have n: "node_in v i n \<Longrightarrow> node_in (v\<lparr>nodes := ns\<rparr>) i (set_size r n)" for i n ns
    using node_in_ok [of v i n] by (simp add: node_in_def node_ok_setters setter_keeps)
  let ?w = "v\<lparr>nodes := map (\<lambda>(i, n). (i, set_size r n)) (nodes v)\<rparr>"
  have "node_in ?w i n" if "map_of (nodes ?w) i = Some n" for i n
    using that ok n by (auto simp: m viz_ok_def)
  moreover have "map_of (nodes ?w) i \<noteq> None" if "selected_node v = Some i" for i
  proof -
    from that ok obtain n where "map_of (nodes v) i = Some n" by (auto simp: viz_ok_def)
    then have "map_of (nodes ?w) i = Some (set_size r n)" by (simp add: m del: map_map)
    then show ?thesis by simp
  qed
  ultimately show ?thesis
    unfolding viz_ok_def using ok by (intro conjI allI impI) (simp_all add: k viz_ok_def del: map_map)
qed

text \<open>Selecting: unmarking the old node, then marking the new one.\<close>

definition with_interest :: "visualizer \<Rightarrow> visualizer" where
  "with_interest v = v\<lparr>nodes_of_interest := interest_of v\<rparr>"

lemma with_interest_again:
  "with_interest ((with_interest v)\<lparr>selected_node := s\<rparr>) = with_interest (v\<lparr>selected_node := s\<rparr>)"
  by (cases "show_transmissions_mode v") (simp_all add: with_interest_def interest_of_def)

lemma viz_ok_unmark:
  assumes "viz_ok v"
  shows "viz_ok (with_interest ((mark_selected False (selected_node v) v)\<lparr>selected_node := None\<rparr>))"
proof (cases "selected_node v")
  case (Some k)
  with assms obtain n where n: "map_of (nodes v) k = Some n" "node_in v k n" by (auto simp: viz_ok_def)
  then have "node_ok k (set_selected False n)" "label n = None"
    by (simp_all add: node_in_def node_ok_setters) (simp add: node_ok_def)
  with assms Some n show ?thesis
    by (auto simp: with_interest_def mark_selected_def change_node_def viz_ok_def node_in_def
        alist.lookup_store alist.wf_store setter_keeps interest_of_def split: show_mode.splits)
qed (use assms in \<open>auto simp: with_interest_def mark_selected_def viz_ok_def node_in_def interest_of_def
      split: show_mode.splits\<close>)

lemma viz_ok_mark:
  assumes "viz_ok v" and "selected_node v = None" and "map_of (nodes v) k \<noteq> None"
  shows "viz_ok (with_interest ((change_node k (set_selected True) v)\<lparr>selected_node := Some k\<rparr>))"
proof -
  from assms obtain n where n: "map_of (nodes v) k = Some n" "node_in v k n" by (auto simp: viz_ok_def)
  then have "node_ok k (set_selected True n)" "label n = None"
    by (simp_all add: node_in_def node_ok_setters) (simp add: node_ok_def)
  with assms n show ?thesis
    by (auto simp: with_interest_def change_node_def viz_ok_def node_in_def
        alist.lookup_store alist.wf_store setter_keeps interest_of_def split: show_mode.splits)
qed

lemma mark_selected_dom: "map_of (nodes (mark_selected b i v)) j \<noteq> None \<longleftrightarrow> map_of (nodes v) j \<noteq> None"
  by (auto simp: mark_selected_def change_node_def alist.lookup_store split: option.splits)

lemma resolve_node_known:
  assumes "resolve_node r v = Return (Some i)" and "event_possible (SelectCalled r) v"
  shows "map_of (nodes v) i \<noteq> None"
  using assms by (cases r) (auto simp: resolve_node_def event_possible_def split: if_splits)

lemma select_other:
  assumes "resolve_node r v = Return i" and "i \<noteq> selected_node v" and "viz_ok v"
  shows "select_node r v = Return (with_interest
    ((mark_selected True i (with_interest ((mark_selected False (selected_node v) v)\<lparr>selected_node := None\<rparr>)))
       \<lparr>selected_node := i\<rparr>))"
proof -
  have c: "change_node k f (u\<lparr>selected_node := j\<rparr>) = (change_node k f u)\<lparr>selected_node := j\<rparr>"
    "change_node k f (u\<lparr>nodes_of_interest := js\<rparr>) = (change_node k f u)\<lparr>nodes_of_interest := js\<rparr>"
    "show_transmissions_mode (change_node k f u) = show_transmissions_mode u"
    "selected_node (change_node k f u) = selected_node u"
    "node_count (change_node k f u) = node_count u"
    "nodes_of_interest (change_node k f u) = nodes_of_interest u" for k f u j js
    by (simp_all add: change_node_def split: option.splits)
  have "nodes_of_interest v = interest_of v" using assms(3) by (simp add: viz_ok_def)
  with assms(1,2) show ?thesis
    by (cases "selected_node v"; cases i; cases "show_transmissions_mode v")
      (simp_all add: select_node_def Let_def with_interest_def mark_selected_def interest_of_def c)
qed

lemma viz_ok_select:
  assumes ok: "viz_ok v" and possible: "event_possible (SelectCalled r) v" and "select_node r v = Return w"
  shows "viz_ok w"
proof -
  obtain i where i: "resolve_node r v = Return i"
    using assms(3) by (cases "resolve_node r v") (auto simp: select_node_def)
  let ?u = "with_interest ((mark_selected False (selected_node v) v)\<lparr>selected_node := None\<rparr>)"
  show ?thesis
  proof (cases "i = selected_node v")
    case True
    with i assms(3) ok show ?thesis by (simp add: select_node_def)
  next
    case False
    have u: "viz_ok ?u" "selected_node ?u = None" using viz_ok_unmark [OF ok] by (simp_all add: with_interest_def)
    have w: "w = with_interest ((mark_selected True i ?u)\<lparr>selected_node := i\<rparr>)"
      using select_other [OF i False ok] assms(3) by simp
    show ?thesis
    proof (cases i)
      case None
      have "w = ?u" unfolding w None by (simp add: mark_selected_def [of True] with_interest_again)
      with u(1) show ?thesis by simp
    next
      case (Some k)
      have "map_of (nodes v) k \<noteq> None" using resolve_node_known [of r v k] i Some possible by simp
      then have "map_of (nodes ?u) k \<noteq> None"
        using mark_selected_dom [of False "selected_node v" v k] by (simp add: with_interest_def)
      from viz_ok_mark [OF u this] show ?thesis by (simp add: w Some mark_selected_def)
    qed
  qed
qed

text \<open>The other handlers.\<close>

lemma viz_ok_icon:
  assumes "viz_ok v" and "sizes_positive (IconSet i b s w h al)"
    and "change_node_res i (set_svg_icon b s w h al) v = Return u"
  shows "viz_ok u"
proof (cases "map_of (nodes v) i")
  case (Some n)
  then have n: "node_in v i n" using assms(1) by (simp add: viz_ok_def)
  from Some assms(3) obtain m where
    m: "set_svg_icon b s w h al n = Return m" "u = v\<lparr>nodes := AList.update i m (nodes v)\<rparr>"
    by (auto simp: change_node_res_def bind_res_eq_Return)
  from n have "node_ok i n" by (simp add: node_in_def)
  from node_ok_icon [OF this assms(2) m(1)] n have "node_in v i m" by (simp add: node_in_def)
  with viz_ok_change [OF assms(1) Some] show ?thesis by (simp add: m(2))
qed (use assms in \<open>simp add: change_node_res_def\<close>)

lemma viz_ok_mode: "viz_ok v \<Longrightarrow> viz_ok (set_show_transmissions_mode m v)"
  by (simp add: viz_ok_def set_show_transmissions_mode_def node_in_def interest_of_def Let_def
      split: show_mode.splits del: not_None_eq)

lemma viz_ok_mobility [simp]:
  "viz_ok (v\<lparr>mobility := mob\<rparr>) = viz_ok v" "viz_ok (v\<lparr>node_drag_state := d\<rparr>) = viz_ok v"
  by (simp_all add: viz_ok_def node_in_def)

lemma viz_ok_drag:
  assumes "viz_ok v"
  shows "viz_ok (begin_node_drag i p v)" "viz_ok (node_drag_motion i p v)" "viz_ok (end_node_drag v)"
  using assms
  by (auto simp: begin_node_drag_def node_drag_motion_def end_node_drag_def Let_def viz_ok_set_position
      split: option.splits)

lemma viz_ok_positions: "viz_ok v \<Longrightarrow> viz_ok (update_node_positions v)"
proof -
  assume "viz_ok v"
  then have "viz_ok (fold (\<lambda>i v. case mobility v i of
      Some pos \<Rightarrow> set_position i (transform_point_simulation_to_canvas pos) v | None \<Rightarrow> v) is v)" for "is"
    by (induction "is" arbitrary: v) (auto simp: viz_ok_set_position split: option.splits)
  then show ?thesis by (simp add: update_node_positions_def)
qed

lemma viz_ok_step:
  assumes "viz_ok v" and "event_possible e v" and "viz_event_step e v = Return w"
  shows "viz_ok w"
proof (cases e)
  case (IconSet i b s a h al)
  with assms show ?thesis by (auto simp: event_possible_def intro: viz_ok_icon)
next
  case (CanvasPressed b)
  with assms viz_ok_select [of v NoNode w] show ?thesis
    by (auto simp: event_possible_def split: if_splits)
next
  case (NodePressed i b p)
  with assms viz_ok_select [of v "NodeView i" w] show ?thesis
    by (auto simp: event_possible_def viz_ok_drag split: mouse_button.splits)
next
  case (SelectCalled r)
  with assms viz_ok_select [of v r w] show ?thesis by simp
next
  case (LabelSet i s)
  with assms show ?thesis
    by (auto simp: change_node_res_def set_label_def split: option.splits)
qed (use assms in \<open>auto simp: viz_ok_mode viz_ok_get_node viz_ok_drag viz_ok_setters viz_ok_size
    viz_ok_positions\<close>)

lemma viz_ok_new: "viz_ok (new_visualizer n mob)"
  by (simp add: new_visualizer_def viz_ok_def set_show_transmissions_mode_def in_bounds_def Let_def
      interest_of_def)

lemma viz_history_ok: "viz_history n mob es v \<Longrightarrow> viz_ok v"
  by (induction rule: viz_history.induct) (auto simp: viz_ok_new viz_ok_step)


lemma short_history:
  "viz_history 2 (\<lambda>i. None) ([] @ [NodeWanted 1] @ [NodePressed 1 LeftButton (0, 0)])
     (mark_selected True (Some 1) ((get_node 1 (new_visualizer 2 (\<lambda>i. None)))\<lparr>selected_node := Some 1\<rparr>))"
proof -
  let ?v = "get_node 1 (new_visualizer 2 (\<lambda>i. None))"
  have v: "selected_node ?v = None" "show_transmissions_mode ?v = Show_all" "map_of (nodes ?v) 1 \<noteq> None"
    by (simp_all add: get_node_def new_visualizer_def set_show_transmissions_mode_def)
  have "viz_history 2 (\<lambda>i. None) ([] @ [NodeWanted 1]) ?v"
    by (rule viz_history.handled [OF viz_history.fresh]) (simp_all add: event_possible_def)
  then have "viz_history 2 (\<lambda>i. None) (([] @ [NodeWanted 1]) @ [NodePressed 1 LeftButton (0, 0)])
     (mark_selected True (Some 1) (?v\<lparr>selected_node := Some 1\<rparr>))"
    by (rule viz_history.handled)
      (use v in \<open>simp_all add: event_possible_def select_node_def resolve_node_def mark_selected_def
         change_node_def Let_def split: option.splits\<close>)
  then show ?thesis by simp
qed


section \<open>Dragging a node\<close>

definition dragging :: "nat \<Rightarrow> drag_state \<Rightarrow> node \<Rightarrow> visualizer \<Rightarrow> visualizer \<Rightarrow> bool" where
  "dragging i d k v u \<longleftrightarrow>
     node_drag_state u = Some d \<and> mobility u i \<noteq> None \<and>
     (\<exists>m. map_of (nodes u) i = Some m \<and> label m = None \<and> is_selected m = is_selected k) \<and>
     (\<forall>j. j \<noteq> i \<longrightarrow> map_of (nodes u) j = map_of (nodes v) j \<and> mobility u j = mobility v j) \<and>
     selected_node u = selected_node v"

abbreviation drag_to :: "drag_state \<Rightarrow> point \<Rightarrow> point" where
  "drag_to d p \<equiv> (fst (sim0 d) + (fst p - fst (canvas0 d)) / 3, snd (sim0 d) + (snd p - snd (canvas0 d)) / 3)"

lemma set_position_node:
  assumes "map_of (nodes v) i = Some k"
  shows "map_of (nodes (set_position i p v)) i = Some (move_node p k)"
    "j \<noteq> i \<Longrightarrow> map_of (nodes (set_position i p v)) j = map_of (nodes v) j"
    "mobility (set_position i p v) = mobility v" "node_drag_state (set_position i p v) = node_drag_state v"
    "selected_node (set_position i p v) = selected_node v"
  using assms
  by (simp_all add: set_position_def change_node_def alist.lookup_store Let_def split: prod.splits)

lemma drag_motion_step:
  assumes "dragging i d k v u"
  shows "dragging i d k v (node_drag_motion i p u) \<and>
    mobility (node_drag_motion i p u) = (mobility u)(i \<mapsto> drag_to d p) \<and>
    (\<exists>m. map_of (nodes (node_drag_motion i p u)) i = Some m \<and>
       center m = transform_point_simulation_to_canvas (drag_to d p))"
proof -
  from assms obtain m q where m: "node_drag_state u = Some d" "mobility u i = Some q"
    "map_of (nodes u) i = Some m" "label m = None" "is_selected m = is_selected k"
    by (auto simp: dragging_def)
  let ?u = "u\<lparr>mobility := (mobility u)(i \<mapsto> drag_to d p)\<rparr>"
    and ?p = "transform_point_simulation_to_canvas (drag_to d p)"
  have step: "node_drag_motion i p u = set_position i ?p ?u"
    using m by (simp add: node_drag_motion_def transform_distance_canvas_to_simulation_def Let_def)
  have "map_of (nodes ?u) i = Some m" using m by simp
  note pos = set_position_node [OF this]
  show ?thesis
    unfolding step using assms m by (auto simp: pos dragging_def)
qed

lemma drag_motions:
  assumes "dragging i d k v u"
  shows "\<exists>w. fold_res viz_event_step (map (PointerMoved i) ps) u = Return w \<and> dragging i d k v w"
  using assms
proof (induction ps arbitrary: u)
  case (Cons p ps)
  then have "dragging i d k v (node_drag_motion i p u)" using drag_motion_step by blast
  from Cons.IH [OF this] show ?case by simp
qed simp

text \<open>Dragging a node with the middle button, through any pointer positions, moves it and its
  mobility model by the distance from the first pointer position to the last one, whatever lay between,
  and changes no other node and no selection.\<close>

theorem drag_correct:
  assumes "map_of (nodes v) i = Some k" and "label k = None" and "mobility v i = Some (x, y)"
    and "node_drag_state v = None"
  shows "\<exists>w m. fold_res viz_event_step
      ([NodePressed i MiddleButton p0] @ map (PointerMoved i) ps @ [PointerMoved i p] @
       [NodeReleased i MiddleButton]) v = Return w \<and>
    map_of (nodes w) i = Some m \<and>
    center m = (3 * x + (fst p - fst p0), 3 * y + (snd p - snd p0)) \<and>
    mobility w = (mobility v)(i \<mapsto> (x + (fst p - fst p0) / 3, y + (snd p - snd p0) / 3)) \<and>
    node_drag_state w = None \<and> selected_node w = selected_node v \<and> is_selected m = is_selected k \<and>
    (\<forall>j. j \<noteq> i \<longrightarrow> map_of (nodes w) j = map_of (nodes v) j)"
proof -
  let ?d = "\<lparr>canvas0 = p0, sim0 = (x, y)\<rparr>"
  let ?b = "v\<lparr>node_drag_state := Some ?d\<rparr>"
  have b: "begin_node_drag i p0 v = ?b" using assms by (simp add: begin_node_drag_def)
  have "dragging i ?d k v ?b" using assms by (simp add: dragging_def)
  from drag_motions [OF this] obtain u where
    u: "fold_res viz_event_step (map (PointerMoved i) ps) ?b = Return u" "dragging i ?d k v u" by blast
  from drag_motion_step [OF u(2)] obtain m where
    m: "dragging i ?d k v (node_drag_motion i p u)"
      "mobility (node_drag_motion i p u) = (mobility u)(i \<mapsto> drag_to ?d p)"
      "map_of (nodes (node_drag_motion i p u)) i = Some m"
      "center m = transform_point_simulation_to_canvas (drag_to ?d p)" by blast
  have mob: "(mobility u)(i \<mapsto> q) = (mobility v)(i \<mapsto> q)" for q
    using u(2) by (auto simp: dragging_def fun_eq_iff)
  show ?thesis
    by (rule exI [of _ "end_node_drag (node_drag_motion i p u)"], rule exI [of _ m])
      (use m in \<open>simp add: fold_res_append b u(1) mob end_node_drag_def dragging_def
         transform_point_simulation_to_canvas_def algebra_simps add_divide_distrib diff_divide_distrib\<close>)
qed

theorem drag_correct_witness:
  "\<exists>w m. fold_res viz_event_step
      ([NodePressed 0 MiddleButton (10, 10)] @ map (PointerMoved 0) [(11, 10)] @ [PointerMoved 0 (16, 7)] @
       [NodeReleased 0 MiddleButton]) (get_node 0 (new_visualizer 1 (\<lambda>i. Some (5, 5)))) = Return w \<and>
     map_of (nodes w) 0 = Some m \<and> center m = (21, 12)"
proof -
  let ?v = "get_node 0 (new_visualizer 1 (\<lambda>i. Some (5, 5)))"
  have v: "map_of (nodes ?v) 0 = Some (new_node 0)" "mobility ?v 0 = Some (5, 5)" "node_drag_state ?v = None"
    "label (new_node 0) = None"
    by (simp_all add: get_node_def new_visualizer_def set_show_transmissions_mode_def new_node_def)
  from drag_correct [OF v(1,4,2,3), of "(10, 10)" "[(11, 10)]" "(16, 7)"] show ?thesis by auto
qed

section \<open>Updating the positions\<close>

lemma set_position_lookup:
  "map_of (nodes (set_position j p w)) i =
     (if i = j then map_option (move_node p) (map_of (nodes w) i) else map_of (nodes w) i)"
  "mobility (set_position j p w) = mobility w"
  by (simp_all add: set_position_def change_node_def alist.lookup_store Let_def split: prod.splits option.splits)

lemma move_node_label: "label (move_node p n) = label n"
  by (simp add: move_node_def Let_def)

text \<open>After an update every node that has a mobility model stands at the position of its model
  and every other node where it was.\<close>

theorem update_node_positions_correct:
  assumes "\<forall>j k. map_of (nodes v) j = Some k \<longrightarrow> label k = None" and "map_of (nodes v) i = Some k"
  shows "\<exists>m. map_of (nodes (update_node_positions v)) i = Some m \<and>
    center m = (case mobility v i of Some (x, y) \<Rightarrow> (3 * x, 3 * y) | None \<Rightarrow> center k)"
proof -
  let ?step = "\<lambda>i v. case mobility v i of
      Some pos \<Rightarrow> set_position i (transform_point_simulation_to_canvas pos) v | None \<Rightarrow> v"
  have keys: "i \<in> set (dict_keys (nodes v))"
    using assms(2) by (force dest: map_of_SomeD)
  have "\<exists>m. map_of (nodes (fold ?step is w)) i = Some m \<and>
      center m = (case mobility w i of Some (x, y) \<Rightarrow> if i \<in> set is then (3 * x, 3 * y) else center l
                  | None \<Rightarrow> center l)"
    if "\<forall>j k. map_of (nodes w) j = Some k \<longrightarrow> label k = None" and "map_of (nodes w) i = Some l" for "is" w l
    using that
  proof (induction "is" arbitrary: w l)
    case (Cons j js)
    show ?case
    proof (cases "mobility w j")
      case None
      with Cons.IH [OF Cons.prems] show ?thesis by (cases "j = i"; cases "mobility w i") auto
    next
      case (Some q)
      let ?p = "transform_point_simulation_to_canvas q"
      let ?w = "set_position j ?p w" and ?l = "if i = j then move_node ?p l else l"
      have "\<forall>h k. map_of (nodes ?w) h = Some k \<longrightarrow> label k = None" "map_of (nodes ?w) i = Some ?l"
        using Cons.prems by (auto simp: set_position_lookup move_node_label)
      from Cons.IH [OF this] obtain m where
        m: "map_of (nodes (fold ?step js ?w)) i = Some m"
          "center m = (case mobility w i of Some (x, y) \<Rightarrow> if i \<in> set js then (3 * x, 3 * y) else center ?l
                       | None \<Rightarrow> center ?l)"
        by (auto simp: set_position_lookup)
      have "label l = None" using Cons.prems by simp
      with m Some show ?thesis
        by (auto simp: transform_point_simulation_to_canvas_def mult.commute split: option.splits prod.splits if_splits)
    qed
  qed (simp split: option.splits)
  from this [OF assms, of "dict_keys (nodes v)"] keys show ?thesis
    by (cases "mobility v i") (auto simp: update_node_positions_def)
qed

theorem update_node_positions_correct_witness:
  "\<exists>m. map_of (nodes (update_node_positions (get_node 0 (new_visualizer 1 (\<lambda>i. Some (5, 6)))))) 0 = Some m \<and>
     center m = (15, 18)"
proof -
  let ?v = "get_node 0 (new_visualizer 1 (\<lambda>i. Some (5, 6)))"
  have v: "nodes ?v = [(0, new_node 0)]" "mobility ?v 0 = Some (5, 6)" "label (new_node 0) = None"
    by (simp_all add: get_node_def new_visualizer_def set_show_transmissions_mode_def new_node_def)
  show ?thesis using update_node_positions_correct [of ?v 0 "new_node 0"] v by simp
qed

end
