(* ===== verification/Viz_Topology.thy ===== *)
theory Viz_Topology
  imports Viz_Nodes
begin

text \<open>
  The topology shown by the visualizer (\<open>core.py\<close> and \<open>base.py\<close> of \<open>src/visualizer\<close>): how the
  devices and channels of the simulated nodes become views, channels and links, and where they are
  placed. The network of ns-3 and the layout that graphviz computes for the nodes without a
  mobility model are arguments.
\<close>

section \<open>The kinds of devices\<close>

record device_traits =
  is_wireless :: "bool option"
  is_virtual :: bool

definition netdevice_traits :: "(string \<times> device_traits) list" where
  "netdevice_traits =
     [(''PointToPointNetDevice'', \<lparr>is_wireless = Some False, is_virtual = False\<rparr>),
      (''CsmaNetDevice'', \<lparr>is_wireless = Some False, is_virtual = False\<rparr>),
      (''WifiNetDevice'', \<lparr>is_wireless = Some True, is_virtual = False\<rparr>),
      (''BridgeNetDevice'', \<lparr>is_wireless = None, is_virtual = True\<rparr>),
      (''LoopbackNetDevice'', \<lparr>is_wireless = Some False, is_virtual = True\<rparr>),
      (''MeshPointDevice'', \<lparr>is_wireless = None, is_virtual = True\<rparr>),
      (''SubscriberStationNetDevice'', \<lparr>is_wireless = Some True, is_virtual = False\<rparr>),
      (''BaseStationNetDevice'', \<lparr>is_wireless = Some True, is_virtual = False\<rparr>),
      (''LteUeNetDevice'', \<lparr>is_wireless = Some True, is_virtual = False\<rparr>),
      (''LteEnbNetDevice'', \<lparr>is_wireless = Some True, is_virtual = False\<rparr>)]"

text \<open>A type that is not in the table is added to it as wireless; the warning is left out.\<close>

definition lookup_netdevice_traits ::
  "string \<Rightarrow> (string \<times> device_traits) list \<Rightarrow> device_traits \<times> (string \<times> device_traits) list" where
  "lookup_netdevice_traits ty table =
     (case map_of table ty of
        Some t \<Rightarrow> (t, table)
      | None \<Rightarrow>
          let t = \<lparr>is_wireless = Some True, is_virtual = False\<rparr> in (t, AList.update ty t table))"

section \<open>State\<close>

record device =
  device_type :: string
  device_channel :: nat

text \<open>A channel is named by its identity and lists the node of each of its devices.\<close>

record network =
  devices :: "nat \<Rightarrow> device list"
  channel_nodes :: "nat \<Rightarrow> nat list"

datatype endpoint = NodeEnd nat | ChannelEnd nat

record link =
  node1 :: nat
  node2 :: endpoint
  drawn :: "(point \<times> point) option"

datatype graph_change = AddNode string | AddEdge string string

record topology =
  view :: visualizer
  channels :: "(nat \<times> point) list"
  links :: "link list"
  graph :: "graph_change list"
  traits :: "(string \<times> device_traits) list"

definition node_name :: "nat \<Rightarrow> string" where
  "node_name i = ''Node '' @ str_of_nat i"

definition channel_name :: "nat \<Rightarrow> string" where
  "channel_name c = ''Channel '' @ str_of_nat c"

section \<open>Links\<close>

definition end_position :: "endpoint \<Rightarrow> topology \<Rightarrow> point" where
  "end_position e s =
     (case e of
        NodeEnd i \<Rightarrow> position_of i (view s)
      | ChannelEnd c \<Rightarrow> (case map_of (channels s) c of Some p \<Rightarrow> p | None \<Rightarrow> (0, 0)))"

definition update_points :: "topology \<Rightarrow> link \<Rightarrow> link" where
  "update_points s l = l\<lparr>drawn := Some (end_position (NodeEnd (node1 l)) s, end_position (node2 l) s)\<rparr>"

text \<open>A new link is on the canvas, but no line is drawn until one of its ends is placed.\<close>

definition create_link :: "nat \<Rightarrow> endpoint \<Rightarrow> topology \<Rightarrow> topology" where
  "create_link i e s = s\<lparr>links := links s @ [\<lparr>node1 = i, node2 = e, drawn = None\<rparr>]\<rparr>"

text \<open>\<open>set_position\<close> of a node or a channel draws the links of it again.\<close>

definition place_end :: "endpoint \<Rightarrow> point \<Rightarrow> topology \<Rightarrow> topology" where
  "place_end e p s =
     (let s1 = (case e of
                  NodeEnd i \<Rightarrow> s\<lparr>view := set_position i p (view s)\<rparr>
                | ChannelEnd c \<Rightarrow> s\<lparr>channels := AList.update c p (channels s)\<rparr>)
      in s1\<lparr>links := map (\<lambda>l. if NodeEnd (node1 l) = e \<or> node2 l = e then update_points s1 l else l) (links s1)\<rparr>)"

definition want_node :: "nat \<Rightarrow> topology \<Rightarrow> topology" where
  "want_node i s = s\<lparr>view := get_node i (view s)\<rparr>"

definition get_channel :: "nat \<Rightarrow> topology \<Rightarrow> topology" where
  "get_channel c s =
     (case map_of (channels s) c of
        Some p \<Rightarrow> s
      | None \<Rightarrow> s\<lparr>channels := AList.update c (0, 0) (channels s)\<rparr>)"

definition change_graph :: "graph_change \<Rightarrow> topology \<Rightarrow> topology" where
  "change_graph g s = s\<lparr>graph := graph s @ [g]\<rparr>"

section \<open>Scanning\<close>

definition scan_other :: "nat \<Rightarrow> nat \<Rightarrow> topology \<Rightarrow> topology" where
  "scan_other i j s =
     (let s1 = want_node j s
      in if j = i then s1
         else
           (let s2 = (if mobility (view s1) i = None \<and> mobility (view s1) j = None
                      then change_graph (AddEdge (node_name i) (node_name j)) s1 else s1)
            in create_link i (NodeEnd j) s2))"

text \<open>A channel of more than two devices is shown as a node of its own.\<close>

definition scan_device :: "network \<Rightarrow> nat \<Rightarrow> device \<Rightarrow> topology \<Rightarrow> topology" where
  "scan_device net i d s =
     (let (t, table) = lookup_netdevice_traits (device_type d) (traits s); s1 = s\<lparr>traits := table\<rparr>
      in if is_wireless t = Some True then s1
         else if is_virtual t then s1
         else
           (let c = device_channel d
            in if length (channel_nodes net c) > 2 then
                 (let s2 = (if mobility (view s1) i = None
                            then change_graph (AddEdge (node_name i) (channel_name c)) s1 else s1)
                  in create_link i (ChannelEnd c) (get_channel c (want_node i (get_channel c s2))))
               else fold (scan_other i) (channel_nodes net c) s1))"

definition scan_node :: "network \<Rightarrow> nat \<Rightarrow> topology \<Rightarrow> topology" where
  "scan_node net i s =
     (let s1 = want_node i s;
          s2 = (case mobility (view s1) i of
                  Some pos \<Rightarrow>
                    place_end (NodeEnd i) (transform_point_simulation_to_canvas pos)
                      (s1\<lparr>view := change_node i (set_color (rgb_color (0xffff, 0, 0))) (view s1)\<rparr>)
                | None \<Rightarrow> change_graph (AddNode (node_name i)) s1)
      in fold (scan_device net i) (devices net i) s2)"

text \<open>
  The layout: its names are split again, and \<open>obj\<close> keeps its value when a name is of neither kind.
\<close>

definition int_of_str :: "string \<Rightarrow> nat res" where
  "int_of_str s =
     (if s \<noteq> [] \<and> list_all is_digit s then Return (nat_of_str s)
      else Raise (ValueError ''invalid literal for int()''))"

definition place_named ::
  "string \<times> point \<Rightarrow> endpoint option \<times> topology \<Rightarrow> (endpoint option \<times> topology) res" where
  "place_named = (\<lambda>(name, p) (obj, s).
     bind_res
       (case split_on CHR '' '' name of
          [node_type, node_id] \<Rightarrow>
            if node_type = ''Node'' then
              bind_res (int_of_str node_id) (\<lambda>i.
                if map_of (nodes (view s)) i = None then Raise KeyError else Return (Some (NodeEnd i)))
            else if node_type = ''Channel'' then
              bind_res (int_of_str node_id) (\<lambda>c.
                if map_of (channels s) c = None then Raise KeyError else Return (Some (ChannelEnd c)))
            else Return obj
        | _ \<Rightarrow> Raise (ValueError ''unpack''))
       (\<lambda>obj1. case obj1 of
                 None \<Rightarrow> Raise (UnboundLocalError ''obj'')
               | Some e \<Rightarrow> Return (obj1, place_end e p s)))"

definition scan_topology ::
  "(graph_change list \<Rightarrow> (string \<times> point) list) \<Rightarrow> network \<Rightarrow> topology \<Rightarrow> topology res" where
  "scan_topology layout net s =
     (let s1 = fold (scan_node net) [0..<node_count (view s)] (s\<lparr>graph := []\<rparr>)
      in bind_res (fold_res place_named (layout (graph s1)) (None, s1)) (\<lambda>(obj, t). Return t))"

section \<open>What scanning a device keeps\<close>

fun change_names :: "graph_change \<Rightarrow> string set" where
  "change_names (AddNode a) = {a}"
| "change_names (AddEdge a b) = {a, b}"

definition graph_names :: "graph_change list \<Rightarrow> string set" where
  "graph_names g = \<Union> (change_names ` set g)"

definition is_wired :: "(string \<times> device_traits) list \<Rightarrow> string \<Rightarrow> bool" where
  "is_wired table ty =
     (case map_of table ty of Some t \<Rightarrow> is_wireless t \<noteq> Some True \<and> \<not> is_virtual t | None \<Rightarrow> False)"

abbreviation seen_nodes :: "topology \<Rightarrow> nat set" where
  "seen_nodes s \<equiv> dom (map_of (nodes (view s)))"

abbreviation seen_channels :: "topology \<Rightarrow> nat set" where
  "seen_channels s \<equiv> dom (map_of (channels s))"

definition name_ok :: "topology \<Rightarrow> string \<Rightarrow> bool" where
  "name_ok s a \<longleftrightarrow>
     (\<exists>i. a = node_name i \<and> i \<in> seen_nodes s \<and> mobility (view s) i = None) \<or>
     (\<exists>c. a = channel_name c \<and> c \<in> seen_channels s)"

definition graph_ok :: "topology \<Rightarrow> bool" where
  "graph_ok s \<longleftrightarrow> (\<forall>a \<in> graph_names (graph s). name_ok s a)"

definition link_ok :: "topology \<Rightarrow> link \<Rightarrow> bool" where
  "link_ok s l \<longleftrightarrow> drawn l = None \<or> drawn l = Some (end_position (NodeEnd (node1 l)) s, end_position (node2 l) s)"

definition links_ok :: "topology \<Rightarrow> bool" where
  "links_ok s \<longleftrightarrow> (\<forall>l \<in> set (links s). link_ok s l)"

definition ends_of :: "topology \<Rightarrow> (nat \<times> endpoint) list" where
  "ends_of s = map (\<lambda>l. (node1 l, node2 l)) (links s)"

definition grows :: "topology \<Rightarrow> topology \<Rightarrow> bool" where
  "grows s t \<longleftrightarrow>
     mobility (view t) = mobility (view s) \<and> node_count (view t) = node_count (view s) \<and>
     is_wired (traits t) = is_wired (traits s) \<and> (\<forall>e. end_position e t = end_position e s) \<and>
     seen_nodes s \<subseteq> seen_nodes t \<and> seen_channels s \<subseteq> seen_channels t \<and>
     set (graph s) \<subseteq> set (graph t) \<and> (graph_ok s \<longrightarrow> graph_ok t) \<and> (links_ok s \<longrightarrow> links_ok t)"

lemma grows_refl [simp]: "grows s s"
  by (simp add: grows_def)

lemma grows_trans: "grows s t \<Longrightarrow> grows t u \<Longrightarrow> grows s u"
  by (simp add: grows_def) blast

lemma name_ok_mono:
  assumes "name_ok s a" and "mobility (view t) = mobility (view s)" and "seen_nodes s \<subseteq> seen_nodes t"
    and "seen_channels s \<subseteq> seen_channels t"
  shows "name_ok t a"
  using assms(1,3,4) unfolding name_ok_def assms(2) by blast

lemma name_ok_grows: "grows s t \<Longrightarrow> name_ok s a \<Longrightarrow> name_ok t a"
  unfolding grows_def by (blast intro: name_ok_mono)

lemma growsI:
  assumes "mobility (view t) = mobility (view s)" "node_count (view t) = node_count (view s)"
    "is_wired (traits t) = is_wired (traits s)" "\<And>e. end_position e t = end_position e s"
    "seen_nodes s \<subseteq> seen_nodes t" "seen_channels s \<subseteq> seen_channels t"
    "set (graph s) \<subseteq> set (graph t)"
    "\<And>a. a \<in> graph_names (graph t) \<Longrightarrow> a \<notin> graph_names (graph s) \<Longrightarrow> name_ok t a"
    "\<And>l. l \<in> set (links t) \<Longrightarrow> l \<notin> set (links s) \<Longrightarrow> drawn l = None"
  shows "grows s t"
proof -
  have "name_ok t a" if "name_ok s a" for a
    using name_ok_mono [OF that] assms(1,5,6) by blast
  then have "graph_ok s \<longrightarrow> graph_ok t" using assms(8) unfolding graph_ok_def by blast
  moreover have "links_ok s \<longrightarrow> links_ok t"
    using assms(4,9) unfolding links_ok_def link_ok_def by metis
  ultimately show ?thesis using assms(1-7) unfolding grows_def by blast
qed

lemma position_of_get_node [simp]: "position_of j (get_node i v) = position_of j v"
  by (auto simp: position_of_def get_node_def alist.lookup_store new_node_def split: option.splits)

lemma get_node_fields [simp]:
  "mobility (get_node i v) = mobility v" "node_count (get_node i v) = node_count v"
  "dom (map_of (nodes (get_node i v))) = insert i (dom (map_of (nodes v)))"
  by (auto simp: get_node_def alist.lookup_store split: option.splits)

lemma want_node_grows: "grows s (want_node i s)"
  by (rule growsI) (auto simp: want_node_def end_position_def split: endpoint.splits)

lemma get_channel_grows: "grows s (get_channel c s)"
  by (rule growsI)
    (auto simp: get_channel_def end_position_def alist.lookup_store split: endpoint.splits option.splits)

lemma create_link_grows: "grows s (create_link i e s)"
  by (rule growsI) (auto simp: create_link_def end_position_def split: endpoint.splits)

lemma change_graph_grows: "\<forall>a \<in> change_names g. name_ok s a \<Longrightarrow> grows s (change_graph g s)"
  by (rule growsI)
    (auto simp: change_graph_def end_position_def graph_names_def name_ok_def split: endpoint.splits)

lemma traits_grows:
  assumes "lookup_netdevice_traits ty (traits s) = (t, table)"
  shows "grows s (s\<lparr>traits := table\<rparr>)" "is_wired (traits s) ty \<longleftrightarrow> is_wireless t \<noteq> Some True \<and> \<not> is_virtual t"
proof -
  have "is_wired table = is_wired (traits s)"
  proof (cases "map_of (traits s) ty")
    case None
    with assms have "map_of table = (map_of (traits s))(ty \<mapsto> \<lparr>is_wireless = Some True, is_virtual = False\<rparr>)"
      by (auto simp: lookup_netdevice_traits_def alist.lookup_store Let_def)
    with None show ?thesis by (auto simp: is_wired_def fun_eq_iff)
  qed (use assms in \<open>simp add: lookup_netdevice_traits_def\<close>)
  then show "grows s (s\<lparr>traits := table\<rparr>)"
    by (intro growsI) (auto simp: end_position_def split: endpoint.splits)
  show "is_wired (traits s) ty \<longleftrightarrow> is_wireless t \<noteq> Some True \<and> \<not> is_virtual t"
    using assms by (auto simp: lookup_netdevice_traits_def is_wired_def Let_def split: option.splits)
qed

lemma ends_of_keeps [simp]:
  "ends_of (want_node i s) = ends_of s" "ends_of (get_channel c s) = ends_of s"
  "ends_of (change_graph g s) = ends_of s" "ends_of (s\<lparr>traits := table\<rparr>) = ends_of s"
  "ends_of (create_link i e s) = ends_of s @ [(i, e)]"
  "ends_of (s\<lparr>view := v\<rparr>) = ends_of s" "ends_of (s\<lparr>graph := gs\<rparr>) = ends_of s"
  by (auto simp: ends_of_def want_node_def get_channel_def change_graph_def create_link_def split: option.splits)

lemma exists_want [simp]:
  "i \<in> seen_nodes (want_node i s)" "mobility (view (want_node i s)) = mobility (view s)"
  "c \<in> seen_channels (get_channel c s)" "view (get_channel c s) = view s"
  by (auto simp: want_node_def get_channel_def alist.lookup_store split: option.splits)

section \<open>The links of the scanned topology\<close>

text \<open>The links that a device of node \<open>i\<close> gets, for the kinds of devices that are wired.\<close>

definition device_links :: "network \<Rightarrow> (string \<Rightarrow> bool) \<Rightarrow> nat \<Rightarrow> device \<Rightarrow> (nat \<times> endpoint) list" where
  "device_links net wired i d =
     (let c = device_channel d
      in if \<not> wired (device_type d) then []
         else if length (channel_nodes net c) > 2 then [(i, ChannelEnd c)]
         else map (\<lambda>j. (i, NodeEnd j)) (filter (\<lambda>j. j \<noteq> i) (channel_nodes net c)))"

lemma in_seen_grows: "grows s t \<Longrightarrow> i \<in> seen_nodes s \<Longrightarrow> i \<in> seen_nodes t"
  unfolding grows_def by blast

lemma mobility_grows: "grows s t \<Longrightarrow> mobility (view t) = mobility (view s)"
  by (simp add: grows_def)

lemma name_ok_node: "i \<in> seen_nodes s \<Longrightarrow> mobility (view s) i = None \<Longrightarrow> name_ok s (node_name i)"
  and name_ok_channel: "c \<in> seen_channels s \<Longrightarrow> name_ok s (channel_name c)"
  unfolding name_ok_def by blast+

lemma scan_other_grows:
  assumes "i \<in> seen_nodes s"
  shows "grows s (scan_other i j s)"
    "ends_of (scan_other i j s) = ends_of s @ (if j = i then [] else [(i, NodeEnd j)])"
proof -
  let ?w = "want_node j s"
  have i: "i \<in> seen_nodes ?w" by (rule in_seen_grows [OF want_node_grows assms])
  have j: "j \<in> seen_nodes ?w" by (rule exists_want)
  have g: "grows ?w (change_graph (AddEdge (node_name i) (node_name j)) ?w)"
    if "mobility (view ?w) i = None" "mobility (view ?w) j = None"
    by (rule change_graph_grows) (use name_ok_node [OF i] name_ok_node [OF j] that in simp)
  show "grows s (scan_other i j s)"
  proof -
    have w: "grows s ?w" by (rule want_node_grows)
    then have "grows s (create_link i (NodeEnd j) ?w)" by (rule grows_trans [OF _ create_link_grows])
    moreover have "grows s (create_link i (NodeEnd j) (change_graph (AddEdge (node_name i) (node_name j)) ?w))"
      if "mobility (view ?w) i = None" "mobility (view ?w) j = None"
      using grows_trans [OF grows_trans [OF w g [OF that]] create_link_grows] .
    ultimately show ?thesis using w by (auto simp: scan_other_def Let_def)
  qed
  show "ends_of (scan_other i j s) = ends_of s @ (if j = i then [] else [(i, NodeEnd j)])"
    by (simp add: scan_other_def Let_def)
qed

lemma scan_others_grows:
  assumes "i \<in> seen_nodes s"
  shows "grows s (fold (scan_other i) js s) \<and>
    ends_of (fold (scan_other i) js s) = ends_of s @ map (\<lambda>j. (i, NodeEnd j)) (filter (\<lambda>j. j \<noteq> i) js)"
  using assms
proof (induction js arbitrary: s)
  case (Cons j js)
  note o = scan_other_grows [OF Cons.prems, of j]
  from Cons.IH [OF in_seen_grows [OF o(1) Cons.prems]] o show ?case
    by (auto intro: grows_trans)
qed simp

lemma channel_edge_grows:
  assumes "i \<in> seen_nodes s" and "mobility (view s) i = None"
  shows "grows s (get_channel c (change_graph (AddEdge (node_name i) (channel_name c)) s))"
proof (rule growsI)
  let ?t = "get_channel c (change_graph (AddEdge (node_name i) (channel_name c)) s)"
  have i: "name_ok ?t (node_name i)" using assms by (intro name_ok_node) (simp_all add: change_graph_def)
  have c: "name_ok ?t (channel_name c)" by (rule name_ok_channel) (rule exists_want)
  show "name_ok ?t a" if "a \<in> graph_names (graph ?t)" "a \<notin> graph_names (graph s)" for a
    using that i c
    by (auto simp: graph_names_def get_channel_def change_graph_def split: option.splits if_splits)
qed (auto simp: get_channel_def change_graph_def end_position_def alist.lookup_store
    split: option.splits endpoint.splits)

lemma scan_device_grows:
  assumes "i \<in> seen_nodes s"
  shows "grows s (scan_device net i d s)"
    "ends_of (scan_device net i d s) = ends_of s @ device_links net (is_wired (traits s)) i d"
proof -
  let ?c = "device_channel d"
  obtain t table where lookup: "lookup_netdevice_traits (device_type d) (traits s) = (t, table)" by force
  note tr = traits_grows [OF lookup]
  let ?s = "s\<lparr>traits := table\<rparr>"
  have i: "i \<in> seen_nodes ?s" using assms by simp
  let ?g = "if mobility (view ?s) i = None then change_graph (AddEdge (node_name i) (channel_name ?c)) ?s else ?s"
  let ?u = "create_link i (ChannelEnd ?c) (get_channel ?c (want_node i (get_channel ?c ?g)))"
  have "grows s (scan_device net i d s) \<and>
    ends_of (scan_device net i d s) = ends_of s @ device_links net (is_wired (traits s)) i d"
  proof (cases "is_wireless t \<noteq> Some True \<and> \<not> is_virtual t")
    case False
    then have "scan_device net i d s = ?s" by (auto simp: scan_device_def lookup Let_def)
    with tr False show ?thesis by (simp add: device_links_def Let_def)
  next
    case wired: True
    show ?thesis
    proof (cases "length (channel_nodes net ?c) > 2")
      case False
      then have "scan_device net i d s = fold (scan_other i) (channel_nodes net ?c) ?s"
        using wired by (auto simp: scan_device_def lookup Let_def)
      with scan_others_grows [OF i, of "channel_nodes net ?c"] tr wired False show ?thesis
        by (auto simp: device_links_def Let_def intro: grows_trans)
    next
      case True
      then have u: "scan_device net i d s = ?u"
        using wired by (auto simp: scan_device_def lookup Let_def)
      have "grows ?s (get_channel ?c ?g)"
        using channel_edge_grows [OF i] get_channel_grows by simp
      then have c: "grows ?s ?u"
        by (blast intro: grows_trans want_node_grows get_channel_grows create_link_grows)
      from c tr(1) have "grows s ?u" by (blast intro: grows_trans)
      moreover have "ends_of ?u = ends_of s @ [(i, ChannelEnd ?c)]" by simp
      ultimately show ?thesis using tr(2) wired True by (simp add: u device_links_def Let_def)
    qed
  qed
  then show "grows s (scan_device net i d s)"
    "ends_of (scan_device net i d s) = ends_of s @ device_links net (is_wired (traits s)) i d" by blast+
qed

section \<open>Positions\<close>

definition end_exists :: "endpoint \<Rightarrow> topology \<Rightarrow> bool" where
  "end_exists e s = (case e of NodeEnd i \<Rightarrow> i \<in> seen_nodes s | ChannelEnd c \<Rightarrow> c \<in> seen_channels s)"

lemma position_set_position:
  "position_of j (set_position i p v) =
     (if j = i \<and> map_of (nodes v) i \<noteq> None then p else position_of j v)"
  by (auto simp: position_of_def set_position_def change_node_def move_node_def alist.lookup_store Let_def
      split: option.splits prod.splits)

lemma set_position_fields [simp]:
  "dom (map_of (nodes (set_position i p v))) = dom (map_of (nodes v))"
  "mobility (set_position i p v) = mobility v" "node_count (set_position i p v) = node_count v"
  by (auto simp: set_position_def change_node_def alist.lookup_store Let_def split: option.splits prod.splits)

lemma end_position_links [simp]: "end_position e (s\<lparr>links := ls\<rparr>) = end_position e s"
  by (simp add: end_position_def split: endpoint.splits)

lemma place_end_fields [simp]:
  "mobility (view (place_end e p s)) = mobility (view s)" "node_count (view (place_end e p s)) = node_count (view s)"
  "traits (place_end e p s) = traits s" "graph (place_end e p s) = graph s"
  "seen_nodes (place_end e p s) = seen_nodes s"
  "end_exists e s \<Longrightarrow> seen_channels (place_end e p s) = seen_channels s"
  "ends_of (place_end e p s) = ends_of s"
  by (auto simp: place_end_def ends_of_def update_points_def end_exists_def alist.lookup_store Let_def
      split: endpoint.splits)

lemma end_position_place:
  assumes "end_exists e s"
  shows "end_position e' (place_end e p s) = (if e' = e then p else end_position e' s)"
  using assms
  by (auto simp: place_end_def end_position_def end_exists_def position_set_position alist.lookup_store Let_def
      split: endpoint.splits)

lemma links_ok_place:
  assumes "links_ok s" and "end_exists e s"
  shows "links_ok (place_end e p s)"
proof -
  let ?s1 = "case e of NodeEnd i \<Rightarrow> s\<lparr>view := set_position i p (view s)\<rparr>
    | ChannelEnd c \<Rightarrow> s\<lparr>channels := AList.update c p (channels s)\<rparr>"
  let ?f = "\<lambda>l. if NodeEnd (node1 l) = e \<or> node2 l = e then update_points ?s1 l else l"
  have place: "place_end e p s = ?s1\<lparr>links := map ?f (links ?s1)\<rparr>" by (simp add: place_end_def Let_def)
  have same: "links ?s1 = links s" by (simp split: endpoint.splits)
  have pos: "end_position x ?s1 = end_position x (place_end e p s)" for x unfolding place by simp
  have step: "link_ok (place_end e p s) (?f l)" if "l \<in> set (links s)" for l
  proof (cases "NodeEnd (node1 l) = e \<or> node2 l = e")
    case True
    then show ?thesis by (auto simp: link_ok_def update_points_def pos)
  next
    case False
    then show ?thesis
      using that assms by (auto simp: links_ok_def link_ok_def end_position_place)
  qed
  have new: "links (place_end e p s) = map ?f (links s)" unfolding place by (simp add: same)
  show ?thesis
    unfolding links_ok_def
  proof (rule ballI)
    fix l
    assume "l \<in> set (links (place_end e p s))"
    then have "l \<in> ?f ` set (links s)" by (simp only: new set_map)
    then obtain k where "k \<in> set (links s)" "l = ?f k" by (rule imageE)
    with step [of k] show "link_ok (place_end e p s) l" by (simp only:)
  qed
qed

lemma graph_ok_same:
  assumes "graph_ok s" and "graph t = graph s" and "mobility (view t) = mobility (view s)"
    and "seen_nodes t = seen_nodes s" and "seen_channels t = seen_channels s"
  shows "graph_ok t"
  using assms(1) unfolding graph_ok_def name_ok_def assms(2-5) .

lemma set_color_keeps:
  "position_of j (change_node i (set_color c) v) = position_of j v"
  "dom (map_of (nodes (change_node i (set_color c) v))) = dom (map_of (nodes v))"
  "mobility (change_node i (set_color c) v) = mobility v" "node_count (change_node i (set_color c) v) = node_count v"
  by (auto simp: position_of_def change_node_def set_color_def update_appearance_def move_node_def
      alist.lookup_store Let_def split: option.splits)

text \<open>What scanning one node does.\<close>

definition scanned :: "network \<Rightarrow> nat list \<Rightarrow> topology \<Rightarrow> topology \<Rightarrow> bool" where
  "scanned net is s t \<longleftrightarrow>
     mobility (view t) = mobility (view s) \<and> node_count (view t) = node_count (view s) \<and>
     is_wired (traits t) = is_wired (traits s) \<and> set is \<union> seen_nodes s \<subseteq> seen_nodes t \<and>
     set (graph s) \<subseteq> set (graph t) \<and> graph_ok t \<and> links_ok t \<and>
     ends_of t = ends_of s @
       concat (map (\<lambda>i. concat (map (device_links net (is_wired (traits s)) i) (devices net i))) is) \<and>
     (\<forall>i\<in>set is. mobility (view s) i = None \<longrightarrow> AddNode (node_name i) \<in> set (graph t)) \<and>
     (\<forall>e. end_position e t =
        (case e of
           NodeEnd i \<Rightarrow> (case mobility (view s) i of
                           Some q \<Rightarrow> if i \<in> set is then transform_point_simulation_to_canvas q else end_position e s
                         | None \<Rightarrow> end_position e s)
         | ChannelEnd c \<Rightarrow> end_position e s))"

lemma scan_devices_grows:
  assumes "i \<in> seen_nodes s"
  shows "grows s (fold (scan_device net i) ds s) \<and>
    ends_of (fold (scan_device net i) ds s) = ends_of s @ concat (map (device_links net (is_wired (traits s)) i) ds)"
  using assms
proof (induction ds arbitrary: s)
  case (Cons d ds)
  note o = scan_device_grows [OF Cons.prems, of net d]
  have "is_wired (traits (scan_device net i d s)) = is_wired (traits s)" using o(1) by (simp add: grows_def)
  with Cons.IH [OF in_seen_grows [OF o(1) Cons.prems]] o show ?case
    by (auto intro: grows_trans)
qed simp

lemma scan_node_scanned:
  assumes "graph_ok s" and "links_ok s"
  shows "scanned net [i] s (scan_node net i s)"
proof -
  let ?w = "want_node i s"
  let ?c = "?w\<lparr>view := change_node i (set_color (rgb_color (0xffff, 0, 0))) (view ?w)\<rparr>"
  define u where "u = (case mobility (view ?w) i of
      Some q \<Rightarrow> place_end (NodeEnd i) (transform_point_simulation_to_canvas q) ?c
    | None \<Rightarrow> change_graph (AddNode (node_name i)) ?w)"
  have t: "scan_node net i s = fold (scan_device net i) (devices net i) u"
    by (simp add: scan_node_def u_def Let_def)
  note w = want_node_grows [of s i]
  have wi: "i \<in> seen_nodes ?w" by (rule exists_want)
  have "graph_ok ?w \<and> links_ok ?w" using w assms by (simp add: grows_def)
  have u: "mobility (view u) = mobility (view s) \<and> node_count (view u) = node_count (view s) \<and>
     is_wired (traits u) = is_wired (traits s) \<and> i \<in> seen_nodes u \<and> seen_nodes s \<subseteq> seen_nodes u \<and>
     set (graph s) \<subseteq> set (graph u) \<and> graph_ok u \<and> links_ok u \<and> ends_of u = ends_of s \<and>
     (mobility (view s) i = None \<longrightarrow> AddNode (node_name i) \<in> set (graph u)) \<and>
     (\<forall>e. end_position e u =
        (case mobility (view s) i of
           Some q \<Rightarrow> if e = NodeEnd i then transform_point_simulation_to_canvas q else end_position e s
         | None \<Rightarrow> end_position e s))"
  proof (cases "mobility (view s) i")
    case None
    then have ui: "u = change_graph (AddNode (node_name i)) ?w" by (simp add: u_def)
    have "grows ?w u" unfolding ui
      by (rule change_graph_grows) (use name_ok_node [OF wi] None in simp)
    with w have "grows s u" by (rule grows_trans)
    moreover have "i \<in> seen_nodes u" using in_seen_grows [OF \<open>grows ?w u\<close> wi] .
    moreover have "ends_of u = ends_of s" "AddNode (node_name i) \<in> set (graph u)"
      by (simp_all add: ui) (simp add: change_graph_def)
    ultimately show ?thesis using assms None unfolding grows_def by simp
  next
    case (Some q)
    then have ui: "u = place_end (NodeEnd i) (transform_point_simulation_to_canvas q) ?c" by (simp add: u_def)
    have c: "mobility (view ?c) = mobility (view ?w)" "node_count (view ?c) = node_count (view ?w)"
      "seen_nodes ?c = seen_nodes ?w" "\<And>e. end_position e ?c = end_position e ?w"
      by (simp_all add: set_color_keeps) (simp add: end_position_def set_color_keeps split: endpoint.splits)
    have ex: "end_exists (NodeEnd i) ?c" using wi c(3) by (simp add: end_exists_def)
    have "links_ok ?c" using \<open>graph_ok ?w \<and> links_ok ?w\<close> by (simp add: links_ok_def link_ok_def c(4))
    then have "links_ok u" unfolding ui using ex by (rule links_ok_place)
    moreover have "graph_ok ?c"
      by (rule graph_ok_same [OF conjunct1 [OF \<open>graph_ok ?w \<and> links_ok ?w\<close>]]) (use c in simp_all)
    then have "graph_ok u" unfolding ui by (rule graph_ok_same) (use ex in simp_all)
    moreover have "end_position e u = (if e = NodeEnd i then transform_point_simulation_to_canvas q else end_position e s)"
      for e unfolding ui using w by (simp add: end_position_place [OF ex] c(4) grows_def)
    moreover have "ends_of u = ends_of s" "i \<in> seen_nodes u" "seen_nodes u = seen_nodes ?w"
      "mobility (view u) = mobility (view ?w)" "node_count (view u) = node_count (view ?w)"
      "traits u = traits ?w" "graph u = graph ?w"
      using wi c by (simp_all add: ui)
    ultimately show ?thesis using w Some unfolding grows_def by simp
  qed
  from u have "i \<in> seen_nodes u" by blast
  note d = scan_devices_grows [OF this, of net "devices net i", folded t]
  have pos: "end_position e (scan_node net i s) =
        (case e of
           NodeEnd j \<Rightarrow> (case mobility (view s) j of
                           Some q \<Rightarrow> if j \<in> set [i] then transform_point_simulation_to_canvas q else end_position e s
                         | None \<Rightarrow> end_position e s)
         | ChannelEnd c \<Rightarrow> end_position e s)" for e
  proof -
    have "end_position e (scan_node net i s) = end_position e u" using d by (simp add: grows_def)
    also have "\<dots> = (case mobility (view s) i of
           Some q \<Rightarrow> if e = NodeEnd i then transform_point_simulation_to_canvas q else end_position e s
         | None \<Rightarrow> end_position e s)" using u by blast
    finally show ?thesis by (cases e; cases "mobility (view s) i") (auto split: option.splits)
  qed
  have "ends_of (scan_node net i s) = ends_of s @ concat (map (device_links net (is_wired (traits s)) i) (devices net i))"
    using d u by simp
  with pos show ?thesis
    unfolding scanned_def using u d unfolding grows_def by (intro conjI) (simp_all, blast+)
qed

section \<open>The whole scan\<close>

lemma scanned_nil: "graph_ok s \<Longrightarrow> links_ok s \<Longrightarrow> scanned net [] s s"
  by (auto simp: scanned_def split: endpoint.splits option.splits)

lemma scanned_append:
  assumes "scanned net is s t" and "scanned net js t u"
  shows "scanned net (is @ js) s u"
proof -
  have pos: "end_position e u =
        (case e of
           NodeEnd i \<Rightarrow> (case mobility (view s) i of
                           Some q \<Rightarrow> if i \<in> set (is @ js) then transform_point_simulation_to_canvas q else end_position e s
                         | None \<Rightarrow> end_position e s)
         | ChannelEnd c \<Rightarrow> end_position e s)" for e
  proof -
    have "mobility (view t) = mobility (view s)" using assms(1) by (simp add: scanned_def)
    then show ?thesis
      using assms unfolding scanned_def
      by (cases e) (auto split: option.splits)
  qed
  show ?thesis
    using assms pos unfolding scanned_def by (intro conjI) (simp_all, blast+)
qed

lemma scan_nodes_scanned:
  "graph_ok s \<Longrightarrow> links_ok s \<Longrightarrow> scanned net is s (fold (scan_node net) is s)"
proof (induction "is" arbitrary: s)
  case (Cons i "is")
  have i: "scanned net [i] s (scan_node net i s)" by (rule scan_node_scanned) (use Cons.prems in auto)
  then have "graph_ok (scan_node net i s)" "links_ok (scan_node net i s)" by (simp_all add: scanned_def)
  from scanned_append [OF i Cons.IH [OF this]] show ?case by simp
qed (simp add: scanned_nil)

fun name_of :: "endpoint \<Rightarrow> string" where
  "name_of (NodeEnd i) = node_name i"
| "name_of (ChannelEnd c) = channel_name c"

lemma str_of_nat_inj: "str_of_nat i = str_of_nat j \<longleftrightarrow> i = j"
  by (metis nat_of_str_of_nat)

lemma names_inj [simp]:
  "node_name i = node_name j \<longleftrightarrow> i = j" "channel_name i = channel_name j \<longleftrightarrow> i = j"
  "node_name i \<noteq> channel_name j" "channel_name j \<noteq> node_name i"
  by (simp_all add: node_name_def channel_name_def str_of_nat_inj)

lemma name_of_inj [simp]: "name_of e = name_of f \<longleftrightarrow> e = f"
  by (cases e; cases f) simp_all

lemma name_ok_mobility: "name_ok s (node_name i) \<Longrightarrow> mobility (view s) i = None"
  by (simp add: name_ok_def)

lemma split_digits: "\<forall>c \<in> set s. is_digit c \<Longrightarrow> split_on CHR '' '' s = [s]"
  by (induction s) (auto simp: is_digit_def)

lemma split_name: "split_on CHR '' '' (node_name i) = [''Node'', str_of_nat i]"
  "split_on CHR '' '' (channel_name i) = [''Channel'', str_of_nat i]"
  using split_digits [of "str_of_nat i"] by (simp_all add: node_name_def channel_name_def str_of_nat_digits)

lemma int_of_str_of_nat: "int_of_str (str_of_nat i) = Return i"
  by (simp add: int_of_str_def list_all_iff str_of_nat_digits)

lemma place_named_end:
  assumes "end_exists e s"
  shows "place_named (name_of e, p) (obj, s) = Return (Some e, place_end e p s)"
  using assms
  by (cases e) (auto simp: place_named_def split_name int_of_str_of_nat end_exists_def)

lemma name_ok_end: "name_ok s a \<Longrightarrow> \<exists>e. a = name_of e \<and> end_exists e s"
proof -
  assume "name_ok s a"
  then consider i where "a = name_of (NodeEnd i)" "end_exists (NodeEnd i) s"
    | c where "a = name_of (ChannelEnd c)" "end_exists (ChannelEnd c) s"
    unfolding name_ok_def by (auto simp: end_exists_def)
  then show ?thesis by cases blast+
qed

lemma end_exists_place [simp]: "end_exists e s \<Longrightarrow> end_exists f (place_end e p s) = end_exists f s"
  by (simp add: end_exists_def split: endpoint.splits)

lemma place_layout:
  assumes "\<forall>a \<in> fst ` set ls. \<exists>e. a = name_of e \<and> end_exists e s" and "distinct (map fst ls)" and "links_ok s"
  shows "\<exists>obj t. fold_res place_named ls (obj0, s) = Return (obj, t) \<and> links_ok t \<and> ends_of t = ends_of s \<and>
    graph t = graph s \<and> seen_nodes t = seen_nodes s \<and>
    (\<forall>e. end_position e t = (case map_of ls (name_of e) of Some p \<Rightarrow> p | None \<Rightarrow> end_position e s))"
  using assms
proof (induction ls arbitrary: s obj0)
  case (Cons ap ls)
  obtain a p where ap: "ap = (a, p)" by (cases ap)
  from Cons.prems(1) ap obtain e where e: "a = name_of e" "end_exists e s" by auto
  let ?s = "place_end e p s"
  have "\<forall>a \<in> fst ` set ls. \<exists>f. a = name_of f \<and> end_exists f ?s"
    using Cons.prems(1) e(2) by simp
  from Cons.IH [OF this _ links_ok_place [OF Cons.prems(3) e(2)], of "Some e"] Cons.prems(2)
  obtain obj t where t: "fold_res place_named ls (Some e, ?s) = Return (obj, t)" "links_ok t" "ends_of t = ends_of ?s"
    "graph t = graph ?s" "seen_nodes t = seen_nodes ?s"
    "\<And>f. end_position f t = (case map_of ls (name_of f) of Some p \<Rightarrow> p | None \<Rightarrow> end_position f ?s)" by auto
  have "map_of ls (name_of e) = None"
    using Cons.prems(2) ap e(1) by (simp add: map_of_eq_None_iff)
  then have "end_position f t = (case map_of (ap # ls) (name_of f) of Some p \<Rightarrow> p | None \<Rightarrow> end_position f s)" for f
    using t(6) [of f] end_position_place [OF e(2), of f p] by (auto simp: ap e(1) split: option.splits)
  with t(1-5) show ?case
    by (intro exI [of _ obj] exI [of _ t]) (simp add: ap e place_named_end)
qed simp

definition new_topology :: "visualizer \<Rightarrow> topology" where
  "new_topology v = \<lparr>view = v, channels = [], links = [], graph = [], traits = netdevice_traits\<rparr>"

lemma wired_types: "is_wired netdevice_traits = (\<lambda>ty. ty = ''PointToPointNetDevice'' \<or> ty = ''CsmaNetDevice'')"
  by (rule ext) (simp add: is_wired_def netdevice_traits_def)


text \<open>A layout that puts everything at the origin, and two nodes joined by a point-to-point channel:
  the link is made from either end.\<close>

fun change_list :: "graph_change \<Rightarrow> string list" where
  "change_list (AddNode a) = [a]"
| "change_list (AddEdge a b) = [a, b]"

definition origin_layout :: "graph_change list \<Rightarrow> (string \<times> point) list" where
  "origin_layout g = map (\<lambda>a. (a, (0, 0))) (remdups (concat (map change_list g)))"

lemma origin_layout_names:
  "set (map fst (origin_layout g)) = graph_names g" "distinct (map fst (origin_layout g))"
proof -
  have "set (change_list c) = change_names c" for c by (cases c) simp_all
  then show "set (map fst (origin_layout g)) = graph_names g"
    by (simp add: origin_layout_def comp_def graph_names_def)
  show "distinct (map fst (origin_layout g))" by (simp add: origin_layout_def comp_def)
qed


end
