(* ===== verification/Viz_Transmissions.thy ===== *)
theory Viz_Transmissions
  imports Viz_Nodes
begin

text \<open>
  The transmissions and drops shown by the visualizer (\<open>core.py\<close> of \<open>src/visualizer\<close>): the window
  of the last samples, the averages made from it, and the pool of canvas arrows that the two views
  fill again at every update. A canvas arrow with its label is one item, named by a number; the
  place of a label, which is clipped by C++ code, is left out. The logarithm is that of the reals.
\<close>

section \<open>The window of samples\<close>

record sample =
  transmitter :: nat
  receiver :: nat
  sample_bytes :: nat

function trim_window :: "nat \<Rightarrow> 'a list \<Rightarrow> 'a list" where
  "trim_window n xs = (if length xs > n then trim_window n (tl xs) else xs)"
  by auto
termination by (relation "measure (\<lambda>(n, xs). length xs)") (auto simp: less_imp_diff_less)

declare trim_window.simps [simp del]

definition smooth_factor :: "rat \<Rightarrow> nat" where
  "smooth_factor v = nat \<lfloor>v * 10\<rfloor>"

text \<open>\<open>do_simulation_periodic_update\<close>, for the transmissions and in the same way for the drops.\<close>

definition push_samples :: "rat \<Rightarrow> 'a list \<Rightarrow> 'a list list \<Rightarrow> 'a list list" where
  "push_samples smoothing new window = trim_window (smooth_factor smoothing) (window @ [new])"

section \<open>Averages\<close>

type_synonym 'k average_table = "('k \<times> nat \<times> nat) list"

definition add_sample :: "('s \<Rightarrow> 'k) \<Rightarrow> ('s \<Rightarrow> nat) \<Rightarrow> 's \<Rightarrow> 'k average_table \<Rightarrow> 'k average_table" where
  "add_sample key amount s d =
     (let (bytes, count) = (case map_of d (key s) of Some tc \<Rightarrow> tc | None \<Rightarrow> (0, 0))
      in AList.update (key s) (bytes + amount s, count + 1) d)"

definition averages :: "('s \<Rightarrow> 'k) \<Rightarrow> ('s \<Rightarrow> nat) \<Rightarrow> 's list list \<Rightarrow> 'k average_table" where
  "averages key amount window = fold (fold (add_sample key amount)) window []"

definition transmissions_average :: "sample list list \<Rightarrow> (nat \<times> nat) average_table" where
  "transmissions_average = averages (\<lambda>s. (transmitter s, receiver s)) sample_bytes"

record drop_sample =
  drop_transmitter :: nat
  drop_bytes :: nat

definition drops_average :: "drop_sample list list \<Rightarrow> nat average_table" where
  "drops_average = averages drop_transmitter drop_bytes"

section \<open>Arrows\<close>

text \<open>Where the label stands over the arrow, from the angle of the arrow.\<close>

datatype label_side = RightArrow | LeftArrow | NoArrow

record arrow =
  visible :: bool
  arrow_width :: real
  from_point :: point
  to_point :: point
  kbps :: rat
  side :: label_side

definition hidden_arrow :: arrow where
  "hidden_arrow = \<lparr>visible = False, arrow_width = 0, from_point = (0, 0), to_point = (0, 0), kbps = 0, side = NoArrow\<rparr>"

text \<open>The width of an arrow: \<open>math.log\<close> raises ValueError for zero.\<close>

definition line_width_of :: "rat \<Rightarrow> rat \<Rightarrow> nat \<Rightarrow> nat \<Rightarrow> real res" where
  "line_width_of k period bytes count =
     (if count = 0 \<or> period = 0 then Raise ZeroDivisionError
      else (let rate = of_nat bytes / of_nat count / period
            in if rate \<le> 0 then Raise (ValueError ''math domain error'')
               else Return (max (1 / 10) (ln (of_rat rate) * of_rat k))))"

definition kbps_of :: "rat \<Rightarrow> nat \<Rightarrow> nat \<Rightarrow> rat" where
  "kbps_of period bytes count = of_nat (bytes * 8) / 1000 / of_nat count / period"

text \<open>The angle of the arrow is within a quarter turn of the x axis when it does not point left.\<close>

definition transmission_arrow :: "rat \<Rightarrow> rat \<Rightarrow> nat \<times> nat \<Rightarrow> nat \<times> nat \<Rightarrow> visualizer \<Rightarrow> arrow res" where
  "transmission_arrow k period = (\<lambda>(tx, rx) (bytes, count) v.
     bind_res (line_width_of k period bytes count) (\<lambda>w.
       let p = position_of tx v; q = position_of rx v
       in Return \<lparr>visible = True, arrow_width = w, from_point = p, to_point = q,
                  kbps = kbps_of period bytes count,
                  side = (if fst p \<le> fst q then RightArrow else LeftArrow)\<rparr>))"

definition drop_arrow :: "rat \<Rightarrow> rat \<Rightarrow> rat \<Rightarrow> nat \<Rightarrow> nat \<times> nat \<Rightarrow> visualizer \<Rightarrow> arrow res" where
  "drop_arrow k period edge_y = (\<lambda>tx (bytes, count) v.
     bind_res (line_width_of k period bytes count) (\<lambda>w.
       let p = position_of tx v
       in Return \<lparr>visible = True, arrow_width = w, from_point = p, to_point = (fst p, edge_y),
                  kbps = kbps_of period bytes count, side = NoArrow\<rparr>))"

section \<open>The pool of arrows\<close>

text \<open>
  \<open>pool\<close> is the list of arrows that the visualizer keeps, \<open>items\<close> all arrows ever put on the
  canvas, in the order of their creation.
\<close>

record arrows_view =
  pool :: "nat list"
  items :: "arrow list"

definition hide_arrows :: "nat list \<Rightarrow> arrow list \<Rightarrow> arrow list" where
  "hide_arrows is xs = fold (\<lambda>i xs. xs[i := (xs ! i)\<lparr>visible := False\<rparr>]) is xs"

definition take_arrow :: "nat list \<Rightarrow> arrow list \<Rightarrow> nat \<times> nat list \<times> arrow list" where
  "take_arrow old xs =
     (if old = [] then (length xs, [], xs @ [hidden_arrow]) else (last old, butlast old, xs))"

text \<open>
  The loop over the averages: each takes the last arrow of the old ones, or creates one, shows it
  and sets it. An error leaves the loop; the arrows it has popped are then in no list any more.
  The nodes are looked up first, which may create their views.
\<close>

fun draw_arrows ::
  "('k \<Rightarrow> visualizer \<Rightarrow> visualizer) \<Rightarrow> ('k \<Rightarrow> nat \<times> nat \<Rightarrow> visualizer \<Rightarrow> arrow res) \<Rightarrow> 'k average_table \<Rightarrow>
     nat list \<Rightarrow> nat list \<Rightarrow> arrow list \<Rightarrow> visualizer \<Rightarrow>
     py_error option \<times> nat list \<times> nat list \<times> arrow list \<times> visualizer" where
  "draw_arrows views arrow_of [] old new xs v = (None, old, new, xs, v)"
| "draw_arrows views arrow_of ((key, avg) # rest) old new xs v =
     (let v1 = views key v;
          (i, old1, xs1) = take_arrow old xs;
          xs2 = xs1[i := (xs1 ! i)\<lparr>visible := True\<rparr>]
      in case arrow_of key avg v1 of
           Raise e \<Rightarrow> (Some e, old1, new, xs2, v1)
         | Return a \<Rightarrow> draw_arrows views arrow_of rest old1 (new @ [i]) (xs2[i := a]) v1)"

definition refresh_arrows ::
  "('k \<Rightarrow> visualizer \<Rightarrow> visualizer) \<Rightarrow> ('k \<Rightarrow> nat \<times> nat \<Rightarrow> visualizer \<Rightarrow> arrow res) \<Rightarrow> 'k average_table \<Rightarrow>
     arrows_view \<Rightarrow> visualizer \<Rightarrow> py_error option \<times> arrows_view \<times> visualizer" where
  "refresh_arrows views arrow_of avgs t v =
     (let (err, old, new, xs, w) = draw_arrows views arrow_of avgs (pool t) [] (hide_arrows (pool t) (items t)) v
      in (err, \<lparr>pool = (if err = None then new @ old else old), items = xs\<rparr>, w))"

definition update_transmissions_view ::
  "rat \<Rightarrow> rat \<Rightarrow> sample list list \<Rightarrow> arrows_view \<Rightarrow> visualizer \<Rightarrow> py_error option \<times> arrows_view \<times> visualizer" where
  "update_transmissions_view node_scale period window =
     refresh_arrows (\<lambda>(tx, rx) v. get_node rx (get_node tx v)) (transmission_arrow (node_scale / 5) period)
       (transmissions_average window)"

definition update_drops_view ::
  "rat \<Rightarrow> rat \<Rightarrow> rat \<Rightarrow> drop_sample list list \<Rightarrow> arrows_view \<Rightarrow> visualizer \<Rightarrow> py_error option \<times> arrows_view \<times> visualizer" where
  "update_drops_view node_scale period edge_y window =
     refresh_arrows get_node (drop_arrow (node_scale / 5) period edge_y) (drops_average window)"

section \<open>The window keeps the last samples\<close>

lemma trim_window_drop: "trim_window n xs = drop (length xs - n) xs"
proof (induction n xs rule: trim_window.induct)
  case (1 n xs)
  show ?case
  proof (cases "length xs > n")
    case True
    then obtain x ys where xs: "xs = x # ys" by (cases xs) auto
    with True 1 have "trim_window n xs = drop (length ys - n) ys" by (simp add: trim_window.simps [of n "x # ys"])
    with True xs show ?thesis by (simp add: Suc_diff_le)
  qed (simp add: trim_window.simps [of n xs])
qed

lemma push_samples_last:
  "fold (push_samples f) sets [] = drop (length sets - smooth_factor f) sets"
proof (induction sets rule: rev_induct)
  case (snoc s sets)
  have "drop (length (drop (length sets - n) sets @ [s]) - n) (drop (length sets - n) sets @ [s]) =
      drop (length (sets @ [s]) - n) (sets @ [s])" for n
    by (cases "n = 0"; cases "length sets \<le> n") (auto simp: Suc_diff_le)
  with snoc show ?case by (simp add: push_samples_def trim_window_drop)
qed simp

section \<open>What the averages hold\<close>

lemma fold_fold: "fold (fold f) xss d = fold f (concat xss) d"
  by (induction xss arbitrary: d) auto

definition add_to :: "('s \<Rightarrow> nat) \<Rightarrow> 's \<Rightarrow> (nat \<times> nat) option \<Rightarrow> nat \<times> nat" where
  "add_to amount s v = (case v of Some (b, c) \<Rightarrow> (b + amount s, c + 1) | None \<Rightarrow> (amount s, 1))"

lemma averages_fold:
  "averages key amount window =
     fold (\<lambda>s d. AList.update (key s) (add_to amount s (map_of d (key s))) d) (concat window) []"
proof -
  have "add_sample key amount = (\<lambda>s d. AList.update (key s) (add_to amount s (map_of d (key s))) d)"
    by (rule ext, rule ext) (simp add: add_sample_def add_to_def split: option.splits)
  then show ?thesis by (simp add: averages_def fold_fold)
qed

lemma averages_wf: "dict_wf (averages key amount window)"
  unfolding averages_fold by (rule alist.wf_accumulate) simp

lemma sample_fold:
  "fold (\<lambda>s v. if key s = k then Some (add_to amount s v) else v) ss v =
   (let us = filter (\<lambda>s. key s = k) ss
    in if us = [] then v
       else case v of Some (b, c) \<Rightarrow> Some (b + sum_list (map amount us), c + length us)
            | None \<Rightarrow> Some (sum_list (map amount us), length us))"
  by (induction ss arbitrary: v) (auto simp: Let_def add_to_def split: option.splits)

lemma lookup_averages:
  "map_of (averages key amount window) k =
     (let us = filter (\<lambda>s. key s = k) (concat window)
      in if us = [] then None else Some (sum_list (map amount us), length us))"
  unfolding averages_fold alist.lookup_accumulate sample_fold by (simp add: Let_def)

section \<open>Every arrow is in the pool\<close>

definition arrows_ok :: "arrows_view \<Rightarrow> bool" where
  "arrows_ok t \<longleftrightarrow> distinct (pool t) \<and> set (pool t) = {..<length (items t)}"

definition pooled :: "nat list \<Rightarrow> nat list \<Rightarrow> arrow list \<Rightarrow> bool" where
  "pooled new old xs \<longleftrightarrow> distinct (new @ old) \<and> set (new @ old) = {..<length xs}"

definition keeps_nodes :: "visualizer \<Rightarrow> visualizer \<Rightarrow> bool" where
  "keeps_nodes v w \<longleftrightarrow> (\<forall>i n. map_of (nodes v) i = Some n \<longrightarrow> map_of (nodes w) i = Some n)"

lemma keeps_nodes_refl [simp]: "keeps_nodes v v" and
  keeps_nodes_trans: "keeps_nodes u v \<Longrightarrow> keeps_nodes v w \<Longrightarrow> keeps_nodes u w"
  by (auto simp: keeps_nodes_def)

lemma get_node_keeps: "keeps_nodes v (get_node i v)" "map_of (nodes (get_node i v)) i \<noteq> None"
  by (auto simp: keeps_nodes_def get_node_def alist.lookup_store split: option.splits)

lemma length_hide [simp]: "length (hide_arrows is xs) = length xs"
  by (simp add: hide_arrows_def)

lemma hide_arrows_hidden:
  "j < length xs \<Longrightarrow> visible (hide_arrows is xs ! j) \<longleftrightarrow> visible (xs ! j) \<and> j \<notin> set is"
  by (simp add: hide_arrows_def nth_fold_change)

lemma take_arrow_ok:
  assumes "take_arrow old xs = (i, old1, xs1)" and "pooled new old xs"
  shows "pooled (new @ [i]) old1 xs1" "i < length xs1" "i \<notin> set new" "i \<notin> set old1"
    "old1 = butlast old" "length xs1 = length xs + (1 - length old)"
    "\<And>j. j < length xs \<Longrightarrow> xs1 ! j = xs ! j"
proof -
  have "pooled (new @ [i]) old1 xs1 \<and> i < length xs1 \<and> i \<notin> set new \<and> i \<notin> set old1 \<and>
    old1 = butlast old \<and> length xs1 = length xs + (1 - length old) \<and> (\<forall>j<length xs. xs1 ! j = xs ! j)"
  proof (cases old rule: rev_cases)
    case Nil
    then have i: "i = length xs" "old1 = []" "xs1 = xs @ [hidden_arrow]"
      using assms(1) by (simp_all add: take_arrow_def)
    have new: "distinct new" "set new = {..<length xs}" using assms(2) Nil by (simp_all add: pooled_def)
    have "set (new @ [i]) = {..<length xs1}" unfolding i by (simp add: new(2) lessThan_Suc)
    with new show ?thesis by (simp add: pooled_def i Nil nth_append)
  next
    case (snoc os x)
    with assms have "i = x" "old1 = os" "xs1 = xs" by (simp_all add: take_arrow_def)
    moreover have "distinct (new @ os @ [x])" "set (new @ os @ [x]) = {..<length xs}"
      using assms(2) snoc by (simp_all add: pooled_def)
    moreover from this(2) have "x < length xs" by auto
    ultimately show ?thesis by (simp add: pooled_def snoc insert_commute Un_insert_left)
  qed
  then show "pooled (new @ [i]) old1 xs1" "i < length xs1" "i \<notin> set new" "i \<notin> set old1"
    "old1 = butlast old" "length xs1 = length xs + (1 - length old)"
    "\<And>j. j < length xs \<Longrightarrow> xs1 ! j = xs ! j" by blast+
qed

section \<open>Refilling the arrows\<close>

text \<open>
  What the two views give the loop: looking nodes up changes no view that exists, an arrow depends
  on views that exist then, and it is shown.
\<close>

locale arrow_source =
  fixes views :: "'k \<Rightarrow> visualizer \<Rightarrow> visualizer"
    and arrow_of :: "'k \<Rightarrow> nat \<times> nat \<Rightarrow> visualizer \<Rightarrow> arrow res"
  assumes views_keep: "keeps_nodes v (views key v)"
    and arrow_stable: "keeps_nodes (views key v) w \<Longrightarrow> arrow_of key avg w = arrow_of key avg (views key v)"
    and arrow_shown: "arrow_of key avg v = Return a \<Longrightarrow> visible a"
begin

abbreviation arrow_for :: "visualizer \<Rightarrow> 'k \<times> nat \<times> nat \<Rightarrow> arrow res" where
  "arrow_for w \<equiv> \<lambda>(key, avg). arrow_of key avg w"

lemma draw_arrows_ok:
  assumes "draw_arrows views arrow_of avgs old new xs v = (None, old', new', xs', w)" and "pooled new old xs"
  shows "pooled new' old' xs' \<and> keeps_nodes v w \<and> old' = take (length old - length avgs) old \<and>
    length xs' = length xs + (length avgs - length old) \<and> (\<forall>j \<in> set new \<union> set old'. xs' ! j = xs ! j) \<and>
    (\<exists>is. new' = new @ is \<and> map (arrow_for w) avgs = map (\<lambda>i. Return (xs' ! i)) is)"
  using assms
proof (induction avgs arbitrary: old new xs v)
  case (Cons ka avgs)
  obtain key avg where ka: "ka = (key, avg)" by (cases ka)
  obtain i old1 xs1 where t: "take_arrow old xs = (i, old1, xs1)" by (metis prod_cases3)
  note ta = take_arrow_ok [OF t Cons.prems(2)]
  let ?v = "views key v"
  from Cons.prems(1) obtain a where a: "arrow_of key avg ?v = Return a"
    and rest: "draw_arrows views arrow_of avgs old1 (new @ [i])
      (xs1[i := (xs1 ! i)\<lparr>visible := True\<rparr>, i := a]) ?v = (None, old', new', xs', w)"
    by (auto simp: ka t Let_def split: sum.splits)
  let ?xs = "xs1[i := (xs1 ! i)\<lparr>visible := True\<rparr>, i := a]"
  have "pooled (new @ [i]) old1 ?xs" using ta(1) by (simp add: pooled_def)
  from Cons.IH [OF rest this] obtain "is" where
    ih: "pooled new' old' xs'" "keeps_nodes ?v w" "old' = take (length old1 - length avgs) old1"
      "length xs' = length ?xs + (length avgs - length old1)"
      "\<And>j. j \<in> set (new @ [i]) \<union> set old' \<Longrightarrow> xs' ! j = ?xs ! j"
      "new' = (new @ [i]) @ is" "map (arrow_for w) avgs = map (\<lambda>i. Return (xs' ! i)) is" by blast
  have "xs' ! i = a" using ih(5) [of i] ta(2) by simp
  then have first: "arrow_of key avg w = Return (xs' ! i)" using arrow_stable [OF ih(2)] a by simp
  have old: "set old' \<subseteq> set old1" "old' = take (length old - length (ka # avgs)) old"
    using ih(3) by (metis set_take_subset) (simp add: ih(3) ta(5) butlast_conv_take min_def)
  have same: "xs' ! j = xs ! j" if "j \<in> set new \<union> set old'" for j
  proof -
    have "j \<noteq> i" using that ta(3,4) old(1) by auto
    moreover have "j < length xs" using that Cons.prems(2) old(2) by (auto simp: pooled_def dest: in_set_takeD)
    ultimately show ?thesis using ih(5) [of j] that ta(7) [of j] by auto
  qed
  have len: "length xs' = length xs + (length (ka # avgs) - length old)"
    using ih(4) ta(5,6) by simp
  have "keeps_nodes v w" using views_keep ih(2) by (rule keeps_nodes_trans)
  with ih(1) old(2) same len show ?case
    by (intro conjI exI [of _ "i # is"]) (use ih(6,7) first in \<open>auto simp: ka\<close>)
qed simp

lemma refresh_arrows_ok:
  assumes "refresh_arrows views arrow_of avgs t v = (None, t', w)" and "arrows_ok t"
  shows "arrows_ok t'" "keeps_nodes v w" "length (items t') = max (length (items t)) (length avgs)"
    "map (arrow_for w) avgs = map (\<lambda>i. Return (items t' ! i)) (take (length avgs) (pool t'))"
    "i < length (items t') \<Longrightarrow> visible (items t' ! i) \<longleftrightarrow> i \<in> set (take (length avgs) (pool t'))"
proof -
  let ?h = "hide_arrows (pool t) (items t)"
  have p: "pooled [] (pool t) ?h" using assms(2) by (simp add: pooled_def arrows_ok_def)
  obtain err old new xs w' where d: "draw_arrows views arrow_of avgs (pool t) [] ?h v = (err, old, new, xs, w')"
    by (metis prod_cases5)
  from d assms(1) have e: "err = None" "w' = w" "t' = \<lparr>pool = new @ old, items = xs\<rparr>"
    by (auto simp: refresh_arrows_def split: if_splits)
  from draw_arrows_ok [OF d [unfolded e] p] have
    r: "pooled new old xs" "keeps_nodes v w" "old = take (length (pool t) - length avgs) (pool t)"
      "length xs = length (items t) + (length avgs - length (pool t))" "\<And>j. j \<in> set old \<Longrightarrow> xs ! j = ?h ! j"
      "map (arrow_for w) avgs = map (\<lambda>i. Return (xs ! i)) new" by auto
  have n: "length new = length avgs" using arg_cong [OF r(6), of length] by simp
  show "arrows_ok t'" using r(1) by (simp add: e arrows_ok_def pooled_def)
  show "keeps_nodes v w" by (rule r(2))
  have "length (pool t) = length (items t)"
    using assms(2) by (metis arrows_ok_def card_lessThan distinct_card)
  then show "length (items t') = max (length (items t)) (length avgs)" using r(4) by (simp add: e)
  show "map (arrow_for w) avgs = map (\<lambda>i. Return (items t' ! i)) (take (length avgs) (pool t'))"
    using r(6) n by (simp add: e)
  assume i: "i < length (items t')"
  show "visible (items t' ! i) \<longleftrightarrow> i \<in> set (take (length avgs) (pool t'))"
  proof (cases "i \<in> set new")
    case True
    then obtain j where j: "j < length avgs" "new ! j = i" by (metis in_set_conv_nth n)
    obtain k a where ka: "avgs ! j = (k, a)" by (cases "avgs ! j")
    have "arrow_for w (avgs ! j) = Return (xs ! (new ! j))"
      using arg_cong [OF r(6), of "\<lambda>l. l ! j"] j n by simp
    then have "visible (xs ! i)" using arrow_shown j ka by auto
    with True n show ?thesis by (simp add: e)
  next
    case False
    then have old: "i \<in> set old" using i r(1) by (auto simp: e pooled_def)
    then have "i \<in> set (pool t)" using r(3) by (metis in_set_takeD)
    moreover from this have "i < length (items t)" using assms(2) by (auto simp: arrows_ok_def)
    ultimately have "\<not> visible (xs ! i)" using r(5) [OF old] by (simp add: hide_arrows_hidden)
    with False n show ?thesis by (simp add: e)
  qed
qed

text \<open>The update fails exactly when some arrow cannot be made.\<close>

lemma draw_arrows_error:
  "fst (draw_arrows views arrow_of avgs old new xs v) = None \<longleftrightarrow>
     (\<forall>(key, avg) \<in> set avgs. \<exists>a. arrow_of key avg (views key v) = Return a)"
  if "\<And>key avg v w. (\<exists>a. arrow_of key avg v = Return a) \<longleftrightarrow> (\<exists>a. arrow_of key avg w = Return a)"
proof (induction avgs arbitrary: old new xs v)
  case (Cons ka avgs)
  obtain key avg where ka: "ka = (key, avg)" by (cases ka)
  obtain i old1 xs1 where t: "take_arrow old xs = (i, old1, xs1)" by (metis prod_cases3)
  have "(\<forall>(k, a) \<in> set avgs. \<exists>r. arrow_of k a (views k (views key v)) = Return r) \<longleftrightarrow>
      (\<forall>(k, a) \<in> set avgs. \<exists>r. arrow_of k a (views k v) = Return r)"
    unfolding split_def by (intro ball_cong refl that)
  then show ?case
    by (cases "arrow_of key avg (views key v)") (simp_all add: ka t Let_def Cons.IH)
qed simp

end

lemma position_keeps:
  "keeps_nodes v w \<Longrightarrow> map_of (nodes v) i \<noteq> None \<Longrightarrow> position_of i w = position_of i v"
  by (auto simp: keeps_nodes_def position_of_def)

lemma two_views: "keeps_nodes v (get_node rx (get_node tx v))"
  "map_of (nodes (get_node rx (get_node tx v))) tx \<noteq> None"
  "map_of (nodes (get_node rx (get_node tx v))) rx \<noteq> None"
  using get_node_keeps [where i = tx and v = v] get_node_keeps [where i = rx and v = "get_node tx v"]
  by (auto intro: keeps_nodes_trans simp: keeps_nodes_def)

interpretation transmissions: arrow_source "\<lambda>(tx, rx) v. get_node rx (get_node tx v)"
    "transmission_arrow k period" for k period
proof unfold_locales
  fix key avg :: "nat \<times> nat" and v w a
  obtain tx rx where key: "key = (tx, rx)" by (cases key)
  obtain b c where avg: "avg = (b, c)" by (cases avg)
  show "keeps_nodes v ((\<lambda>(tx, rx) v. get_node rx (get_node tx v)) key v)"
    using two_views(1) by (simp add: key)
  show "transmission_arrow k period key avg w =
      transmission_arrow k period key avg ((\<lambda>(tx, rx) v. get_node rx (get_node tx v)) key v)"
    if "keeps_nodes ((\<lambda>(tx, rx) v. get_node rx (get_node tx v)) key v) w"
    using that position_keeps two_views(2,3) by (simp add: key avg transmission_arrow_def)
  show "visible a" if "transmission_arrow k period key avg v = Return a"
    using that by (auto simp: key avg transmission_arrow_def bind_res_eq_Return Let_def)
qed

interpretation drops: arrow_source get_node "drop_arrow k period edge_y" for k period edge_y
proof unfold_locales
  fix key v w a and avg :: "nat \<times> nat"
  obtain b c where avg: "avg = (b, c)" by (cases avg)
  show "keeps_nodes v (get_node key v)" by (rule get_node_keeps)
  show "drop_arrow k period edge_y key avg w = drop_arrow k period edge_y key avg (get_node key v)"
    if "keeps_nodes (get_node key v) w"
    using that position_keeps get_node_keeps(2) by (simp add: avg drop_arrow_def)
  show "visible a" if "drop_arrow k period edge_y key avg v = Return a"
    using that by (auto simp: avg drop_arrow_def bind_res_eq_Return Let_def)
qed

section \<open>The two views\<close>

lemma line_width_returns:
  assumes "0 < period"
  shows "(\<exists>w. line_width_of k period bytes count = Return w) \<longleftrightarrow> 0 < count \<and> 0 < bytes"
proof (cases "count = 0 \<or> bytes = 0")
  case False
  then have "0 < (of_nat bytes / of_nat count / period :: rat)"
    using assms by (intro divide_pos_pos) simp_all
  then have "\<not> of_nat bytes / of_nat count / period \<le> 0" by (simp only: not_le)
  with False assms show ?thesis by (simp add: line_width_of_def Let_def)
qed (auto simp: line_width_of_def Let_def)

lemma arrow_returns:
  assumes "0 < period"
  shows "(\<exists>a. transmission_arrow k period key (b, c) v = Return a) \<longleftrightarrow> 0 < c \<and> 0 < b"
    "(\<exists>a. drop_arrow k period edge_y i (b, c) v = Return a) \<longleftrightarrow> 0 < c \<and> 0 < b"
  using line_width_returns [OF assms, of k b c]
  by (auto simp: transmission_arrow_def drop_arrow_def bind_res_eq_Return Let_def split: prod.splits)

lemma refresh_arrows_error:
  "fst (refresh_arrows views arrow_of avgs t v) =
     fst (draw_arrows views arrow_of avgs (pool t) [] (hide_arrows (pool t) (items t)) v)"
  by (simp add: refresh_arrows_def split: prod.splits)

lemma averages_count:
  assumes "(key, b, c) \<in> set (averages k amount window)"
  shows "0 < c" "b = sum_list (map amount (filter (\<lambda>s. k s = key) (concat window)))"
    "\<exists>s \<in> set (concat window). k s = key"
proof -
  have "map_of (averages k amount window) key = Some (b, c)"
    using assms by (simp add: averages_wf map_of_is_SomeI)
  then have "filter (\<lambda>s. k s = key) (concat window) \<noteq> []"
    and bc: "b = sum_list (map amount (filter (\<lambda>s. k s = key) (concat window)))"
      "c = length (filter (\<lambda>s. k s = key) (concat window))"
    by (auto simp: lookup_averages Let_def split: if_splits)
  then show "0 < c" "b = sum_list (map amount (filter (\<lambda>s. k s = key) (concat window)))"
    "\<exists>s \<in> set (concat window). k s = key"
    by (auto simp: filter_empty_conv simp del: set_concat)
qed

lemma averages_positive:
  assumes "\<forall>s \<in> set (concat window). 0 < amount s" and "(key, b, c) \<in> set (averages k amount window)"
  shows "0 < b \<and> 0 < c"
proof -
  from averages_count(3) [OF assms(2)] obtain s where s: "s \<in> set (concat window)" "k s = key" by blast
  then have "amount s \<le> sum_list (map amount (filter (\<lambda>s. k s = key) (concat window)))"
    by (intro member_le_sum_list) auto
  moreover have "0 < amount s" using assms(1) s(1) by blast
  ultimately show ?thesis using averages_count(1,2) [OF assms(2)] by linarith
qed



text \<open>C20: the view of the dropped packets fails exactly when the packets that some node has dropped have
  no bytes, and otherwise shows one arrow to the lower edge of the screen for each such node, hides the
  others and loses none.\<close>

theorem drops_view_correct:
  assumes "0 < period" and "arrows_ok t"
    and "update_drops_view node_scale period edge_y window t v = (err, t', w)"
  shows "(err = None \<longleftrightarrow>
      (\<forall>s \<in> set (concat window).
         0 < sum_list (map drop_bytes
               (filter (\<lambda>u. drop_transmitter u = drop_transmitter s) (concat window))))) \<and>
    (err = None \<longrightarrow>
      map (\<lambda>(key, avg). drop_arrow (node_scale / 5) period edge_y key avg w) (drops_average window) =
        map (\<lambda>i. Return (items t' ! i)) (take (length (drops_average window)) (pool t')) \<and>
      (\<forall>i<length (items t'). visible (items t' ! i) \<longleftrightarrow>
         i \<in> set (take (length (drops_average window)) (pool t'))) \<and>
      arrows_ok t' \<and> length (items t') = max (length (items t)) (length (drops_average window)))"
proof -
  let ?d = "drops_average window"
  let ?sum = "\<lambda>i. sum_list (map drop_bytes (filter (\<lambda>u. drop_transmitter u = i) (concat window)))"
  have entry: "s \<in> set (concat window) \<Longrightarrow> \<exists>b c. (drop_transmitter s, b, c) \<in> set ?d" for s
    using lookup_averages [of drop_transmitter drop_bytes window "drop_transmitter s"]
    by (auto simp: drops_average_def Let_def filter_empty_conv split: if_splits dest!: map_of_SomeD
        simp del: set_concat)
  have same: "(\<exists>a. drop_arrow (node_scale / 5) period edge_y key avg u = Return a) \<longleftrightarrow>
      (\<exists>a. drop_arrow (node_scale / 5) period edge_y key avg u' = Return a)" for key avg u u'
    using arrow_returns(2) [OF assms(1)] by (cases avg) simp
  have "err = fst (draw_arrows get_node (drop_arrow (node_scale / 5) period edge_y) ?d (pool t) []
      (hide_arrows (pool t) (items t)) v)"
    using assms(3) by (simp add: update_drops_view_def refresh_arrows_error [symmetric])
  then have "err = None \<longleftrightarrow>
      (\<forall>(key, avg) \<in> set ?d. \<exists>a. drop_arrow (node_scale / 5) period edge_y key avg (get_node key v) = Return a)"
    by (simp only: drops.draw_arrows_error [OF same])
  also have "\<dots> \<longleftrightarrow> (\<forall>(key, b, c) \<in> set ?d. 0 < c \<and> 0 < b)"
  proof -
    have "(\<exists>a. drop_arrow (node_scale / 5) period edge_y key avg u = Return a) \<longleftrightarrow> 0 < snd avg \<and> 0 < fst avg"
      for key avg u using arrow_returns(2) [OF assms(1), of _ _ _ "fst avg" "snd avg"] by simp
    then show ?thesis unfolding split_def by (intro ball_cong refl)
  qed
  also have "\<dots> \<longleftrightarrow> (\<forall>(key, b, c) \<in> set ?d. 0 < ?sum key)"
    using averages_count(1,2) [of _ _ _ drop_transmitter drop_bytes window]
    unfolding drops_average_def by fastforce
  also have "\<dots> \<longleftrightarrow> (\<forall>s \<in> set (concat window). 0 < ?sum (drop_transmitter s))"
    using entry averages_count(3) [of _ _ _ drop_transmitter drop_bytes window]
    unfolding drops_average_def by fastforce
  finally have err: "err = None \<longleftrightarrow> (\<forall>s \<in> set (concat window). 0 < ?sum (drop_transmitter s))" .
  show ?thesis
  proof (cases err)
    case None
    note r = drops.refresh_arrows_ok [OF assms(3) [unfolded None update_drops_view_def] assms(2)]
    show ?thesis using err r None by blast
  qed (use err in simp)
qed

theorem drops_view_correct_witness:
  "\<exists>err t' w. update_drops_view 1 (1 / 10) 0 [[\<lparr>drop_transmitter = 0, drop_bytes = 0\<rparr>]]
       \<lparr>pool = [], items = []\<rparr> (new_visualizer 2 (\<lambda>i. None)) = (err, t', w) \<and> err \<noteq> None"
proof -
  obtain err t' w where u: "update_drops_view 1 (1 / 10) 0 [[\<lparr>drop_transmitter = 0, drop_bytes = 0\<rparr>]]
       \<lparr>pool = [], items = []\<rparr> (new_visualizer 2 (\<lambda>i. None)) = (err, t', w)" by (metis prod_cases3)
  have ok: "arrows_ok \<lparr>pool = [], items = []\<rparr>" by (simp add: arrows_ok_def)
  from drops_view_correct [OF _ ok u, THEN conjunct1] have "err \<noteq> None" by simp
  with u show ?thesis by blast
qed

end
