(* ===== verification/Viz_Axes.thy ===== *)
theory Viz_Axes
  imports Prelude Complex_Main
begin

text \<open>
  The axes of the visualizer (\<open>hud.py\<close> of \<open>src/visualizer\<close>): the distance of the marks, the marks
  and the pool of their labels. Coordinates are reals, since the code takes logarithms. The part of
  the canvas that is in view and the zoom are arguments.
\<close>

section \<open>The distance of the marks\<close>

definition rint :: "real \<Rightarrow> int" where
  "rint x = \<lfloor>x + 1 / 2\<rfloor>"

text \<open>One pass of the loop: the first mark, the distance, and the number of divisions for the next pass.\<close>

definition division_pass :: "real \<Rightarrow> real \<Rightarrow> real \<Rightarrow> real \<Rightarrow> real \<times> real" where
  "division_pass xi dx_over_ndiv dx text_width =
     (let tbe = log 10 dx_over_ndiv;
          p = 10 powr real_of_int (rint tbe);
          d = (if \<bar>p / 2 - dx_over_ndiv\<bar> < \<bar>p - dx_over_ndiv\<bar> then p / 2
               else if \<bar>p * 2 - dx_over_ndiv\<bar> < \<bar>p - dx_over_ndiv\<bar> then p * 2
               else p)
      in (d * real_of_int \<lceil>xi / d\<rceil> - d, d))"

definition compute_divisions :: "real \<Rightarrow> real \<Rightarrow> (real \<times> real) res" where
  "compute_divisions xi xf =
     (if \<not> xf > xi then Raise AssertionError
      else
        (let dx = xf - xi; text_width = dx / 5 / 2; dx_over_ndiv = dx / 5
         in Return (snd (fold (\<lambda>n (ndiv, result).
              (if n > 1 then real_of_int (rint (dx / text_width)) else ndiv,
               division_pass xi dx_over_ndiv dx text_width))
            [0..<(5::nat)] (5::real, (0, 0))))))"

text \<open>The loop that steps from mark to mark; it does not end when the distance is not positive.\<close>

partial_function (option) marks :: "real \<Rightarrow> real \<Rightarrow> real \<Rightarrow> real list option" where
  "marks d x_end x =
     (if x < x_end then Option.bind (marks d x_end (x + d)) (\<lambda>xs. Some (x # xs)) else Some [])"

section \<open>Labels and lines\<close>

type_synonym rpoint = "real \<times> real"

record label =
  shown :: bool
  tick :: real
  place :: rpoint

record axes =
  labels :: "nat list"
  label_items :: "label list"
  hlines :: "(rpoint \<times> rpoint) list"
  vlines :: "(rpoint \<times> rpoint) list"

abbreviation PIXELS_PER_METER :: real where "PIXELS_PER_METER \<equiv> 3"

record label_state =
  unused_labels :: "nat list"
  used_labels :: "nat list"
  all_labels :: "label list"

text \<open>\<open>get_label\<close> takes the first unused label or makes one.\<close>

definition get_label :: "label_state \<Rightarrow> nat \<times> label_state" where
  "get_label s =
     (case unused_labels s of
        [] \<Rightarrow> let i = length (all_labels s)
              in (i, s\<lparr>used_labels := used_labels s @ [i],
                       all_labels := all_labels s @ [\<lparr>shown = True, tick = 0, place = (0, 0)\<rparr>]\<rparr>)
      | i # rest \<Rightarrow>
          (i, s\<lparr>unused_labels := rest, used_labels := used_labels s @ [i],
                all_labels := (all_labels s)[i := (all_labels s ! i)\<lparr>shown := True\<rparr>]\<rparr>))"

definition put_label :: "(real \<Rightarrow> rpoint) \<Rightarrow> real \<Rightarrow> label_state \<Rightarrow> label_state" where
  "put_label spot x s =
     (let (i, s1) = get_label s
      in s1\<lparr>all_labels := (all_labels s1)[i := (all_labels s1 ! i)\<lparr>tick := x, place := spot x\<rparr>]\<rparr>)"

definition hide_labels :: "nat list \<Rightarrow> label list \<Rightarrow> label list" where
  "hide_labels is ls = fold (\<lambda>i ls. ls[i := (ls ! i)\<lparr>shown := False\<rparr>]) is ls"

text \<open>
  \<open>update_view\<close>: the outer option is None when a loop does not end. Nothing is drawn before there is
  a zoom.
\<close>

definition update_view :: "real option \<Rightarrow> rpoint \<Rightarrow> rpoint \<Rightarrow> axes \<Rightarrow> axes res option" where
  "update_view zoom = (\<lambda>(x1, y1) (x2, y2) a.
     (case zoom of
        None \<Rightarrow> Some (Return a)
      | Some z \<Rightarrow>
          let offset = 10 / z; line_width = 5 / z; yc = y2 - line_width / 2; xc = x1 + line_width / 2;
              s0 = \<lparr>unused_labels = labels a, used_labels = [], all_labels = hide_labels (labels a) (label_items a)\<rparr>
          in (case compute_divisions (x1 / PIXELS_PER_METER) (x2 / PIXELS_PER_METER) of
                Raise e \<Rightarrow> Some (Raise e)
              | Return (x0, xdiv) \<Rightarrow>
                  Option.bind (marks xdiv (x2 / PIXELS_PER_METER) x0) (\<lambda>xs.
                    let s1 = fold (put_label (\<lambda>x. (PIXELS_PER_METER * x, yc - offset))) xs s0
                    in (case compute_divisions (y1 / PIXELS_PER_METER) (y2 / PIXELS_PER_METER) of
                          Raise e \<Rightarrow> Some (Raise e)
                        | Return (y0, ydiv) \<Rightarrow>
                            Option.bind (marks ydiv (y2 / PIXELS_PER_METER) y0) (\<lambda>ys.
                              let s2 = fold (put_label (\<lambda>y. (xc + offset, PIXELS_PER_METER * y))) ys s1
                              in Some (Return
                                   \<lparr>labels = used_labels s2 @ unused_labels s2, label_items = all_labels s2,
                                    hlines = ((x1, yc), (x2, yc)) #
                                      map (\<lambda>x. ((PIXELS_PER_METER * x, yc - offset), (PIXELS_PER_METER * x, yc))) xs,
                                    vlines = ((xc, y1), (xc, y2)) #
                                      map (\<lambda>y. ((xc, PIXELS_PER_METER * y), (xc + offset, PIXELS_PER_METER * y))) ys\<rparr>)))))))"

section \<open>The distance is near a fifth of the view\<close>

lemma compute_divisions_once:
  "xi < xf \<Longrightarrow> compute_divisions xi xf = Return (division_pass xi ((xf - xi) / 5) (xf - xi) ((xf - xi) / 5 / 2))"
  by (simp add: compute_divisions_def upt_rec Let_def)

lemma power_near:
  assumes "0 < d"
  shows "316 / 1000 * d < 10 powr real_of_int (rint (log 10 d))" "10 powr real_of_int (rint (log 10 d)) < 317 / 100 * d"
proof -
  let ?k = "real_of_int (rint (log 10 d))" and ?r = "10 powr (real_of_int (rint (log 10 d)) - log 10 d) :: real"
  have k: "?k \<le> log 10 d + 1 / 2" "log 10 d + 1 / 2 < ?k + 1" unfolding rint_def by linarith+
  have d: "10 powr log 10 d = d" using assms by simp
  then have p: "10 powr ?k = ?r * d" using assms by (simp add: powr_diff)
  have r2: "?r * ?r = 10 powr (2 * (?k - log 10 d))" by (simp add: powr_add [symmetric])
  have "?r * ?r \<le> 10 powr 1" unfolding r2 by (rule powr_mono) (use k in simp_all)
  moreover have "10 powr (- 1) < ?r * ?r" unfolding r2 by (rule powr_less_mono) (use k in simp_all)
  ultimately have bounds: "?r * ?r \<le> 10" "1 / 10 < ?r * ?r" by (simp_all add: powr_minus divide_simps)
  have pos: "0 < ?r" by simp
  have "316 / 1000 < ?r"
  proof (rule ccontr)
    assume "\<not> 316 / 1000 < ?r"
    then have "?r * ?r \<le> (316 / 1000) * (316 / 1000)" using pos by (intro mult_mono) simp_all
    with bounds(2) show False by simp
  qed
  moreover have "?r < 317 / 100"
  proof (rule ccontr)
    assume "\<not> ?r < 317 / 100"
    then have "(317 / 100) * (317 / 100) \<le> ?r * ?r" using pos by (intro mult_mono) simp_all
    with bounds(1) show False by simp
  qed
  ultimately show "316 / 1000 * d < 10 powr ?k" "10 powr ?k < 317 / 100 * d"
    unfolding p using assms by simp_all
qed

definition is_mark_distance :: "real \<Rightarrow> bool" where
  "is_mark_distance d \<longleftrightarrow> (\<exists>k :: int. \<exists>m \<in> {1 / 2, 1, 2}. d = m * 10 powr real_of_int k)"

lemma division_pass_bounds:
  assumes "0 < e" and "division_pass xi e dx w = (x0, d)"
  shows "is_mark_distance d" "632 / 1000 * e < d" "d < 1585 / 1000 * e" "xi - d \<le> x0" "x0 < xi"
    "\<exists>k :: int. x0 = d * real_of_int k"
proof -
  let ?p = "10 powr real_of_int (rint (log 10 e))"
  note near = power_near [OF assms(1)]
  have d: "d = (if \<bar>?p / 2 - e\<bar> < \<bar>?p - e\<bar> then ?p / 2 else if \<bar>?p * 2 - e\<bar> < \<bar>?p - e\<bar> then ?p * 2 else ?p)"
    and x0: "x0 = d * real_of_int \<lceil>xi / d\<rceil> - d"
    using assms(2) unfolding division_pass_def Let_def prod.inject by blast+
  show "is_mark_distance d"
    unfolding is_mark_distance_def d by (rule exI [of _ "rint (log 10 e)"]) auto
  show lower: "632 / 1000 * e < d" and "d < 1585 / 1000 * e"
    using near assms(1) unfolding d by (auto split: if_splits)
  from lower assms(1) have pos: "0 < d" by linarith
  have "xi / d \<le> real_of_int \<lceil>xi / d\<rceil>" "real_of_int \<lceil>xi / d\<rceil> < xi / d + 1" by linarith+
  then have "d * (xi / d) \<le> d * real_of_int \<lceil>xi / d\<rceil>" "d * real_of_int \<lceil>xi / d\<rceil> < d * (xi / d + 1)"
    using pos by (simp_all only: mult_le_cancel_left_pos mult_less_cancel_left_pos)
  then show "xi - d \<le> x0" "x0 < xi" using pos by (simp_all add: x0 distrib_left)
  show "\<exists>k :: int. x0 = d * real_of_int k"
    by (rule exI [of _ "\<lceil>xi / d\<rceil> - 1"]) (simp add: x0 algebra_simps)
qed

section \<open>The marks\<close>

lemma marks_end: "0 < d \<Longrightarrow> marks d x_end x = Some (map (\<lambda>i. x + real i * d) [0..<nat \<lceil>(x_end - x) / d\<rceil>])"
proof (induction "nat \<lceil>(x_end - x) / d\<rceil>" arbitrary: x)
  case 0
  then have "\<not> x < x_end" by (simp add: divide_le_0_iff)
  with 0 show ?case by (simp add: marks.simps [of d x_end x])
next
  case (Suc n)
  have less: "x < x_end"
  proof (rule ccontr)
    assume "\<not> x < x_end"
    then have "(x_end - x) / d \<le> 0" using Suc.prems by (simp add: divide_le_0_iff)
    then have "nat \<lceil>(x_end - x) / d\<rceil> = 0" by simp
    with Suc.hyps(2) show False by simp
  qed
  have "(x_end - (x + d)) / d = (x_end - x) / d - 1" using Suc.prems by (simp add: field_simps)
  then have n: "n = nat \<lceil>(x_end - (x + d)) / d\<rceil>" using Suc.hyps(2) by simp
  have "[0..<Suc n] = 0 # map Suc [0..<n]" by (simp add: map_Suc_upt upt_conv_Cons)
  with Suc.hyps(1) [OF n Suc.prems] less show ?case
    unfolding Suc.hyps(2) [symmetric] n [symmetric]
    by (simp add: marks.simps [of d x_end x] algebra_simps)
qed

lemma mark_count:
  fixes e :: real
  assumes "0 < e" and "632 / 1000 * e < d" "d < 1585 / 1000 * e" "xi - d \<le> x0" "x0 < xi"
  shows "4 \<le> nat \<lceil>(xi + 5 * e - x0) / d\<rceil>" "nat \<lceil>(xi + 5 * e - x0) / d\<rceil> \<le> 9"
proof -
  have d: "0 < d" using assms(1,2) by linarith
  have "3 * d < xi + 5 * e - x0" "xi + 5 * e - x0 \<le> 9 * d" using assms by linarith+
  then have "3 < (xi + 5 * e - x0) / d" "(xi + 5 * e - x0) / d \<le> 9"
    using d by (simp_all add: less_divide_eq divide_le_eq)
  then show "4 \<le> nat \<lceil>(xi + 5 * e - x0) / d\<rceil>" "nat \<lceil>(xi + 5 * e - x0) / d\<rceil> \<le> 9" by linarith+
qed

definition good_marks :: "real \<Rightarrow> real \<Rightarrow> real list \<Rightarrow> bool" where
  "good_marks lo hi xs \<longleftrightarrow>
     4 \<le> length xs \<and> length xs \<le> 9 \<and> hd xs < lo \<and> last xs < hi \<and>
     (\<exists>d. is_mark_distance d \<and> hi \<le> last xs + d \<and> lo \<le> hd xs + d \<and>
        (\<exists>k :: int. xs = map (\<lambda>i. d * real_of_int (k + int i)) [0..<length xs]))"

lemma axis_marks:
  assumes "lo < hi"
  shows "\<exists>x0 d xs. compute_divisions lo hi = Return (x0, d) \<and> marks d hi x0 = Some xs \<and> good_marks lo hi xs"
proof -
  let ?e = "(hi - lo) / 5"
  have e: "0 < ?e" "hi = lo + 5 * ?e" using assms by (simp, simp add: field_simps)
  obtain x0 d where p: "division_pass lo ?e (hi - lo) (?e / 2) = (x0, d)" by fastforce
  note b = division_pass_bounds [OF e(1) p]
  from b(2) e(1) have d: "0 < d" by linarith
  define n where "n = nat \<lceil>(hi - x0) / d\<rceil>"
  define xs where "xs = map (\<lambda>i. x0 + real i * d) [0..<n]"
  have m: "marks d hi x0 = Some xs" using marks_end [OF d] by (simp add: xs_def n_def)
  have n: "4 \<le> n" "n \<le> 9" using mark_count [OF e(1) b(2-5)] e(2) by (simp_all add: n_def)
  have ne: "xs \<noteq> []" and len: "length xs = n" using n by (simp_all add: xs_def)
  have hd: "hd xs = x0" using n by (simp add: xs_def hd_map)
  have last: "last xs = x0 + real (n - 1) * d" using n by (simp add: xs_def last_map)
  have "real n - 1 < (hi - x0) / d" "(hi - x0) / d \<le> real n" using n(1) unfolding n_def by linarith+
  then have "(real n - 1) * d < hi - x0" "hi - x0 \<le> real n * d" using d by (simp_all add: less_divide_eq divide_le_eq)
  then have ends: "last xs < hi" "hi \<le> last xs + d" using n(1) by (simp_all add: last of_nat_diff algebra_simps)
  obtain k :: int where "x0 = d * real_of_int k" using b(6) by blast
  then have "xs = map (\<lambda>i. d * real_of_int (k + int i)) [0..<length xs]"
    unfolding len by (simp add: xs_def algebra_simps)
  then have "good_marks lo hi xs"
    unfolding good_marks_def using n len hd b(1,4,5) ends by (auto simp: algebra_simps)
  with m p show ?thesis using compute_divisions_once [OF assms] by auto
qed

section \<open>The labels\<close>

definition labels_ok :: "axes \<Rightarrow> bool" where
  "labels_ok a \<longleftrightarrow> distinct (labels a) \<and> set (labels a) = {..<length (label_items a)}"

definition label_inv :: "label_state \<Rightarrow> bool" where
  "label_inv s \<longleftrightarrow> distinct (used_labels s @ unused_labels s) \<and>
     set (used_labels s @ unused_labels s) = {..<length (all_labels s)}"

definition shows_labels :: "label list \<Rightarrow> nat list \<Rightarrow> label list" where
  "shows_labels ls is = map (\<lambda>i. ls ! i) is"

lemma put_label_step:
  assumes "label_inv s"
  shows "label_inv (put_label spot x s) \<and>
    shows_labels (all_labels (put_label spot x s)) (used_labels (put_label spot x s)) =
      shows_labels (all_labels s) (used_labels s) @ [\<lparr>shown = True, tick = x, place = spot x\<rparr>] \<and>
    unused_labels (put_label spot x s) = tl (unused_labels s) \<and>
    (\<forall>j \<in> set (tl (unused_labels s)). all_labels (put_label spot x s) ! j = all_labels s ! j)"
proof (cases "unused_labels s")
  case Nil
  let ?n = "length (all_labels s)"
  have used: "distinct (used_labels s)" "set (used_labels s) = {..<?n}"
    using assms Nil by (simp_all add: label_inv_def)
  then have "\<forall>i \<in> set (used_labels s). i < ?n" by blast
  with used Nil show ?thesis
    by (simp add: put_label_def get_label_def label_inv_def shows_labels_def lessThan_Suc Let_def nth_append)
next
  case (Cons i rest)
  have inv: "distinct (used_labels s @ i # rest)" "set (used_labels s @ i # rest) = {..<length (all_labels s)}"
    using assms Cons by (simp_all add: label_inv_def)
  from inv(2) have i: "i < length (all_labels s)" by auto
  have out: "\<forall>j \<in> set (used_labels s) \<union> set rest. i \<noteq> j" using inv(1) by auto
  with inv i Cons show ?thesis
    by (simp add: put_label_def get_label_def label_inv_def shows_labels_def Let_def)
qed

lemma put_labels:
  assumes "label_inv s"
  shows "label_inv (fold (put_label spot) xs s) \<and>
    shows_labels (all_labels (fold (put_label spot) xs s)) (used_labels (fold (put_label spot) xs s)) =
      shows_labels (all_labels s) (used_labels s) @ map (\<lambda>x. \<lparr>shown = True, tick = x, place = spot x\<rparr>) xs \<and>
    unused_labels (fold (put_label spot) xs s) = drop (length xs) (unused_labels s) \<and>
    (\<forall>j \<in> set (unused_labels (fold (put_label spot) xs s)). all_labels (fold (put_label spot) xs s) ! j = all_labels s ! j)"
  using assms
proof (induction xs arbitrary: s)
  case (Cons x xs)
  note s = put_label_step [OF Cons.prems, of spot x]
  let ?s = "put_label spot x s" and ?t = "fold (put_label spot) xs (put_label spot x s)"
  from Cons.IH [OF conjunct1 [OF s]] have
    t: "label_inv ?t" "shows_labels (all_labels ?t) (used_labels ?t) =
        shows_labels (all_labels ?s) (used_labels ?s) @ map (\<lambda>x. \<lparr>shown = True, tick = x, place = spot x\<rparr>) xs"
      "unused_labels ?t = drop (length xs) (unused_labels ?s)"
      "\<And>j. j \<in> set (unused_labels ?t) \<Longrightarrow> all_labels ?t ! j = all_labels ?s ! j" by blast+
  have "unused_labels ?t = drop (length (x # xs)) (unused_labels s)" using t(3) s by (simp add: drop_Suc)
  moreover have "all_labels ?t ! j = all_labels s ! j" if "j \<in> set (unused_labels ?t)" for j
    using t(4) [OF that] s that t(3) by (auto dest: in_set_dropD)
  ultimately show ?case using t(1,2) s by auto
qed simp

lemma length_hide_labels [simp]: "length (hide_labels is ls) = length ls"
  by (simp add: hide_labels_def)

lemma hide_labels_hidden:
  "j < length ls \<Longrightarrow> shown (hide_labels is ls ! j) \<longleftrightarrow> shown (ls ! j) \<and> j \<notin> set is"
  by (simp add: hide_labels_def nth_fold_change)

text \<open>C13: drawing the axes of a view that is not empty always ends; each axis gets between four and nine
  marks, at consecutive multiples of one, two or half a power of ten, from the last one before the view to
  the last one inside it; the labels shown are exactly those of the marks, in order, the others are hidden
  and kept, and one is made only when none is left.\<close>

theorem axes_correct:
  assumes "x1 < x2" and "y1 < y2" and "labels_ok a"
  shows "\<exists>b xs ys. update_view (Some zoom) (x1, y1) (x2, y2) a = Some (Return b) \<and>
    good_marks (x1 / 3) (x2 / 3) xs \<and> good_marks (y1 / 3) (y2 / 3) ys \<and>
    length (hlines b) = 1 + length xs \<and> length (vlines b) = 1 + length ys \<and>
    map (\<lambda>i. tick (label_items b ! i)) (take (length xs + length ys) (labels b)) = xs @ ys \<and>
    labels_ok b \<and>
    (\<forall>i<length (label_items b). shown (label_items b ! i) \<longleftrightarrow> i \<in> set (take (length xs + length ys) (labels b))) \<and>
    length (label_items b) = max (length (label_items a)) (length xs + length ys)"
proof -
  have lo_hi: "x1 / 3 < x2 / 3" "y1 / 3 < y2 / 3" using assms by simp_all
  from axis_marks [OF lo_hi(1)] obtain x0 xdiv xs where
    x: "compute_divisions (x1 / 3) (x2 / 3) = Return (x0, xdiv)" "marks xdiv (x2 / 3) x0 = Some xs"
      "good_marks (x1 / 3) (x2 / 3) xs" by blast
  from axis_marks [OF lo_hi(2)] obtain y0 ydiv ys where
    y: "compute_divisions (y1 / 3) (y2 / 3) = Return (y0, ydiv)" "marks ydiv (y2 / 3) y0 = Some ys"
      "good_marks (y1 / 3) (y2 / 3) ys" by blast
  define s0 where "s0 = \<lparr>unused_labels = labels a, used_labels = [], all_labels = hide_labels (labels a) (label_items a)\<rparr>"
  let ?spot1 = "\<lambda>x. (3 * x, y2 - 5 / zoom / 2 - 10 / zoom)" and ?spot2 = "\<lambda>y. (x1 + 5 / zoom / 2 + 10 / zoom, 3 * y)"
  define s1 where "s1 = fold (put_label ?spot1) xs s0"
  define s2 where "s2 = fold (put_label ?spot2) ys s1"
  define b where "b = \<lparr>labels = used_labels s2 @ unused_labels s2, label_items = all_labels s2,
    hlines = ((x1, y2 - 5 / zoom / 2), (x2, y2 - 5 / zoom / 2)) #
      map (\<lambda>x. ((3 * x, y2 - 5 / zoom / 2 - 10 / zoom), (3 * x, y2 - 5 / zoom / 2))) xs,
    vlines = ((x1 + 5 / zoom / 2, y1), (x1 + 5 / zoom / 2, y2)) #
      map (\<lambda>y. ((x1 + 5 / zoom / 2, 3 * y), (x1 + 5 / zoom / 2 + 10 / zoom, 3 * y))) ys\<rparr>"
  have r: "update_view (Some zoom) (x1, y1) (x2, y2) a = Some (Return b)"
    unfolding update_view_def prod.case option.case Let_def x(1,2) y(1,2) sum.case Option.bind_lunit
      b_def s2_def s1_def s0_def by (rule refl)
  have "label_inv s0" using assms(3) by (simp add: label_inv_def labels_ok_def s0_def)
  note p1 = put_labels [OF this, of ?spot1 xs, folded s1_def]
  note p2 = put_labels [OF conjunct1 [OF p1], of ?spot2 ys, folded s2_def]
  let ?ls = "map (\<lambda>x. \<lparr>shown = True, tick = x, place = ?spot1 x\<rparr>) xs @ map (\<lambda>x. \<lparr>shown = True, tick = x, place = ?spot2 x\<rparr>) ys"
  have used: "map ((!) (all_labels s2)) (used_labels s2) = ?ls"
    using p1 p2 by (simp add: shows_labels_def s0_def)
  have n: "length (used_labels s2) = length xs + length ys" using arg_cong [OF used, of length] by simp
  have inv: "label_inv s2" using p2 by blast
  have un: "unused_labels s2 = drop (length ys) (unused_labels s1)" "unused_labels s1 = drop (length xs) (labels a)"
    using p1 p2 by (auto simp: s0_def)
  then have sub: "set (unused_labels s2) \<subseteq> set (unused_labels s1)" "set (unused_labels s1) \<subseteq> set (labels a)"
    by (simp_all only: set_drop_subset)
  have hidden: "\<not> shown (all_labels s2 ! i)" if "i \<in> set (unused_labels s2)" for i
  proof -
    have "all_labels s2 ! i = hide_labels (labels a) (label_items a) ! i"
      using p1 p2 that sub(1) by (auto simp: s0_def)
    moreover have "i \<in> set (labels a)" using sub that by blast
    moreover from this have "i < length (label_items a)" using assms(3) by (auto simp: labels_ok_def)
    ultimately show ?thesis by (simp add: hide_labels_hidden)
  qed
  have shown: "shown (all_labels s2 ! i)" if i: "i \<in> set (used_labels s2)" for i
  proof -
    have "all_labels s2 ! i \<in> set ?ls" unfolding used [symmetric] using i by simp
    then show ?thesis by auto
  qed
  have "map tick (map ((!) (all_labels s2)) (used_labels s2)) = xs @ ys" unfolding used by (simp add: comp_def)
  then have ticks: "map (\<lambda>i. tick (label_items b ! i)) (take (length xs + length ys) (labels b)) = xs @ ys"
    using n by (simp add: b_def comp_def)
  have "labels_ok b" using inv by (simp add: labels_ok_def label_inv_def b_def)
  moreover have "\<forall>i<length (label_items b). shown (label_items b ! i) \<longleftrightarrow>
      i \<in> set (take (length xs + length ys) (labels b))"
    using inv n hidden shown unfolding b_def label_inv_def by (simp, blast)
  moreover have "length (label_items b) = max (length (label_items a)) (length xs + length ys)"
  proof -
    have "length (labels a) = length (label_items a)"
      using assms(3) by (metis card_lessThan distinct_card labels_ok_def)
    moreover have "length (used_labels s2 @ unused_labels s2) = length (all_labels s2)"
      using inv by (metis card_lessThan distinct_card label_inv_def)
    ultimately show ?thesis using n un by (simp add: b_def)
  qed
  ultimately show ?thesis
    using r x(3) y(3) ticks by (intro exI [of _ b] exI [of _ xs] exI [of _ ys]) (simp add: b_def)
qed

theorem axes_correct_witness:
  "\<exists>b. update_view (Some 1) (0, 0) (300, 150) \<lparr>labels = [], label_items = [], hlines = [], vlines = []\<rparr> =
     Some (Return b) \<and> labels_ok b"
proof -
  have "labels_ok \<lparr>labels = [], label_items = [], hlines = [], vlines = []\<rparr>" by (simp add: labels_ok_def)
  from axes_correct [OF _ _ this, of 0 300 0 150 1] show ?thesis by auto
qed

end
