(* ===== verification/Waf_Run.thy ===== *)
theory Waf_Run
  imports Test_Jobs Shlex
begin

text \<open>
  Running programs from the build directory, \<open>wutils.py\<close>: finding a program among the targets of
  waf, its command line, the environment of its process, and what its exit code is turned into. The
  targets, the configuration, the processes and the signals of the platform are arguments; what the
  program prints is left out, and so is the branch for Windows exceptions.
\<close>

section \<open>The code\<close>

text \<open>
  An error of waf keeps the values its message is made of. \<open>PyError\<close> is an exception of Python
  that is not caught.
\<close>

datatype waf_error =
    ConflictingOptions
  | ValgrindNotInstalled
  | ProgramNotFound string "string list"
  | TerminatedBy "string list" string
  | ExitedWith "string list" int
  | PyError py_error

type_synonym 'a waf = "waf_error + 'a"

record task_gen =
  gen_name :: string
  is_ns3_program :: bool
  gen_path :: string
  gen_build_path :: string
  gen_target :: string

record waf_settings =
  command_template :: "string option"
  use_valgrind :: bool
  waf_valgrind :: "string list"
  waf_python :: "string list"
  waf_module_path :: "string list"
  waf_executable_path :: "string list"
  pymoddir :: string
  pyvizdir :: string
  platform :: string
  os_environ :: environment
  launch_dir :: string
  cwd_launch :: string
  waf_cwd :: string
  targets :: "task_gen list"

definition get_command_template :: "waf_settings \<Rightarrow> string list \<Rightarrow> string" where
  "get_command_template w arguments =
     (let cmd = (case command_template w of Some (c # cs) \<Rightarrow> c # cs | _ \<Rightarrow> ''%s'')
      in fold (\<lambda>arg cmd. cmd @ '' '' @ arg) arguments cmd)"

text \<open>The loop over the targets, with the names found so far.\<close>

fun find_program_loop :: "string \<Rightarrow> string \<Rightarrow> string \<Rightarrow> string list \<Rightarrow> task_gen list \<Rightarrow> task_gen waf" where
  "find_program_loop here launch name found [] = Raise (ProgramNotFound name found)"
| "find_program_loop here launch name found (obj # objs) =
     (if \<not> is_ns3_program obj then find_program_loop here launch name found objs
      else if \<not> (startswith (gen_path obj) launch \<or> startswith (gen_build_path obj) launch)
      then find_program_loop here launch name found objs
      else
        (let names = [gen_name obj, path_join (relpath here (gen_path obj) launch) (gen_name obj)]
         in if name \<in> set names then Return obj
            else find_program_loop here launch name (found @ names) objs))"

definition find_program :: "waf_settings \<Rightarrow> string \<Rightarrow> task_gen waf" where
  "find_program w name =
     (let launch = abspath (waf_cwd w) (launch_dir w)
      in find_program_loop (waf_cwd w) launch name [] (targets w))"

definition path_variable :: "string \<Rightarrow> string" where
  "path_variable p =
     (if p = ''linux2'' \<or> p = ''linux'' then ''LD_LIBRARY_PATH''
      else if p = ''darwin'' then ''DYLD_LIBRARY_PATH''
      else if p = ''win32'' then ''PATH''
      else if p = ''cygwin'' then ''PATH''
      else if startswith p ''freebsd'' then ''LD_LIBRARY_PATH''
      else ''LD_LIBRARY_PATH'')"

definition pathsep :: "string \<Rightarrow> string" where
  "pathsep p = (if p = ''win32'' then '';'' else '':'')"

definition prepend_paths :: "string \<Rightarrow> string \<Rightarrow> string list \<Rightarrow> environment \<Rightarrow> environment" where
  "prepend_paths sep var dirs en =
     (case map_of en var of
        Some v \<Rightarrow> AList.update var (str_join sep (dirs @ [v])) en
      | None \<Rightarrow> AList.update var (str_join sep dirs) en)"

definition get_proc_env :: "waf_settings \<Rightarrow> environment option \<Rightarrow> environment" where
  "get_proc_env w os_env =
     (let sep = pathsep (platform w);
          en = (case os_env of None \<Rightarrow> os_environ w
                | Some extra \<Rightarrow> fold (\<lambda>(k, v). AList.update k v) extra (os_environ w));
          en1 = prepend_paths sep (path_variable (platform w)) (waf_module_path w) en;
          en2 = prepend_paths sep ''PYTHONPATH'' [pymoddir w, pyvizdir w] en1
      in prepend_paths sep ''PATH'' (waf_executable_path w) en2)"

text \<open>
  A process: its exit code, negative for a signal, and what it writes to its standard error as
  bytes. The loop over the standard error is over the characters of the text, not its lines.
\<close>

type_synonym processes = "string list \<Rightarrow> environment \<Rightarrow> string option \<Rightarrow> int \<times> nat list"

definition leak_line :: "nat list \<Rightarrow> bool" where
  "leak_line line \<longleftrightarrow> sublist (map of_char ''== LEAK SUMMARY'') line"

definition signal_name :: "(string \<times> int) list \<Rightarrow> int \<Rightarrow> string option" where
  "signal_name signals retval =
     (case filter (\<lambda>(name, val). length name > 3 \<and> take 3 name = ''SIG'' \<and> name ! 3 \<noteq> CHR ''_'' \<and> val = - retval) signals of
        [] \<Rightarrow> None
      | (name, val) # _ \<Rightarrow> Some name)"

definition check_retval :: "(string \<times> int) list \<Rightarrow> string list \<Rightarrow> int \<Rightarrow> int waf" where
  "check_retval signals argv retval =
     (if retval = 0 then Return 0
      else
        (case (if retval < 0 then signal_name signals retval else None) of
           Some name \<Rightarrow> Raise (TerminatedBy argv name)
         | None \<Rightarrow> Raise (ExitedWith argv retval)))"

definition run_argv ::
  "waf_settings \<Rightarrow> processes \<Rightarrow> (string \<times> int) list \<Rightarrow> string list \<Rightarrow> environment option \<Rightarrow> string option \<Rightarrow> bool \<Rightarrow> int waf" where
  "run_argv w proc signals argv os_env dir force_no_valgrind =
     (let proc_env = get_proc_env w os_env
      in if use_valgrind w \<and> \<not> force_no_valgrind then
           (if command_template w \<noteq> None \<and> command_template w \<noteq> Some [] then Raise ConflictingOptions
            else if waf_valgrind w = [] then Raise ValgrindNotInstalled
            else
              (let argv = [hd (waf_valgrind w), ''--leak-check=full'', ''--show-reachable=yes'', ''--error-exitcode=1''] @ argv;
                   (code, stderrdata) = proc argv proc_env dir
               in case utf8_decode stderrdata of
                    None \<Rightarrow> Raise (PyError (ValueError ''UnicodeDecodeError''))
                  | Some text \<Rightarrow>
                      let error = list_ex leak_line (map (\<lambda>c. [c]) text);
                          retval = (if code = 0 \<and> error then 1 else code)
                      in check_retval signals argv retval))
         else check_retval signals argv (fst (proc argv proc_env dir)))"

text \<open>
  The operator \<open>%\<close> with one string; of the conversions only \<open>%s\<close> and \<open>%%\<close> are distinguished, any other
  is an error.
\<close>

fun format_one :: "string \<Rightarrow> string \<Rightarrow> bool \<Rightarrow> string res" where
  "format_one v [] used = (if used then Return [] else Raise TypeError)"
| "format_one v (c # cs) used =
     (if c \<noteq> CHR ''%'' then bind_res (format_one v cs used) (\<lambda>s. Return (c # s))
      else
        (case cs of
           [] \<Rightarrow> Raise (ValueError ''incomplete format'')
         | d # ds \<Rightarrow>
             if d = CHR ''s'' then
               (if used then Raise TypeError else bind_res (format_one v ds True) (\<lambda>s. Return (v @ s)))
             else if d = CHR ''%'' then bind_res (format_one v ds used) (\<lambda>s. Return (d # s))
             else Raise (ValueError ''unsupported format character'')))"

definition lift_py :: "'a res \<Rightarrow> 'a waf" where
  "lift_py m = (case m of Inl e \<Rightarrow> Raise (PyError e) | Inr x \<Rightarrow> Return x)"

definition double_backslashes :: "string \<Rightarrow> string" where
  "double_backslashes s = concat (map (\<lambda>c. if c = backslash then [backslash, backslash] else [c]) s)"

definition get_run_program :: "waf_settings \<Rightarrow> string \<Rightarrow> string option \<Rightarrow> (string \<times> string list) waf" where
  "get_run_program w program_string template =
     (if template = None \<or> template = Some ''%s'' then
        bind_res (lift_py (shlex_split program_string)) (\<lambda>argv.
        bind_res (lift_py (py_nth argv 0)) (\<lambda>program_name.
        bind_res (find_program w program_name) (\<lambda>obj.
          Return (program_name, gen_target obj # tl argv))))
      else
        bind_res (find_program w program_string) (\<lambda>obj.
        bind_res (lift_py (format_one (gen_target obj) (the template) False)) (\<lambda>tmpl.
        bind_res (lift_py (shlex_split (double_backslashes tmpl))) (\<lambda>execvec.
          Return (program_string, execvec)))))"

definition visual_argument :: string where
  "visual_argument = ''--SimulatorImplementationType=ns3::VisualSimulatorImpl''"

definition run_program ::
  "waf_settings \<Rightarrow> processes \<Rightarrow> (string \<times> int) list \<Rightarrow> string \<Rightarrow> string option \<Rightarrow> string option \<Rightarrow> bool \<Rightarrow> int waf" where
  "run_program w proc signals program_string template wd visualize =
     bind_res (get_run_program w program_string template) (\<lambda>(_, execvec).
       let dir = (case wd of Some d \<Rightarrow> d | None \<Rightarrow> cwd_launch w);
           execvec = (if visualize then execvec @ [visual_argument] else execvec)
       in run_argv w proc signals execvec None (Some dir) False)"

definition run_python_program ::
  "waf_settings \<Rightarrow> processes \<Rightarrow> (string \<times> int) list \<Rightarrow> string \<Rightarrow> bool \<Rightarrow> int waf" where
  "run_python_program w proc signals program_string visualize =
     bind_res (lift_py (shlex_split program_string)) (\<lambda>execvec.
       let execvec = (if visualize then execvec @ [visual_argument] else execvec)
       in bind_res (lift_py (py_nth (waf_python w) 0)) (\<lambda>python.
            run_argv w proc signals (python # execvec) None (Some (cwd_launch w)) False))"

section \<open>The environment of a process\<close>

lemma lookup_prepend:
  "map_of (prepend_paths sep var dirs en) =
     (map_of en)(var \<mapsto> str_join sep (dirs @ (case map_of en var of Some v \<Rightarrow> [v] | None \<Rightarrow> [])))"
  by (auto simp: prepend_paths_def alist.lookup_store split: option.splits)

lemma lookup_merged:
  "map_of (fold (\<lambda>(k, v). AList.update k v) extra en) = map_of en ++ map_of (rev extra)"
proof (induction extra arbitrary: en)
  case (Cons kv extra)
  obtain k v where kv: "kv = (k, v)" by (cases kv)
  show ?case by (simp add: kv Cons.IH alist.lookup_store fun_eq_iff map_add_def split: option.splits)
qed simp

lemma path_variable_cases: "path_variable p \<in> {''LD_LIBRARY_PATH'', ''DYLD_LIBRARY_PATH'', ''PATH''}"
  by (simp add: path_variable_def)

text \<open>A process inherits the environment, updated by the variables of the caller, with the module
  path before the library path, the executable path before the path and the two directories of the
  bindings before the Python path of the user; no other variable changes.\<close>

theorem get_proc_env_correct:
  fixes w :: waf_settings and os_env :: "environment option"
  defines "old \<equiv> map_of (os_environ w) ++ (case os_env of None \<Rightarrow> Map.empty | Some extra \<Rightarrow> map_of (rev extra))"
    and "sep \<equiv> pathsep (platform w)" and "var \<equiv> path_variable (platform w)"
  shows "map_of (get_proc_env w os_env) k =
    (if k = ''PYTHONPATH'' then Some (str_join sep ([pymoddir w, pyvizdir w] @ (case old k of Some v \<Rightarrow> [v] | None \<Rightarrow> [])))
     else if k = ''PATH'' then
       Some (str_join sep (waf_executable_path w @
         (if var = ''PATH'' then [str_join sep (waf_module_path w @ (case old k of Some v \<Rightarrow> [v] | None \<Rightarrow> []))]
          else (case old k of Some v \<Rightarrow> [v] | None \<Rightarrow> []))))
     else if k = var then Some (str_join sep (waf_module_path w @ (case old k of Some v \<Rightarrow> [v] | None \<Rightarrow> [])))
     else old k)"
proof -
  have old: "map_of (case os_env of None \<Rightarrow> os_environ w
      | Some extra \<Rightarrow> fold (\<lambda>(k, v). AList.update k v) extra (os_environ w)) = old"
    by (cases os_env) (simp_all add: old_def lookup_merged)
  have "var \<noteq> ''PYTHONPATH''" using path_variable_cases [of "platform w"] by (auto simp: var_def)
  then show ?thesis
    by (simp add: get_proc_env_def lookup_prepend old sep_def [symmetric] var_def [symmetric] Let_def)
qed

section \<open>Exit codes\<close>

lemma no_leak_found: "\<not> list_ex leak_line (map (\<lambda>c. [c]) text)"
proof -
  have "\<not> leak_line [c]" for c
    by (auto simp: leak_line_def dest: sublist_length_le)
  then show ?thesis by (simp add: list_ex_iff)
qed

lemma check_retval_positive: "0 < code \<Longrightarrow> check_retval signals argv code = Raise (ExitedWith argv code)"
  by (simp add: check_retval_def)

lemma check_retval_Return: "check_retval signals argv code = Return r \<longleftrightarrow> code = 0 \<and> r = 0"
  by (auto simp: check_retval_def split: option.splits)


definition sample_settings :: waf_settings where
  "sample_settings =
     \<lparr>command_template = None, use_valgrind = True, waf_valgrind = [''valgrind''], waf_python = [''python3''],
      waf_module_path = [''/b/lib''], waf_executable_path = [''/b''], pymoddir = ''/b/py'', pyvizdir = ''/s/viz'',
      platform = ''linux'', os_environ = [], launch_dir = ''/s'', cwd_launch = ''/s'', waf_cwd = ''/s'',
      targets = [\<lparr>gen_name = ''run'', is_ns3_program = True, gen_path = ''/s/p'', gen_build_path = ''/s/b/p'',
                  gen_target = ''/s/b/p/run''\<rparr>]\<rparr>"


section \<open>Command lines\<close>

text \<open>A word that needs no quotes once its backslashes are doubled.\<close>

definition simple_word :: "string \<Rightarrow> bool" where
  "simple_word s \<longleftrightarrow> s \<noteq> [] \<and> (\<forall>c \<in> set s. \<not> shlex_space c \<and> \<not> shlex_quote_char c)"

lemma doubled_chars:
  assumes "\<forall>c \<in> set s. \<not> shlex_space c \<and> \<not> shlex_quote_char c"
  shows "shlex_read InWord tok quoted (double_backslashes s @ rest) = shlex_read InWord (tok @ s) quoted rest"
  using assms
  by (induction s arbitrary: tok)
    (auto simp: double_backslashes_def shlex_space_def shlex_quote_char_def)

lemma doubled_word:
  assumes "simple_word s"
  shows "shlex_read Between tok quoted (double_backslashes s @ rest) = shlex_read InWord s False rest"
proof -
  obtain c cs where s: "s = c # cs" using assms by (cases s) (auto simp: simple_word_def)
  have "shlex_read Between tok quoted (double_backslashes [c] @ x) = shlex_read InWord [c] False x" for x
    using assms by (auto simp: s simple_word_def double_backslashes_def shlex_space_def shlex_quote_char_def)
  moreover have "double_backslashes s = double_backslashes [c] @ double_backslashes cs"
    by (simp add: s double_backslashes_def)
  ultimately show ?thesis using doubled_chars [of cs "[c]" False rest] assms by (simp add: s simple_word_def)
qed

lemma double_join:
  "double_backslashes (str_join '' '' ws) = str_join '' '' (map double_backslashes ws)"
proof -
  have a: "double_backslashes (x @ y) = double_backslashes x @ double_backslashes y" for x y
    by (simp add: double_backslashes_def)
  show ?thesis
  proof (induction ws)
    case (Cons w ws)
    then show ?case by (cases ws) (simp_all add: a, simp add: double_backslashes_def)
  qed (simp add: double_backslashes_def)
qed

lemma shlex_split_doubled:
  "list_all simple_word ws \<Longrightarrow> shlex_split (double_backslashes (str_join '' '' ws)) = Return ws"
proof -
  have "shlex_read Between tok quoted (str_join '' '' (map double_backslashes ws)) = Return ws"
    if "list_all simple_word ws" for tok quoted
    using that
  proof (induction ws arbitrary: tok quoted)
    case (Cons w ws)
    then have w: "simple_word w" "w \<noteq> []" by (simp_all add: simple_word_def)
    show ?case
    proof (cases ws)
      case Nil
      then show ?thesis using doubled_word [OF w(1), of tok quoted "[]"] w(2) by simp
    next
      case (Cons v vs)
      then have "str_join '' '' (map double_backslashes (w # ws)) =
          double_backslashes w @ '' '' @ str_join '' '' (map double_backslashes ws)" by simp
      with Cons.IH Cons.prems w doubled_word [OF w(1)] show ?thesis by (simp add: shlex_space_def)
    qed
  qed simp
  then show "list_all simple_word ws \<Longrightarrow> shlex_split (double_backslashes (str_join '' '' ws)) = Return ws"
    by (simp add: shlex_split_def double_join)
qed

lemma format_plain:
  "CHR ''%'' \<notin> set s \<Longrightarrow> format_one v (s @ t) used = bind_res (format_one v t used) (\<lambda>r. Return (s @ r))"
  by (induction s) (auto simp: bind_res_def split: sum.splits)

lemma format_template:
  assumes "CHR ''%'' \<notin> set a" and "CHR ''%'' \<notin> set b"
  shows "format_one v (a @ ''%s'' @ b) False = Return (a @ v @ b)"
  using format_plain [OF assms(1), of v "''%s'' @ b" False] format_plain [OF assms(2), of v "[]" True] by simp

lemma join_before: "ws \<noteq> [] \<Longrightarrow> str_join sep (pre @ ws) = concat (map (\<lambda>w. w @ sep) pre) @ str_join sep ws"
proof (induction pre)
  case (Cons p pre)
  then show ?case by (cases "pre @ ws") simp_all
qed simp

lemma shift_separator: "sep @ concat (map (\<lambda>w. w @ sep) ws) = concat (map (\<lambda>w. sep @ w) ws) @ sep"
  by (induction ws) simp_all

lemma join_after: "ws \<noteq> [] \<Longrightarrow> str_join sep (ws @ post) = str_join sep ws @ concat (map (\<lambda>w. sep @ w) post)"
proof (induction post rule: rev_induct)
  case (snoc p post)
  have "str_join sep ((ws @ post) @ [p]) = concat (map (\<lambda>w. w @ sep) (ws @ post)) @ p" by (simp add: join_before)
  moreover have "concat (map (\<lambda>w. w @ sep) us) = str_join sep us @ sep" if "us \<noteq> []" for us
    using that
  proof (induction us)
    case (Cons u us)
    then show ?case by (cases us) simp_all
  qed simp
  ultimately show ?case using snoc shift_separator [of sep post] by simp
qed simp

lemma find_program_known:
  assumes "find_program_loop here launch name found objs = Return obj"
  shows "obj \<in> set objs \<and> is_ns3_program obj \<and>
    (startswith (gen_path obj) launch \<or> startswith (gen_build_path obj) launch) \<and>
    name \<in> {gen_name obj, path_join (relpath here (gen_path obj) launch) (gen_name obj)}"
  using assms by (induction objs arbitrary: found) (auto simp: Let_def split: if_splits)

text \<open>The program that runs is a program of the build in the directory of the launch, under its name or
  its path. A quoted command line runs its target with exactly the arguments given. A template of plain
  words runs as these words with the place of the program filled in, its backslashes kept; but the path of
  the program is not quoted, so one with blanks ends up as several words.\<close>

theorem get_run_program_correct:
  assumes "find_program w name = Return obj" and "gen_target obj = str_join '' '' ws" and "ws \<noteq> []"
    and "list_all simple_word (pre @ ws @ post)" and "\<forall>p \<in> set (pre @ post). CHR ''%'' \<notin> set p"
    and "pre @ post \<noteq> []"
  shows "get_run_program w name (Some (str_join '' '' (pre @ ''%s'' # post))) = Return (name, pre @ ws @ post) \<and>
    get_run_program w (str_join '' '' (map shlex_quote (name # args))) None = Return (name, gen_target obj # args) \<and>
    obj \<in> set (targets w) \<and> is_ns3_program obj \<and>
    name \<in> {gen_name obj, path_join (relpath (waf_cwd w) (gen_path obj) (abspath (waf_cwd w) (launch_dir w))) (gen_name obj)}"
proof -
  define a b where "a = concat (map (\<lambda>w. w @ '' '') pre)" and "b = concat (map (\<lambda>w. '' '' @ w) post)"
  have t: "str_join '' '' (pre @ ''%s'' # post) = a @ ''%s'' @ b"
    using join_before [of "''%s'' # post" "'' ''" pre] join_after [of "[''%s'']" "'' ''" post]
    by (simp add: a_def b_def)
  have "CHR ''%'' \<notin> set a" "CHR ''%'' \<notin> set b" using assms(5) by (auto simp: a_def b_def)
  from format_template [OF this]
  have f: "format_one (gen_target obj) (str_join '' '' (pre @ ''%s'' # post)) False =
      Return (str_join '' '' (pre @ ws @ post))"
    using join_before [of "ws @ post" "'' ''" pre] join_after [OF assms(3), of "'' ''" post] assms(2,3)
    by (simp add: t a_def b_def)
  have "str_join '' '' (pre @ ''%s'' # post) \<noteq> ''%s''"
  proof
    assume "str_join '' '' (pre @ ''%s'' # post) = ''%s''"
    from arg_cong [OF this [unfolded t], of length] have "a = []" "b = []" by simp_all
    then have "pre = []" "post = []" by (simp_all add: a_def b_def)
    with assms(6) show False by simp
  qed
  with assms(1) f shlex_split_doubled [OF assms(4)]
  have "get_run_program w name (Some (str_join '' '' (pre @ ''%s'' # post))) = Return (name, pre @ ws @ post)"
    by (simp add: get_run_program_def lift_py_def)
  moreover have "get_run_program w (str_join '' '' (map shlex_quote (name # args))) None = Return (name, gen_target obj # args)"
    using assms(1) shlex_split_quote [of "name # args"] by (simp add: get_run_program_def lift_py_def py_nth_def)
  ultimately show ?thesis
    using find_program_known [OF assms(1) [unfolded find_program_def Let_def]] by blast
qed

theorem get_run_program_correct_witness:
  "get_run_program sample_settings ''run'' (Some (str_join '' '' ([''gdb''] @ ''%s'' # []))) =
     Return (''run'', [''gdb''] @ [''/s/b/p/run''] @ [])"
proof -
  have f: "find_program sample_settings ''run'' =
      Return \<lparr>gen_name = ''run'', is_ns3_program = True, gen_path = ''/s/p'', gen_build_path = ''/s/b/p'',
              gen_target = ''/s/b/p/run''\<rparr>"
    by code_simp
  have w: "list_all simple_word ([''gdb''] @ [''/s/b/p/run''] @ [])" by code_simp
  have p: "\<forall>p \<in> set ([''gdb''] @ []). CHR ''%'' \<notin> set p" by simp
  show ?thesis
    by (rule get_run_program_correct [OF f _ _ w p, THEN conjunct1]) simp_all
qed

end
