(* ===== verification/Flow_Monitor.thy ===== *)
theory Flow_Monitor
  imports Xml_Tree Test_Workers
begin

text \<open>
  The report on the flows of a simulation, \<open>src/flow-monitor/examples/flowmon-parse-results.py\<close>: the
  XML file of the flow monitor, already parsed to a tree, is read into flows with their addresses and
  probes, and one block of lines is printed for each. Floats are rational numbers, without rounding
  and without \<open>inf\<close> and \<open>nan\<close>; the dots that show the progress are left out. A \<open>Flow\<close> object that
  the list \<open>flows\<close> and the dict \<open>flow_map\<close> share is an index into the list.
\<close>

section \<open>Numbers in attributes\<close>

definition signed_digits :: "string \<Rightarrow> int option" where
  "signed_digits s =
     (let (neg, ds) = (case s of [] \<Rightarrow> (False, [])
                       | c # cs \<Rightarrow> if c = CHR ''-'' then (True, cs) else if c = CHR ''+'' then (False, cs) else (False, s))
      in if ds \<noteq> [] \<and> list_all is_digit ds
         then Some (if neg then - int (nat_of_str ds) else int (nat_of_str ds)) else None)"

text \<open>\<open>int(s)\<close> and \<open>long(s)\<close>; None has no value as a number and cannot be sliced.\<close>

definition int_text :: "string option \<Rightarrow> int res" where
  "int_text s =
     (case s of None \<Rightarrow> Raise TypeError
      | Some t \<Rightarrow> (case signed_digits (str_strip t) of
          None \<Rightarrow> Raise (ValueError ''invalid literal for int()'') | Some i \<Rightarrow> Return i))"

definition pow10 :: "int \<Rightarrow> rat" where
  "pow10 e = (if 0 \<le> e then 10 ^ nat e else 1 / 10 ^ nat (- e))"

text \<open>\<open>float(s)\<close>: digits with an optional sign, fraction and exponent.\<close>

definition float_digits :: "string \<Rightarrow> rat option" where
  "float_digits s =
     (let whole = takeWhile is_digit s; s1 = dropWhile is_digit s;
          (part, s2) = (case s1 of [] \<Rightarrow> ([], [])
                        | c # cs \<Rightarrow> if c = CHR ''.'' then (takeWhile is_digit cs, dropWhile is_digit cs) else ([], s1));
          x = of_nat (nat_of_str (whole @ part)) / 10 ^ length part
      in if whole = [] \<and> part = [] then None
         else (case s2 of [] \<Rightarrow> Some x
               | c # cs \<Rightarrow> if c \<in> {CHR ''e'', CHR ''E''} then map_option (\<lambda>e. x * pow10 e) (signed_digits cs) else None))"

definition float_text :: "string option \<Rightarrow> rat res" where
  "float_text s =
     (case s of None \<Rightarrow> Raise TypeError
      | Some t \<Rightarrow>
          (case (case str_strip t of [] \<Rightarrow> None
                 | c # cs \<Rightarrow> if c = CHR ''-'' then map_option uminus (float_digits cs)
                            else if c = CHR ''+'' then float_digits cs else float_digits (c # cs)) of
             None \<Rightarrow> Raise (ValueError ''could not convert string to float'') | Some x \<Rightarrow> Return x))"

text \<open>\<open>s[:-4]\<close>\<close>

definition cut_unit :: "string option \<Rightarrow> string option res" where
  "cut_unit s = (case s of None \<Rightarrow> Raise TypeError | Some t \<Rightarrow> Return (Some (take (length t - 4) t)))"

definition parse_time_ns :: "string option \<Rightarrow> int res" where
  "parse_time_ns tm =
     (case tm of None \<Rightarrow> Raise AttributeError
      | Some t \<Rightarrow> if endswith t ''ns'' then bind_res (cut_unit tm) int_text else Raise (ValueError t))"

section \<open>Flows\<close>

record five_tuple =
  source_address :: "string option"
  destination_address :: "string option"
  protocol :: int
  source_port :: int
  destination_port :: int

definition new_five_tuple :: "xml \<Rightarrow> five_tuple res" where
  "new_five_tuple el =
     bind_res (int_text (get_attr el ''sourcePort'')) (\<lambda>sport.
     bind_res (int_text (get_attr el ''destinationPort'')) (\<lambda>dport.
     bind_res (int_text (get_attr el ''protocol'')) (\<lambda>proto.
       Return \<lparr>source_address = get_attr el ''sourceAddress'', destination_address = get_attr el ''destinationAddress'',
               protocol = proto, source_port = sport, destination_port = dport\<rparr>)))"

type_synonym histogram = "(rat \<times> rat \<times> int) list"

definition new_histogram :: "xml \<Rightarrow> histogram res" where
  "new_histogram el =
     map_res (\<lambda>bin.
       bind_res (float_text (get_attr bin ''start'')) (\<lambda>start.
       bind_res (float_text (get_attr bin ''width'')) (\<lambda>width.
       bind_res (int_text (get_attr bin ''count'')) (\<lambda>n. Return (start, width, n))))) (findall el ''bin'')"

record probe_flow_stats =
  probe_id :: int
  probe_packets :: int
  probe_bytes :: int
  delay_from_first_probe :: rat

record flow =
  flow_id :: int
  delay_mean :: "rat option"
  packet_loss_ratio :: "rat option"
  rx_bitrate :: "rat option"
  tx_bitrate :: "rat option"
  flow_tuple :: "five_tuple option"
  packet_size_mean :: "rat option"
  probe_stats_unsorted :: "probe_flow_stats list"
  hop_count :: rat
  flow_interruptions :: "histogram option"
  rx_duration :: rat

text \<open>A time attribute as a number: \<open>long(el.get(k)[:-4])\<close>\<close>

definition time_attr :: "xml \<Rightarrow> string \<Rightarrow> int res" where
  "time_attr el k = bind_res (cut_unit (get_attr el k)) int_text"

definition seconds_between :: "xml \<Rightarrow> string \<Rightarrow> string \<Rightarrow> rat res" where
  "seconds_between el later earlier =
     bind_res (time_attr el later) (\<lambda>t.
     bind_res (time_attr el earlier) (\<lambda>u. Return (of_int (t - u) / 10 ^ 9)))"

definition bitrate :: "xml \<Rightarrow> string \<Rightarrow> rat \<Rightarrow> rat option res" where
  "bitrate el k d =
     (if 0 < d then bind_res (int_text (get_attr el k)) (\<lambda>b. Return (Some (of_int (b * 8) / d)))
      else Return None)"

definition new_flow :: "xml \<Rightarrow> flow res" where
  "new_flow el =
     bind_res (int_text (get_attr el ''flowId'')) (\<lambda>i.
     bind_res (int_text (get_attr el ''rxPackets'')) (\<lambda>rx.
     bind_res (int_text (get_attr el ''txPackets'')) (\<lambda>tx.
     bind_res (seconds_between el ''timeLastTxPacket'' ''timeFirstTxPacket'') (\<lambda>tx_d.
     bind_res (seconds_between el ''timeLastRxPacket'' ''timeFirstRxPacket'') (\<lambda>rx_d.
     bind_res (if rx \<noteq> 0 then bind_res (float_text (get_attr el ''timesForwarded'')) (\<lambda>f. Return (f / of_int rx + 1))
               else Return (- 1000)) (\<lambda>hops.
     bind_res (if rx \<noteq> 0 then
                 bind_res (cut_unit (get_attr el ''delaySum'')) (\<lambda>t.
                 bind_res (float_text t) (\<lambda>d.
                 bind_res (float_text (get_attr el ''rxBytes'')) (\<lambda>b.
                   Return (Some (d / of_int rx / 10 ^ 9), Some (b / of_int rx)))))
               else Return (None, None)) (\<lambda>(delay, packet).
     bind_res (bitrate el ''rxBytes'' rx_d) (\<lambda>rx_rate.
     bind_res (bitrate el ''txBytes'' tx_d) (\<lambda>tx_rate.
     bind_res (float_text (get_attr el ''lostPackets'')) (\<lambda>lost.
     bind_res (if rx = 0 then Return None
               else if of_int rx + lost = 0 then Raise ZeroDivisionError
               else Return (Some (lost / (of_int rx + lost)))) (\<lambda>loss.
     bind_res (case find_elem el ''flowInterruptionsHistogram'' of
                 None \<Rightarrow> Return None | Some h \<Rightarrow> bind_res (new_histogram h) (\<lambda>b. Return (Some b))) (\<lambda>hist.
       Return \<lparr>flow_id = i, delay_mean = delay, packet_loss_ratio = loss, rx_bitrate = rx_rate,
               tx_bitrate = tx_rate, flow_tuple = None, packet_size_mean = packet,
               probe_stats_unsorted = [], hop_count = hops, flow_interruptions = hist,
               rx_duration = rx_d\<rparr>))))))))))))"

section \<open>A simulation\<close>

type_synonym flow_map = "(int \<times> nat) list"

definition add_flow :: "xml \<Rightarrow> flow_map \<times> flow list \<Rightarrow> (flow_map \<times> flow list) res" where
  "add_flow el = (\<lambda>(m, flows).
     bind_res (new_flow el) (\<lambda>fl. Return (AList.update (flow_id fl) (length flows) m, flows @ [fl])))"

text \<open>A change of the object \<open>flow_map[i]\<close>\<close>

definition with_flow :: "flow_map \<Rightarrow> int \<Rightarrow> (flow \<Rightarrow> flow) \<Rightarrow> flow list \<Rightarrow> flow list res" where
  "with_flow m i f flows =
     (case map_of m i of None \<Rightarrow> Raise KeyError | Some j \<Rightarrow> Return (flows[j := f (flows ! j)]))"

definition read_class :: "xml \<Rightarrow> (int \<times> five_tuple) res" where
  "read_class el =
     bind_res (int_text (get_attr el ''flowId'')) (\<lambda>i.
     bind_res (new_five_tuple el) (\<lambda>t. Return (i, t)))"

definition set_tuple :: "five_tuple \<Rightarrow> flow \<Rightarrow> flow" where
  "set_tuple t = flow_tuple_update (\<lambda>_. Some t)"

definition read_stats :: "int \<Rightarrow> xml \<Rightarrow> (int \<times> probe_flow_stats) res" where
  "read_stats p el =
     bind_res (int_text (get_attr el ''flowId'')) (\<lambda>i.
     bind_res (int_text (get_attr el ''packets'')) (\<lambda>n.
     bind_res (int_text (get_attr el ''bytes'')) (\<lambda>b.
     bind_res (if 0 < n then bind_res (parse_time_ns (get_attr el ''delayFromFirstProbeSum'')) (\<lambda>t. Return (of_int t / of_int n))
               else Return 0) (\<lambda>d.
       Return (i, \<lparr>probe_id = p, probe_packets = n, probe_bytes = b, delay_from_first_probe = d\<rparr>)))))"

definition add_stats :: "probe_flow_stats \<Rightarrow> flow \<Rightarrow> flow" where
  "add_stats s = probe_stats_unsorted_update (\<lambda>old. old @ [s])"

definition classify :: "flow_map \<Rightarrow> xml \<Rightarrow> flow list \<Rightarrow> flow list res" where
  "classify m el flows = bind_res (read_class el) (\<lambda>(i, t). with_flow m i (set_tuple t) flows)"

definition add_probe :: "flow_map \<Rightarrow> xml \<Rightarrow> flow list \<Rightarrow> flow list res" where
  "add_probe m probe flows =
     bind_res (int_text (get_attr probe ''index'')) (\<lambda>p.
       fold_res (\<lambda>el flows. bind_res (read_stats p el) (\<lambda>(i, s). with_flow m i (add_stats s) flows))
         (findall probe ''FlowStats'') flows)"

definition simulation :: "xml \<Rightarrow> flow list res" where
  "simulation e =
     (case findall e ''Ipv4FlowClassifier'' of
        [cls] \<Rightarrow>
          bind_res (fold_res add_flow (findall_path e ''FlowStats'' ''Flow'') ([], [])) (\<lambda>(m, flows).
          bind_res (fold_res (classify m) (findall cls ''Flow'') flows) (\<lambda>flows.
            fold_res (add_probe m) (findall_path e ''FlowProbes'' ''FlowProbe'') flows))
      | _ \<Rightarrow> Raise (ValueError ''unpack''))"

section \<open>The events of the file and the report\<close>

datatype event = Start xml | End xml

fun events :: "xml \<Rightarrow> event list" where
  "events (Elem t as x cs) = Start (Elem t as x cs) # concat (map events cs) @ [End (Elem t as x cs)]"

fun on_event :: "event \<Rightarrow> int \<times> flow list list \<Rightarrow> (int \<times> flow list list) res" where
  "on_event (Start e) (level, sims) = Return (level + 1, sims)"
| "on_event (End e) (level, sims) =
     (if level - 1 = 0 \<and> tag_of e = ''FlowMonitor''
      then bind_res (simulation e) (\<lambda>sim. Return (level - 1, sims @ [sim])) else Return (level - 1, sims))"

definition read_file :: "xml \<Rightarrow> flow list list res" where
  "read_file e = bind_res (fold_res on_event (events e) (0, [])) (\<lambda>(level, sims). Return sims)"

text \<open>\<open>"%.2f" % x\<close>\<close>

definition format_hundredths :: "rat \<Rightarrow> string" where
  "format_hundredths x =
     (let k = nat (round_half_even (100 * \<bar>x\<bar>)); r = k mod 100
      in (if x < 0 then ''-'' else []) @ str_of_nat (k div 100) @ ''.'' @ [digit_char (r div 10), digit_char (r mod 10)])"

definition text_or_None :: "string option \<Rightarrow> string" where
  "text_or_None s = (case s of None \<Rightarrow> ''None'' | Some t \<Rightarrow> t)"

definition figure :: "string \<Rightarrow> rat option \<Rightarrow> rat \<Rightarrow> string \<Rightarrow> string" where
  "figure name x factor unit =
     CHR 0x09 # name @ '': '' @ (case x of None \<Rightarrow> ''None'' | Some v \<Rightarrow> format_hundredths (v * factor) @ '' '' @ unit)"

definition protocol_name :: "int \<Rightarrow> string res" where
  "protocol_name p = (if p = 6 then Return ''TCP'' else if p = 17 then Return ''UDP'' else Raise KeyError)"

definition flow_lines :: "flow \<Rightarrow> string list res" where
  "flow_lines fl =
     (case flow_tuple fl of
        None \<Rightarrow> Raise AttributeError
      | Some t \<Rightarrow>
          bind_res (protocol_name (protocol t)) (\<lambda>proto.
            Return
              [''FlowID: '' @ str_of_int (flow_id fl) @ '' ('' @ proto @ '' '' @ text_or_None (source_address t) @ ''/'' @
                 str_of_int (source_port t) @ '' --> '' @ text_or_None (destination_address t) @ ''/'' @
                 str_of_int (destination_port t) @ '')'',
               figure ''TX bitrate'' (tx_bitrate fl) (1 / 1000) ''kbit/s'',
               figure ''RX bitrate'' (rx_bitrate fl) (1 / 1000) ''kbit/s'',
               figure ''Mean Delay'' (delay_mean fl) 1000 ''ms'',
               figure ''Packet Loss Ratio'' (packet_loss_ratio fl) 100 ''%'']))"

text \<open>What has been printed when the loop ends, and how it ends.\<close>

fun print_flows :: "flow list \<Rightarrow> string list \<times> unit res" where
  "print_flows [] = ([], Return ())"
| "print_flows (fl # fls) =
     (case flow_lines fl of
        Inl e \<Rightarrow> ([], Raise e)
      | Inr ls \<Rightarrow> (case print_flows fls of (rest, r) \<Rightarrow> (ls @ rest, r)))"

definition main_report :: "xml \<Rightarrow> string list \<times> unit res" where
  "main_report e =
     (case read_file e of Inl err \<Rightarrow> ([], Raise err) | Inr sims \<Rightarrow> print_flows (concat sims))"

section \<open>Reading is parsing, then assigning by identity\<close>

text \<open>The object that the dict has under an identity is the last one that was stored.\<close>

definition object_of :: "int list \<Rightarrow> int \<Rightarrow> nat option" where
  "object_of ids = map_of (rev (zip ids [0..<length ids]))"

lemma object_of_Some: "object_of ids i = Some j \<Longrightarrow> j < length ids \<and> ids ! j = i"
  by (auto simp: object_of_def dest!: map_of_SomeD simp: in_set_zip)

lemma object_of_None: "object_of ids i = None \<longleftrightarrow> i \<notin> set ids"
proof -
  have "fst ` set (zip ids [0..<length ids]) = set ids" by (simp flip: set_map)
  then show ?thesis by (simp add: object_of_def map_of_eq_None_iff)
qed

lemma object_of_snoc: "object_of (ids @ [i]) = (object_of ids)(i \<mapsto> length ids)"
  by (simp add: object_of_def fun_eq_iff)

lemma object_of_distinct: "distinct ids \<Longrightarrow> j < length ids \<Longrightarrow> object_of ids (ids ! j) = Some j"
  by (metis nth_eq_iff_index_eq nth_mem object_of_None object_of_Some option.exhaust)

definition shared_map :: "flow list \<Rightarrow> flow_map" where
  "shared_map flows = fst (fold (\<lambda>fl (m, n). (AList.update (flow_id fl) n m, Suc n)) flows ([], 0))"

lemma shared_map_snoc: "shared_map (flows @ [fl]) = AList.update (flow_id fl) (length flows) (shared_map flows)"
proof -
  have "snd (fold (\<lambda>fl (m, n). (AList.update (flow_id fl) n m, Suc n)) flows ([], 0 :: nat)) = length flows"
    for flows :: "flow list"
    by (induction flows rule: rev_induct) (auto split: prod.splits)
  from this [of flows] show ?thesis by (auto simp: shared_map_def split: prod.splits)
qed

lemma lookup_shared_map: "map_of (shared_map flows) = object_of (map flow_id flows)"
proof (induction flows rule: rev_induct)
  case Nil
  show ?case by (simp add: shared_map_def object_of_def)
next
  case (snoc fl flows)
  then show ?case using object_of_snoc [of "map flow_id flows" "flow_id fl"]
    by (simp add: shared_map_snoc alist.lookup_store)
qed

lemma add_flows:
  "fold_res add_flow els ([], []) =
     bind_res (map_res new_flow els) (\<lambda>flows. Return (shared_map flows, flows))"
proof (induction els rule: rev_induct)
  case Nil
  show ?case by (simp add: shared_map_def)
next
  case (snoc el els)
  then show ?case
    by (cases "map_res new_flow els"; cases "new_flow el")
      (simp_all add: fold_res_append map_res_append add_flow_def shared_map_snoc)
qed

lemma with_flows:
  "map_of m = object_of ids \<Longrightarrow> length flows = length ids \<Longrightarrow>
   fold_res (\<lambda>(i, v). with_flow m i (f v)) ys flows = Return t \<longleftrightarrow>
     (\<forall>(i, v) \<in> set ys. i \<in> set ids) \<and>
     t = fold (\<lambda>(j, v) xs. xs[j := f v (xs ! j)]) (map (\<lambda>(i, v). (the (object_of ids i), v)) ys) flows"
proof (induction ys arbitrary: flows)
  case (Cons y ys)
  obtain i v where y: "y = (i, v)" by (cases y)
  show ?case
  proof (cases "object_of ids i")
    case None
    then show ?thesis using Cons.prems object_of_None [of ids i] by (simp add: y with_flow_def)
  next
    case (Some j)
    then have "i \<in> set ids" using object_of_None [of ids i] by simp
    with Some Cons show ?thesis by (simp add: y with_flow_def)
  qed
qed auto

definition read_probe :: "xml \<Rightarrow> (int \<times> probe_flow_stats) list res" where
  "read_probe probe =
     bind_res (int_text (get_attr probe ''index'')) (\<lambda>p. map_res (read_stats p) (findall probe ''FlowStats''))"

lemma add_probes:
  "fold_res (add_probe m) probes flows = Return t \<longleftrightarrow>
     (\<exists>stats. map_res read_probe probes = Return stats \<and>
        fold_res (\<lambda>(i, s). with_flow m i (add_stats s)) (concat stats) flows = Return t)"
proof -
  have "add_probe m probe flows = Return t \<longleftrightarrow>
      (\<exists>ys. read_probe probe = Return ys \<and> fold_res (\<lambda>(i, s). with_flow m i (add_stats s)) ys flows = Return t)"
    for probe flows t
  proof -
    have "fold_res (\<lambda>el flows. bind_res (read_stats p el) (\<lambda>(i, s). with_flow m i (add_stats s) flows)) els flows = Return t \<longleftrightarrow>
        (\<exists>ys. map_res (read_stats p) els = Return ys \<and> fold_res (\<lambda>(i, s). with_flow m i (add_stats s)) ys flows = Return t)"
      for p els
      using fold_res_parsed [of "read_stats p" "\<lambda>(i, s). with_flow m i (add_stats s)" els flows t]
      by (simp add: case_prod_unfold)
    then show ?thesis by (auto simp: add_probe_def read_probe_def bind_res_eq_Return)
  qed
  from fold_res_by_parts [where g = "add_probe m" and p = read_probe and
      upd = "fold_res (\<lambda>(i, s). with_flow m i (add_stats s))", OF this]
  show ?thesis by (simp add: fold_res_concat)
qed

lemma classify_all:
  "fold_res (classify m) els flows = Return t \<longleftrightarrow>
     (\<exists>ys. map_res read_class els = Return ys \<and> fold_res (\<lambda>(i, c). with_flow m i (set_tuple c)) ys flows = Return t)"
proof -
  have "classify m el flows = Return t \<longleftrightarrow> (\<exists>y. read_class el = Return y \<and> (\<lambda>(i, c). with_flow m i (set_tuple c)) y flows = Return t)"
    for el flows t
    by (auto simp: classify_def bind_res_eq_Return case_prod_unfold)
  from fold_res_by_parts [OF this] show ?thesis .
qed

text \<open>What the entries with an identity give to the object that has it.\<close>

definition entries_for :: "int list \<Rightarrow> (int \<times> 'v) list \<Rightarrow> nat \<Rightarrow> 'v list" where
  "entries_for ids ys j = map snd (filter (\<lambda>(i, v). object_of ids i = Some j) ys)"

lemma with_flows_nth:
  assumes "map_of m = object_of ids" and "length flows = length ids"
  shows "fold_res (\<lambda>(i, v). with_flow m i (f v)) ys flows = Return t \<longleftrightarrow>
     fst ` set ys \<subseteq> set ids \<and> t = map (\<lambda>j. fold f (entries_for ids ys j) (flows ! j)) [0..<length flows]"
proof -
  have fold_if: "fold (\<lambda>(i, v). if i = j then f v else id) zs a = fold f (map snd (filter (\<lambda>(i, v). i = j) zs)) a"
    for j :: nat and zs a
    by (induction zs arbitrary: a) auto
  have at: "fold (\<lambda>(j, v) xs. xs[j := f v (xs ! j)]) (map (\<lambda>(i, v). (the (object_of ids i), v)) ys) flows =
      map (\<lambda>j. fold f (entries_for ids ys j) (flows ! j)) [0..<length flows]"
    if known: "fst ` set ys \<subseteq> set ids"
  proof (rule nth_equalityI)
    fix j
    assume "j < length (fold (\<lambda>(j, v) xs. xs[j := f v (xs ! j)]) (map (\<lambda>(i, v). (the (object_of ids i), v)) ys) flows)"
    then have j: "j < length flows" by simp
    have "the (object_of ids (fst y)) = j \<longleftrightarrow> object_of ids (fst y) = Some j" if "y \<in> set ys" for y
      using that known object_of_None [of ids "fst y"] by (cases "object_of ids (fst y)") force+
    then have "filter (\<lambda>y. the (object_of ids (fst y)) = j) ys = filter (\<lambda>y. object_of ids (fst y) = Some j) ys"
      by (rule filter_cong [OF refl])
    then have "map snd (filter (\<lambda>(i, v). i = j) (map (\<lambda>(i, v). (the (object_of ids i), v)) ys)) = entries_for ids ys j"
      by (simp add: entries_for_def filter_map o_def case_prod_unfold)
    with j show "fold (\<lambda>(j, v) xs. xs[j := f v (xs ! j)]) (map (\<lambda>(i, v). (the (object_of ids i), v)) ys) flows ! j =
        map (\<lambda>j. fold f (entries_for ids ys j) (flows ! j)) [0..<length flows] ! j"
      by (simp add: nth_fold_update fold_if)
  qed simp
  have known: "(\<forall>(i, v) \<in> set ys. i \<in> set ids) \<longleftrightarrow> fst ` set ys \<subseteq> set ids" by auto
  show ?thesis
  proof (cases "fst ` set ys \<subseteq> set ids")
    case True
    then show ?thesis unfolding with_flows [OF assms] known at [OF True] by simp
  next
    case False
    then show ?thesis unfolding with_flows [OF assms] known by simp
  qed
qed

lemma fold_set_tuple:
  "fold set_tuple ts fl = (if ts = [] then fl else fl\<lparr>flow_tuple := Some (last ts)\<rparr>)"
  by (induction ts arbitrary: fl) (auto simp: set_tuple_def)

lemma fold_add_stats: "fold add_stats ss fl = fl\<lparr>probe_stats_unsorted := probe_stats_unsorted fl @ ss\<rparr>"
  by (induction ss arbitrary: fl) (auto simp: add_stats_def)

lemma fresh_flow: "new_flow el = Return fl \<Longrightarrow> flow_tuple fl = None \<and> probe_stats_unsorted fl = []"
  by (auto simp: new_flow_def bind_res_eq_Return case_prod_unfold)

lemma fresh_flows: "map_res new_flow els = Return flows \<Longrightarrow> fl \<in> set flows \<Longrightarrow> flow_tuple fl = None \<and> probe_stats_unsorted fl = []"
  by (induction els arbitrary: flows) (auto simp: bind_res_eq_Return fresh_flow)

section \<open>Properties\<close>

text \<open>C23: a simulation is read exactly when it has one classifier, every element parses, and every
  classified flow and every flow of a probe is one of its flows. Then the flows come in the order of
  the file, each with the last addresses of the classifier for it and the statistics of its probes in
  order; of flows with the same identity only the last one gets any.\<close>

theorem simulation_correct:
  "simulation e = Return fs \<longleftrightarrow>
    (\<exists>c flows classes stats.
       findall e ''Ipv4FlowClassifier'' = [c] \<and>
       map_res new_flow (findall_path e ''FlowStats'' ''Flow'') = Return flows \<and>
       map_res read_class (findall c ''Flow'') = Return classes \<and>
       map_res read_probe (findall_path e ''FlowProbes'' ''FlowProbe'') = Return stats \<and>
       fst ` set (classes) \<union> fst ` set (concat stats) \<subseteq> set (map flow_id flows) \<and>
       fs = map (\<lambda>j. let tuples = entries_for (map flow_id flows) classes j in
                  (flows ! j)\<lparr>flow_tuple := (if tuples = [] then None else Some (last tuples)),
                            probe_stats_unsorted := entries_for (map flow_id flows) (concat stats) j\<rparr>)
              [0..<length flows])"
proof -
  have step: "bind_res (fold_res add_flow els ([], [])) (\<lambda>(m, flows).
          bind_res (fold_res (classify m) cs flows) (\<lambda>flows. fold_res (add_probe m) ps flows)) = Return fs \<longleftrightarrow>
      (\<exists>flows classes stats. map_res new_flow els = Return flows \<and> map_res read_class cs = Return classes \<and>
         map_res read_probe ps = Return stats \<and>
         fst ` set (classes) \<union> fst ` set (concat stats) \<subseteq> set (map flow_id flows) \<and>
         fs = map (\<lambda>j. fold add_stats (entries_for (map flow_id flows) (concat stats) j)
                (fold set_tuple (entries_for (map flow_id flows) classes j) (flows ! j))) [0..<length flows])"
    for els cs ps
    by (auto simp: add_flows bind_res_eq_Return classify_all add_probes with_flows_nth lookup_shared_map image_Un)
  show ?thesis
  proof (cases "\<exists>c. findall e ''Ipv4FlowClassifier'' = [c]")
    case True
    then obtain c where c: "findall e ''Ipv4FlowClassifier'' = [c]" by blast
    have eq: "fold add_stats ss (fold set_tuple ts (flows ! j)) =
        (flows ! j)\<lparr>flow_tuple := (if ts = [] then None else Some (last ts)), probe_stats_unsorted := ss\<rparr>"
      if "map_res new_flow (findall_path e ''FlowStats'' ''Flow'') = Return flows" "j < length flows" for flows j ss ts
      using fresh_flows [OF that(1) nth_mem [OF that(2)]]
      by (cases "flows ! j") (auto simp: fold_set_tuple fold_add_stats)
    show ?thesis
      unfolding simulation_def c using eq by (auto simp: step Let_def intro!: map_cong)
  next
    case False
    then show ?thesis by (auto simp: simulation_def split: list.splits)
  qed
qed

text \<open>The end of the root element is the only event at level 0.\<close>

lemma inner_events:
  "0 < l \<Longrightarrow> fold_res on_event (events e) (l, sims) = Return (l, sims)"
proof (induction e arbitrary: l sims rule: events.induct)
  case (1 t as x cs)
  have "fold_res on_event (concat (map events ds)) (l + 1, sims) = Return (l + 1, sims)" if "set ds \<subseteq> set cs" for ds
    using that 1 by (induction ds) (auto simp: fold_res_append)
  with 1(2) show ?case by (simp add: fold_res_append)
qed

lemma read_file_root:
  "read_file e = (if tag_of e = ''FlowMonitor'' then bind_res (simulation e) (\<lambda>sim. Return [sim]) else Return [])"
proof (cases e)
  case (Elem t as x cs)
  have "fold_res on_event (concat (map events ds)) (1, []) = Return (1, [])" for ds
    by (induction ds) (simp_all add: fold_res_append inner_events)
  then show ?thesis
    by (cases "simulation e") (auto simp: Elem read_file_def fold_res_append)
qed

definition printable :: "flow \<Rightarrow> bool" where
  "printable fl \<longleftrightarrow> (\<exists>t. flow_tuple fl = Some t \<and> protocol t \<in> {6, 17})"

lemma flow_lines_cases:
  "printable fl \<Longrightarrow> \<exists>ls. flow_lines fl = Return ls \<and> length ls = 5"
  "\<not> printable fl \<Longrightarrow> flow_lines fl = Raise (if flow_tuple fl = None then AttributeError else KeyError)"
  by (auto simp: printable_def flow_lines_def protocol_name_def split: option.splits)

text \<open>A file whose root is not a FlowMonitor element has no report, however many such elements
  are inside. Else the flows of the root are printed in order, five lines each, until one that no
  classifier names, which is an AttributeError, or whose protocol is neither TCP nor UDP, which is a
  KeyError.\<close>

theorem report_correct:
  "main_report e =
    (if tag_of e = ''FlowMonitor''
     then (case simulation e of Inl err \<Rightarrow> ([], Raise err) | Inr flows \<Rightarrow> print_flows flows)
     else ([], Return ())) \<and>
   print_flows fs =
    (concat (map (\<lambda>fl. projr (flow_lines fl)) (takeWhile printable fs)),
     case dropWhile printable fs of [] \<Rightarrow> Return ()
     | fl # _ \<Rightarrow> Raise (if flow_tuple fl = None then AttributeError else KeyError)) \<and>
   length (fst (print_flows fs)) = 5 * length (takeWhile printable fs)"
proof -
  have printed: "print_flows fs =
    (concat (map (\<lambda>fl. projr (flow_lines fl)) (takeWhile printable fs)),
     case dropWhile printable fs of [] \<Rightarrow> Return ()
     | fl # _ \<Rightarrow> Raise (if flow_tuple fl = None then AttributeError else KeyError))"
  proof (induction fs)
    case (Cons fl fs)
    then show ?case using flow_lines_cases [of fl] by (cases "printable fl") auto
  qed simp
  have "length (concat (map (\<lambda>fl. projr (flow_lines fl)) fls)) = 5 * length fls" if "\<forall>fl \<in> set fls. printable fl" for fls
    using that
  proof (induction fls)
    case (Cons fl fls)
    then show ?case using flow_lines_cases(1) [of fl] by auto
  qed simp
  from this [of "takeWhile printable fs"]
  have "length (concat (map (\<lambda>fl. projr (flow_lines fl)) (takeWhile printable fs))) = 5 * length (takeWhile printable fs)"
    by (auto dest: set_takeWhileD)
  with printed show ?thesis
    by (cases "simulation e") (auto simp: main_report_def read_file_root)
qed

end
