(* ===== verification/Viz_Windows.thy ===== *)
theory Viz_Windows
  imports Viz_Transmissions
begin

text \<open>
  The information windows of the visualizer (\<open>plugins/interface_statistics.py\<close>,
  \<open>ipv4_routing_table.py\<close>, \<open>olsr.py\<close> and \<open>show_last_packets.py\<close>, with the list of windows of
  \<open>core.py\<close>): the statistics collected at every period, the tables filled from the objects of ns-3,
  and the filter of captured packets. The objects of ns-3 are arguments; times, addresses and
  packets come as the texts that \<open>str\<close> makes of them, and the layout of the widgets is left out.
\<close>

section \<open>Tables\<close>

text \<open>
  The loop that fills a table: a row is appended first and set when its values are known, so an
  exception leaves an empty row behind.
\<close>

fun fill_rows :: "('a \<Rightarrow> 'r res) \<Rightarrow> 'a list \<Rightarrow> 'r option list \<times> unit res" where
  "fill_rows f [] = ([], Return ())"
| "fill_rows f (x # xs) =
     (case f x of
        Inl e \<Rightarrow> ([None], Raise e)
      | Inr r \<Rightarrow> (case fill_rows f xs of (rows, m) \<Rightarrow> (Some r # rows, m)))"

record net_device =
  device_name :: string
  if_index :: nat

text \<open>A name that is empty is not a name; \<open>"(interface %i)"\<close>.\<close>

definition interface_name :: "net_device \<Rightarrow> nat \<Rightarrow> string" where
  "interface_name dev i =
     (if device_name dev = [] then ''(interface '' @ str_of_nat i @ '')'' else device_name dev)"

section \<open>Statistics of the interfaces\<close>

record net_stats =
  transmitted_packets :: int
  transmitted_bytes :: int
  received_packets :: int
  received_bytes :: int

type_synonym statistics = "(nat \<times> net_stats list list) list"

definition NODE_STATISTICS_MEMORY :: nat where
  "NODE_STATISTICS_MEMORY = 10"

definition collect :: "nat \<times> net_stats list \<Rightarrow> statistics \<Rightarrow> statistics" where
  "collect = (\<lambda>(i, st) table.
     let raw = (case map_of table i of Some r \<Rightarrow> r | None \<Rightarrow> [])
     in AList.update i (trim_window NODE_STATISTICS_MEMORY (raw @ [st])) table)"

definition simulation_periodic_update :: "(nat \<times> net_stats list) list \<Rightarrow> statistics \<Rightarrow> statistics" where
  "simulation_periodic_update samples table = fold collect samples table"

record net_dev_stats =
  tx_packets :: int
  tx_bytes :: int
  rx_packets :: int
  rx_bytes :: int
  tx_packet_rate :: rat
  rx_packet_rate :: rat
  tx_bit_rate :: rat
  rx_bit_rate :: rat

definition interface_rates :: "rat \<Rightarrow> net_stats list \<Rightarrow> nat \<times> net_stats \<Rightarrow> net_dev_stats res" where
  "interface_rates k first = (\<lambda>(iface, st).
     bind_res (py_nth first (int iface)) (\<lambda>old.
       if k = 0 then Raise ZeroDivisionError
       else Return
         \<lparr>tx_packets = transmitted_packets st, tx_bytes = transmitted_bytes st,
          rx_packets = received_packets st, rx_bytes = received_bytes st,
          tx_packet_rate = of_int (transmitted_packets st - transmitted_packets old) / k,
          rx_packet_rate = of_int (received_packets st - received_packets old) / k,
          tx_bit_rate = of_int ((transmitted_bytes st - transmitted_bytes old) * 8) / k,
          rx_bit_rate = of_int ((received_bytes st - received_bytes old) * 8) / k\<rparr>))"

definition get_interface_statistics :: "rat \<Rightarrow> statistics \<Rightarrow> nat \<Rightarrow> net_dev_stats list res" where
  "get_interface_statistics period table i =
     (case map_of table i of
        None \<Rightarrow> Return []
      | Some raw \<Rightarrow>
          if length raw < NODE_STATISTICS_MEMORY then Return []
          else if length raw \<noteq> NODE_STATISTICS_MEMORY then Raise AssertionError
          else map_res (interface_rates (period * of_nat (NODE_STATISTICS_MEMORY - 1)) (hd raw))
                 (enumerate 0 (last raw)))"

section \<open>Routing tables\<close>

record route =
  destination :: string
  gateway :: string
  route_interface :: nat

datatype routing =
    StaticRouting "route list"
  | GlobalRouting "route list"
  | ListRouting "(routing \<times> int) list"
  | OtherRouting

record ipv4 =
  routing_protocol :: "routing option"
  net_device_of :: "nat \<Rightarrow> net_device option"

record routing_row =
  row_destination :: string
  row_next_hop :: string
  row_interface :: string
  row_type :: string
  row_prio :: int

fun listed_protocol :: "routing \<times> int \<Rightarrow> (route list \<times> string \<times> int) list" where
  "listed_protocol (StaticRouting rs, prio) = [(rs, ''static'', prio)]"
| "listed_protocol (GlobalRouting rs, prio) = [(rs, ''global'', prio)]"
| "listed_protocol (ListRouting ps, prio) = []"
| "listed_protocol (OtherRouting, prio) = []"

fun routing_protocols :: "routing \<Rightarrow> (route list \<times> string \<times> int) list" where
  "routing_protocols (StaticRouting rs) = [(rs, ''static'', 0)]"
| "routing_protocols (ListRouting ps) = concat (map listed_protocol ps)"
| "routing_protocols (GlobalRouting rs) = []"
| "routing_protocols OtherRouting = []"

definition route_interface_name :: "ipv4 \<Rightarrow> nat \<Rightarrow> string" where
  "route_interface_name ip i =
     (case net_device_of ip i of None \<Rightarrow> ''lo'' | Some dev \<Rightarrow> interface_name dev i)"

definition routing_rows :: "ipv4 \<Rightarrow> (route list \<times> string \<times> int) list \<Rightarrow> routing_row list" where
  "routing_rows ip protocols =
     concat (map (\<lambda>(routes, type_string, prio).
       map (\<lambda>r. \<lparr>row_destination = destination r, row_next_hop = gateway r,
                 row_interface = route_interface_name ip (route_interface r),
                 row_type = type_string, row_prio = prio\<rparr>) routes) protocols)"

text \<open>A node without IPv4 has no attribute \<open>GetRoutingProtocol\<close>; a routing that is not shown leaves the table alone.\<close>

definition update_routing :: "ipv4 option \<Rightarrow> routing_row option list \<Rightarrow> routing_row option list \<times> unit res" where
  "update_routing node table =
     (case node of
        None \<Rightarrow> (table, Raise AttributeError)
      | Some ip \<Rightarrow>
          (case routing_protocol ip of
             None \<Rightarrow> (table, Return ())
           | Some r \<Rightarrow>
               if routing_protocols r = [] then (table, Return ())
               else (map Some (routing_rows ip (routing_protocols r)), Return ())))"

record olsr_entry =
  dest_addr :: string
  next_addr :: string
  olsr_interface :: nat
  olsr_distance :: nat

record olsr_row =
  olsr_destination :: string
  olsr_next_hop :: string
  olsr_interface_name :: string
  olsr_hops :: nat

definition olsr_row_of :: "ipv4 option \<Rightarrow> olsr_entry \<Rightarrow> olsr_row res" where
  "olsr_row_of node r =
     (case node of
        None \<Rightarrow> Raise AttributeError
      | Some ip \<Rightarrow> Return
          \<lparr>olsr_destination = dest_addr r, olsr_next_hop = next_addr r,
           olsr_interface_name = route_interface_name ip (olsr_interface r), olsr_hops = olsr_distance r\<rparr>)"

definition update_olsr ::
  "ipv4 option \<Rightarrow> olsr_entry list option \<Rightarrow> olsr_row option list \<Rightarrow> olsr_row option list \<times> unit res" where
  "update_olsr node olsr table =
     (case olsr of None \<Rightarrow> (table, Return ()) | Some entries \<Rightarrow> fill_rows (olsr_row_of node) entries)"

section \<open>Captured packets\<close>

record packet_sample =
  packet_time :: string
  packet_device :: "net_device option"
  packet_bytes :: nat
  packet_text :: string

record packet_row =
  row_time :: string
  row_device :: string
  row_size :: string
  row_contents :: string

definition packet_row_of :: "packet_sample \<Rightarrow> packet_row" where
  "packet_row_of s =
     \<lparr>row_time = packet_time s,
      row_device = (case packet_device s of None \<Rightarrow> ''(unknown)'' | Some dev \<Rightarrow> interface_name dev (if_index dev)),
      row_size = str_of_nat (packet_bytes s), row_contents = packet_text s\<rparr>"

record last_packets =
  last_transmitted :: "packet_sample list"
  last_received :: "packet_sample list"
  last_dropped :: "packet_sample list"

text \<open>The search for the class Header or Trailer among the ancestors of a type, which need not end.\<close>

partial_function (option) type_is_good :: "(nat \<Rightarrow> nat option) \<Rightarrow> nat set \<Rightarrow> nat \<Rightarrow> bool option" where
  "type_is_good parent roots t =
     (if t \<in> roots then Some True
      else (case parent t of None \<Rightarrow> Some False | Some p \<Rightarrow> type_is_good parent roots p))"

fun filter_types :: "(nat \<Rightarrow> nat option) \<Rightarrow> nat set \<Rightarrow> nat list \<Rightarrow> nat list option" where
  "filter_types parent roots [] = Some []"
| "filter_types parent roots (t # ts) =
     Option.bind (type_is_good parent roots t) (\<lambda>good.
     Option.bind (filter_types parent roots ts) (\<lambda>rest.
       Some (if good \<and> t \<notin> roots then t # rest else rest)))"

datatype capture_mode = FilterOr | FilterAnd

record capture_options =
  num_last_packets :: nat
  headers :: "nat list"
  capture :: capture_mode

record packet_filter =
  filter_list :: "(nat \<times> bool) list"
  op_AND :: bool
  sent_options :: "capture_options option"

text \<open>\<open>sent_options\<close> is what the simulator was told last.\<close>

definition update_capture_options :: "packet_filter \<Rightarrow> packet_filter" where
  "update_capture_options w =
     w\<lparr>sent_options := Some
        \<lparr>num_last_packets = 100, headers = map fst (filter snd (filter_list w)),
         capture = (if op_AND w then FilterAnd else FilterOr)\<rparr>\<rparr>"

definition new_packet_filter :: "nat list \<Rightarrow> packet_filter" where
  "new_packet_filter types =
     update_capture_options \<lparr>filter_list = map (\<lambda>t. (t, True)) types, op_AND = False, sent_options = None\<rparr>"

datatype filter_event = SelectAll | SelectNone | EditCell nat bool | ChooseMode bool

fun filter_step :: "filter_event \<Rightarrow> packet_filter \<Rightarrow> packet_filter" where
  "filter_step SelectAll w = update_capture_options (w\<lparr>filter_list := map (\<lambda>(t, b). (t, True)) (filter_list w)\<rparr>)"
| "filter_step SelectNone w = update_capture_options (w\<lparr>filter_list := map (\<lambda>(t, b). (t, False)) (filter_list w)\<rparr>)"
| "filter_step (EditCell i v) w =
     (if i < length (filter_list w)
      then update_capture_options (w\<lparr>filter_list := (filter_list w)[i := (fst (filter_list w ! i), v)]\<rparr>) else w)"
| "filter_step (ChooseMode both) w =
     (if both = op_AND w then w else update_capture_options (w\<lparr>op_AND := both\<rparr>))"

section \<open>The windows\<close>

text \<open>What the simulator answers to the windows.\<close>

record ns3 =
  ipv4_of :: "nat \<Rightarrow> ipv4 option"
  olsr_of :: "nat \<Rightarrow> olsr_entry list option"
  device_of :: "nat \<Rightarrow> nat \<Rightarrow> net_device"
  packets_of :: "nat \<Rightarrow> last_packets"
  update_period :: rat
  node_statistics :: statistics

datatype window =
    RoutingWindow nat "routing_row option list"
  | OlsrWindow nat "olsr_row option list"
  | StatisticsWindow nat "(string \<times> net_dev_stats) list"
  | PacketsWindow nat "packet_row list" "packet_row list" "packet_row list"

fun update_window :: "ns3 \<Rightarrow> window \<Rightarrow> window \<times> unit res" where
  "update_window ns (RoutingWindow i table) =
     (case update_routing (ipv4_of ns i) table of (t, m) \<Rightarrow> (RoutingWindow i t, m))"
| "update_window ns (OlsrWindow i table) =
     (case update_olsr (ipv4_of ns i) (olsr_of ns i) table of (t, m) \<Rightarrow> (OlsrWindow i t, m))"
| "update_window ns (StatisticsWindow i table) =
     (case get_interface_statistics (update_period ns) (node_statistics ns) i of
        Inl e \<Rightarrow> (StatisticsWindow i table, Raise e)
      | Inr stats \<Rightarrow>
          (StatisticsWindow i (map (\<lambda>(iface, s). (interface_name (device_of ns i iface) iface, s)) (enumerate 0 stats)),
           Return ()))"
| "update_window ns (PacketsWindow i tx rx drops) =
     (let p = packets_of ns i
      in (PacketsWindow i (map packet_row_of (last_transmitted p)) (map packet_row_of (last_received p))
            (map packet_row_of (last_dropped p)), Return ()))"

text \<open>The loop of \<open>update_view\<close> over the open windows, each with its identity.\<close>

fun update_windows :: "ns3 \<Rightarrow> (nat \<times> window) list \<Rightarrow> (nat \<times> window) list \<times> unit res" where
  "update_windows ns [] = ([], Return ())"
| "update_windows ns ((n, w) # ws) =
     (case update_window ns w of
        (w1, Inl e) \<Rightarrow> ((n, w1) # ws, Raise e)
      | (w1, Inr u) \<Rightarrow> (case update_windows ns ws of (ws1, m) \<Rightarrow> ((n, w1) # ws1, m)))"

definition add_information_window :: "ns3 \<Rightarrow> nat \<Rightarrow> window \<Rightarrow> (nat \<times> window) list \<Rightarrow> (nat \<times> window) list \<times> unit res" where
  "add_information_window ns n w ws =
     (case update_window ns w of (w1, m) \<Rightarrow> (ws @ [(n, w1)], m))"

fun remove_information_window :: "nat \<Rightarrow> (nat \<times> window) list \<Rightarrow> (nat \<times> window) list res" where
  "remove_information_window n [] = Raise (ValueError ''list.remove(x): x not in list'')"
| "remove_information_window n ((k, w) # ws) =
     (if k = n then Return ws
      else bind_res (remove_information_window n ws) (\<lambda>rest. Return ((k, w) # rest)))"

section \<open>The window of statistics\<close>

definition samples_of :: "nat \<Rightarrow> (nat \<times> net_stats list) list \<Rightarrow> net_stats list list" where
  "samples_of i samples = map snd (filter (\<lambda>(j, st). j = i) samples)"

lemma samples_of_append [simp]: "samples_of i (xs @ ys) = samples_of i xs @ samples_of i ys"
  by (simp add: samples_of_def)

lemma lookup_collect:
  "map_of (collect (j, st) table) i =
     (if i = j then Some (trim_window NODE_STATISTICS_MEMORY ((case map_of table i of Some r \<Rightarrow> r | None \<Rightarrow> []) @ [st]))
      else map_of table i)"
  by (simp add: collect_def Let_def alist.lookup_store)

lemma lookup_collected:
  "map_of (fold collect samples []) i =
     (if samples_of i samples = [] then None
      else Some (trim_window NODE_STATISTICS_MEMORY (samples_of i samples)))"
proof (induction samples rule: rev_induct)
  case Nil
  show ?case by (simp add: samples_of_def)
next
  case (snoc s samples)
  obtain j st where s: "s = (j, st)" by (cases s)
  have t: "trim_window n (trim_window n xs @ [y]) = trim_window n (xs @ [y])" if "0 < n" for n and xs :: "net_stats list list" and y
    using that by (cases "n \<le> length xs") (simp_all add: trim_window_drop Suc_diff_le)
  have "trim_window NODE_STATISTICS_MEMORY [st] = [st]" by (simp add: trim_window_drop NODE_STATISTICS_MEMORY_def)
  with snoc t [of NODE_STATISTICS_MEMORY "samples_of i samples" st] show ?case
    by (auto simp: s lookup_collect samples_of_def NODE_STATISTICS_MEMORY_def)
qed

lemma updates_concat: "fold simulation_periodic_update updates table = fold collect (concat updates) table"
  by (induction updates arbitrary: table) (auto simp: simulation_periodic_update_def)

definition rates_between :: "rat \<Rightarrow> net_stats \<Rightarrow> net_stats \<Rightarrow> net_dev_stats" where
  "rates_between seconds old st =
     \<lparr>tx_packets = transmitted_packets st, tx_bytes = transmitted_bytes st,
      rx_packets = received_packets st, rx_bytes = received_bytes st,
      tx_packet_rate = of_int (transmitted_packets st - transmitted_packets old) / seconds,
      rx_packet_rate = of_int (received_packets st - received_packets old) / seconds,
      tx_bit_rate = of_int ((transmitted_bytes st - transmitted_bytes old) * 8) / seconds,
      rx_bit_rate = of_int ((received_bytes st - received_bytes old) * 8) / seconds\<rparr>"

lemma interface_rates_nth:
  "k \<noteq> 0 \<Longrightarrow> interface_rates k old (i, st) =
     (if i < length old then Return (rates_between k (old ! i) st) else Raise IndexError)"
  by (simp add: interface_rates_def rates_between_def py_nth_def)

lemma interface_rates_all:
  assumes "k \<noteq> 0"
  shows "map_res (interface_rates k old) (enumerate n new) =
    (if n + length new \<le> length old \<or> new = [] then Return (map2 (rates_between k) (drop n old) new) else Raise IndexError)"
proof (induction new arbitrary: n)
  case (Cons st new)
  show ?case
  proof (cases "n < length old")
    case True
    then have "drop n old = old ! n # drop (Suc n) old" by (simp add: Cons_nth_drop_Suc)
    with True Cons [of "Suc n"] assms show ?thesis by (auto simp: interface_rates_nth)
  qed (use assms in \<open>simp add: interface_rates_nth\<close>)
qed simp

text \<open>After any number of updates the statistics of a node compare its last sample with the ninth
  before it, over nine periods; with fewer than ten samples there are none. A node that has gained a
  device between the two samples has none either: the comparison ends in an IndexError.\<close>

theorem statistics_correct:
  assumes "0 < period"
  defines "kept \<equiv> \<lambda>updates i. samples_of i (concat updates)"
  shows "get_interface_statistics period (fold simulation_periodic_update updates []) i =
    (if length (kept updates i) < 10 then Return []
     else let old = kept updates i ! (length (kept updates i) - 10); new = last (kept updates i)
          in if length new \<le> length old then Return (map2 (rates_between (period * 9)) old new)
             else Raise IndexError)"
proof -
  define xs where "xs = kept updates i"
  have table: "map_of (fold simulation_periodic_update updates []) i =
      (if xs = [] then None else Some (drop (length xs - 10) xs))"
    by (simp add: updates_concat lookup_collected trim_window_drop xs_def kept_def NODE_STATISTICS_MEMORY_def)
  show ?thesis
  proof (cases "length xs < 10")
    case True
    then show ?thesis
      by (auto simp: get_interface_statistics_def table NODE_STATISTICS_MEMORY_def xs_def [symmetric])
  next
    case False
    let ?ys = "drop (length xs - 10) xs"
    from False have ys: "length ?ys = 10" "hd ?ys = xs ! (length xs - 10)" "last ?ys = last xs" "xs \<noteq> []"
      by (auto simp: hd_drop_conv_nth)
    have k: "period * of_nat (10 - 1) = period * 9" "period * 9 \<noteq> 0" using assms(1) by auto
    have "get_interface_statistics period (fold simulation_periodic_update updates []) i =
        map_res (interface_rates (period * 9) (hd ?ys)) (enumerate 0 (last ?ys))"
      using ys(1,4) by (simp add: get_interface_statistics_def table NODE_STATISTICS_MEMORY_def del: length_drop)
    then show ?thesis
      using False interface_rates_all [OF k(2), of "hd ?ys" 0 "last ?ys"] ys(2,3)
      by (simp add: xs_def [symmetric] Let_def)
  qed
qed

text \<open>Ten updates of a node that receives a packet of 100 bytes in every tenth of a second.\<close>

theorem statistics_correct_witness:
  "get_interface_statistics (1 / 10)
     (fold simulation_periodic_update
        (map (\<lambda>n. [(0, [\<lparr>transmitted_packets = 0, transmitted_bytes = 0, received_packets = n, received_bytes = 100 * n\<rparr>])])
          [0, 1, 2, 3, 4, 5, 6, 7, 8, 9]) []) 0 =
   Return [\<lparr>tx_packets = 0, tx_bytes = 0, rx_packets = 9, rx_bytes = 900, tx_packet_rate = 0, rx_packet_rate = 10,
            tx_bit_rate = 0, rx_bit_rate = 8000\<rparr>]"
proof -
  have "0 < (1 / 10 :: rat)" by simp
  from statistics_correct [OF this, of "map (\<lambda>n. [(0, [\<lparr>transmitted_packets = 0, transmitted_bytes = 0,
      received_packets = n, received_bytes = 100 * n\<rparr>])]) [0, 1, 2, 3, 4, 5, 6, 7, 8, 9]" 0]
  show ?thesis by (simp add: samples_of_def rates_between_def)
qed

section \<open>The filter of packets\<close>

lemma type_is_good_correct:
  assumes "\<And>t p. parent t = Some p \<Longrightarrow> rank p < (rank t :: nat)"
  shows "type_is_good parent roots t = Some (\<exists>r \<in> roots. (t, r) \<in> {(a, b). parent a = Some b}\<^sup>*)"
proof (induction t rule: measure_induct_rule [of rank])
  case (less t)
  show ?case
  proof (cases "t \<in> roots \<or> parent t = None")
    case True
    have "t \<notin> Domain {(a, b). parent a = Some b}" if "parent t = None" using that by auto
    with True show ?thesis
      by (subst type_is_good.simps) (auto simp: Not_Domain_rtrancl)
  next
    case False
    then obtain p where p: "parent t = Some p" "t \<notin> roots" by auto
    have "(t, r) \<in> {(a, b). parent a = Some b}\<^sup>* \<longleftrightarrow> t = r \<or> (p, r) \<in> {(a, b). parent a = Some b}\<^sup>*" for r
      using p(1) by (auto elim: converse_rtranclE intro: converse_rtrancl_into_rtrancl)
    with p less [OF assms [OF p(1)]] show ?thesis
      by (subst type_is_good.simps) auto
  qed
qed

text \<open>When no type is its own ancestor, the search for headers ends and the list offers exactly the
  registered types strictly below Header or Trailer, in the order of their registration.\<close>

theorem filter_types_correct:
  assumes "\<And>t p. parent t = Some p \<Longrightarrow> rank p < (rank t :: nat)"
  shows "filter_types parent roots ts =
    Some (filter (\<lambda>t. t \<notin> roots \<and> (\<exists>r \<in> roots. (t, r) \<in> {(a, b). parent a = Some b}\<^sup>+)) ts)"
proof (induction ts)
  case (Cons t ts)
  have "t \<notin> roots \<Longrightarrow> (\<exists>r \<in> roots. (t, r) \<in> {(a, b). parent a = Some b}\<^sup>*) \<longleftrightarrow>
      (\<exists>r \<in> roots. (t, r) \<in> {(a, b). parent a = Some b}\<^sup>+)"
    by (auto simp: rtrancl_eq_or_trancl)
  with Cons show ?case by (auto simp: type_is_good_correct [of parent rank, OF assms])
qed simp

text \<open>Type 2 is a header, and type 3 is unrelated.\<close>

theorem filter_types_correct_witness:
  "filter_types [2 \<mapsto> 0] {0, 1} [0, 1, 2, 3] = Some [2]"
proof -
  let ?p = "[2 \<mapsto> 0] :: nat \<Rightarrow> nat option"
  have r: "p < t" if "?p t = Some p" for t p using that by (auto split: if_splits)
  have "trans {(2, 0 :: nat)}" by (auto simp: trans_def)
  moreover have "{(a, b). ?p a = Some b} = {(2, 0)}" by (auto split: if_splits)
  ultimately have e: "{(a, b). ?p a = Some b}\<^sup>+ = {(2, 0)}" by (simp only: trancl_id)
  have "filter_types ?p {0, 1} [0, 1, 2, 3] =
      Some (filter (\<lambda>t. t \<notin> {0, 1} \<and> (\<exists>r \<in> {0, 1}. (t, r) \<in> {(a, b). ?p a = Some b}\<^sup>+)) [0, 1, 2, 3])"
    by (rule filter_types_correct [of ?p "\<lambda>t. t"]) (rule r)
  also have "\<dots> = Some [2]" unfolding e by simp
  finally show ?thesis .
qed

definition filter_ok :: "nat list \<Rightarrow> packet_filter \<Rightarrow> bool" where
  "filter_ok types w \<longleftrightarrow> map fst (filter_list w) = types \<and> update_capture_options w = w"

lemma filter_ok_updated: "map fst (filter_list w) = types \<Longrightarrow> filter_ok types (update_capture_options w)"
  by (simp add: filter_ok_def update_capture_options_def)

lemma filter_ok_step: "filter_ok types w \<Longrightarrow> filter_ok types (filter_step e w)"
  by (cases e) (auto simp: filter_ok_def [of types w] map_update [symmetric] case_prod_unfold o_def
      intro!: filter_ok_updated nth_equalityI simp: nth_list_update)

text \<open>Whatever is selected in the window of packets, the simulator always captures with the selected
  headers, in the order of the list, and with the chosen connective; selecting all or none reaches it
  at once, and the offered types never change.\<close>

theorem packet_filter_correct:
  "(let w = fold filter_step es (new_packet_filter types)
    in map fst (filter_list w) = types \<and>
       sent_options w = Some \<lparr>num_last_packets = 100, headers = map fst (filter snd (filter_list w)),
                              capture = (if op_AND w then FilterAnd else FilterOr)\<rparr> \<and>
       headers (the (sent_options (filter_step SelectAll w))) = types \<and>
       headers (the (sent_options (filter_step SelectNone w))) = [])"
proof -
  let ?w = "fold filter_step es (new_packet_filter types)"
  have "filter_ok types (fold filter_step es w)" if "filter_ok types w" for w
    using that by (induction es arbitrary: w) (auto intro: filter_ok_step)
  then have ok: "filter_ok types ?w"
    by (simp add: new_packet_filter_def filter_ok_updated o_def)
  have sent: "sent_options ?w = sent_options (update_capture_options ?w)"
    using ok by (simp add: filter_ok_def)
  show ?thesis
    using ok by (simp add: Let_def filter_ok_def sent [unfolded update_capture_options_def] update_capture_options_def
        filter_map o_def case_prod_unfold)
qed

section \<open>All windows\<close>

lemma fill_rows_all:
  "fill_rows f xs =
    (map (\<lambda>x. Some (projr (f x))) (takeWhile (\<lambda>x. \<not> isl (f x)) xs) @ (if dropWhile (\<lambda>x. \<not> isl (f x)) xs = [] then [] else [None]),
     case dropWhile (\<lambda>x. \<not> isl (f x)) xs of [] \<Rightarrow> Return () | x # _ \<Rightarrow> Raise (projl (f x)))"
proof (induction xs)
  case (Cons x xs)
  then show ?case by (cases "f x") auto
qed simp

text \<open>What a window shows once it is up to date.\<close>

fun up_to_date :: "ns3 \<Rightarrow> window \<Rightarrow> bool" where
  "up_to_date ns (RoutingWindow i table) \<longleftrightarrow>
     (\<forall>ip r. ipv4_of ns i = Some ip \<and> routing_protocol ip = Some r \<and> routing_protocols r \<noteq> [] \<longrightarrow>
        table = map Some (routing_rows ip (routing_protocols r)))"
| "up_to_date ns (OlsrWindow i table) \<longleftrightarrow>
     (\<forall>ip entries. ipv4_of ns i = Some ip \<and> olsr_of ns i = Some entries \<longrightarrow>
        table = map (\<lambda>r. Some \<lparr>olsr_destination = dest_addr r, olsr_next_hop = next_addr r,
           olsr_interface_name = route_interface_name ip (olsr_interface r), olsr_hops = olsr_distance r\<rparr>) entries)"
| "up_to_date ns (StatisticsWindow i table) \<longleftrightarrow>
     Return (map snd table) = get_interface_statistics (update_period ns) (node_statistics ns) i \<and>
     map fst table = map (\<lambda>iface. interface_name (device_of ns i iface) iface) [0..<length table]"
| "up_to_date ns (PacketsWindow i tx rx drops) \<longleftrightarrow>
     tx = map packet_row_of (last_transmitted (packets_of ns i)) \<and>
     rx = map packet_row_of (last_received (packets_of ns i)) \<and>
     drops = map packet_row_of (last_dropped (packets_of ns i))"

fun can_update :: "ns3 \<Rightarrow> window \<Rightarrow> bool" where
  "can_update ns (RoutingWindow i table) \<longleftrightarrow> ipv4_of ns i \<noteq> None"
| "can_update ns (OlsrWindow i table) \<longleftrightarrow> ipv4_of ns i \<noteq> None \<or> olsr_of ns i = None \<or> olsr_of ns i = Some []"
| "can_update ns (StatisticsWindow i table) \<longleftrightarrow>
     \<not> isl (get_interface_statistics (update_period ns) (node_statistics ns) i)"
| "can_update ns (PacketsWindow i tx rx drops) \<longleftrightarrow> True"

lemma update_window_ok:
  "snd (update_window ns w) = Return () \<longleftrightarrow> can_update ns w"
  "can_update ns w \<Longrightarrow> up_to_date ns (fst (update_window ns w))"
proof -
  have all: "dropWhile (\<lambda>x. True) xs = []" "takeWhile (\<lambda>x. True) xs = xs" for xs :: "olsr_entry list"
    by simp_all
  show "snd (update_window ns w) = Return () \<longleftrightarrow> can_update ns w"
  proof (cases w)
    case (OlsrWindow i table)
    then show ?thesis
      by (cases "ipv4_of ns i"; cases "olsr_of ns i")
        (auto simp: update_olsr_def olsr_row_of_def fill_rows_all all split: prod.splits list.splits)
  qed (auto simp: update_routing_def Let_def split: option.splits prod.splits sum.splits)
  show "up_to_date ns (fst (update_window ns w))" if "can_update ns w"
  proof (cases w)
    case (OlsrWindow i table)
    with that show ?thesis
      by (cases "ipv4_of ns i"; cases "olsr_of ns i")
        (auto simp: update_olsr_def olsr_row_of_def fill_rows_all all split: prod.splits)
  next
    case (StatisticsWindow i table)
    with that show ?thesis
      by (cases "get_interface_statistics (update_period ns) (node_statistics ns) i")
        (auto simp: enumerate_eq_zip comp_def case_prod_unfold intro!: nth_equalityI)
  qed (use that in \<open>auto simp: update_routing_def Let_def split: option.splits prod.splits\<close>)
qed


end
