(* ===== verification/Viz_Wifi.thy ===== *)
theory Viz_Wifi
  imports Viz_Nodes
begin

text \<open>
  The links between wifi stations and access points, \<open>plugins/wifi_intrastructure_link.py\<close>: the link
  of a station follows the BSSID that the simulator reports for it. A link object is an index into the
  list of all links ever made, because access points, stations and the canvas share it; only the wifi
  links among the links of a node are kept. What the simulator says of a device is an argument, and an
  exception in a handler ends that handler only.
\<close>

section \<open>Links\<close>

record wifi_link =
  sta_node :: "nat option"
  ap_node :: "nat option"
  link_visible :: bool
  link_points :: "(point \<times> point) option"

record wifi =
  positions :: "nat \<Rightarrow> point"
  links :: "wifi_link list"
  links_of :: "nat \<Rightarrow> nat list"
  access_points :: "(string \<times> nat) list"
  stations :: "(nat \<times> nat) list"

definition change_link :: "nat \<Rightarrow> (wifi_link \<Rightarrow> wifi_link) \<Rightarrow> wifi \<Rightarrow> wifi" where
  "change_link k f s = s\<lparr>links := (links s)[k := f (links s ! k)]\<rparr>"

text \<open>\<open>update_points\<close>, which does nothing without an access point. A destroyed link has neither end.\<close>

definition points_of :: "(nat \<Rightarrow> point) \<Rightarrow> wifi_link \<Rightarrow> wifi_link" where
  "points_of pos l =
     (case (sta_node l, ap_node l) of
        (Some i, Some a) \<Rightarrow> l\<lparr>link_points := Some (pos i, pos a)\<rparr>
      | _ \<Rightarrow> l)"

definition update_points :: "nat \<Rightarrow> wifi \<Rightarrow> wifi" where
  "update_points k s = change_link k (points_of (positions s)) s"

text \<open>A new link is made with no access point and told so, which changes nothing.\<close>

definition new_wifi_link :: "nat \<Rightarrow> wifi_link" where
  "new_wifi_link i = \<lparr>sta_node = Some i, ap_node = None, link_visible = True, link_points = None\<rparr>"

definition set_ap :: "nat \<Rightarrow> nat option \<Rightarrow> wifi \<Rightarrow> wifi res" where
  "set_ap k ap s =
     (let old = ap_node (links s ! k)
      in if ap = old then Return s
         else
           bind_res
             (case old of None \<Rightarrow> Return s
              | Some a \<Rightarrow> bind_res (py_remove k (links_of s a)) (\<lambda>ks. Return (s\<lparr>links_of := (links_of s)(a := ks)\<rparr>)))
             (\<lambda>s1.
               let s2 = change_link k (\<lambda>l. l\<lparr>ap_node := ap, link_visible := ap \<noteq> None\<rparr>) s1;
                   s3 = (case ap of None \<Rightarrow> s2 | Some a \<Rightarrow> s2\<lparr>links_of := (links_of s2)(a := links_of s2 a @ [k])\<rparr>)
               in Return (update_points k s3)))"

definition destroy_link :: "nat \<Rightarrow> wifi \<Rightarrow> wifi" where
  "destroy_link k s = change_link k (\<lambda>l. l\<lparr>sta_node := None, ap_node := None\<rparr>) s"

section \<open>The monitor\<close>

datatype wifi_device =
    NotWifi
  | StationMac nat
  | AccessPointMac string
  | OtherMac

definition scan_device :: "nat \<Rightarrow> wifi_device \<Rightarrow> wifi \<Rightarrow> wifi" where
  "scan_device i dev s =
     (case dev of
        StationMac d \<Rightarrow>
          s\<lparr>links := links s @ [new_wifi_link i], stations := stations s @ [(d, length (links s))]\<rparr>
      | AccessPointMac bssid \<Rightarrow> s\<lparr>access_points := AList.update bssid i (access_points s)\<rparr>
      | _ \<Rightarrow> s)"

definition scan_nodes :: "(nat \<times> wifi_device list) list \<Rightarrow> wifi \<Rightarrow> wifi" where
  "scan_nodes ns s =
     (let s1 = fold (\<lambda>(d, k). destroy_link k) (stations s) s;
          s2 = s1\<lparr>access_points := [], stations := []\<rparr>
      in fold (\<lambda>(i, devs). fold (scan_device i) devs) ns s2)"

text \<open>What the simulator reports of a station: whether its link is up, and its BSSID.\<close>

type_synonym report = "nat \<Rightarrow> bool \<times> string"

definition no_bssid :: string where
  "no_bssid = ''00:00:00:00:00:00''"

definition update_station :: "report \<Rightarrow> nat \<times> nat \<Rightarrow> wifi \<Rightarrow> wifi res" where
  "update_station rep = (\<lambda>(d, k) s.
     (case rep d of (up, bssid) \<Rightarrow>
        if \<not> up \<or> bssid = no_bssid then set_ap k None s
        else (case map_of (access_points s) bssid of
                None \<Rightarrow> Raise KeyError
              | Some a \<Rightarrow> set_ap k (Some a) s)))"

text \<open>The loop keeps what it has done when an iteration raises.\<close>

fun update_stations :: "report \<Rightarrow> (nat \<times> nat) list \<Rightarrow> wifi \<Rightarrow> wifi \<times> unit res" where
  "update_stations rep [] s = (s, Return ())"
| "update_stations rep (st # sts) s =
     (case update_station rep st s of
        Inl e \<Rightarrow> (s, Raise e)
      | Inr s1 \<Rightarrow> update_stations rep sts s1)"

definition simulation_periodic_update :: "report \<Rightarrow> wifi \<Rightarrow> wifi \<times> unit res" where
  "simulation_periodic_update rep s = update_stations rep (stations s) s"

definition update_view :: "wifi \<Rightarrow> wifi" where
  "update_view s = fold (\<lambda>(d, k). update_points k) (stations s) s"

text \<open>\<open>Node.set_position\<close>, as far as the links are concerned.\<close>

definition place_node :: "nat \<Rightarrow> point \<Rightarrow> wifi \<Rightarrow> wifi" where
  "place_node i p s =
     (let s1 = s\<lparr>positions := (positions s)(i := p)\<rparr> in fold update_points (links_of s1 i) s1)"

datatype wifi_event =
    Scanned "(nat \<times> wifi_device list) list"
  | Periodic report
  | ViewUpdate
  | Placed nat point

fun wifi_step :: "wifi_event \<Rightarrow> wifi \<Rightarrow> wifi \<times> unit res" where
  "wifi_step (Scanned ns) s = (scan_nodes ns s, Return ())"
| "wifi_step (Periodic rep) s = simulation_periodic_update rep s"
| "wifi_step ViewUpdate s = (update_view s, Return ())"
| "wifi_step (Placed i p) s = (place_node i p s, Return ())"

definition new_wifi :: "(nat \<Rightarrow> point) \<Rightarrow> wifi" where
  "new_wifi pos = \<lparr>positions = pos, links = [], links_of = (\<lambda>_. []), access_points = [], stations = []\<rparr>"

definition run_wifi :: "wifi_event list \<Rightarrow> wifi \<Rightarrow> wifi" where
  "run_wifi es s = fold (\<lambda>e s. fst (wifi_step e s)) es s"

section \<open>The invariant\<close>

text \<open>
  Live links are those of the stations. Each has a station, is in the list of its access point exactly
  once and in no other list, and is drawn only when it has an access point.
\<close>

definition shown_ok :: "wifi_link \<Rightarrow> bool" where
  "shown_ok l = (if ap_node l = None then \<not> link_visible l \<or> link_points l = None else link_visible l)"

definition wifi_ok :: "wifi \<Rightarrow> bool" where
  "wifi_ok s \<longleftrightarrow>
     distinct (map snd (stations s)) \<and>
     (\<forall>k \<in> snd ` set (stations s). k < length (links s) \<and> sta_node (links s ! k) \<noteq> None \<and>
        (\<forall>a. count_list (links_of s a) k = (if ap_node (links s ! k) = Some a then 1 else 0)) \<and>
        shown_ok (links s ! k)) \<and>
     (\<forall>a. \<forall>k \<in> set (links_of s a). k < length (links s))"

lemma change_link_nth [simp]:
  "k < length (links s) \<Longrightarrow> links (change_link k f s) ! j = (if j = k then f (links s ! k) else links s ! j)"
  by (simp add: change_link_def nth_list_update)

lemma change_link_simps [simp]:
  "length (links (change_link k f s)) = length (links s)"
  "links_of (change_link k f s) = links_of s"
  "stations (change_link k f s) = stations s"
  "access_points (change_link k f s) = access_points s"
  "positions (change_link k f s) = positions s"
  by (simp_all add: change_link_def)

lemma points_of_simps [simp]:
  "sta_node (points_of pos l) = sta_node l"
  "ap_node (points_of pos l) = ap_node l"
  "link_visible (points_of pos l) = link_visible l"
  "shown_ok (points_of pos l) = shown_ok l"
  by (auto simp: points_of_def shown_ok_def split: option.splits)

definition live :: "nat \<Rightarrow> wifi \<Rightarrow> bool" where
  "live k s \<longleftrightarrow> k \<in> snd ` set (stations s)"

lemma wifi_okD:
  assumes "wifi_ok s" and "live k s"
  shows "k < length (links s)" "sta_node (links s ! k) \<noteq> None"
    "count_list (links_of s a) k = (if ap_node (links s ! k) = Some a then 1 else 0)"
    "shown_ok (links s ! k)"
  using assms unfolding wifi_ok_def live_def by blast+

lemma wifi_okI:
  assumes "distinct (map snd (stations s))"
    and "\<And>k. live k s \<Longrightarrow> k < length (links s) \<and> sta_node (links s ! k) \<noteq> None \<and>
        (\<forall>a. count_list (links_of s a) k = (if ap_node (links s ! k) = Some a then 1 else 0)) \<and>
        shown_ok (links s ! k)"
    and "\<And>a k. k \<in> set (links_of s a) \<Longrightarrow> k < length (links s)"
  shows "wifi_ok s"
  using assms unfolding wifi_ok_def live_def by blast

text \<open>Redrawing keeps the invariant and everything else but the points.\<close>

lemma update_points_ok: "wifi_ok s \<Longrightarrow> k < length (links s) \<Longrightarrow> wifi_ok (update_points k s)"
  by (auto simp: wifi_ok_def update_points_def)

lemma update_points_simps [simp]:
  "length (links (update_points k s)) = length (links s)"
  "links_of (update_points k s) = links_of s"
  "stations (update_points k s) = stations s"
  "access_points (update_points k s) = access_points s"
  "positions (update_points k s) = positions s"
  by (simp_all add: update_points_def)

lemma count_remove1: "count_list (remove1 k xs) j = (if j = k then count_list xs j - 1 else count_list xs j)"
  by (induction xs) auto

lemma set_ap_ok:
  assumes "wifi_ok s" and "live k s"
  obtains t where "set_ap k ap s = Return t" and "wifi_ok t" and "stations t = stations s"
    and "access_points t = access_points s" and "positions t = positions s"
    and "length (links t) = length (links s)" and "ap_node (links t ! k) = ap"
    and "\<And>j. j \<noteq> k \<Longrightarrow> links t ! j = links s ! j"
    and "ap \<noteq> ap_node (links s ! k) \<Longrightarrow> link_visible (links t ! k) = (ap \<noteq> None)"
    and "sta_node (links t ! k) = sta_node (links s ! k)"
proof (cases "ap = ap_node (links s ! k)")
  case True
  then have "set_ap k ap s = Return s" by (simp add: set_ap_def)
  with True assms show ?thesis by (intro that [of s]) auto
next
  case False
  note k = wifi_okD [OF assms]
  define lo where "lo = (case ap_node (links s ! k) of None \<Rightarrow> links_of s
      | Some a \<Rightarrow> (links_of s)(a := remove1 k (links_of s a)))"
  define lo' where "lo' = (case ap of None \<Rightarrow> lo | Some a \<Rightarrow> lo(a := lo a @ [k]))"
  define s2 where "s2 = change_link k (\<lambda>l. l\<lparr>ap_node := ap, link_visible := ap \<noteq> None\<rparr>) (s\<lparr>links_of := lo\<rparr>)"
  define t where "t = update_points k (s2\<lparr>links_of := lo'\<rparr>)"
  have present: "k \<in> set (links_of s a)" if "ap_node (links s ! k) = Some a" for a
    using k(3) [of a] that by (metis count_list_0_iff if_P zero_neq_one)
  have "set_ap k ap s = Return t"
    using False present
    by (cases "ap_node (links s ! k)"; cases ap)
      (auto simp: set_ap_def py_remove_def t_def s2_def lo_def lo'_def change_link_def Let_def
        intro!: arg_cong [where f = "update_points k"])
  moreover have count: "count_list (lo' a) j = (if j = k then if ap = Some a then 1 else 0 else count_list (links_of s a) j)" for a j
    using False k(3)
    by (cases "ap_node (links s ! k)"; cases ap) (auto simp: lo_def lo'_def count_remove1)
  moreover have at: "links t ! j = (if j = k then points_of (positions s) ((links s ! k)\<lparr>ap_node := ap, link_visible := ap \<noteq> None\<rparr>)
      else links s ! j)" for j
    using k(1) by (simp add: t_def s2_def update_points_def change_link_def nth_list_update)
  moreover have simps: "stations t = stations s" "access_points t = access_points s" "positions t = positions s"
    "length (links t) = length (links s)" "links_of t = lo'"
    by (simp_all add: t_def s2_def)
  moreover have "wifi_ok t"
  proof (rule wifi_okI)
    show "distinct (map snd (stations t))" using assms(1) by (simp add: simps wifi_ok_def)
  next
    fix j assume "live j t"
    then have "live j s" by (simp add: live_def simps)
    from wifi_okD [OF assms(1) this] k(1,2)
    show "j < length (links t) \<and> sta_node (links t ! j) \<noteq> None \<and>
        (\<forall>a. count_list (links_of t a) j = (if ap_node (links t ! j) = Some a then 1 else 0)) \<and>
        shown_ok (links t ! j)"
      by (auto simp: simps at count shown_ok_def)
  next
    fix a j assume "j \<in> set (links_of t a)"
    then have "count_list (lo' a) j \<noteq> 0" by (simp only: simps count_list_0_iff not_not)
    then have "j = k \<or> j \<in> set (links_of s a)" unfolding count by (metis count_list_0_iff)
    then show "j < length (links t)" using assms(1) k(1) by (auto simp: simps wifi_ok_def)
  qed
  ultimately show ?thesis by (intro that [of t]) auto
qed

section \<open>Every handler keeps the invariant\<close>

text \<open>What a report asks for: the access point of a station.\<close>

definition wanted_ap :: "report \<Rightarrow> wifi \<Rightarrow> nat \<Rightarrow> nat option" where
  "wanted_ap rep s d =
     (if fst (rep d) \<and> snd (rep d) \<noteq> no_bssid then map_of (access_points s) (snd (rep d)) else None)"

definition known_ap :: "report \<Rightarrow> wifi \<Rightarrow> nat \<Rightarrow> bool" where
  "known_ap rep s d \<longleftrightarrow> (fst (rep d) \<and> snd (rep d) \<noteq> no_bssid \<longrightarrow> snd (rep d) \<in> dom (map_of (access_points s)))"

lemma update_station_cases:
  "update_station rep (d, k) s = (if known_ap rep s d then set_ap k (wanted_ap rep s d) s else Raise KeyError)"
  by (auto simp: update_station_def known_ap_def wanted_ap_def split: prod.splits option.splits)

lemma update_stations_correct:
  assumes "wifi_ok s" and "set sts \<subseteq> set (stations s)" and "distinct (map snd sts)"
  shows "\<exists>t. update_stations rep sts s = (t, if list_all (\<lambda>(d, k). known_ap rep s d) sts then Return () else Raise KeyError) \<and>
    wifi_ok t \<and> stations t = stations s \<and> access_points t = access_points s \<and> positions t = positions s \<and>
    (\<forall>(d, k) \<in> set (takeWhile (\<lambda>(d, k). known_ap rep s d) sts). ap_node (links t ! k) = wanted_ap rep s d) \<and>
    (\<forall>j. j \<notin> snd ` set (takeWhile (\<lambda>(d, k). known_ap rep s d) sts) \<longrightarrow> links t ! j = links s ! j)"
  using assms
proof (induction sts arbitrary: s)
  case (Cons st sts)
  obtain d k where st: "st = (d, k)" by (cases st)
  show ?case
  proof (cases "known_ap rep s d")
    case True
    have "live k s" using Cons.prems(2) by (force simp: st live_def)
    then obtain u where
      u: "set_ap k (wanted_ap rep s d) s = Return u" "wifi_ok u" "stations u = stations s" "access_points u = access_points s"
        "positions u = positions s" "ap_node (links u ! k) = wanted_ap rep s d" "\<And>j. j \<noteq> k \<Longrightarrow> links u ! j = links s ! j"
      using set_ap_ok [OF Cons.prems(1)] that by metis
    have same: "known_ap rep u = known_ap rep s" "wanted_ap rep u = wanted_ap rep s"
      by (simp_all add: fun_eq_iff known_ap_def wanted_ap_def u(4))
    have sub: "set sts \<subseteq> set (stations u)" "distinct (map snd sts)" and new: "k \<notin> snd ` set sts"
      using Cons.prems(2,3) by (auto simp: st u(3))
    from Cons.IH [OF u(2) sub] obtain t where
      t: "update_stations rep sts u = (t, if list_all (\<lambda>(d, k). known_ap rep s d) sts then Return () else Raise KeyError)"
        "wifi_ok t" "stations t = stations s" "access_points t = access_points s" "positions t = positions s"
        "\<forall>(d, k) \<in> set (takeWhile (\<lambda>(d, k). known_ap rep s d) sts). ap_node (links t ! k) = wanted_ap rep s d"
        "\<forall>j. j \<notin> snd ` set (takeWhile (\<lambda>(d, k). known_ap rep s d) sts) \<longrightarrow> links t ! j = links u ! j"
      unfolding same u(3-5) by (elim exE conjE) (rule that; assumption)
    have "k \<notin> snd ` set (takeWhile (\<lambda>(d, k). known_ap rep s d) sts)"
      using new by (auto dest: set_takeWhileD)
    with t(7) u(6) have "ap_node (links t ! k) = wanted_ap rep s d" by simp
    moreover have "update_stations rep (st # sts) s = update_stations rep sts u"
      using True u(1) by (simp add: st update_station_cases)
    moreover have "links t ! j = links s ! j"
      if "j \<notin> snd ` set (takeWhile (\<lambda>(d, k). known_ap rep s d) (st # sts))" for j
      using that True t(7) u(7) by (simp add: st)
    ultimately show ?thesis using True t(1-6) by (auto simp: st)
  next
    case False
    then show ?thesis using Cons.prems(1) by (simp add: st update_station_cases)
  qed
qed auto

lemma update_points_fold:
  assumes "wifi_ok s" and "set ks \<subseteq> {..<length (links s)}"
  shows "wifi_ok (fold update_points ks s)" "stations (fold update_points ks s) = stations s"
    "positions (fold update_points ks s) = positions s"
    "links (fold update_points ks s) ! j = (if j \<in> set ks then points_of (positions s) (links s ! j) else links s ! j)"
  using assms
proof (induction ks arbitrary: s)
  case (Cons k ks)
  have idem: "points_of pos (points_of pos l) = points_of pos l" for pos l
    by (auto simp: points_of_def split: option.splits)
  {
    case 1
    with Cons.IH(1) update_points_ok [of s k] show ?case by simp
  next
    case 2
    with Cons.IH(2) update_points_ok [of s k] show ?case by simp
  next
    case 3
    with Cons.IH(3) update_points_ok [of s k] show ?case by simp
  next
    case 4
    with Cons.IH(4) [of "update_points k s"] update_points_ok [of s k] show ?case
      by (auto simp: update_points_def idem)
  }
qed simp_all

lemma scan_device_ok: "wifi_ok s \<Longrightarrow> wifi_ok (scan_device i dev s)"
proof (cases dev)
  case (StationMac d)
  assume ok: "wifi_ok s"
  have fresh: "count_list (links_of s a) (length (links s)) = 0" for a
    using ok by (auto simp: wifi_ok_def count_list_0_iff)
  have old: "k < length (links s)" if "k \<in> snd ` set (stations s)" for k
    using ok that by (auto simp: wifi_ok_def)
  show ?thesis
    unfolding StationMac scan_device_def wifi_device.case
  proof (rule wifi_okI)
    show "distinct (map snd (stations (s\<lparr>links := links s @ [new_wifi_link i], stations := stations s @ [(d, length (links s))]\<rparr>)))"
      using ok old by (fastforce simp: wifi_ok_def)
  next
    fix k assume "live k (s\<lparr>links := links s @ [new_wifi_link i], stations := stations s @ [(d, length (links s))]\<rparr>)"
    then consider "k = length (links s)" | "live k s" "k < length (links s)" using old by (auto simp: live_def)
    then show "k < length (links (s\<lparr>links := links s @ [new_wifi_link i], stations := stations s @ [(d, length (links s))]\<rparr>)) \<and>
        sta_node (links (s\<lparr>links := links s @ [new_wifi_link i], stations := stations s @ [(d, length (links s))]\<rparr>) ! k) \<noteq> None \<and>
        (\<forall>a. count_list (links_of (s\<lparr>links := links s @ [new_wifi_link i], stations := stations s @ [(d, length (links s))]\<rparr>) a) k =
          (if ap_node (links (s\<lparr>links := links s @ [new_wifi_link i], stations := stations s @ [(d, length (links s))]\<rparr>) ! k) = Some a
           then 1 else 0)) \<and>
        shown_ok (links (s\<lparr>links := links s @ [new_wifi_link i], stations := stations s @ [(d, length (links s))]\<rparr>) ! k)"
      using wifi_okD [OF ok, of k]
      by cases (auto simp: fresh new_wifi_link_def nth_append shown_ok_def)
  qed (use ok in \<open>force simp: wifi_ok_def\<close>)
qed (auto simp: scan_device_def wifi_ok_def)

lemma scan_nodes_ok: "wifi_ok s \<Longrightarrow> wifi_ok (scan_nodes ns s)"
proof -
  assume ok: "wifi_ok s"
  have d: "links_of (fold (\<lambda>(d, k). destroy_link k) sts u) = links_of u \<and>
      length (links (fold (\<lambda>(d, k). destroy_link k) sts u)) = length (links u)" for sts :: "(nat \<times> nat) list" and u
    by (induction sts arbitrary: u) (auto simp: destroy_link_def)
  have scan: "wifi_ok (fold (scan_device i) devs u)" if "wifi_ok u" for i devs u
    using that by (induction devs arbitrary: u) (auto intro: scan_device_ok)
  have "wifi_ok (fold (\<lambda>(i, devs). fold (scan_device i) devs) ns u)" if "wifi_ok u" for u
    using that by (induction ns arbitrary: u) (auto intro: scan)
  moreover have "wifi_ok ((fold (\<lambda>(d, k). destroy_link k) (stations s) s)\<lparr>access_points := [], stations := []\<rparr>)"
    using ok d [of "stations s" s] by (auto simp: wifi_ok_def)
  ultimately show ?thesis by (simp add: scan_nodes_def Let_def)
qed

lemma update_view_fold: "update_view s = fold update_points (map snd (stations s)) s"
proof -
  have "fold (\<lambda>(d, k). update_points k) sts u = fold update_points (map snd sts) u" for sts :: "(nat \<times> nat) list" and u
    by (induction sts arbitrary: u) auto
  then show ?thesis by (simp add: update_view_def)
qed

lemma stations_in_range: "wifi_ok s \<Longrightarrow> set (map snd (stations s)) \<subseteq> {..<length (links s)}"
  by (auto simp: wifi_ok_def)

lemma wifi_step_ok: "wifi_ok s \<Longrightarrow> wifi_ok (fst (wifi_step e s))"
proof (cases e)
  case (Periodic rep)
  assume ok: "wifi_ok s"
  then have "distinct (map snd (stations s))" by (simp add: wifi_ok_def)
  from update_stations_correct [OF ok subset_refl this, of rep] show ?thesis
    by (auto simp: Periodic simulation_periodic_update_def)
next
  case (Placed i p)
  assume ok: "wifi_ok s"
  then have "wifi_ok (s\<lparr>positions := (positions s)(i := p)\<rparr>)" by (simp add: wifi_ok_def)
  moreover have "set (links_of s i) \<subseteq> {..<length (links s)}" using ok by (auto simp: wifi_ok_def)
  ultimately show ?thesis
    using update_points_fold(1) [of "s\<lparr>positions := (positions s)(i := p)\<rparr>" "links_of s i"]
    by (simp add: Placed place_node_def)
next
  case ViewUpdate
  assume ok: "wifi_ok s"
  from update_points_fold(1) [OF ok stations_in_range [OF ok]] show ?thesis
    by (simp add: ViewUpdate update_view_fold)
qed (simp add: scan_nodes_ok)

lemma run_wifi_ok: "wifi_ok (run_wifi es (new_wifi pos))"
proof -
  have "wifi_ok (fold (\<lambda>e s. fst (wifi_step e s)) es s)" if "wifi_ok s" for s
    using that by (induction es arbitrary: s) (auto intro: wifi_step_ok)
  moreover have "wifi_ok (new_wifi pos)" by (simp add: wifi_ok_def new_wifi_def)
  ultimately show ?thesis by (simp add: run_wifi_def)
qed

text \<open>C25: whatever has been scanned, moved and reported before, a periodic update gives every station up to
  the first unknown BSSID the access point that the report names, or none when its link is down; an
  unknown BSSID is a KeyError and leaves the remaining stations as they were. After the next update of
  the view an associated link is drawn between the present places of its two nodes and is in the list
  of its access point exactly once, and a link without access point is not drawn.\<close>

theorem wifi_links_correct:
  fixes es pos rep
  defines "s \<equiv> run_wifi es (new_wifi pos)"
  defines "t \<equiv> fst (wifi_step (Periodic rep) s)"
  defines "v \<equiv> update_view t"
  shows "snd (wifi_step (Periodic rep) s) =
      (if list_all (\<lambda>(d, k). known_ap rep s d) (stations s) then Return () else Raise KeyError) \<and>
    list_all (\<lambda>(d, k). ap_node (links t ! k) = wanted_ap rep s d) (takeWhile (\<lambda>(d, k). known_ap rep s d) (stations s)) \<and>
    list_all (\<lambda>(d, k). links t ! k = links s ! k) (dropWhile (\<lambda>(d, k). known_ap rep s d) (stations s)) \<and>
    stations v = stations s \<and> positions v = positions s \<and>
    list_all (\<lambda>(d, k). ap_node (links v ! k) = ap_node (links t ! k) \<and>
        (case (sta_node (links v ! k), ap_node (links v ! k)) of
           (Some i, Some a) \<Rightarrow> link_visible (links v ! k) \<and> link_points (links v ! k) = Some (positions s i, positions s a) \<and>
             count_list (links_of v a) k = 1
         | _ \<Rightarrow> (if link_visible (links v ! k) then link_points (links v ! k) = None else True))) (stations s)"
proof -
  have ok: "wifi_ok s" by (simp add: s_def run_wifi_ok)
  then have dist: "distinct (map snd (stations s))" by (simp add: wifi_ok_def)
  from update_stations_correct [OF ok subset_refl dist, of rep]
  have t: "snd (wifi_step (Periodic rep) s) = (if list_all (\<lambda>(d, k). known_ap rep s d) (stations s) then Return () else Raise KeyError)"
    "wifi_ok t" "stations t = stations s" "positions t = positions s"
    "\<forall>(d, k) \<in> set (takeWhile (\<lambda>(d, k). known_ap rep s d) (stations s)). ap_node (links t ! k) = wanted_ap rep s d"
    "\<forall>j. j \<notin> snd ` set (takeWhile (\<lambda>(d, k). known_ap rep s d) (stations s)) \<longrightarrow> links t ! j = links s ! j"
    by (auto simp: t_def simulation_periodic_update_def)
  note v = update_points_fold [OF t(2) stations_in_range [OF t(2)], folded update_view_fold v_def]
  have later: "snd dk \<notin> snd ` set (takeWhile P (stations s))" if "dk \<in> set (dropWhile P (stations s))" for dk P
  proof -
    have "distinct (map snd (takeWhile P (stations s) @ dropWhile P (stations s)))" using dist by simp
    with that show ?thesis by (auto simp only: map_append distinct_append set_map) 
  qed
  have drawn: "ap_node (links v ! k) = ap_node (links t ! k) \<and>
        (case (sta_node (links v ! k), ap_node (links v ! k)) of
           (Some i, Some a) \<Rightarrow> link_visible (links v ! k) \<and> link_points (links v ! k) = Some (positions s i, positions s a) \<and>
             count_list (links_of v a) k = 1
         | _ \<Rightarrow> (if link_visible (links v ! k) then link_points (links v ! k) = None else True))" if "(d, k) \<in> set (stations s)" for d k
  proof -
    from that have k: "k \<in> set (map snd (stations t))" and "live k v" by (force simp: t(3) live_def v(2))+
    from wifi_okD [OF v(1) \<open>live k v\<close>] k show ?thesis
      by (auto simp: v(4) points_of_def t(4) shown_ok_def split: option.splits if_splits)
  qed
  have good: "list_all (\<lambda>(d, k). ap_node (links t ! k) = wanted_ap rep s d) (takeWhile (\<lambda>(d, k). known_ap rep s d) (stations s))"
    using t(5) by (simp add: list_all_iff)
  have rest: "list_all (\<lambda>(d, k). links t ! k = links s ! k) (dropWhile (\<lambda>(d, k). known_ap rep s d) (stations s))"
    unfolding list_all_iff
  proof
    fix dk assume "dk \<in> set (dropWhile (\<lambda>(d, k). known_ap rep s d) (stations s))"
    from t(6) [rule_format, OF later [OF this]] show "case dk of (d, k) \<Rightarrow> links t ! k = links s ! k"
      by (simp add: case_prod_unfold)
  qed
  have all: "list_all (\<lambda>(d, k). ap_node (links v ! k) = ap_node (links t ! k) \<and>
        (case (sta_node (links v ! k), ap_node (links v ! k)) of
           (Some i, Some a) \<Rightarrow> link_visible (links v ! k) \<and> link_points (links v ! k) = Some (positions s i, positions s a) \<and>
             count_list (links_of v a) k = 1
         | _ \<Rightarrow> (if link_visible (links v ! k) then link_points (links v ! k) = None else True))) (stations s)"
    unfolding list_all_iff using drawn by blast
  show ?thesis using t(1,3,4) v(2,3) good rest all by (intro conjI) simp_all
qed


end
