(* ===== verification/Module_Scan.thy ===== *)
theory Module_Scan
  imports Test_Jobs
begin

text \<open>
  The hook that annotates the declarations of a module while the C++ headers are scanned,
  \<open>bindings/python/ns3modulescan-modular.py\<close> with the table of \<open>ns3modulescan.py\<close>. A declaration of
  pygccxml comes as a record of what the hook asks of it; the answers of its templates module and the
  declarations found for template parameters are part of that record. Driving pybindgen, the files and
  the output to the standard error are left out.
\<close>

section \<open>Annotations\<close>

datatype annotation =
    Text string
  | NoneValue
  | TrueValue
  | Params "(string \<times> (string \<times> string) list) list"

type_synonym annotations = "(string \<times> annotation) list"
type_synonym annotation_table = "(string \<times> annotations) list"

text \<open>The table of customizations by the name of a class or the text of a function.\<close>

definition type_annotations :: annotation_table where
  "type_annotations =
   [
    (''::ns3::AttributeChecker'',
      [(''automatic_type_narrowing'', Text ''true''), (''allow_subclassing'', Text ''false'')]),
    (''::ns3::AttributeValue'',
      [(''automatic_type_narrowing'', Text ''true''), (''allow_subclassing'', Text ''false'')]),
    (''::ns3::CommandLine'',
      [(''allow_subclassing'', Text ''true'')]),
    (''::ns3::NscTcpL4Protocol'',
      [(''ignore'', Text ''true'')]),
    (''ns3::RandomVariable::RandomVariable(ns3::RandomVariableBase const & variable) [constructor]'',
      [(''ignore'', NoneValue)]),
    (''ns3::RandomVariableBase * ns3::RandomVariable::Peek() const [member function]'',
      [(''ignore'', NoneValue)]),
    (''void ns3::RandomVariable::GetSeed(uint32_t * seed) const [member function]'',
      [(''params'', Params [(''seed'', [(''direction'', ''out''), (''array_length'', ''6'')])])]),
    (''bool ns3::TypeId::LookupAttributeByName(std::string name, ns3::TypeId::AttributeInformation * info) const [member function]'',
      [(''params'', Params [(''info'', [(''transfer_ownership'', ''false'')])])]),
    (''static bool ns3::TypeId::LookupByNameFailSafe(std::string name, ns3::TypeId * tid) [member function]'',
      [(''ignore'', NoneValue)]),
    (''bool ns3::TraceSourceAccessor::ConnectWithoutContext(ns3::ObjectBase * obj, ns3::CallbackBase const & cb) const [member function]'',
      [(''params'', Params [(''obj'', [(''transfer_ownership'', ''false'')])])]),
    (''bool ns3::TraceSourceAccessor::Connect(ns3::ObjectBase * obj, std::string context, ns3::CallbackBase const & cb) const [member function]'',
      [(''params'', Params [(''obj'', [(''transfer_ownership'', ''false'')])])]),
    (''bool ns3::TraceSourceAccessor::DisconnectWithoutContext(ns3::ObjectBase * obj, ns3::CallbackBase const & cb) const [member function]'',
      [(''params'', Params [(''obj'', [(''transfer_ownership'', ''false'')])])]),
    (''bool ns3::TraceSourceAccessor::Disconnect(ns3::ObjectBase * obj, std::string context, ns3::CallbackBase const & cb) const [member function]'',
      [(''params'', Params [(''obj'', [(''transfer_ownership'', ''false'')])])]),
    (''bool ns3::AttributeAccessor::Set(ns3::ObjectBase * object, ns3::AttributeValue const & value) const [member function]'',
      [(''params'', Params [(''object'', [(''transfer_ownership'', ''false'')])])]),
    (''ns3::EmpiricalVariable::EmpiricalVariable(ns3::RandomVariableBase const & variable) [constructor]'',
      [(''ignore'', NoneValue)]),
    (''static ns3::AttributeList * ns3::AttributeList::GetGlobal() [member function]'',
      [(''caller_owns_return'', Text ''false'')]),
    (''void ns3::CommandLine::Parse(int argc, char * * argv) const [member function]'',
      [(''ignore'', NoneValue)]),
    (''extern void ns3::PythonCompleteConstruct(ns3::Ptr<ns3::Object> object, ns3::TypeId typeId, ns3::AttributeList const & attributes) [free function]'',
      [(''ignore'', NoneValue)]),
    (''ns3::Ptr<ns3::Ipv4RoutingProtocol> ns3::Ipv4ListRouting::GetRoutingProtocol(uint32_t index, int16_t & priority) const [member function]'',
      [(''params'', Params [(''priority'', [(''direction'', ''out'')])])]),
    (''ns3::Ipv4RoutingTableEntry * ns3::GlobalRouter::GetInjectedRoute(uint32_t i) [member function]'',
      [(''params'', Params [(''return'', [(''caller_owns_return'', ''false'')])])]),
    (''ns3::Ipv4RoutingTableEntry * ns3::Ipv4GlobalRouting::GetRoute(uint32_t i) const [member function]'',
      [(''params'', Params [(''return'', [(''caller_owns_return'', ''false'')])])]),
    (''::ns3::TestCase'',
      [(''ignore'', Text ''true'')]),
    (''::ns3::TestRunner'',
      [(''ignore'', Text ''true'')]),
    (''::ns3::TestSuite'',
      [(''ignore'', Text ''true'')])]"

section \<open>The path of a header\<close>

text \<open>\<open>os.path.split\<close>: the head loses its trailing slashes unless it has nothing else.\<close>

definition path_split :: "string \<Rightarrow> string \<times> string" where
  "path_split p =
     (let head = rev (dropWhile (\<lambda>c. c \<noteq> slash) (rev p)); tail = rev (takeWhile (\<lambda>c. c \<noteq> slash) (rev p))
      in (if list_all (\<lambda>c. c = slash) head then head else rev (dropWhile (\<lambda>c. c = slash) (rev head)), tail))"

text \<open>\<open>os.path.join(*l)\<close>\<close>

definition join_paths :: "string list \<Rightarrow> string res" where
  "join_paths l = (case l of [] \<Rightarrow> Raise TypeError | a # as \<Rightarrow> Return (foldl path_join a as))"

lemma path_split_head: "\<exists>t. p = fst (path_split p) @ t"
proof -
  define h where "h = rev (dropWhile (\<lambda>c. c \<noteq> slash) (rev p))"
  have p: "p = h @ rev (takeWhile (\<lambda>c. c \<noteq> slash) (rev p))"
    by (metis h_def rev_append rev_rev_ident takeWhile_dropWhile_id)
  have "h = rev (dropWhile (\<lambda>c. c = slash) (rev h)) @ rev (takeWhile (\<lambda>c. c = slash) (rev h))"
    by (metis rev_append rev_rev_ident takeWhile_dropWhile_id)
  with p show ?thesis
    by (auto simp: path_split_def h_def [symmetric] Let_def) (metis append.assoc)+
qed

function header_loop :: "string \<Rightarrow> string list \<Rightarrow> string res" where
  "header_loop head l =
     (if head = [] then Raise AssertionError
      else
        (let (new_head, tail) = path_split head
         in if new_head = head then Raise (ValueError [])
            else if tail = ''ns3'' then join_paths l
            else header_loop new_head (tail # l)))"
  by auto
termination
proof (relation "measure (\<lambda>(head, l). length head)")
  fix head :: string and l :: "string list" and x new_head tail
  assume "head \<noteq> []" "x = path_split head" "(new_head, tail) = x" "new_head \<noteq> head"
  then have "\<exists>t. head = new_head @ t \<and> t \<noteq> []"
    using path_split_head [of head] by (metis append.right_neutral fst_conv)
  then show "((new_head, tail # l), head, l) \<in> measure (\<lambda>(head, l). length head)" by auto
qed simp

declare header_loop.simps [simp del]

definition get_ns3_relative_path :: "string \<Rightarrow> string option res" where
  "get_ns3_relative_path path =
     (if path = [] then Return None else bind_res (header_loop path []) (\<lambda>h. Return (Some h)))"

section \<open>The hook\<close>

datatype decl_kind = MemberFunction | Constructor | FreeFunction | ClassDecl | Enumeration | OtherDecl

text \<open>
  \<open>template_files\<close> has the file of every template parameter of a class that is a template instance,
  None for one without a location.
\<close>

record cpp_decl =
  decl_kind :: decl_kind
  decl_name :: string
  parent_name :: string
  decl_string :: string
  decl_text :: string
  decl_file :: string
  decl_template_args :: "string list"
  template_files :: "string option list option"

record scan_state =
  global_annotations :: annotations
  parameter_annotations :: "(string \<times> (string \<times> string) list) list"
  default_values :: "string option list"
  table :: annotation_table

definition annotate :: "string \<Rightarrow> annotation \<Rightarrow> scan_state \<Rightarrow> scan_state" where
  "annotate k v s = s\<lparr>global_annotations := AList.update k v (global_annotations s)\<rparr>"

definition dict_update :: "('k \<times> 'v) list \<Rightarrow> ('k \<times> 'v) list \<Rightarrow> ('k \<times> 'v) list" where
  "dict_update new old = fold (\<lambda>(k, v). AList.update k v) new old"

definition underscores :: "string \<Rightarrow> string" where
  "underscores s = map (\<lambda>c. if c = CHR ''-'' then CHR ''_'' else c) s"

definition quote_char :: char where "quote_char = CHR 0x27"

definition lookup_header :: "(string \<times> string) list \<Rightarrow> string option \<Rightarrow> string res" where
  "lookup_header headers_map h =
     (case Option.bind h (map_of headers_map) of None \<Rightarrow> Raise KeyError | Some m \<Rightarrow> Return m)"

text \<open>\<open>GetObject\<close>, \<open>Schedule*\<close> and \<open>Run\<close>.\<close>

definition scan_member :: "cpp_decl \<Rightarrow> scan_state \<Rightarrow> scan_state" where
  "scan_member d s =
     (if decl_kind d \<noteq> MemberFunction then s
      else
        (let s1 = (if parent_name d = ''Object'' \<and> decl_name d = ''GetObject'' \<and> decl_template_args d = [''ns3::Object'']
                   then annotate ''template_instance_names'' (Text ''ns3::Object=>GetObject'') s else s);
             s2 = (if parent_name d = ''Simulator'' \<and> startswith (decl_name d) ''Schedule''
                   then annotate ''ignore'' NoneValue s1 else s1)
         in if parent_name d = ''Simulator'' \<and> decl_name d = ''Run'' then annotate ''ignore'' TrueValue s2 else s2))"

definition fix_default :: "string option \<Rightarrow> string option" where
  "fix_default v =
     (if v = Some ''ns3::MilliSeconds( )'' then Some ''ns3::MilliSeconds(0)''
      else if v = Some ''ns3::Seconds( )'' then Some ''ns3::Seconds(0)'' else v)"

abbreviation is_calldef :: "cpp_decl \<Rightarrow> bool" where
  "is_calldef d \<equiv> decl_kind d \<in> {MemberFunction, Constructor, FreeFunction}"

definition scan_arguments :: "cpp_decl \<Rightarrow> scan_state \<Rightarrow> scan_state" where
  "scan_arguments d s =
     (if is_calldef d then s\<lparr>default_values := map fix_default (default_values s)\<rparr> else s)"

text \<open>The modules of the template parameters; a header outside ns-3 is passed over.\<close>

fun template_modules :: "(string \<times> string) list \<Rightarrow> string option list \<Rightarrow> string list res" where
  "template_modules headers_map [] = Return []"
| "template_modules headers_map (None # fs) = template_modules headers_map fs"
| "template_modules headers_map (Some f # fs) =
     (case get_ns3_relative_path f of
        Inl (ValueError _) \<Rightarrow> template_modules headers_map fs
      | Inl e \<Rightarrow> Raise e
      | Inr h \<Rightarrow>
          bind_res (lookup_header headers_map h) (\<lambda>m.
          bind_res (template_modules headers_map fs) (\<lambda>ms. Return (m # ms))))"

text \<open>A class, with its module; only what is after the early returns reaches the table.\<close>

definition class_module :: "(string \<times> string) list \<Rightarrow> string \<Rightarrow> cpp_decl \<Rightarrow> string \<Rightarrow> string res" where
  "class_module headers_map this_module d definition_module =
     (case template_files d of
        None \<Rightarrow> Return definition_module
      | Some fs \<Rightarrow>
          bind_res (template_modules headers_map fs) (\<lambda>ms.
            Return (if this_module \<in> set ms then this_module else definition_module)))"

definition import_from :: "string \<Rightarrow> scan_state \<Rightarrow> scan_state" where
  "import_from m = annotate ''import_from_module'' (Text (''ns.'' @ m))"

definition scan_class :: "cpp_decl \<Rightarrow> scan_state \<Rightarrow> scan_state" where
  "scan_class d s =
     (if startswith (decl_string d) ''::ns3::SimpleRefCount<'' then
        annotate ''automatic_type_narrowing'' (Text ''true'')
         (annotate ''peekref_method'' (Text ''GetReferenceCount'')
           (annotate ''decref_method'' (Text ''Unref'') (annotate ''incref_method'' (Text ''Ref'') s)))
      else if startswith (decl_string d) ''::ns3::Callback<'' then annotate ''ignore'' NoneValue s
      else if startswith (decl_string d) ''::ns3::TracedCallback<'' then annotate ''ignore'' NoneValue s
      else if startswith (decl_string d) ''::ns3::Ptr<'' then annotate ''ignore'' NoneValue s
      else
        (case map_of (table s) (decl_string d) of
           None \<Rightarrow> s
         | Some a \<Rightarrow> s\<lparr>global_annotations := dict_update a (global_annotations s)\<rparr>))"

text \<open>
  A function from the table: the entry \<open>params\<close> goes to the parameters and is deleted from the table,
  which is that of the whole run.
\<close>

definition scan_function :: "cpp_decl \<Rightarrow> scan_state \<Rightarrow> scan_state" where
  "scan_function d s =
     (case map_of (table s) (decl_text d) of
        None \<Rightarrow> s
      | Some a \<Rightarrow>
          (case map_of a ''params'' of
             Some (Params p) \<Rightarrow>
               (let rest = AList.delete ''params'' a
                in s\<lparr>parameter_annotations := dict_update p (parameter_annotations s),
                     table := AList.update (decl_text d) rest (table s),
                     global_annotations := dict_update rest (global_annotations s)\<rparr>)
           | _ \<Rightarrow> s\<lparr>global_annotations := dict_update a (global_annotations s)\<rparr>))"

definition scan_declaration :: "(string \<times> string) list \<Rightarrow> string \<Rightarrow> cpp_decl \<Rightarrow> string \<Rightarrow> scan_state \<Rightarrow> scan_state res" where
  "scan_declaration headers_map this_module d dm s =
     (let s2 = scan_arguments d (scan_member d s)
      in case decl_kind d of
           ClassDecl \<Rightarrow>
             bind_res (class_module headers_map this_module d dm) (\<lambda>m.
               Return (scan_class d (if m \<noteq> this_module then import_from (underscores m) s2 else s2)))
         | Enumeration \<Rightarrow> Return (if dm \<noteq> this_module then import_from dm s2 else s2)
         | FreeFunction \<Rightarrow>
             Return (if dm \<noteq> this_module \<or> decl_name d = ''PeekPointer'' then annotate ''ignore'' NoneValue s2
                     else scan_function d s2)
         | OtherDecl \<Rightarrow> Return s2
         | _ \<Rightarrow> Return (scan_function d s2))"

definition comment_of :: "string \<Rightarrow> string \<Rightarrow> cpp_decl \<Rightarrow> string" where
  "comment_of header dm d = header @ '' (module '' @ [quote_char] @ dm @ [quote_char] @ ''): '' @ decl_text d"

definition pre_scan_hook ::
  "(string \<times> string) list \<Rightarrow> string \<Rightarrow> cpp_decl \<Rightarrow> scan_state \<Rightarrow> scan_state res" where
  "pre_scan_hook headers_map this_module d s =
     (case get_ns3_relative_path (decl_file d) of
        Inl (ValueError _) \<Rightarrow> Return s
      | Inl e \<Rightarrow> Raise e
      | Inr None \<Rightarrow> Return s
      | Inr (Some h) \<Rightarrow>
          if h = [] then Return s
          else
            bind_res (lookup_header headers_map (Some h)) (\<lambda>dm.
              scan_declaration headers_map this_module d dm (annotate ''pygen_comment'' (Text (comment_of h dm d)) s)))"

section \<open>Headers of ns-3\<close>

definition proper :: "string \<Rightarrow> bool" where
  "proper c \<longleftrightarrow> c \<noteq> [] \<and> slash \<notin> set c"

lemma str_join_snoc: "cs \<noteq> [] \<Longrightarrow> str_join sep (cs @ [c]) = str_join sep cs @ sep @ c"
  by (simp add: str_join_append)

lemma last_str_join: "list_all proper cs \<Longrightarrow> cs \<noteq> [] \<Longrightarrow> str_join ''/'' cs \<noteq> [] \<and> last (str_join ''/'' cs) \<noteq> slash"
proof (induction cs rule: rev_induct)
  case (snoc c cs)
  then have "c \<noteq> []" "slash \<notin> set c" by (auto simp: proper_def)
  then have "last c \<noteq> slash" using last_in_set [of c] by metis
  with \<open>c \<noteq> []\<close> show ?case by (cases "cs = []") (auto simp: str_join_snoc)
qed simp

lemma path_split_at:
  assumes "slash \<notin> set c"
  shows "path_split (h @ [slash] @ c) = (if list_all (\<lambda>x. x = slash) h then h @ [slash] else rev (dropWhile (\<lambda>x. x = slash) (rev h)), c)"
proof -
  have c: "\<And>x. x \<in> set (rev c) \<Longrightarrow> x \<noteq> slash" using assms by auto
  have "takeWhile (\<lambda>x. x \<noteq> slash) (rev c @ slash # rev h) = rev c"
    "dropWhile (\<lambda>x. x \<noteq> slash) (rev c @ slash # rev h) = slash # rev h"
    by (simp_all only: takeWhile_append2 [OF c] dropWhile_append2 [OF c]) simp_all
  then show ?thesis by (simp add: path_split_def)
qed

lemma path_split_join:
  assumes "list_all proper cs" and "proper c" and "base \<in> {[], ''/''}"
  shows "path_split (base @ str_join ''/'' (cs @ [c])) = (base @ str_join ''/'' cs, c)"
proof (cases "cs = []")
  case True
  from assms(2) have c: "slash \<notin> set c" by (simp add: proper_def)
  then have "\<forall>x \<in> set (rev c). x \<noteq> slash" by auto
  then have ends: "takeWhile (\<lambda>x. x \<noteq> slash) (rev c) = rev c" "dropWhile (\<lambda>x. x \<noteq> slash) (rev c) = []"
    by (simp_all only: takeWhile_eq_all_conv dropWhile_eq_Nil_conv)
  have "path_split c = ([], c)" unfolding path_split_def ends by simp
  with True assms(3) path_split_at [OF c, of "[]"] show ?thesis by auto
next
  case False
  let ?h = "base @ str_join ''/'' cs"
  from last_str_join [OF assms(1) False] have h: "?h \<noteq> []" "last ?h \<noteq> slash" by auto
  from h have "rev ?h \<noteq> []" "hd (rev ?h) \<noteq> slash" by (simp_all only: rev_is_Nil_conv hd_rev not_False_eq_True)
  moreover have "hd xs \<noteq> slash \<Longrightarrow> xs \<noteq> [] \<Longrightarrow> dropWhile (\<lambda>x. x = slash) xs = xs" for xs by (cases xs) auto
  ultimately have "dropWhile (\<lambda>x. x = slash) (rev ?h) = rev ?h" by blast
  moreover have "\<not> list_all (\<lambda>x. x = slash) ?h" using h last_in_set [OF h(1)] by (auto simp only: list_all_iff)
  moreover have "slash \<notin> set c" using assms(2) by (simp add: proper_def)
  ultimately show ?thesis
    using path_split_at [of c ?h] False by (simp add: str_join_snoc del: rev_append)
qed

lemma join_proper: "list_all proper cs \<Longrightarrow> cs \<noteq> [] \<Longrightarrow> join_paths cs = Return (str_join ''/'' cs)"
proof (induction cs rule: rev_induct)
  case (snoc c cs)
  show ?case
  proof (cases cs)
    case Nil
    then show ?thesis by (simp add: join_paths_def)
  next
    case (Cons a as)
    with snoc have "foldl path_join a as = str_join ''/'' cs" "list_all proper cs" "proper c" by (auto simp: join_paths_def)
    moreover from this last_str_join [of cs] Cons have "str_join ''/'' cs \<noteq> []" "last (str_join ''/'' cs) \<noteq> slash" by auto
    moreover from this have "\<not> endswith (str_join ''/'' cs) ''/''" by (auto simp: suffix_def)
    moreover have "\<not> startswith c ''/''" using \<open>proper c\<close> by (auto simp: proper_def prefix_def)
    ultimately show ?thesis
      using str_join_snoc [of cs "''/''" c] Cons by (simp add: join_paths_def path_join_def)
  qed
qed simp

definition after_ns3 :: "string list \<Rightarrow> string list" where
  "after_ns3 cs = rev (takeWhile (\<lambda>c. c \<noteq> ''ns3'') (rev cs))"

lemma header_loop_proper:
  assumes "list_all proper cs" and "base \<in> {[], ''/''}"
  shows "header_loop (base @ str_join ''/'' cs) l =
    (if ''ns3'' \<in> set cs then join_paths (after_ns3 cs @ l)
     else if base = [] then Raise AssertionError else Raise (ValueError []))"
  using assms(1)
proof (induction cs arbitrary: l rule: rev_induct)
  case Nil
  have "path_split ''/'' = (''/'', [])" by (simp add: path_split_def)
  with assms(2) show ?case by (auto simp: header_loop.simps [of "[]"] header_loop.simps [of "''/''"])
next
  case (snoc c cs)
  then have cs: "list_all proper cs" "proper c" by auto
  have split: "path_split (base @ str_join ''/'' (cs @ [c])) = (base @ str_join ''/'' cs, c)"
    by (rule path_split_join [OF cs assms(2)])
  have "length (str_join ''/'' cs) < length (str_join ''/'' (cs @ [c]))"
    using cs(2) by (cases "cs = []") (auto simp: str_join_snoc proper_def)
  then have ne: "base @ str_join ''/'' (cs @ [c]) \<noteq> []" "base @ str_join ''/'' cs \<noteq> base @ str_join ''/'' (cs @ [c])" by auto
  have "header_loop (base @ str_join ''/'' (cs @ [c])) l =
      (if c = ''ns3'' then join_paths l else header_loop (base @ str_join ''/'' cs) (c # l))"
    unfolding header_loop.simps [of "base @ str_join ''/'' (cs @ [c])"] split using ne by (simp del: append_is_Nil_conv)
  also have "\<dots> = (if ''ns3'' \<in> set (cs @ [c]) then join_paths (after_ns3 (cs @ [c]) @ l)
     else if base = [] then Raise AssertionError else Raise (ValueError []))"
    using snoc.IH [OF cs(1)] by (auto simp: after_ns3_def)
  finally show ?case .
qed

text \<open>For a path without empty components the search for the header ends. It gives what is below the
  last directory \<open>ns3\<close>; a path that ends there is a TypeError. Without such a directory an absolute path is
  the ValueError that the hook catches, and a relative one an AssertionError that it does not.\<close>

theorem ns3_path_correct:
  assumes "list_all proper cs" and "cs \<noteq> []" and "base \<in> {[], ''/''}"
  shows "get_ns3_relative_path (base @ str_join ''/'' cs) =
    (if ''ns3'' \<notin> set cs then (if base = [] then Raise AssertionError else Raise (ValueError []))
     else if after_ns3 cs = [] then Raise TypeError
     else Return (Some (str_join ''/'' (after_ns3 cs))))"
proof -
  have "list_all proper (after_ns3 cs)"
    using assms(1) by (auto simp: after_ns3_def list_all_iff dest: set_takeWhileD)
  moreover have "base @ str_join ''/'' cs \<noteq> []" using last_str_join [OF assms(1,2)] by simp
  ultimately show ?thesis
    using header_loop_proper [OF assms(1,3), of "[]"]
    by (auto simp: get_ns3_relative_path_def join_proper) (auto simp: join_paths_def)
qed

theorem ns3_path_correct_witness:
  "get_ns3_relative_path (''/'' @ str_join ''/'' [''b'', ''ns3'', ''core.h'']) = Return (Some ''core.h'')"
proof -
  have "list_all proper [''b'', ''ns3'', ''core.h'']" by (simp add: proper_def)
  from ns3_path_correct [OF this, of "''/''"] show ?thesis by (simp add: after_ns3_def)
qed

section \<open>What the hook annotates\<close>

definition listed :: "annotation_table \<Rightarrow> string \<Rightarrow> (string \<times> (string \<times> string) list) list" where
  "listed t text =
     (case map_of t text of
        Some a \<Rightarrow> (case map_of a ''params'' of Some (Params p) \<Rightarrow> p | _ \<Rightarrow> [])
      | None \<Rightarrow> [])"

lemma lookup_dict_update: "map_of (dict_update new old) = map_of old ++ map_of (rev new)"
proof (induction new arbitrary: old)
  case (Cons kv new)
  obtain k v where kv: "kv = (k, v)" by (cases kv)
  show ?case
    using Cons [of "AList.update k v old"]
    by (simp add: kv dict_update_def alist.lookup_store fun_eq_iff map_add_def split: option.splits)
qed (simp add: dict_update_def)

lemma scan_member_simps [simp]:
  "parameter_annotations (scan_member d s) = parameter_annotations s"
  "table (scan_member d s) = table s"
  "default_values (scan_member d s) = default_values s"
  by (auto simp: scan_member_def annotate_def Let_def)

lemma scan_arguments_simps [simp]:
  "parameter_annotations (scan_arguments d s) = parameter_annotations s"
  "table (scan_arguments d s) = table s"
  "global_annotations (scan_arguments d s) = global_annotations s"
  by (auto simp: scan_arguments_def)

lemma scan_function_params:
  "parameter_annotations (scan_function d s) = dict_update (listed (table s) (decl_text d)) (parameter_annotations s)"
  "listed (table (scan_function d s)) text = (if text = decl_text d then [] else listed (table s) text)"
  by (auto simp: scan_function_def listed_def dict_update_def alist.lookup_store alist.lookup_remove Let_def
      split: option.splits annotation.splits)

text \<open>Scanning a function or a method of ns-3 adds the annotations that the table has for its
  parameters, and only these. But the table loses them: when the same declaration is scanned again its
  parameters get none. The entries of the other declarations stay.\<close>

theorem hook_params_once:
  assumes "get_ns3_relative_path (decl_file d) = Return (Some h)" and "h \<noteq> []" and "map_of headers_map h = Some dm"
    and "decl_kind d \<in> {MemberFunction, Constructor} \<or> decl_kind d = FreeFunction \<and> dm = this_module \<and> decl_name d \<noteq> ''PeekPointer''"
  shows "\<exists>t. pre_scan_hook headers_map this_module d s = Return t \<and>
    parameter_annotations t = dict_update (listed (table s) (decl_text d)) (parameter_annotations s) \<and>
    (\<forall>text. listed (table t) text = (if text = decl_text d then [] else listed (table s) text)) \<and>
    (\<forall>u. table u = table t \<longrightarrow>
       (\<exists>v. pre_scan_hook headers_map this_module d u = Return v \<and> parameter_annotations v = parameter_annotations u))"
proof -
  have step: "pre_scan_hook headers_map this_module d u =
      Return (scan_function d (scan_arguments d (scan_member d (annotate ''pygen_comment'' (Text (comment_of h dm d)) u))))" for u
    using assms by (cases "decl_kind d")
      (auto simp: pre_scan_hook_def lookup_header_def scan_declaration_def Let_def)
  show ?thesis
    by (simp add: step scan_function_params annotate_def) (auto simp: dict_update_def)
qed

definition sample_decl :: cpp_decl where
  "sample_decl =
     \<lparr>decl_kind = MemberFunction, decl_name = ''GetSeed'', parent_name = ''RandomVariable'', decl_string = [],
      decl_text = ''void ns3::RandomVariable::GetSeed(uint32_t * seed) const [member function]'',
      decl_file = ''/b/ns3/random.h'', decl_template_args = [], template_files = None\<rparr>"

theorem hook_params_once_witness:
  "\<exists>t. pre_scan_hook [(''random.h'', ''core'')] ''core'' sample_decl
         \<lparr>global_annotations = [], parameter_annotations = [], default_values = [], table = type_annotations\<rparr> = Return t \<and>
       parameter_annotations t = [(''seed'', [(''direction'', ''out''), (''array_length'', ''6'')])]"
proof -
  have p: "get_ns3_relative_path (decl_file sample_decl) = Return (Some ''random.h'')" by code_simp
  have l: "listed type_annotations (decl_text sample_decl) = [(''seed'', [(''direction'', ''out''), (''array_length'', ''6'')])]"
    by code_simp
  have "map_of [(''random.h'', ''core'')] ''random.h'' = Some ''core''" by simp
  from hook_params_once [OF p _ this, of "''core''"
      "\<lparr>global_annotations = [], parameter_annotations = [], default_values = [], table = type_annotations\<rparr>"]
  obtain t where "pre_scan_hook [(''random.h'', ''core'')] ''core'' sample_decl
      \<lparr>global_annotations = [], parameter_annotations = [], default_values = [], table = type_annotations\<rparr> = Return t"
    "parameter_annotations t = dict_update (listed type_annotations (decl_text sample_decl)) []"
    by (auto simp: sample_decl_def)
  then show ?thesis by (intro exI [of _ t]) (simp add: l dict_update_def)
qed

end
