(* ===== verification/Waf_Command.thy ===== *)
theory Waf_Command
  imports Shell_Run
begin

text \<open>
  The task \<open>command\<close> of the build, \<open>waf-tools/command.py\<close>: the pipeline of a command line is parsed,
  the variables in its words are substituted, and it runs. What \<open>eval\<close> makes of a variable is an
  argument; of a node of waf only its paths count. Registering the task with waf is left out.
\<close>

section \<open>Substitution\<close>

record waf_node =
  src_path :: string
  bld_abspath :: string
  bld_path :: string

datatype subst_value =
    NodeValue waf_node
  | Inputs
  | Outputs
  | ListValue "string option list"
  | StringValue string
  | OtherValue

record command_task =
  task_inputs :: "waf_node list"
  task_outputs :: "waf_node list"
  evaluate :: "string \<Rightarrow> subst_value res"

text \<open>The second alternative of \<open>arg_rx\<close> after the dollar: a variable, what follows it in the braces, and the rest.\<close>

definition match_var :: "string \<Rightarrow> (string \<times> string \<times> string) option" where
  "match_var s =
     (case s of
        [] \<Rightarrow> None
      | c # cs \<Rightarrow>
          if c \<noteq> CHR ''{'' then None
          else
            (let var = takeWhile is_word cs; r = dropWhile is_word cs;
                 code = takeWhile (\<lambda>c. c \<noteq> CHR ''}'' \<and> c \<noteq> CHR 10) r;
                 r1 = dropWhile (\<lambda>c. c \<noteq> CHR ''}'' \<and> c \<noteq> CHR 10) r
             in if var \<noteq> [] \<and> r1 \<noteq> [] \<and> hd r1 = CHR ''}'' then Some (var, code, tl r1) else None))"

definition only_path :: "string \<Rightarrow> waf_node list \<Rightarrow> (waf_node \<Rightarrow> string) \<Rightarrow> string res" where
  "only_path name nodes path =
     (case nodes of [n] \<Rightarrow> Return (path n) | _ \<Rightarrow> Raise (ValueError (''${'' @ name @ ''} requested'')))"

text \<open>What takes the place of a match; \<open>re.sub\<close> accepts only strings.\<close>

definition replacement :: "command_task \<Rightarrow> string \<Rightarrow> string \<Rightarrow> string res" where
  "replacement t var code =
     bind_res (evaluate t (var @ code)) (\<lambda>v.
       case v of
         NodeValue n \<Rightarrow>
           if var = ''TGT'' then Return (bld_abspath n) else if var = ''SRC'' then Return (src_path n)
           else Raise (ValueError (''Bad subst variable '' @ var))
       | Inputs \<Rightarrow> only_path ''SRC'' (task_inputs t) src_path
       | Outputs \<Rightarrow> only_path ''TGT'' (task_outputs t) bld_abspath
       | ListValue xs \<Rightarrow>
           (case xs of [x] \<Rightarrow> (case x of Some s \<Rightarrow> Return s | None \<Rightarrow> Raise TypeError) | _ \<Rightarrow> Raise AssertionError)
       | StringValue s \<Rightarrow> Return s
       | OtherValue \<Rightarrow> Raise TypeError)"

lemma match_var_shorter: "match_var s = Some (var, code, rest) \<Longrightarrow> length rest < length s"
proof -
  assume m: "match_var s = Some (var, code, rest)"
  then obtain cs where s: "s = CHR ''{'' # cs" by (auto simp: match_var_def Let_def split: list.splits if_splits)
  define r where "r = dropWhile is_word cs"
  from m s have rest: "rest = tl (dropWhile (\<lambda>c. c \<noteq> CHR ''}'' \<and> c \<noteq> CHR 10) r)"
    by (auto simp: match_var_def Let_def r_def split: if_splits)
  have "length r \<le> length cs" unfolding r_def by (rule length_dropWhile_le)
  moreover have "length (dropWhile (\<lambda>c. c \<noteq> CHR ''}'' \<and> c \<noteq> CHR 10) r) \<le> length r" by (rule length_dropWhile_le)
  ultimately show ?thesis by (simp add: s rest)
qed

function subst_arg :: "command_task \<Rightarrow> string \<Rightarrow> string res" where
  "subst_arg t [] = Return []"
| "subst_arg t (c # cs) =
     (if c \<noteq> CHR ''$'' then bind_res (subst_arg t cs) (\<lambda>r. Return (c # r))
      else if cs \<noteq> [] \<and> hd cs = CHR ''$'' then bind_res (subst_arg t (tl cs)) (\<lambda>r. Return (CHR ''$'' # r))
      else
        (case match_var cs of
           None \<Rightarrow> bind_res (subst_arg t cs) (\<lambda>r. Return (c # r))
         | Some (var, code, rest) \<Rightarrow>
             bind_res (replacement t var code) (\<lambda>v.
             bind_res (subst_arg t rest) (\<lambda>r. Return (v @ r)))))"
  by pat_completeness auto
termination
  by (relation "measure (\<lambda>(t, s). length s)") (auto dest: match_var_shorter)

section \<open>Running the task\<close>

definition subst_optional :: "command_task \<Rightarrow> string option \<Rightarrow> string option res" where
  "subst_optional t f = (case f of None \<Rightarrow> Return None | Some s \<Rightarrow> bind_res (subst_arg t s) (\<lambda>r. Return (Some r)))"

definition subst_redirect :: "command_task \<Rightarrow> redirect option \<Rightarrow> redirect option res" where
  "subst_redirect t r =
     (case r of Some (ToFile f) \<Rightarrow> bind_res (subst_arg t f) (\<lambda>g. Return (Some (ToFile g))) | _ \<Rightarrow> Return r)"

definition subst_env :: "command_task \<Rightarrow> (string \<times> string) list option \<Rightarrow> (string \<times> string) list option res" where
  "subst_env t en =
     (case en of
        None \<Rightarrow> Return None
      | Some kvs \<Rightarrow>
          bind_res (map_res (\<lambda>(k, v). bind_res (subst_arg t v) (\<lambda>w. Return (k, w))) kvs) (\<lambda>r. Return (Some r)))"

definition subst_command :: "command_task \<Rightarrow> command \<Rightarrow> command res" where
  "subst_command t c =
     bind_res (subst_optional t (cmd_stdin c)) (\<lambda>inp.
     bind_res (subst_redirect t (cmd_stdout c)) (\<lambda>out.
     bind_res (subst_redirect t (cmd_stderr c)) (\<lambda>err.
     bind_res (map_res (subst_arg t) (cmd_argv c)) (\<lambda>argv.
     bind_res (subst_env t (cmd_env c)) (\<lambda>en.
       Return (c\<lparr>cmd_stdin := inp, cmd_stdout := out, cmd_stderr := err, cmd_argv := argv, cmd_env := en\<rparr>))))))"

definition subst_node :: "command_task \<Rightarrow> node \<Rightarrow> node res" where
  "subst_node t n =
     (case n of
        CommandN c \<Rightarrow> bind_res (subst_command t c) (\<lambda>d. Return (CommandN d))
      | ChdirN dir \<Rightarrow>
          (case dir of None \<Rightarrow> Raise TypeError | Some d \<Rightarrow> bind_res (subst_arg t d) (\<lambda>e. Return (ChdirN (Some e))))
      | _ \<Rightarrow> Return n)"

definition run_command :: "os \<Rightarrow> bool \<Rightarrow> command_task \<Rightarrow> string \<Rightarrow> run_state \<times> int option res" where
  "run_command os verbose t text =
     (case bind_res (parse_text text) (map_res (subst_node t)) of
        Inl e \<Rightarrow> (initial_run, Raise e)
      | Inr nodes \<Rightarrow> run os verbose nodes)"

text \<open>\<open>__str__\<close>\<close>

definition describe :: "command_task \<Rightarrow> string \<Rightarrow> string res" where
  "describe t text =
     bind_res (parse_text text) (\<lambda>nodes.
       Return (''command ('' @ get_abbreviated_command nodes @ ''): '' @ str_join '' '' (map bld_path (task_inputs t)) @
         (if task_outputs t \<noteq> [] then '' -> '' else []) @ str_join '' '' (map bld_path (task_outputs t))))"

section \<open>Properties\<close>

text \<open>The pieces of a word: text without dollars, a doubled dollar, a variable with what follows it.\<close>

datatype piece = Plain string | Dollar | Variable string string

fun piece_text :: "piece \<Rightarrow> string" where
  "piece_text (Plain s) = s"
| "piece_text Dollar = ''$$''"
| "piece_text (Variable var code) = ''${'' @ var @ code @ ''}''"

fun piece_ok :: "piece \<Rightarrow> bool" where
  "piece_ok (Plain s) \<longleftrightarrow> CHR ''$'' \<notin> set s"
| "piece_ok Dollar \<longleftrightarrow> True"
| "piece_ok (Variable var code) \<longleftrightarrow>
     var \<noteq> [] \<and> list_all is_word var \<and> (code = [] \<or> \<not> is_word (hd code)) \<and> CHR ''}'' \<notin> set code \<and> CHR 10 \<notin> set code"

fun piece_value :: "command_task \<Rightarrow> piece \<Rightarrow> string res" where
  "piece_value t (Plain s) = Return s"
| "piece_value t Dollar = Return ''$''"
| "piece_value t (Variable var code) = replacement t var code"

lemma subst_plain: "CHR ''$'' \<notin> set s \<Longrightarrow> subst_arg t (s @ r) = bind_res (subst_arg t r) (\<lambda>u. Return (s @ u))"
  by (induction s) (auto simp: bind_res_def split: sum.splits)

lemma match_var_text:
  assumes "piece_ok (Variable var code)"
  shows "match_var (CHR ''{'' # var @ code @ CHR ''}'' # r) = Some (var, code, r)"
proof -
  have brace: "\<not> is_word (CHR ''}'')" by code_simp
  have v: "\<And>x. x \<in> set var \<Longrightarrow> is_word x" using assms by (simp add: list_all_iff)
  have c: "\<And>x. x \<in> set code \<Longrightarrow> x \<noteq> CHR ''}'' \<and> x \<noteq> CHR 10" using assms by auto
  have stop: "takeWhile is_word (code @ CHR ''}'' # r) = []" "dropWhile is_word (code @ CHR ''}'' # r) = code @ CHR ''}'' # r"
    using assms brace by (cases code; simp)+
  show ?thesis
    using assms
    by (simp add: match_var_def takeWhile_append2 [OF v] dropWhile_append2 [OF v] stop
        takeWhile_append2 [OF c] dropWhile_append2 [OF c])
qed

lemma subst_piece:
  "piece_ok p \<Longrightarrow> subst_arg t (piece_text p @ r) =
     bind_res (piece_value t p) (\<lambda>v. bind_res (subst_arg t r) (\<lambda>u. Return (v @ u)))"
proof (cases p)
  case (Variable var code)
  assume "piece_ok p"
  then have m: "match_var (CHR ''{'' # var @ code @ CHR ''}'' # r) = Some (var, code, r)"
    unfolding Variable by (rule match_var_text)
  have "subst_arg t (piece_text p @ r) = subst_arg t (CHR ''$'' # CHR ''{'' # var @ code @ CHR ''}'' # r)"
    by (simp add: Variable)
  also have "\<dots> = bind_res (replacement t var code) (\<lambda>v. bind_res (subst_arg t r) (\<lambda>u. Return (v @ u)))"
    by (subst subst_arg.simps) (simp add: m del: subst_arg.simps)
  finally show ?thesis by (simp add: Variable)
qed (simp_all add: subst_plain)

lemma subst_pieces:
  "list_all piece_ok ps \<Longrightarrow> subst_arg t (concat (map piece_text ps)) =
     bind_res (map_res (piece_value t) ps) (\<lambda>vs. Return (concat vs))"
proof (induction ps)
  case (Cons p ps)
  then show ?case
    using subst_piece [of p t "concat (map piece_text ps)"]
    by (cases "piece_value t p"; cases "map_res (piece_value t) ps") auto
qed simp

text \<open>A word written from text without dollars, doubled dollars and variables gets the values of its
  pieces in order, each evaluated once, or the error of the first that has none; the value of a variable
  is not searched for variables again.\<close>

theorem subst_arg_correct:
  assumes "list_all piece_ok ps"
  shows "subst_arg t (concat (map piece_text ps)) = bind_res (map_res (piece_value t) ps) (\<lambda>vs. Return (concat vs))"
  using assms by (rule subst_pieces)

definition sample_task :: command_task where
  "sample_task =
     \<lparr>task_inputs = [], task_outputs = [\<lparr>src_path = ''a'', bld_abspath = ''/b/a $x'', bld_path = ''a''\<rparr>],
      evaluate = (\<lambda>e. if e = ''TGT'' then Return Outputs else Raise (NameError e))\<rparr>"

theorem subst_arg_correct_witness:
  "subst_arg sample_task (concat (map piece_text [Plain ''x='', Variable ''TGT'' [], Dollar])) = Return ''x=/b/a $x$''"
proof -
  have "list_all piece_ok [Plain ''x='', Variable ''TGT'' [], Dollar]" by code_simp
  from subst_arg_correct [OF this, of sample_task] show ?thesis
    by (simp add: sample_task_def replacement_def only_path_def)
qed

text \<open>A node keeps its kind, and a command its name, the number of its arguments and its redirections.\<close>

fun node_shape :: "node \<Rightarrow> (string \<times> nat \<times> bool list \<times> string list) option \<times> node option" where
  "node_shape (CommandN c) =
     (Some (cmd_name c, length (cmd_argv c),
        [cmd_stdin c = None, cmd_stdout c = None, cmd_stdout c = Some ToPipe, cmd_stderr c = None,
         cmd_stderr c = Some ToStdout, cmd_env c = None],
        map fst (case cmd_env c of None \<Rightarrow> [] | Some en \<Rightarrow> en)), None)"
| "node_shape (ChdirN d) = (None, None)"
| "node_shape n = (None, Some n)"

lemma map_res_length: "map_res f xs = Return ys \<Longrightarrow> length ys = length xs"
  by (induction xs arbitrary: ys) (auto simp: bind_res_eq_Return)

lemma map_res_fst:
  "map_res (\<lambda>(k, v). bind_res (f v) (\<lambda>w. Return (k, w))) kvs = Return r \<Longrightarrow> map fst r = map fst kvs"
  by (induction kvs arbitrary: r) (auto simp: bind_res_eq_Return)

lemma subst_node_shape: "subst_node t n = Return m \<Longrightarrow> node_shape m = node_shape n"
proof (cases n)
  case (CommandN c)
  assume "subst_node t n = Return m"
  then obtain inp out err argv en where
    r: "subst_optional t (cmd_stdin c) = Return inp" "subst_redirect t (cmd_stdout c) = Return out"
      "subst_redirect t (cmd_stderr c) = Return err" "map_res (subst_arg t) (cmd_argv c) = Return argv"
      "subst_env t (cmd_env c) = Return en"
      "m = CommandN (c\<lparr>cmd_stdin := inp, cmd_stdout := out, cmd_stderr := err, cmd_argv := argv, cmd_env := en\<rparr>)"
    by (auto simp: CommandN subst_node_def subst_command_def bind_res_eq_Return)
  have "(inp = None) = (cmd_stdin c = None)"
    using r(1) by (auto simp: subst_optional_def bind_res_eq_Return split: option.splits)
  moreover have "(out = None) = (cmd_stdout c = None)" "(out = Some ToPipe) = (cmd_stdout c = Some ToPipe)"
    using r(2) by (cases "cmd_stdout c"; auto simp: subst_redirect_def bind_res_eq_Return split: redirect.splits)+
  moreover have "(err = None) = (cmd_stderr c = None)" "(err = Some ToStdout) = (cmd_stderr c = Some ToStdout)"
    using r(3) by (cases "cmd_stderr c"; auto simp: subst_redirect_def bind_res_eq_Return split: redirect.splits)+
  moreover have "(en = None) = (cmd_env c = None)"
    "map fst (case en of None \<Rightarrow> [] | Some e \<Rightarrow> e) = map fst (case cmd_env c of None \<Rightarrow> [] | Some e \<Rightarrow> e)"
    using r(5) by (auto simp: subst_env_def bind_res_eq_Return map_res_fst split: option.splits)
  ultimately show ?thesis using map_res_length [OF r(4)] by (simp add: r(6) CommandN)
qed (auto simp: subst_node_def bind_res_eq_Return split: option.splits)



end
