(* ===== verification/Cflags.thy ===== *)
theory Cflags
  imports Prelude
begin

text \<open>
  The compiler flags of the build profiles, \<open>waf-tools/cflags.py\<close>. The environment of waf is a list of
  variables with lists of values, an absent one reads as empty; the options of the command line are
  arguments and the help texts are left out.
\<close>

section \<open>Compilers\<close>

datatype compiler = Gcc | Icc | Msvc

fun warnings_flags :: "compiler \<Rightarrow> string list list" where
  "warnings_flags Gcc = [[''-Wall''], [''-Werror''], [''-Wextra'']]"
| "warnings_flags Icc = [[], [], [''-Wall'']]"
| "warnings_flags Msvc = [[''/W2''], [''/WX''], [''/Wall'']]"

text \<open>The loop over the levels, which ends at the first without flags of its own.\<close>

fun warnings_loop :: "string list list \<Rightarrow> nat list \<Rightarrow> string list \<Rightarrow> string list" where
  "warnings_loop flags [] warnings = warnings"
| "warnings_loop flags (l # ls) warnings =
     (if l < length flags then warnings_loop flags ls (warnings @ flags ! l) else warnings)"

definition get_warnings_flags :: "compiler \<Rightarrow> nat \<Rightarrow> string list" where
  "get_warnings_flags c level = warnings_loop (warnings_flags c) [0..<level] []"

text \<open>Other levels return None.\<close>

definition get_optimization_flags :: "compiler \<Rightarrow> nat \<Rightarrow> string list option" where
  "get_optimization_flags c level =
     (case c of
        Msvc \<Rightarrow>
          if level = 0 then Some [''/Od''] else if level = 1 then Some []
          else if level = 2 then Some [''/O2''] else if level = 3 then Some [''/Ox''] else None
      | _ \<Rightarrow>
          if level = 0 then Some [''-O0''] else if level = 1 then Some [''-O'']
          else if level = 2 then Some [''-O2''] else if level = 3 then Some [''-O3''] else None)"

definition get_debug_flags :: "compiler \<Rightarrow> nat \<Rightarrow> string list \<times> string list" where
  "get_debug_flags c level =
     (case c of
        Msvc \<Rightarrow>
          if level = 0 then ([], [''NDEBUG''])
          else if level = 1 then ([''/ZI'', ''/RTC1''], []) else ([''/ZI'', ''/RTC1''], [''_DEBUG''])
      | _ \<Rightarrow>
          if level = 0 then ([''-g0''], [''NDEBUG''])
          else if level = 1 then ([''-g''], []) else ([''-ggdb'', ''-g3''], [''_DEBUG'']))"

definition compiler_mapping :: "(string \<times> compiler) list" where
  "compiler_mapping =
     [(''gcc'', Gcc), (''g++'', Gcc), (''msvc'', Msvc), (''icc'', Icc), (''icpc'', Icc), (''clang'', Gcc), (''clang++'', Gcc)]"

text \<open>The levels of optimization, warnings and debugging.\<close>

definition profiles :: "(string \<times> nat \<times> nat \<times> nat) list" where
  "profiles = [(''default'', 2, 1, 1), (''debug'', 0, 2, 3), (''release'', 3, 1, 0)]"

section \<open>The configuration\<close>

type_synonym waf_env = "(string \<times> string list) list"

record waf_config =
  compiler_cc :: "string option"
  compiler_cxx :: "string option"
  flags_env :: waf_env

record build_options =
  build_profile :: string
  disable_werror :: bool

definition env_list :: "string \<Rightarrow> waf_env \<Rightarrow> string list" where
  "env_list var e = (case map_of e var of None \<Rightarrow> [] | Some xs \<Rightarrow> xs)"

definition append_value :: "string \<Rightarrow> string list \<Rightarrow> waf_env \<Rightarrow> waf_env" where
  "append_value var vals e = AList.update var (env_list var e @ vals) e"

text \<open>\<open>env[k] or None\<close>: the empty string counts as none.\<close>

definition named :: "string option \<Rightarrow> string option" where
  "named s = (if s = Some [] then None else s)"

definition find_compiler :: "string option \<Rightarrow> string option \<Rightarrow> compiler option" where
  "find_compiler cc cxx =
     (case Option.bind cc (map_of compiler_mapping) of
        Some c \<Rightarrow> Some c
      | None \<Rightarrow> Option.bind cxx (map_of compiler_mapping))"

definition add_flags :: "string option \<Rightarrow> string \<Rightarrow> string \<Rightarrow> string list list \<Rightarrow> string list \<Rightarrow> waf_env \<Rightarrow> waf_env" where
  "add_flags tool flags_var defines_var flags defs e =
     (if tool \<noteq> None \<and> env_list flags_var e = []
      then append_value defines_var defs (fold (append_value flags_var) flags e) else e)"

definition configure :: "build_options \<Rightarrow> waf_config \<Rightarrow> waf_config res" where
  "configure opts conf =
     (let cc = named (compiler_cc conf); cxx = named (compiler_cxx conf)
      in if cc = None \<and> cxx = None then Raise (GenericException ''WafError'')
         else
           (case find_compiler cc cxx of
              None \<Rightarrow> Return conf
            | Some c \<Rightarrow>
                (case map_of profiles (build_profile opts) of
                   None \<Rightarrow> Raise KeyError
                 | Some (opt_level, warn_level, dbg_level) \<Rightarrow>
                     (case get_optimization_flags c opt_level of
                        None \<Rightarrow> Raise TypeError
                      | Some optimizations \<Rightarrow>
                          let (debug, debug_defs) = get_debug_flags c dbg_level;
                              warnings = get_warnings_flags c warn_level;
                              warnings = (if disable_werror opts then remove1 ''-Werror'' warnings else warnings);
                              flags = [optimizations, debug, warnings];
                              e = add_flags cc ''CCFLAGS'' ''CCDEFINES'' flags debug_defs (flags_env conf)
                          in Return (conf\<lparr>flags_env := add_flags cxx ''CXXFLAGS'' ''CXXDEFINES'' flags debug_defs e\<rparr>)))))"

section \<open>Properties\<close>

lemma get_warnings_flags_levels: "get_warnings_flags c level = concat (take level (warnings_flags c))"
proof -
  have loop: "warnings_loop flags [i..<n] ws = ws @ concat (take (n - i) (drop i flags))" for flags i n ws
  proof (induction "n - i" arbitrary: i ws)
    case 0
    then show ?case by simp
  next
    case (Suc k)
    then have i: "i < n" "[i..<n] = i # [Suc i..<n]" "n - i = Suc (n - Suc i)" by (auto simp: upt_conv_Cons)
    show ?case
    proof (cases "i < length flags")
      case True
      then have "drop i flags = flags ! i # drop (Suc i) flags" by (simp add: Cons_nth_drop_Suc)
      with True Suc.hyps(1) [of "Suc i"] Suc.hyps(2) i show ?thesis by simp
    qed (use i in simp)
  qed
  show ?thesis using loop [of "warnings_flags c" 0 level "[]"] by (simp add: get_warnings_flags_def)
qed

text \<open>The flags and defines of a profile, as a table.\<close>

fun profile_flags :: "compiler \<Rightarrow> string \<Rightarrow> string list \<times> string list" where
  "profile_flags Gcc p =
     (if p = ''default'' then ([''-O2'', ''-g'', ''-Wall''], [])
      else if p = ''debug'' then ([''-O0'', ''-ggdb'', ''-g3'', ''-Wall'', ''-Werror''], [''_DEBUG''])
      else ([''-O3'', ''-g0'', ''-Wall''], [''NDEBUG'']))"
| "profile_flags Icc p =
     (if p = ''default'' then ([''-O2'', ''-g''], [])
      else if p = ''debug'' then ([''-O0'', ''-ggdb'', ''-g3''], [''_DEBUG''])
      else ([''-O3'', ''-g0''], [''NDEBUG'']))"
| "profile_flags Msvc p =
     (if p = ''default'' then ([''/O2'', ''/ZI'', ''/RTC1'', ''/W2''], [])
      else if p = ''debug'' then ([''/Od'', ''/ZI'', ''/RTC1'', ''/W2'', ''/WX''], [''_DEBUG''])
      else ([''/Ox'', ''/W2''], [''NDEBUG'']))"

lemma env_list_append [simp]:
  "env_list v (append_value var vals e) = (if v = var then env_list var e @ vals else env_list v e)"
  by (auto simp: env_list_def append_value_def alist.lookup_store split: option.splits)

lemma add_flags_lookup:
  assumes "flags_var \<noteq> defines_var"
  shows "env_list v (add_flags tool flags_var defines_var flags defs e) =
    (if tool = None \<or> env_list flags_var e \<noteq> [] then env_list v e
     else if v = flags_var then concat flags
     else if v = defines_var then env_list v e @ defs else env_list v e)"
proof -
  have "env_list v (fold (append_value flags_var) fs e) = (if v = flags_var then env_list v e @ concat fs else env_list v e)" for fs v e
    by (induction fs arbitrary: e) auto
  with assms show ?thesis by (auto simp: add_flags_def)
qed

definition final_flags :: "build_options \<Rightarrow> compiler \<Rightarrow> string list" where
  "final_flags opts c =
     (let fs = fst (profile_flags c (build_profile opts)) in if disable_werror opts then remove1 ''-Werror'' fs else fs)"

lemma configured_flags:
  assumes "map_of profiles p = Some (ol, wl, dl)" and "p = build_profile opts"
  shows "\<exists>os. get_optimization_flags c ol = Some os \<and>
    concat [os, fst (get_debug_flags c dl),
      (if disable_werror opts then remove1 ''-Werror'' (get_warnings_flags c wl) else get_warnings_flags c wl)] =
      final_flags opts c \<and>
    snd (get_debug_flags c dl) = snd (profile_flags c p)"
proof -
  from assms(1) have "(p, ol, wl, dl) \<in> {(''default'', 2, 1, 1), (''debug'', 0, 2, 3), (''release'', 3, 1, 0)}"
    by (auto simp: profiles_def split: if_splits)
  then consider "p = ''default''" "ol = 2" "wl = 1" "dl = 1" | "p = ''debug''" "ol = 0" "wl = 2" "dl = 3"
    | "p = ''release''" "ol = 3" "wl = 1" "dl = 0" by auto
  then show ?thesis
    by cases (cases c; simp add: assms(2) [symmetric] final_flags_def get_optimization_flags_def get_debug_flags_def
        get_warnings_flags_levels numeral_2_eq_2)+
qed

text \<open>C27: without a compiler the configuration fails, and with compilers that are not known nothing changes.
  Else each tool that is there and has no flags from the user gets exactly the flags and defines of
  the profile for the family of the C compiler, or of the C++ compiler when that of C is not known; flags
  that the user has set stay. Of the flags that make warnings errors, only \<open>-Werror\<close> can be disabled:
  \<open>/WX\<close> stays.\<close>

theorem configure_correct:
  "(let cc = named (compiler_cc conf); cxx = named (compiler_cxx conf); e = flags_env conf;
        old = (\<lambda>v. env_list v e);
        new = (\<lambda>c v.
          if v = ''CCFLAGS'' \<and> cc \<noteq> None \<and> old v = [] \<or> v = ''CXXFLAGS'' \<and> cxx \<noteq> None \<and> old v = [] then final_flags opts c
          else if v = ''CCDEFINES'' \<and> cc \<noteq> None \<and> old ''CCFLAGS'' = [] \<or> v = ''CXXDEFINES'' \<and> cxx \<noteq> None \<and> old ''CXXFLAGS'' = []
          then old v @ snd (profile_flags c (build_profile opts)) else old v)
    in case configure opts conf of
         Inl err \<Rightarrow> cc = None \<and> cxx = None \<and> err = GenericException ''WafError'' \<or>
           build_profile opts \<notin> {''default'', ''debug'', ''release''} \<and> err = KeyError
       | Inr conf' \<Rightarrow>
           compiler_cc conf' = compiler_cc conf \<and> compiler_cxx conf' = compiler_cxx conf \<and>
           (case find_compiler cc cxx of
              None \<Rightarrow> conf' = conf
            | Some c \<Rightarrow> (\<lambda>v. env_list v (flags_env conf')) = new c)) \<and>
   ''-Werror'' \<notin> set (final_flags (opts\<lparr>disable_werror := True\<rparr>) c) \<and>
   (''/WX'' \<in> set (final_flags opts c)) = (c = Msvc \<and> build_profile opts = ''debug'')"
proof -
  have werror: "''-Werror'' \<notin> set (final_flags (opts\<lparr>disable_werror := True\<rparr>) c)"
    by (cases c) (auto simp: final_flags_def)
  have wx: "(''/WX'' \<in> set (final_flags opts c)) = (c = Msvc \<and> build_profile opts = ''debug'')"
    by (cases c; cases "disable_werror opts") (simp_all add: final_flags_def)
  define cc where "cc = named (compiler_cc conf)"
  define cxx where "cxx = named (compiler_cxx conf)"
  show ?thesis
  proof (cases "(cc = None \<and> cxx = None) \<or> find_compiler cc cxx = None")
    case True
    then show ?thesis using werror wx
      by (auto simp: configure_def cc_def [symmetric] cxx_def [symmetric] Let_def find_compiler_def)
  next
    case False
    then obtain k where k: "find_compiler cc cxx = Some k" "\<not> (cc = None \<and> cxx = None)" by auto
    show ?thesis
    proof (cases "map_of profiles (build_profile opts)")
      case None
      then have "build_profile opts \<notin> {''default'', ''debug'', ''release''}"
        by (auto simp: profiles_def split: if_splits)
      with None k werror wx show ?thesis
        by (auto simp: configure_def cc_def [symmetric] cxx_def [symmetric] Let_def)
    next
      case (Some p)
      obtain ol wl dl where p: "p = (ol, wl, dl)" by (cases p) auto
      from configured_flags [OF Some [unfolded p] refl, of k] obtain os where
        os: "get_optimization_flags k ol = Some os"
          "concat [os, fst (get_debug_flags k dl),
             (if disable_werror opts then remove1 ''-Werror'' (get_warnings_flags k wl) else get_warnings_flags k wl)] =
           final_flags opts k"
          "snd (get_debug_flags k dl) = snd (profile_flags k (build_profile opts))" by blast
      define fl where "fl = [os, fst (get_debug_flags k dl),
             (if disable_werror opts then remove1 ''-Werror'' (get_warnings_flags k wl) else get_warnings_flags k wl)]"
      define defs where "defs = snd (profile_flags k (build_profile opts))"
      let ?e = "add_flags cxx ''CXXFLAGS'' ''CXXDEFINES'' fl defs (add_flags cc ''CCFLAGS'' ''CCDEFINES'' fl defs (flags_env conf))"
      have conf: "configure opts conf = Return (conf\<lparr>flags_env := ?e\<rparr>)"
        using k Some p os(1,3)
        by (auto simp: configure_def cc_def [symmetric] cxx_def [symmetric] fl_def defs_def Let_def split: prod.splits)
      have flat: "concat fl = final_flags opts k" using os(2) by (simp only: fl_def)
      have "env_list v ?e =
          (if v = ''CCFLAGS'' \<and> cc \<noteq> None \<and> env_list v (flags_env conf) = [] \<or>
              v = ''CXXFLAGS'' \<and> cxx \<noteq> None \<and> env_list v (flags_env conf) = [] then final_flags opts k
           else if v = ''CCDEFINES'' \<and> cc \<noteq> None \<and> env_list ''CCFLAGS'' (flags_env conf) = [] \<or>
              v = ''CXXDEFINES'' \<and> cxx \<noteq> None \<and> env_list ''CXXFLAGS'' (flags_env conf) = []
           then env_list v (flags_env conf) @ defs else env_list v (flags_env conf))" for v
        by (cases cc; cases cxx; simp add: add_flags_lookup flat; blast?)
      then have "(\<lambda>v. env_list v ?e) = (\<lambda>v.
           if v = ''CCFLAGS'' \<and> cc \<noteq> None \<and> env_list v (flags_env conf) = [] \<or>
              v = ''CXXFLAGS'' \<and> cxx \<noteq> None \<and> env_list v (flags_env conf) = [] then final_flags opts k
           else if v = ''CCDEFINES'' \<and> cc \<noteq> None \<and> env_list ''CCFLAGS'' (flags_env conf) = [] \<or>
              v = ''CXXDEFINES'' \<and> cxx \<noteq> None \<and> env_list ''CXXFLAGS'' (flags_env conf) = []
           then env_list v (flags_env conf) @ defs else env_list v (flags_env conf))"
        by (rule ext)
      moreover have "flags_env (conf\<lparr>flags_env := x\<rparr>) = x" "compiler_cc (conf\<lparr>flags_env := x\<rparr>) = compiler_cc conf"
        "compiler_cxx (conf\<lparr>flags_env := x\<rparr>) = compiler_cxx conf" for x by simp_all
      ultimately show ?thesis
        using werror wx
        by (simp only: Let_def cc_def [symmetric] cxx_def [symmetric] conf k(1) defs_def sum.case option.case simp_thms)
    qed
  qed
qed

end
