(* ===== verification/Viz_Shell.thy ===== *)
theory Viz_Shell
  imports Prelude "HOL-Library.Multiset"
begin

text \<open>
  The Python shell of the visualizer, \<open>ipython_view.py\<close>: a text view whose last line is edited and run.
  The text is kept in two parts, before and after the mark of the line start, without tags and fonts; the
  changes that handlers leave to the idle loop are a queue. IPython is an argument: which lines wait for
  more, what a cell prints and adds to the history, the prompts and the completions of a word. Lines end
  with newlines; the automatic editing of syntax errors is left out.
\<close>

section \<open>Colored output\<close>

text \<open>The pattern \<open>color_pat\<close> at the start of a text: the code between the bracket and the \<open>m\<close>, and the rest.\<close>

definition match_color :: "string \<Rightarrow> (string \<times> string) option" where
  "match_color s =
     (case (if s \<noteq> [] \<and> hd s = CHR 0x01 then tl s else s) of
        c # d # t \<Rightarrow>
          if c = CHR 0x1B \<and> d = CHR ''['' then
            (let code = takeWhile (\<lambda>c. c \<noteq> CHR ''m'' \<and> c \<noteq> CHR 10) t;
                 r = dropWhile (\<lambda>c. c \<noteq> CHR ''m'' \<and> c \<noteq> CHR 10) t
             in if r \<noteq> [] \<and> hd r = CHR ''m''
                then Some (code, if tl r \<noteq> [] \<and> hd (tl r) = CHR 0x02 then tl (tl r) else tl r) else None)
          else None
      | _ \<Rightarrow> None)"

lemma match_color_shorter: "match_color s = Some (code, rest) \<Longrightarrow> length rest < length s"
proof -
  assume m: "match_color s = Some (code, rest)"
  define u where "u = (if s \<noteq> [] \<and> hd s = CHR 0x01 then tl s else s)"
  from m obtain c d t where t: "u = c # d # t" by (auto simp: match_color_def u_def [symmetric] split: list.splits)
  define r where "r = dropWhile (\<lambda>c. c \<noteq> CHR ''m'' \<and> c \<noteq> CHR 10) t"
  have "length u \<le> length s" by (auto simp: u_def)
  moreover have "length r \<le> length t" unfolding r_def by (rule length_dropWhile_le)
  moreover have "length rest \<le> length r"
    using m by (auto simp: match_color_def u_def [symmetric] t r_def [symmetric] Let_def split: if_splits)
  ultimately show ?thesis by (simp add: t)
qed

text \<open>\<open>color_pat.split(text)\<close>: the text before the first code, and each code with the text after it.\<close>

function color_split :: "string \<Rightarrow> string \<times> (string \<times> string) list" where
  "color_split [] = ([], [])"
| "color_split (c # cs) =
     (case match_color (c # cs) of
        Some (code, rest) \<Rightarrow> (case color_split rest of (seg, coded) \<Rightarrow> ([], (code, seg) # coded))
      | None \<Rightarrow> (case color_split cs of (seg, coded) \<Rightarrow> (c # seg, coded)))"
  by pat_completeness auto
termination
  by (relation "measure length") (auto dest: match_color_shorter)

text \<open>
  The loop of \<open>_write\<close>: it looks for each code by its text among codes and segments alike, inserts what
  stands after it and removes it. The result is what has been inserted, and how the loop ends.
\<close>

fun insert_tagged :: "string list \<Rightarrow> string list \<Rightarrow> (string \<times> string) list \<times> unit res" where
  "insert_tagged [] segments = ([], Return ())"
| "insert_tagged (tag # tags) segments =
     (if tag \<notin> set segments then ([], Raise (ValueError ''not in list''))
      else
        (let i = index_of segments tag
         in case py_nth segments (int i + 1) of
              Inl e \<Rightarrow> ([], Raise e)
            | Inr seg \<Rightarrow>
                (case insert_tagged tags (take i segments @ drop (Suc i) segments) of
                   (more, m) \<Rightarrow> ((seg, tag) # more, m))))"

definition write_segments :: "string \<Rightarrow> (string \<times> string option) list \<times> unit res" where
  "write_segments text =
     (case color_split text of
        (seg, coded) \<Rightarrow>
          (case insert_tagged (map fst coded) (concat (map (\<lambda>(code, s). [code, s]) coded)) of
             (inserted, m) \<Rightarrow> ((seg, None) # map (\<lambda>(s, tag). (s, Some tag)) inserted, m)))"

section \<open>History\<close>

definition strip_newlines :: "string \<Rightarrow> string" where
  "strip_newlines s = rev (dropWhile (\<lambda>c. c = CHR 10) (rev (dropWhile (\<lambda>c. c = CHR 10) s)))"

text \<open>\<open>In[level]\<close>, where a negative level counts from the end.\<close>

definition get_history :: "string list \<Rightarrow> int \<Rightarrow> string" where
  "get_history entries level = (case py_nth entries level of Inl e \<Rightarrow> [] | Inr s \<Rightarrow> strip_newlines s)"

definition history_back :: "string list \<Rightarrow> int \<Rightarrow> int \<times> string" where
  "history_back entries level =
     (let l = level - 1; l = (if get_history entries l = [] then l + 1 else l) in (l, get_history entries l))"

definition history_forward :: "string list \<Rightarrow> int \<Rightarrow> int \<times> string" where
  "history_forward entries level =
     (let l = (if level < 0 then level + 1 else level) in (l, get_history entries l))"

section \<open>Completion\<close>

definition is_separator :: "char \<Rightarrow> bool" where
  "is_separator c \<longleftrightarrow> of_char c \<in> {9, 10, 11, 12, 13, 32 :: nat} \<or> c \<in> set ''{}[]()''"

text \<open>The last part of \<open>complete_sep.split(line)\<close>.\<close>

definition last_word :: "string \<Rightarrow> string" where
  "last_word line = rev (takeWhile (\<lambda>c. \<not> is_separator c) (rev line))"

fun shared_prefix :: "nat list \<Rightarrow> string \<Rightarrow> string \<Rightarrow> string" where
  "shared_prefix [] s t = s"
| "shared_prefix (i # is) s t =
     (if \<not> startswith t (take (i + 1) s) then take i s else shared_prefix is s t)"

definition common_prefix_of :: "string \<Rightarrow> string \<Rightarrow> string" where
  "common_prefix_of s t = shared_prefix [0..<length s] s t"

text \<open>\<open>complete\<close>: the completed line and the possibilities; \<open>matches\<close> is the second part of what IPython answers.\<close>

definition complete :: "(string \<Rightarrow> string list) \<Rightarrow> string \<Rightarrow> string \<times> string list" where
  "complete matches line =
     (let word = last_word line; possibilities = (if word \<noteq> [] then matches word else [])
      in if possibilities \<noteq> []
         then let p = foldl common_prefix_of (hd possibilities) (tl possibilities)
              in (take (length line - length word) line @ (if p \<noteq> [] then p else [last line]), possibilities)
         else (line, possibilities))"

section \<open>Keys before the line start\<close>

datatype key = HomeKey | LeftKey | ReturnKey | UpKey | DownKey | TabKey | LetterC | OtherKey

record key_press =
  keyval :: key
  control :: bool
  alternate :: bool
  shift :: bool
  key_string :: string

text \<open>
  \<open>onKeyPress\<close> up to the call of \<open>onKeyPressExtend\<close>: the new places of the cursor and of the other end of the
  selection, and whether the key has been handled. \<open>editable\<close> tells where the view can be edited.
\<close>

definition key_guard :: "(nat \<Rightarrow> bool) \<Rightarrow> key_press \<Rightarrow> nat \<Rightarrow> nat \<times> nat \<Rightarrow> (nat \<times> nat) \<times> bool" where
  "key_guard editable k start marks =
     (let (ins, sel) = marks
      in if keyval k = HomeKey then
           (if control k \<or> alternate k then (marks, False)
            else if shift k then ((start, sel), True)
            else ((start, start), True))
         else if keyval k = LeftKey then (marks, \<not> editable (ins - 1))
         else if key_string k = [] then (marks, False)
         else if start \<le> ins \<and> start \<le> sel then (marks, False)
         else if start > ins \<and> start > sel then ((start, start), False)
         else if ins < sel then ((start, sel), False)
         else if ins > sel then ((ins, start), False)
         else (marks, False))"

section \<open>The shell\<close>

datatype idle = Write string | ShowPrompt string | ChangeLine string | ShowReturned string

record ipython =
  accepts_more :: "string list \<Rightarrow> bool"
  run_cell :: "string list \<Rightarrow> string list \<Rightarrow> string list \<times> string"
  render :: "bool \<Rightarrow> string list \<Rightarrow> string"
  matches :: "string \<Rightarrow> string list"
  indent_spaces :: "string list \<Rightarrow> nat"
  autoindent :: bool

record shell =
  before_line :: string
  line_text :: string
  idle_queue :: "idle list"
  inputs :: "string list"
  pushed :: "string list"
  iter_more :: bool
  history_level :: int
  shell_prompt :: string
  interrupt :: bool
  rl_do_indent :: bool

definition generate_prompt :: "ipython \<Rightarrow> bool \<Rightarrow> shell \<Rightarrow> shell" where
  "generate_prompt ip continued s = s\<lparr>shell_prompt := render ip continued (inputs s)\<rparr>"

text \<open>\<open>execute\<close>: the state after it, and what has been printed. \<open>raw_input\<close> reads the current line or is interrupted.\<close>

definition execute :: "ipython \<Rightarrow> shell \<Rightarrow> shell \<times> string" where
  "execute ip s =
     (let s = generate_prompt ip (iter_more s) (s\<lparr>history_level := 0\<rparr>);
          s = (if iter_more s \<and> autoindent ip then s\<lparr>rl_do_indent := True\<rparr> else s)
      in if interrupt s
         then (s\<lparr>interrupt := False, pushed := []\<rparr>, [CHR 10] @ ''KeyboardInterrupt'' @ [CHR 10])
         else
           (let s = s\<lparr>pushed := pushed s @ [line_text s]\<rparr>;
                s = s\<lparr>iter_more := accepts_more ip (pushed s)\<rparr>;
                s = generate_prompt ip (iter_more s) s
            in if iter_more s then (s\<lparr>rl_do_indent := True\<rparr>, [])
               else case run_cell ip (pushed s) (inputs s) of
                      (ins, out) \<Rightarrow> (s\<lparr>pushed := [], inputs := ins, rl_do_indent := False\<rparr>, out)))"

definition idle_add :: "idle \<Rightarrow> shell \<Rightarrow> shell" where
  "idle_add call s = s\<lparr>idle_queue := idle_queue s @ [call]\<rparr>"

definition process_line :: "ipython \<Rightarrow> shell \<Rightarrow> shell" where
  "process_line ip s = (case execute ip s of (s, out) \<Rightarrow> idle_add (ShowReturned (strip_newlines out)) s)"

text \<open>\<open>onKeyPressExtend\<close>; other keys are left to the view.\<close>

definition key_extend :: "ipython \<Rightarrow> key_press \<Rightarrow> shell \<Rightarrow> shell" where
  "key_extend ip k s =
     (if control k \<and> keyval k = LetterC then process_line ip (s\<lparr>interrupt := True\<rparr>)
      else case keyval k of
        ReturnKey \<Rightarrow> process_line ip s
      | UpKey \<Rightarrow> (case history_back (inputs s) (history_level s) of
                   (l, text) \<Rightarrow> idle_add (ChangeLine text) (s\<lparr>history_level := l\<rparr>))
      | DownKey \<Rightarrow> (case history_forward (inputs s) (history_level s) of
                     (l, text) \<Rightarrow> idle_add (ChangeLine text) (s\<lparr>history_level := l\<rparr>))
      | TabKey \<Rightarrow>
          (if str_strip (line_text s) = [] then s
           else
             (let (completed, possibilities) = complete (matches ip) (line_text s);
                  s1 = (if length possibilities > 1
                        then idle_add (ShowPrompt (shell_prompt s))
                               (fold (\<lambda>symbol. idle_add (Write (symbol @ [CHR 10]))) possibilities
                                 (idle_add (Write [CHR 10]) s))
                        else s)
              in idle_add (ChangeLine (if completed \<noteq> [] then completed else line_text s)) s1))
      | _ \<Rightarrow> s)"

text \<open>The text that \<open>_write\<close> appends.\<close>

definition written :: "string \<Rightarrow> string" where
  "written text = concat (map fst (fst (write_segments text)))"

text \<open>What is left of a text after its part up to \<open>forward_to_line_end\<close> is deleted; at a line end it goes to the next.\<close>

definition after_line_end :: "string \<Rightarrow> string" where
  "after_line_end s = dropWhile (\<lambda>c. c \<noteq> CHR 10) (if s \<noteq> [] \<and> hd s = CHR 10 then tl s else s)"

definition show_prompt :: "string \<Rightarrow> shell \<Rightarrow> shell" where
  "show_prompt p s = s\<lparr>before_line := before_line s @ line_text s @ written p, line_text := []\<rparr>"

definition append_text :: "string \<Rightarrow> shell \<Rightarrow> shell" where
  "append_text text s = s\<lparr>line_text := line_text s @ written text\<rparr>"

fun run_idle :: "ipython \<Rightarrow> idle \<Rightarrow> shell \<Rightarrow> shell" where
  "run_idle ip (Write text) s = append_text text s"
| "run_idle ip (ShowPrompt p) s = show_prompt p s"
| "run_idle ip (ChangeLine text) s = append_text text (s\<lparr>line_text := after_line_end (line_text s)\<rparr>)"
| "run_idle ip (ShowReturned text) s =
     (let s = append_text (CHR 10 # text) s;
          s = (if text \<noteq> [] then append_text [CHR 10] s else s);
          s = show_prompt (shell_prompt s) s
      in if rl_do_indent s then s\<lparr>line_text := line_text s @ replicate (indent_spaces ip (pushed s)) CHR '' ''\<rparr> else s)"

text \<open>
  The events of the view: a key with the places of the cursor and the selection, an edit of the line
  by the view itself, and the main loop running the oldest call of the queue.
\<close>

datatype shell_event = Press key_press "nat \<times> nat" | Edited string | Idle

fun shell_step :: "ipython \<Rightarrow> (nat \<Rightarrow> bool) \<Rightarrow> shell_event \<Rightarrow> shell \<Rightarrow> shell" where
  "shell_step ip editable (Press k marks) s =
     (if snd (key_guard editable k (length (before_line s)) marks) then s else key_extend ip k s)"
| "shell_step ip editable (Edited text) s = s\<lparr>line_text := text\<rparr>"
| "shell_step ip editable Idle s =
     (case idle_queue s of [] \<Rightarrow> s | call # calls \<Rightarrow> run_idle ip call (s\<lparr>idle_queue := calls\<rparr>))"

definition new_shell :: "ipython \<Rightarrow> shell" where
  "new_shell ip =
     (let s = fst (execute ip
                \<lparr>before_line = [], line_text = [], idle_queue = [], inputs = [[]], pushed = [], iter_more = False,
                 history_level = 0, shell_prompt = [], interrupt = False, rl_do_indent = False\<rparr>);
          s = generate_prompt ip False s
      in idle_add (ShowPrompt (shell_prompt s)) s)"

section \<open>What is written\<close>

lemma without_index_of: "x \<in> set xs \<Longrightarrow> take (index_of xs x) xs @ drop (Suc (index_of xs x)) xs = remove1 x xs"
  by (induction xs) auto

lemma index_of_in_front: "x \<in> set xs \<Longrightarrow> index_of (xs @ ys) x = index_of xs x"
  by (induction xs) auto

lemma insert_tagged_returns:
  "mset tags \<subseteq># mset xs \<Longrightarrow> snd (insert_tagged tags (xs @ [z])) = Return ()"
proof (induction tags arbitrary: xs)
  case (Cons tag tags)
  then have t: "tag \<in> set xs" by (metis mset_subset_eqD set_mset_mset list.set_intros(1))
  define i where "i = index_of xs tag"
  have i: "i < length xs" using t by (simp add: i_def index_of_less)
  have "py_nth (xs @ [z]) (int (i + 1)) = Return ((xs @ [z]) ! (i + 1))"
    by (rule py_nth_of_nat) (use i in simp)
  moreover have "take i (xs @ [z]) @ drop (Suc i) (xs @ [z]) = remove1 tag xs @ [z]"
    using i without_index_of [OF t] by (simp add: i_def)
  moreover have "mset tags \<subseteq># mset (remove1 tag xs)"
    using Cons.prems t by (simp add: insert_subset_eq_iff)
  ultimately show ?case
    using Cons.IH [of "remove1 tag xs"] t
    by (auto simp: index_of_in_front i_def [symmetric] ac_simps case_prod_unfold)
qed simp

lemma write_segments_returns: "snd (write_segments text) = Return ()"
proof -
  obtain seg coded where c: "color_split text = (seg, coded)" by fastforce
  define segments where "segments = concat (map (\<lambda>(code, s). [code, s]) coded)"
  have m: "mset segments = mset (map fst coded) + mset (map snd coded)"
    unfolding segments_def by (induction coded) auto
  have "snd (insert_tagged (map fst coded) segments) = Return ()"
  proof (cases coded rule: rev_cases)
    case Nil
    then show ?thesis by simp
  next
    case (snoc more last)
    then have s: "segments = (concat (map (\<lambda>(code, s). [code, s]) more) @ [fst last]) @ [snd last]"
      by (simp add: segments_def case_prod_unfold)
    have "mset (map fst coded) \<subseteq># mset (concat (map (\<lambda>(code, s). [code, s]) more) @ [fst last])"
      using m unfolding s by (simp add: snoc)
    then show ?thesis unfolding s by (rule insert_tagged_returns)
  qed
  then show ?thesis by (simp add: write_segments_def c segments_def case_prod_unfold)
qed

text \<open>No text is found in the place of a later code.\<close>

fun unconfused :: "(string \<times> string) list \<Rightarrow> bool" where
  "unconfused [] \<longleftrightarrow> True"
| "unconfused ((code, s) # coded) \<longleftrightarrow> s \<notin> set (map fst coded) \<and> unconfused coded"

lemma insert_tagged_unconfused:
  "unconfused coded \<Longrightarrow> set (map fst coded) \<inter> set ds = {} \<Longrightarrow>
    insert_tagged (map fst coded) (ds @ concat (map (\<lambda>(code, s). [code, s]) coded)) =
      (map (\<lambda>(code, s). (s, code)) coded, Return ())"
proof (induction coded arbitrary: ds rule: unconfused.induct)
  case (2 code s coded)
  let ?rest = "concat (map (\<lambda>(code, s). [code, s]) coded)"
  have i: "index_of (ds @ code # s # ?rest) code = length ds"
    by (rule index_of_after) (use 2(3) in simp)
  have "py_nth (ds @ code # s # ?rest) (int (length ds + 1)) = Return s"
    by (subst py_nth_of_nat) (auto simp: nth_append)
  then have n: "py_nth (ds @ code # s # ?rest) (1 + int (length ds)) = Return s" by (simp add: ac_simps)
  have "insert_tagged (map fst coded) ((ds @ [s]) @ ?rest) = (map (\<lambda>(code, s). (s, code)) coded, Return ())"
    by (rule 2(1)) (use 2(2,3) in auto)
  then show ?case by (simp add: i n ac_simps)
qed simp

text \<open>A text that a terminal colors: a segment, and codes each with the segment after it.\<close>

fun colored_text :: "string \<Rightarrow> (string \<times> string) list \<Rightarrow> string" where
  "colored_text seg [] = seg"
| "colored_text seg ((code, s) # coded) = seg @ [CHR 0x1B, CHR ''[''] @ code @ CHR ''m'' # colored_text s coded"

definition plain_segment :: "string \<Rightarrow> bool" where
  "plain_segment s \<longleftrightarrow> list_all (\<lambda>c. c \<notin> {CHR 0x1B, CHR 0x01, CHR 0x02}) s"

definition color_code :: "string \<Rightarrow> bool" where
  "color_code code \<longleftrightarrow> list_all (\<lambda>c. c \<noteq> CHR ''m'' \<and> c \<noteq> CHR 10) code"

lemma colored_text_start: "plain_segment seg \<Longrightarrow> colored_text seg coded = [] \<or> hd (colored_text seg coded) \<noteq> CHR 0x02"
  by (cases coded; cases seg) (auto simp: plain_segment_def)

lemma color_split_plain:
  "plain_segment seg \<Longrightarrow> color_split t = (u, coded) \<Longrightarrow> color_split (seg @ t) = (seg @ u, coded)"
proof (induction seg)
  case (Cons c cs)
  then have "match_color (c # cs @ t) = None"
    by (auto simp: match_color_def plain_segment_def split: list.splits)
  with Cons show ?case by (simp add: plain_segment_def)
qed simp

lemma match_color_code:
  assumes "color_code code" and "t = [] \<or> hd t \<noteq> CHR 0x02"
  shows "match_color ([CHR 0x1B, CHR ''[''] @ code @ CHR ''m'' # t) = Some (code, t)"
proof -
  have c: "\<forall>x \<in> set code. x \<noteq> CHR ''m'' \<and> x \<noteq> CHR 10" using assms(1) by (simp add: color_code_def list_all_iff)
  have "takeWhile (\<lambda>c. c \<noteq> CHR ''m'' \<and> c \<noteq> CHR 10) (code @ CHR ''m'' # t) = code"
    using c by (simp add: takeWhile_append2)
  moreover have "dropWhile (\<lambda>c. c \<noteq> CHR ''m'' \<and> c \<noteq> CHR 10) (code @ CHR ''m'' # t) = CHR ''m'' # t"
    using c by (simp add: dropWhile_append2)
  ultimately show ?thesis using assms(2) by (auto simp: match_color_def)
qed

lemma color_split_colored:
  "plain_segment seg \<Longrightarrow> list_all (\<lambda>(code, s). color_code code \<and> plain_segment s) coded \<Longrightarrow>
    color_split (colored_text seg coded) = (seg, coded)"
proof (induction coded arbitrary: seg)
  case Nil
  then show ?case using color_split_plain [of seg "[]"] by simp
next
  case (Cons cs coded)
  obtain code s where cs: "cs = (code, s)" by (cases cs)
  with Cons.prems have ok: "color_code code" "plain_segment s" by auto
  have "match_color ([CHR 0x1B, CHR ''[''] @ code @ CHR ''m'' # colored_text s coded) = Some (code, colored_text s coded)"
    by (rule match_color_code [OF ok(1) colored_text_start [OF ok(2)]])
  then have "color_split ([CHR 0x1B, CHR ''[''] @ code @ CHR ''m'' # colored_text s coded) = ([], (code, s) # coded)"
    using Cons ok by (simp add: cs)
  from color_split_plain [OF Cons.prems(1) this] show ?case by (simp add: cs)
qed

text \<open>Writing never fails. A colored text is written with each segment under its own color, when no
  segment is the text of a later code; else a segment may be lost and another one written twice.\<close>

theorem write_segments_correct:
  assumes "plain_segment seg" and "list_all (\<lambda>(code, s). color_code code \<and> plain_segment s) coded" and "unconfused coded"
  shows "snd (write_segments text) = Return () \<and>
    write_segments (colored_text seg coded) = ((seg, None) # map (\<lambda>(code, s). (s, Some code)) coded, Return ()) \<and>
    write_segments (colored_text [] [(''1'', ''0''), (''0'', ''x'')]) =
      ([([], None), (''0'', Some ''1''), (''0'', Some ''0'')], Return ())"
proof -
  have "write_segments (colored_text seg coded) = ((seg, None) # map (\<lambda>(code, s). (s, Some code)) coded, Return ())"
    using insert_tagged_unconfused [OF assms(3), of "[]"]
    by (simp add: write_segments_def color_split_colored [OF assms(1,2)] case_prod_unfold)
  moreover have "write_segments (colored_text [] [(''1'', ''0''), (''0'', ''x'')]) =
      ([([], None), (''0'', Some ''1''), (''0'', Some ''0'')], Return ())" by code_simp
  ultimately show ?thesis by (simp add: write_segments_returns)
qed

theorem write_segments_correct_witness:
  "write_segments (colored_text ''In '' [(''0;32'', ''[1]''), (''0'', '': '')]) =
    ([(''In '', None), (''[1]'', Some ''0;32''), ('': '', Some ''0'')], Return ())"
proof -
  have "plain_segment ''In ''" by code_simp
  moreover have "list_all (\<lambda>(code, s). color_code code \<and> plain_segment s) [(''0;32'', ''[1]''), (''0'', '': '')]" by code_simp
  moreover have "unconfused [(''0;32'', ''[1]''), (''0'', '': '')]" by code_simp
  ultimately show ?thesis using write_segments_correct [THEN conjunct2, THEN conjunct1] by fastforce
qed

section \<open>History\<close>

text \<open>How far one can go back: to the last entry before an empty one.\<close>

definition depth :: "string list \<Rightarrow> nat" where
  "depth entries = length (takeWhile (\<lambda>e. strip_newlines e \<noteq> []) (rev entries))"

definition move :: "nat \<Rightarrow> bool \<Rightarrow> nat \<Rightarrow> nat" where
  "move n up p = (if up then min (p + 1) n else p - 1)"

definition entry :: "string list \<Rightarrow> nat \<Rightarrow> string" where
  "entry entries p = (if p = 0 then get_history entries 0 else strip_newlines (rev entries ! (p - 1)))"

lemma depth_le: "depth entries \<le> length entries"
  unfolding depth_def by (metis length_rev length_takeWhile_le)

lemma get_history_entry: "p \<le> length entries \<Longrightarrow> get_history entries (- int p) = entry entries p"
  by (auto simp: get_history_def entry_def py_nth_def rev_nth nat_diff_distrib' Let_def split: if_splits)

lemma entry_within: "0 < p \<Longrightarrow> p \<le> depth entries \<Longrightarrow> entry entries p \<noteq> []"
proof -
  assume p: "0 < p" "p \<le> depth entries"
  then have "p - 1 < length (takeWhile (\<lambda>e. strip_newlines e \<noteq> []) (rev entries))" by (simp add: depth_def)
  then show ?thesis
    using p(1) set_takeWhileD [OF nth_mem, of "p - 1" "\<lambda>e. strip_newlines e \<noteq> []" "rev entries"]
    by (simp add: entry_def takeWhile_nth)
qed

lemma entry_beyond: "get_history entries (- int (Suc (depth entries))) = []"
proof (cases "depth entries = length entries")
  case True
  then show ?thesis by (simp add: get_history_def py_nth_def Let_def)
next
  case False
  then have "depth entries < length (rev entries)" using depth_le [of entries] by simp
  then have "strip_newlines (rev entries ! depth entries) = []"
    unfolding depth_def using nth_length_takeWhile by blast
  moreover have "get_history entries (- int (Suc (depth entries))) = entry entries (Suc (depth entries))"
    by (rule get_history_entry) (use False depth_le [of entries] in simp)
  ultimately show ?thesis by (simp add: entry_def)
qed

lemma level_back: "- int p - 1 = - int (Suc p)" by simp

lemma history_back_move:
  assumes "p \<le> depth entries"
  shows "history_back entries (- int p) = (- int (move (depth entries) True p), entry entries (move (depth entries) True p))"
proof (cases "p = depth entries")
  case True
  with depth_le [of entries] show ?thesis
    using entry_beyond [of entries] get_history_entry [of p entries]
    by (simp only: history_back_def level_back) (simp add: move_def Let_def)
next
  case False
  with assms have p: "Suc p \<le> depth entries" by simp
  with depth_le [of entries] have "get_history entries (- int (Suc p)) = entry entries (Suc p)"
    by (intro get_history_entry) simp
  with p entry_within [of "Suc p" entries] show ?thesis
    by (simp only: history_back_def level_back) (simp add: move_def Let_def)
qed

lemma history_forward_move:
  assumes "p \<le> depth entries"
  shows "history_forward entries (- int p) = (- int (move (depth entries) False p), entry entries (move (depth entries) False p))"
proof (cases p)
  case 0
  then show ?thesis using get_history_entry [of 0 entries] by (simp add: history_forward_def move_def)
next
  case (Suc q)
  with assms depth_le [of entries] have "get_history entries (- int q) = entry entries q"
    by (intro get_history_entry) simp
  with Suc show ?thesis by (simp add: history_forward_def move_def)
qed

text \<open>An entry that the line shows as it is: one line without color codes.\<close>

definition simple_text :: "string \<Rightarrow> bool" where
  "simple_text s \<longleftrightarrow> plain_segment s \<and> CHR 10 \<notin> set s"

lemma written_plain: "plain_segment s \<Longrightarrow> written s = s"
  using color_split_colored [of s "[]"] by (simp add: written_def write_segments_def)

lemma after_line_end_single: "CHR 10 \<notin> set s \<Longrightarrow> after_line_end s = []"
  by (cases s) (auto simp: after_line_end_def)

lemma simple_entries:
  assumes "list_all simple_text (map strip_newlines entries)" and "p \<le> length entries"
  shows "simple_text (entry entries p)"
proof (cases "p = 0")
  case True
  show ?thesis
    using assms(1) by (cases entries)
      (auto simp: True entry_def get_history_def py_nth_def simple_text_def plain_segment_def)
next
  case False
  with assms(2) have "rev entries ! (p - 1) \<in> set entries" by (metis One_nat_def Suc_le_eq Suc_pred length_rev neq0_conv nth_mem set_rev)
  with False assms(1) show ?thesis by (simp add: entry_def list_all_iff)
qed

definition arrow_key :: "bool \<Rightarrow> key_press" where
  "arrow_key up = \<lparr>keyval = (if up then UpKey else DownKey), control = False, alternate = False, shift = False, key_string = []\<rparr>"

lemma press_arrow:
  assumes "history_level s = - int p" and "p \<le> depth (inputs s)"
  shows "shell_step ip editable (Press (arrow_key up) marks) s =
    (let q = move (depth (inputs s)) up p
     in s\<lparr>history_level := - int q, idle_queue := idle_queue s @ [ChangeLine (entry (inputs s) q)]\<rparr>)"
  using history_back_move [OF assms(2)] history_forward_move [OF assms(2)]
  by (cases marks; cases up)
    (simp_all add: arrow_key_def key_guard_def key_extend_def idle_add_def assms(1) Let_def)

fun positions :: "nat \<Rightarrow> bool list \<Rightarrow> nat \<Rightarrow> nat list" where
  "positions n [] p = []"
| "positions n (up # ups) p = move n up p # positions n ups (move n up p)"

lemma length_positions [simp]: "length (positions n ups p) = length ups"
  by (induction ups arbitrary: p) auto

lemma last_positions: "last (p # positions n ups p) = fold (move n) ups p"
  by (induction ups arbitrary: p) auto

lemma move_le: "p \<le> n \<Longrightarrow> move n up p \<le> n"
  by (auto simp: move_def)

lemma positions_le: "p \<le> n \<Longrightarrow> q \<in> set (positions n ups p) \<Longrightarrow> q \<le> n"
  by (induction ups arbitrary: p) (auto simp: move_le, metis move_le)

lemma press_arrows:
  "history_level s = - int p \<Longrightarrow> p \<le> depth (inputs s) \<Longrightarrow>
    fold (shell_step ip editable) (map (\<lambda>up. Press (arrow_key up) marks) ups) s =
      s\<lparr>history_level := - int (fold (move (depth (inputs s))) ups p),
        idle_queue := idle_queue s @ map (\<lambda>q. ChangeLine (entry (inputs s) q)) (positions (depth (inputs s)) ups p)\<rparr>"
proof (induction ups arbitrary: s p)
  case (Cons up ups)
  define q where "q = move (depth (inputs s)) up p"
  define t where "t = s\<lparr>history_level := - int q, idle_queue := idle_queue s @ [ChangeLine (entry (inputs s) q)]\<rparr>"
  have "fold (shell_step ip editable) (map (\<lambda>up. Press (arrow_key up) marks) ups) t =
      t\<lparr>history_level := - int (fold (move (depth (inputs t))) ups q),
        idle_queue := idle_queue t @ map (\<lambda>q. ChangeLine (entry (inputs t) q)) (positions (depth (inputs t)) ups q)\<rparr>"
    by (rule Cons.IH) (use Cons.prems move_le in \<open>auto simp: t_def q_def\<close>)
  then show ?case
    using press_arrow [OF Cons.prems] by (simp add: t_def q_def Let_def)
qed simp

lemma run_changes:
  "idle_queue s = map ChangeLine texts \<Longrightarrow> list_all simple_text texts \<Longrightarrow> CHR 10 \<notin> set (line_text s) \<Longrightarrow>
    fold (shell_step ip editable) (replicate (length texts) Idle) s =
      s\<lparr>line_text := last (line_text s # texts), idle_queue := []\<rparr>"
proof (induction texts arbitrary: s)
  case (Cons t texts)
  define u where "u = s\<lparr>line_text := t, idle_queue := map ChangeLine texts\<rparr>"
  have "shell_step ip editable Idle s = u"
    using Cons.prems by (simp add: u_def append_text_def after_line_end_single written_plain simple_text_def)
  moreover have "fold (shell_step ip editable) (replicate (length texts) Idle) u =
      u\<lparr>line_text := last (line_text u # texts), idle_queue := []\<rparr>"
    by (rule Cons.IH) (use Cons.prems in \<open>auto simp: u_def simple_text_def\<close>)
  ultimately show ?case by (auto simp: u_def)
qed simp

text \<open>The arrow keys walk through the history, also before the main loop has shown where they are: going
  back stops before an empty entry or at the oldest, going forward at the first, and the line then shows
  the entry of the place reached; no other part of the shell changes.\<close>

theorem history_keys_correct:
  assumes "idle_queue s = []" and "history_level s = 0" and "CHR 10 \<notin> set (line_text s)"
    and "list_all simple_text (map strip_newlines (inputs s))"
  shows "(let n = depth (inputs s); p = fold (\<lambda>up p. if up then min (p + 1) n else p - 1) ups 0
    in fold (shell_step ip editable) (map (\<lambda>up. Press (arrow_key up) marks) ups @ replicate (length ups) Idle) s =
      s\<lparr>history_level := - int p,
        line_text := (if ups = [] then line_text s
          else if p = 0 then get_history (inputs s) 0 else strip_newlines (rev (inputs s) ! (p - 1)))\<rparr>)"
proof -
  define n where "n = depth (inputs s)"
  define texts where "texts = map (entry (inputs s)) (positions n ups 0)"
  define t where "t = s\<lparr>history_level := - int (fold (move n) ups 0), idle_queue := map ChangeLine texts\<rparr>"
  have "fold (shell_step ip editable) (map (\<lambda>up. Press (arrow_key up) marks) ups) s = t"
    using press_arrows [of s 0] assms by (simp add: t_def texts_def n_def)
  moreover have "fold (shell_step ip editable) (replicate (length texts) Idle) t =
      t\<lparr>line_text := last (line_text t # texts), idle_queue := []\<rparr>"
  proof (rule run_changes)
    have "q \<le> length (inputs s)" if "q \<in> set (positions n ups 0)" for q
      using positions_le [OF _ that] depth_le [of "inputs s"] by (simp add: n_def)
    then show "list_all simple_text texts"
      using simple_entries [OF assms(4)] by (simp add: texts_def list_all_iff)
  qed (use assms(3) in \<open>simp_all add: t_def\<close>)
  moreover have "last (line_text s # texts) = (if ups = [] then line_text s else entry (inputs s) (fold (move n) ups 0))"
    using last_positions [of 0 n ups] by (cases ups) (auto simp: texts_def last_map)
  moreover have "move n = (\<lambda>up p. if up then min (p + 1) n else p - 1)" by (auto simp: move_def fun_eq_iff)
  ultimately show ?thesis
    using assms(1) by (simp add: n_def [symmetric] t_def texts_def entry_def Let_def)
qed

text \<open>Back twice from the empty line after two inputs; the empty first entry is not reached.\<close>

definition sample_ipython :: ipython where
  "sample_ipython =
     \<lparr>accepts_more = (\<lambda>ls. False), run_cell = (\<lambda>ls ins. (ins @ ls, [])), render = (\<lambda>more ins. ''> ''),
      matches = (\<lambda>w. [w @ ''1'', w @ ''2'']), indent_spaces = (\<lambda>ls. 0), autoindent = False\<rparr>"

definition sample_shell :: shell where
  "sample_shell =
     \<lparr>before_line = ''> '', line_text = [], idle_queue = [], inputs = [[], ''a'', ''b''], pushed = [], iter_more = False,
      history_level = 0, shell_prompt = ''> '', interrupt = False, rl_do_indent = False\<rparr>"

theorem history_keys_correct_witness:
  "line_text (fold (shell_step sample_ipython (\<lambda>i. True))
     (map (\<lambda>up. Press (arrow_key up) (2, 2)) [True, True, True, False] @ replicate (length [True, True, True, False]) Idle)
     sample_shell) = ''b''"
proof -
  define ups where "ups = [True, True, True, False]"
  have ok: "idle_queue sample_shell = []" "history_level sample_shell = 0" "CHR 10 \<notin> set (line_text sample_shell)"
    "list_all simple_text (map strip_newlines (inputs sample_shell))" by code_simp+
  have d: "depth (inputs sample_shell) = 2" "strip_newlines (rev (inputs sample_shell) ! 0) = ''b''" by code_simp+
  have p: "fold (\<lambda>up p. if up then min (p + 1) 2 else p - 1) ups (0 :: nat) = 1" by (simp add: ups_def)
  show ?thesis
    using history_keys_correct [OF ok, of ups sample_ipython "\<lambda>i. True" "(2, 2)"] d(2)
    unfolding d(1) p Let_def ups_def by simp
qed

section \<open>What completion does\<close>

lemma shared_prefix_from:
  "i \<le> length s \<Longrightarrow> prefix (take i s) t \<Longrightarrow>
    shared_prefix [i..<length s] s t = longest_common_prefix s t"
proof (induction "length s - i" arbitrary: i)
  case 0
  then have "prefix s t" by simp
  with 0 show ?case by (simp add: longest_common_prefix_max_prefix longest_common_prefix_prefix1 prefix_order.antisym)
next
  case (Suc n)
  then have i: "i < length s" by simp
  show ?case
  proof (cases "prefix (take (i + 1) s) t")
    case True
    with Suc.hyps(1) [of "i + 1"] Suc.hyps(2) i show ?thesis by (simp add: upt_conv_Cons)
  next
    case False
    define l where "l = longest_common_prefix s t"
    have l: "prefix l s" "prefix l t" "prefix (take i s) l"
      using Suc.prems by (auto simp: l_def longest_common_prefix_prefix1 longest_common_prefix_prefix2 take_is_prefix
          intro: longest_common_prefix_max_prefix)
    then have take: "l = take (length l) s" by (metis append_eq_conv_conj prefix_def)
    have "length l \<le> i"
    proof (rule ccontr)
      assume "\<not> length l \<le> i"
      then have "prefix (take (i + 1) s) l" using take by (metis Suc_eq_plus1 not_less_eq_eq not_less take_is_prefix take_take min.absorb1 less_imp_le)
      with l(2) False show False using prefix_order.trans by blast
    qed
    moreover have "i \<le> length l" using prefix_length_le [OF l(3)] i by simp
    ultimately have "take i s = l" using take by simp
    with False i show ?thesis by (simp add: upt_conv_Cons l_def)
  qed
qed

lemma prefix_common_prefix_of: "prefix p (common_prefix_of s t) \<longleftrightarrow> prefix p s \<and> prefix p t"
proof -
  have "common_prefix_of s t = longest_common_prefix s t"
    unfolding common_prefix_of_def by (rule shared_prefix_from) simp_all
  then show ?thesis
    by (metis longest_common_prefix_max_prefix longest_common_prefix_prefix1 longest_common_prefix_prefix2 prefix_order.trans)
qed

lemma prefix_fold_common: "prefix p (foldl common_prefix_of s ts) \<longleftrightarrow> prefix p s \<and> list_all (prefix p) ts"
  by (induction ts arbitrary: s) (auto simp: prefix_common_prefix_of)

lemma last_word_split:
  "line = take (length line - length (last_word line)) line @ last_word line"
  "list_all (\<lambda>c. \<not> is_separator c) (last_word line)"
  "take (length line - length (last_word line)) line = [] \<or>
    is_separator (last (take (length line - length (last_word line)) line))"
proof -
  define w where "w = takeWhile (\<lambda>c. \<not> is_separator c) (rev line)"
  define r where "r = dropWhile (\<lambda>c. \<not> is_separator c) (rev line)"
  have "rev line = w @ r" by (simp add: w_def r_def)
  then have line: "line = rev r @ rev w" by (metis rev_append rev_rev_ident)
  have "length (last_word line) = length w" by (simp add: last_word_def w_def)
  then have t: "take (length line - length (last_word line)) line = rev r" unfolding line by simp
  show "line = take (length line - length (last_word line)) line @ last_word line"
    unfolding t by (simp add: last_word_def w_def [symmetric] line [symmetric])
  show "list_all (\<lambda>c. \<not> is_separator c) (last_word line)"
    by (auto simp: last_word_def list_all_iff dest: set_takeWhileD)
  show "take (length line - length (last_word line)) line = [] \<or>
    is_separator (last (take (length line - length (last_word line)) line))"
    unfolding t using hd_dropWhile [of "\<lambda>c. \<not> is_separator c" "rev line", folded r_def]
    by (cases "r = []") (simp_all add: last_rev)
qed

text \<open>Completion replaces the last word of the line, what follows its last blank or bracket, by the longest
  common prefix of what IPython offers for it, and so extends the line when every offer extends the word;
  offers with nothing in common put the last character alone in the place of the word. With nothing
  offered the line stays.\<close>

theorem complete_correct:
  "(case complete offers line of (completed, possibilities) \<Rightarrow>
    \<exists>start word. line = start @ word \<and> list_all (\<lambda>c. \<not> is_separator c) word \<and>
      (start = [] \<or> is_separator (last start)) \<and>
      possibilities = (if word = [] then [] else offers word) \<and>
      (if possibilities = [] then completed = line
       else \<exists>q. (\<forall>p. prefix p q = list_all (prefix p) possibilities) \<and>
              completed = start @ (if q = [] then [last word] else q) \<and>
              (if list_all (prefix word) possibilities then prefix line completed else True)))"
proof -
  define word where "word = last_word line"
  define start where "start = take (length line - length word) line"
  define ps where "ps = (if word = [] then [] else offers word)"
  note w = last_word_split [of line, folded word_def, folded start_def]
  show ?thesis
  proof (cases "ps = []")
    case True
    then have c: "complete offers line = (line, ps)" by (auto simp: complete_def word_def ps_def Let_def)
    have "ps = (if word = [] then [] else offers word)" by (simp add: ps_def)
    with w True show ?thesis unfolding c prod.case
      by (intro exI [of _ start] exI [of _ word]) (simp only: if_True simp_thms)
  next
    case False
    define q where "q = foldl common_prefix_of (hd ps) (tl ps)"
    have q: "prefix p q = list_all (prefix p) ps" for p
      using False by (cases ps) (simp_all add: q_def prefix_fold_common)
    from False have "word \<noteq> []" by (auto simp: ps_def)
    then have l: "last line = last word" by (subst w(1)) simp
    have c: "complete offers line = (start @ (if q = [] then [last word] else q), ps)"
      using False \<open>word \<noteq> []\<close> by (auto simp: complete_def word_def [symmetric] start_def ps_def q_def l Let_def)
    have "prefix line (start @ (if q = [] then [last word] else q))" if "list_all (prefix word) ps"
    proof -
      from q [of word] that have "prefix word q" by simp
      with \<open>word \<noteq> []\<close> have "prefix (start @ word) (start @ q)" "q \<noteq> []" by auto
      with w(1) show ?thesis by simp
    qed
    with q have q_ok: "\<exists>q'. (\<forall>p. prefix p q' = list_all (prefix p) ps) \<and>
        start @ (if q = [] then [last word] else q) = start @ (if q' = [] then [last word] else q') \<and>
        (if list_all (prefix word) ps then prefix line (start @ (if q = [] then [last word] else q)) else True)"
      by (intro exI [of _ q]) simp
    have "ps = (if word = [] then [] else offers word)" by (simp add: ps_def)
    with w False q_ok show ?thesis unfolding c prod.case
      by (intro exI [of _ start] exI [of _ word]) (simp only: if_False simp_thms)
  qed
qed

section \<open>Where keys change the text\<close>

text \<open>A key that types something leaves the cursor and the selection where they are when they are in the line
  and moves the ends that are before it to its start, so that only the line can change; Home goes to
  the start of the line; a key before the line is refused only to the left of what can be edited.\<close>

theorem key_guard_correct:
  "(case key_guard editable k start (ins, sel) of ((ins', sel'), handled) \<Rightarrow>
     (if keyval k = HomeKey \<and> (control k \<or> alternate k) then (ins', sel', handled) = (ins, sel, False)
      else if keyval k = HomeKey then ins' = start \<and> sel' = (if shift k then sel else start) \<and> handled
      else if keyval k = LeftKey then (ins', sel') = (ins, sel) \<and> handled = (\<not> editable (ins - 1))
      else if key_string k = [] then (ins', sel', handled) = (ins, sel, False)
      else ins' = max start ins \<and> sel' = max start sel \<and> \<not> handled))"
  by (auto simp: key_guard_def max_def Let_def)

section \<open>Lines that are run\<close>

text \<open>
  A console that reads one line at a time, with the lines that wait for more, the inputs and the text on
  the screen. As in the shell the prompt is made before the cell is run.
\<close>

definition console_line :: "ipython \<Rightarrow> string \<Rightarrow> string list \<times> string list \<times> string \<Rightarrow> string list \<times> string list \<times> string" where
  "console_line ip line console =
     (let (ls, ins, screen) = console; ls = ls @ [line]
      in if accepts_more ip ls then (ls, ins, screen @ line @ [CHR 10] @ written (render ip True ins))
         else case run_cell ip ls ins of
                (ins', out) \<Rightarrow>
                  ([], ins', screen @ line @ written (CHR 10 # strip_newlines out) @
                     (if strip_newlines out = [] then [] else [CHR 10]) @ written (render ip False ins)))"

text \<open>The console after the empty line that the shell runs when it is made; its output is not shown.\<close>

definition new_console :: "ipython \<Rightarrow> string list \<times> string list \<times> string" where
  "new_console ip =
     (case console_line ip [] ([], [[]], []) of (ls, ins, _) \<Rightarrow> (ls, ins, written (render ip False ins)))"

definition console_of :: "shell \<Rightarrow> string list \<times> string list \<times> string" where
  "console_of s = (pushed s, inputs s, before_line s)"

definition return_key :: key_press where
  "return_key = \<lparr>keyval = ReturnKey, control = False, alternate = False, shift = False, key_string = [CHR 13]\<rparr>"

definition idle_shell :: "shell \<Rightarrow> bool" where
  "idle_shell s \<longleftrightarrow> idle_queue s = [] \<and> \<not> interrupt s"

lemma press_return:
  "shell_step ip editable (Press return_key marks) s = process_line ip s"
  by (cases marks) (simp add: return_key_def key_guard_def key_extend_def Let_def)

lemma written_newline: "written [CHR 10] = [CHR 10]"
  by (rule written_plain) (simp add: plain_segment_def)

lemma execute_more:
  assumes "\<not> interrupt s" and "accepts_more ip (pushed s @ [line_text s])"
  shows "execute ip s =
    (s\<lparr>pushed := pushed s @ [line_text s], iter_more := True, history_level := 0,
       shell_prompt := render ip True (inputs s), rl_do_indent := True\<rparr>, [])"
  using assms by (cases "iter_more s \<and> autoindent ip") (simp_all add: execute_def generate_prompt_def Let_def)

lemma execute_cell:
  assumes "\<not> interrupt s" and "\<not> accepts_more ip (pushed s @ [line_text s])"
    and "run_cell ip (pushed s @ [line_text s]) (inputs s) = (ins, out)"
  shows "execute ip s =
    (s\<lparr>pushed := [], iter_more := False, history_level := 0, inputs := ins,
       shell_prompt := render ip False (inputs s), rl_do_indent := False\<rparr>, out)"
  using assms by (cases "iter_more s \<and> autoindent ip") (simp_all add: execute_def generate_prompt_def Let_def)

lemma execute_console:
  assumes i: "\<not> interrupt s" and x: "execute ip s = (t, out)"
  shows "\<not> interrupt t \<and> idle_queue t = idle_queue s \<and> before_line t = before_line s \<and> line_text t = line_text s \<and>
    (pushed t, inputs t, before_line s @ line_text s @ written (CHR 10 # strip_newlines out) @
       (if strip_newlines out = [] then [] else [CHR 10]) @ written (shell_prompt t)) =
    console_line ip (line_text s) (console_of s)"
proof (cases "accepts_more ip (pushed s @ [line_text s])")
  case True
  have "strip_newlines [] = []" by (simp add: strip_newlines_def)
  with x execute_more [OF i True] i True show ?thesis
    by (auto simp: console_line_def console_of_def written_newline)
next
  case False
  obtain ins o' where r: "run_cell ip (pushed s @ [line_text s]) (inputs s) = (ins, o')" by fastforce
  with x execute_cell [OF i False r] i False show ?thesis
    by (auto simp: console_line_def console_of_def)
qed

lemma shown_console:
  "before_line (run_idle ip (ShowReturned text) s) =
     before_line s @ line_text s @ written (CHR 10 # text) @ (if text = [] then [] else [CHR 10]) @ written (shell_prompt s)"
  "pushed (run_idle ip (ShowReturned text) s) = pushed s"
  "inputs (run_idle ip (ShowReturned text) s) = inputs s"
  "idle_queue (run_idle ip (ShowReturned text) s) = idle_queue s"
  "interrupt (run_idle ip (ShowReturned text) s) = interrupt s"
  by (simp_all add: append_text_def show_prompt_def written_newline Let_def)

lemma one_line:
  fixes ip editable line marks
  assumes "idle_shell s"
  defines "t \<equiv> fold (shell_step ip editable) [Edited line, Press return_key marks, Idle] s"
  shows "idle_shell t \<and> console_of t = console_line ip line (console_of s)"
proof -
  define e where "e = s\<lparr>line_text := line\<rparr>"
  obtain u out where x: "execute ip e = (u, out)" by fastforce
  from assms(1) have "\<not> interrupt e" "idle_queue e = []" by (simp_all add: e_def idle_shell_def)
  with execute_console [OF _ x] have u: "\<not> interrupt u" "idle_queue u = []" "before_line u = before_line e" "line_text u = line"
    "(pushed u, inputs u, before_line e @ line @ written (CHR 10 # strip_newlines out) @
       (if strip_newlines out = [] then [] else [CHR 10]) @ written (shell_prompt u)) = console_line ip line (console_of e)"
    by (simp_all add: e_def)
  have p: "process_line ip e = idle_add (ShowReturned (strip_newlines out)) u" by (simp add: process_line_def x)
  have t: "t = run_idle ip (ShowReturned (strip_newlines out)) (u\<lparr>idle_queue := []\<rparr>)"
    unfolding t_def fold_simps o_def press_return by (simp add: e_def [symmetric] p idle_add_def u(2) del: run_idle.simps)
  have c: "console_of e = console_of s" by (simp add: e_def console_of_def)
  show ?thesis
    using u unfolding t c [symmetric] by (simp add: idle_shell_def console_of_def shown_console del: run_idle.simps)
qed

lemma all_lines:
  "idle_shell s \<Longrightarrow>
    idle_shell (fold (shell_step ip editable) (concat (map (\<lambda>line. [Edited line, Press return_key marks, Idle]) ls)) s) \<and>
    console_of (fold (shell_step ip editable) (concat (map (\<lambda>line. [Edited line, Press return_key marks, Idle]) ls)) s) =
      fold (console_line ip) ls (console_of s)"
proof (induction ls arbitrary: s)
  case (Cons line ls)
  define t where "t = fold (shell_step ip editable) [Edited line, Press return_key marks, Idle] s"
  have "idle_shell t \<and> console_of t = console_line ip line (console_of s)"
    unfolding t_def by (rule one_line [OF Cons.prems])
  moreover have "fold (shell_step ip editable) (concat (map (\<lambda>line. [Edited line, Press return_key marks, Idle]) (line # ls))) s =
      fold (shell_step ip editable) (concat (map (\<lambda>line. [Edited line, Press return_key marks, Idle]) ls)) t"
    by (simp add: t_def del: shell_step.simps)
  ultimately show ?case using Cons.IH [of t] by simp
qed simp

lemma started:
  fixes ip editable
  defines "s \<equiv> shell_step ip editable Idle (new_shell ip)"
  shows "idle_shell s \<and> console_of s = new_console ip"
proof -
  define e where "e = \<lparr>before_line = [], line_text = [], idle_queue = [], inputs = [[]], pushed = [], iter_more = False,
      history_level = 0, shell_prompt = [], interrupt = False, rl_do_indent = False\<rparr>"
  obtain u out where x: "execute ip e = (u, out)" by fastforce
  have e: "\<not> interrupt e" "idle_queue e = []" "before_line e = []" "line_text e = []" "console_of e = ([], [[]], [])"
    by (simp_all add: e_def console_of_def)
  note u = execute_console [OF e(1) x, unfolded e]
  have "new_shell ip = idle_add (ShowPrompt (render ip False (inputs u))) (u\<lparr>shell_prompt := render ip False (inputs u)\<rparr>)"
    by (simp add: new_shell_def e_def [symmetric] x generate_prompt_def Let_def)
  then have s: "s = show_prompt (render ip False (inputs u)) (u\<lparr>shell_prompt := render ip False (inputs u), idle_queue := []\<rparr>)"
    using u by (simp add: s_def idle_add_def)
  obtain screen where "console_line ip [] ([], [[]], []) = (pushed u, inputs u, screen)"
    using u by (metis)
  with u show ?thesis unfolding s by (simp add: new_console_def console_of_def idle_shell_def show_prompt_def)
qed

lemma run_twice:
  assumes "idle_shell s"
  shows "map_prod id fst (console_of (fold (shell_step ip editable)
      [Edited line, Press return_key marks, Press return_key marks, Idle, Idle] s)) =
    map_prod id fst (console_line ip line (console_line ip line (console_of s)))"
proof -
  define e where "e = s\<lparr>line_text := line\<rparr>"
  obtain u out where x: "execute ip e = (u, out)" by fastforce
  define v where "v = idle_add (ShowReturned (strip_newlines out)) u"
  obtain w out' where y: "execute ip v = (w, out')" by fastforce
  from assms have e: "\<not> interrupt e" "idle_queue e = []" "console_of e = console_of s" "line_text e = line"
    by (simp_all add: e_def idle_shell_def console_of_def)
  note u = execute_console [OF e(1) x, unfolded e]
  have v: "\<not> interrupt v" "line_text v = line" "idle_queue v = [ShowReturned (strip_newlines out)]"
    "pushed v = pushed u" "inputs v = inputs u"
    using u by (simp_all add: v_def idle_add_def)
  note w = execute_console [OF v(1) y, unfolded v]
  have core: "map_prod id fst (console_line ip l (ls, ins, a)) = map_prod id fst (console_line ip l (ls, ins, b))" for l ls ins a b
    by (simp add: console_line_def case_prod_unfold Let_def)
  have "fold (shell_step ip editable) [Edited line, Press return_key marks, Press return_key marks, Idle, Idle] s =
      run_idle ip (ShowReturned (strip_newlines out'))
        (run_idle ip (ShowReturned (strip_newlines out)) (w\<lparr>idle_queue := [ShowReturned (strip_newlines out')]\<rparr>)\<lparr>idle_queue := []\<rparr>)"
  proof -
    have "process_line ip e = v" by (simp add: process_line_def x v_def)
    moreover have "process_line ip v = idle_add (ShowReturned (strip_newlines out')) w" by (simp add: process_line_def y)
    ultimately show ?thesis
      unfolding fold_simps o_def press_return
      using w by (simp add: e_def [symmetric] press_return idle_add_def shown_console del: run_idle.simps)
  qed
  then have "map_prod id fst (console_of (fold (shell_step ip editable)
      [Edited line, Press return_key marks, Press return_key marks, Idle, Idle] s)) = (pushed w, inputs w)"
    by (simp add: console_of_def shown_console del: run_idle.simps)
  also have "\<dots> = map_prod id fst (console_line ip line (console_of v))"
    using w by (metis fst_conv map_prod_simp id_apply)
  also have "\<dots> = map_prod id fst (console_line ip line (console_line ip line (console_of s)))"
    using u core by (metis console_of_def v(4,5))
  finally show ?thesis .
qed

text \<open>C28: when the main loop runs after each line, the shell is a console: every line is read once, in order, the
  inputs, the lines that wait for more and the whole screen are those of the console, with each prompt
  made before its cell is run. When Enter is pressed twice before the main loop runs, the line is run twice.\<close>

theorem shell_refines_console:
  "(let s = fold (shell_step ip editable)
         (Idle # concat (map (\<lambda>line. [Edited line, Press return_key marks, Idle]) ls)) (new_shell ip)
    in idle_queue s = [] \<and> console_of s = fold (console_line ip) ls (new_console ip) \<and>
       map_prod id fst (console_of (fold (shell_step ip editable)
           [Edited line, Press return_key marks, Press return_key marks, Idle, Idle] s)) =
         map_prod id fst (console_line ip line (console_line ip line (console_of s))))"
proof -
  define s where "s = fold (shell_step ip editable)
      (Idle # concat (map (\<lambda>line. [Edited line, Press return_key marks, Idle]) ls)) (new_shell ip)"
  have "idle_shell s \<and> console_of s = fold (console_line ip) ls (new_console ip)"
    using all_lines [of "shell_step ip editable Idle (new_shell ip)"] started [of ip editable]
    unfolding s_def fold_simps o_def by simp
  with run_twice [of s] show ?thesis unfolding s_def [symmetric] Let_def by (simp add: idle_shell_def)
qed

end
