(* ===== verification/Viz_Canvas.thy ===== *)
theory Viz_Canvas
  imports Viz_Nodes
begin

text \<open>
  The view of the visualizer on its canvas (\<open>core.py\<close> of \<open>src/visualizer\<close>): panning with the middle button,
  zoom, the node in the middle of the view, the initial scale, tooltips and the file of a screenshot.
  The widgets of GTK and GooCanvas are a record of functions: what a scrollbar or the zoom makes of a
  value that is set, and the places of the canvas in pixels at a scale.
\<close>

section \<open>State\<close>

record widgets =
  h_range :: "rat \<Rightarrow> rat"
  v_range :: "rat \<Rightarrow> rat"
  zoom_range :: "rat \<Rightarrow> rat"
  h_page :: rat
  v_page :: rat
  to_pixels :: "rat \<Rightarrow> point \<Rightarrow> point"
  from_pixels :: "rat \<Rightarrow> point \<Rightarrow> point"
  rescaled :: "rat \<Rightarrow> rat \<Rightarrow> point \<Rightarrow> point"
  scrolled_to :: "rat \<Rightarrow> point \<Rightarrow> point"

record panning_state =
  initial_mouse_pos :: point
  initial_canvas_pos :: point
  motion_signal :: nat

text \<open>\<open>motion_handlers\<close> are the connections of \<open>_panning_motion\<close>, numbered in the order they were made.\<close>

record canvas =
  adjustments :: point
  zoom_value :: rat
  canvas_scale :: rat
  panning :: "panning_state option"
  motion_handlers :: "nat list"
  connections :: nat
  follow_node :: "nat option"

definition new_canvas :: canvas where
  "new_canvas = \<lparr>adjustments = (0, 0), zoom_value = 1, canvas_scale = 1, panning = None, motion_handlers = [],
                 connections = 0, follow_node = None\<rparr>"

definition set_adjustments :: "widgets \<Rightarrow> point \<Rightarrow> canvas \<Rightarrow> canvas" where
  "set_adjustments w p c = c\<lparr>adjustments := (h_range w (fst p), v_range w (snd p))\<rparr>"

section \<open>Panning\<close>

definition begin_panning :: "point \<Rightarrow> canvas \<Rightarrow> canvas" where
  "begin_panning mouse c =
     c\<lparr>panning := Some \<lparr>initial_mouse_pos = mouse, initial_canvas_pos = adjustments c, motion_signal = connections c\<rparr>,
       motion_handlers := motion_handlers c @ [connections c], connections := connections c + 1\<rparr>"

definition end_panning :: "canvas \<Rightarrow> canvas" where
  "end_panning c =
     (case panning c of
        None \<Rightarrow> c
      | Some st \<Rightarrow> c\<lparr>motion_handlers := remove1 (motion_signal st) (motion_handlers c), panning := None\<rparr>)"

definition panning_motion :: "widgets \<Rightarrow> point \<Rightarrow> canvas \<Rightarrow> (canvas \<times> bool) res" where
  "panning_motion w mouse c =
     (case panning c of
        None \<Rightarrow> Raise AssertionError
      | Some st \<Rightarrow>
          Return (set_adjustments w (fst (initial_canvas_pos st) - (fst mouse - fst (initial_mouse_pos st)),
                                     snd (initial_canvas_pos st) - (snd mouse - snd (initial_mouse_pos st))) c, True))"

text \<open>The signal calls the handlers in order until one has handled the event; an exception is reported, and the next is called.\<close>

fun motion_event :: "widgets \<Rightarrow> point \<Rightarrow> nat list \<Rightarrow> canvas \<Rightarrow> canvas \<times> py_error list" where
  "motion_event w mouse [] c = (c, [])"
| "motion_event w mouse (h # hs) c =
     (case panning_motion w mouse c of
        Inl e \<Rightarrow> (case motion_event w mouse hs c of (c', es) \<Rightarrow> (c', e # es))
      | Inr (c', handled) \<Rightarrow> if handled then (c', []) else motion_event w mouse hs c')"

section \<open>Zoom\<close>

text \<open>Setting the adjustment of the zoom calls \<open>_zoom_changed\<close> when the value is another one.\<close>

definition set_zoom :: "widgets \<Rightarrow> rat \<Rightarrow> canvas \<Rightarrow> canvas" where
  "set_zoom w z c =
     (let z' = zoom_range w z
      in if z' = zoom_value c then c
         else c\<lparr>zoom_value := z', canvas_scale := z', adjustments := rescaled w (canvas_scale c) z' (adjustments c)\<rparr>)"

datatype scroll = ScrollUp | ScrollDown | ScrollOther

definition canvas_scroll_event :: "widgets \<Rightarrow> scroll \<Rightarrow> canvas \<Rightarrow> canvas" where
  "canvas_scroll_event w d c =
     (case d of ScrollUp \<Rightarrow> set_zoom w (zoom_value c * 1.25) c
      | ScrollDown \<Rightarrow> set_zoom w (zoom_value c / 1.25) c
      | ScrollOther \<Rightarrow> c)"

section \<open>Nodes in the middle of the view\<close>

definition center_at :: "widgets \<Rightarrow> point \<Rightarrow> canvas \<Rightarrow> canvas" where
  "center_at w p c =
     (let q = to_pixels w (canvas_scale c) p in set_adjustments w (fst q - h_page w / 2, snd q - v_page w / 2) c)"

definition center_on_node :: "widgets \<Rightarrow> visualizer \<Rightarrow> node_ref \<Rightarrow> canvas \<Rightarrow> canvas res" where
  "center_on_node w v r c =
     bind_res (resolve_node r v) (\<lambda>i. case i of
        None \<Rightarrow> Raise TypeError
      | Some i \<Rightarrow> Return (center_at w (position_of i v) c))"

text \<open>\<open>_update_node_positions\<close> with the view: the followed node is put in the middle after it has moved.\<close>

definition update_positions_and_view :: "widgets \<Rightarrow> visualizer \<times> canvas \<Rightarrow> visualizer \<times> canvas" where
  "update_positions_and_view w vc =
     fold (\<lambda>i (v, c).
         case mobility v i of
           Some pos \<Rightarrow>
             (set_position i (transform_point_simulation_to_canvas pos) v,
              if follow_node c = Some i then center_at w (transform_point_simulation_to_canvas pos) c else c)
         | None \<Rightarrow> (v, c))
       (dict_keys (nodes (fst vc))) vc"

definition set_follow_node :: "visualizer \<Rightarrow> node_ref \<Rightarrow> canvas \<Rightarrow> canvas res" where
  "set_follow_node v r c =
     (case r of
        Ns3Node i \<Rightarrow> if map_of (nodes v) i = None then Raise KeyError else Return (c\<lparr>follow_node := Some i\<rparr>)
      | NodeView i \<Rightarrow> Return (c\<lparr>follow_node := Some i\<rparr>)
      | _ \<Rightarrow> Return (c\<lparr>follow_node := None\<rparr>))"

section \<open>The initial scale\<close>

definition positions_of :: "visualizer \<Rightarrow> point list" where
  "positions_of v = map (\<lambda>(i, n). position_of i v) (nodes v)"

definition autoscale_view :: "widgets \<Rightarrow> visualizer \<times> canvas \<Rightarrow> visualizer \<times> canvas" where
  "autoscale_view w vc =
     (if nodes (fst vc) = [] then vc
      else
        (let (v, c) = update_positions_and_view w vc;
             ps = positions_of v;
             min_p = (Min (set (map fst ps)), Min (set (map snd ps)));
             max_p = (Max (set (map fst ps)), Max (set (map snd ps)));
             min_px = to_pixels w (canvas_scale c) min_p;
             max_px = to_pixels w (canvas_scale c) max_p;
             new_dx = 1.5 * (fst max_px - fst min_px);
             new_dy = 1.5 * (snd max_px - snd min_px)
         in if new_dx = 0 \<or> new_dy = 0 then (v, c)
            else
              (let c = set_zoom w (min (h_page w / new_dx) (v_page w / new_dy)) c;
                   p1 = from_pixels w (canvas_scale c) (adjustments c);
                   p2 = from_pixels w (canvas_scale c) (fst (adjustments c) + h_page w, snd (adjustments c) + v_page w);
                   width = fst p2 - fst p1; height = snd p2 - snd p1;
                   center_x = (fst min_p + fst max_p) / 2; center_y = (snd min_p + snd max_p) / 2
               in (v, c\<lparr>adjustments := scrolled_to w (canvas_scale c) (center_x - width / 2, center_y - height / 2)\<rparr>))))"

section \<open>Tooltips and screenshots\<close>

record device_info =
  device_name :: string
  device_type :: string
  mac_address :: string
  ipv4_addresses :: "(string \<times> string) list option"
  ipv6_addresses :: "(string \<times> string) list option"

record node_info =
  name_of_node :: string
  mobility_type :: "string option"
  extra_info :: "string list"
  device_infos :: "device_info list"

definition address_line :: "string \<Rightarrow> (string \<times> string) list option \<Rightarrow> string list" where
  "address_line kind addresses =
     (case addresses of
        None \<Rightarrow> []
      | Some xs \<Rightarrow> [''    <b>'' @ kind @ '' Addresses:</b> '' @ str_join ''; '' (map (\<lambda>(a, m). a @ ''/'' @ m) xs)])"

definition device_lines :: "nat \<Rightarrow> device_info \<Rightarrow> string list" where
  "device_lines i d =
     [[], ''  <u>NetDevice '' @ str_of_nat i @ '':</u>''] @
     (if device_name d \<noteq> [] then [''    <b>Name:</b> '' @ device_name d] else []) @
     [''    <b>Type:</b> '' @ device_type d] @
     address_line ''IPv4'' (ipv4_addresses d) @ address_line ''IPv6'' (ipv6_addresses d) @
     [''    <b>MAC Address:</b> '' @ mac_address d]"

text \<open>\<open>tooltip_query\<close>; \<open>extra_info\<close> is what the handlers of \<open>query-extra-tooltip-info\<close> append.\<close>

definition tooltip_query :: "nat \<Rightarrow> node_info \<Rightarrow> string" where
  "tooltip_query i info =
     (let name = ''<b><u>Node '' @ str_of_nat i @ ''</u></b>'';
          name = (if name_of_node info \<noteq> [] then name @ '' <b>('' @ name_of_node info @ '')</b>'' else name);
          lines = [name, []] @ extra_info info;
          lines = lines @ (case mobility_type info of None \<Rightarrow> [] | Some t \<Rightarrow> [''  <b>Mobility Model</b>: '' @ t])
      in str_join [CHR 10] (fold (\<lambda>(i, d) lines. lines @ device_lines i d) (enumerate 0 (device_infos info)) lines))"

text \<open>An item of the canvas with the object it belongs to, if any, and its parent.\<close>

datatype canvas_item = CanvasItem "nat option" "canvas_item option"

fun pyviz_object_of :: "canvas_item \<Rightarrow> nat option" where
  "pyviz_object_of (CanvasItem (Some obj) _) = Some obj"
| "pyviz_object_of (CanvasItem None (Some parent)) = pyviz_object_of parent"
| "pyviz_object_of (CanvasItem None None) = None"

text \<open>\<open>_canvas_tooltip_cb\<close>: the object that is asked for its tooltip.\<close>

definition canvas_tooltip :: "widgets \<Rightarrow> (point \<Rightarrow> canvas_item option) \<Rightarrow> point \<Rightarrow> canvas \<Rightarrow> nat option" where
  "canvas_tooltip w item_at p c =
     (case item_at (from_pixels w (canvas_scale c) (fst (adjustments c) + fst p, snd (adjustments c) + snd p)) of
        None \<Rightarrow> None | Some item \<Rightarrow> pyviz_object_of item)"

text \<open>The second part of \<open>os.path.splitext\<close>: leading dots of the file name begin no extension.\<close>

definition extension_of :: "string \<Rightarrow> string" where
  "extension_of path =
     (let file = rev (takeWhile (\<lambda>c. c \<noteq> CHR ''/'') (rev path));
          name = dropWhile (\<lambda>c. c = CHR ''.'') file;
          ext = rev (takeWhile (\<lambda>c. c \<noteq> CHR ''.'') (rev name))
      in if CHR ''.'' \<in> set name then CHR ''.'' # ext else [])"

datatype surface = PSSurface | PDFSurface | SVGSurface

text \<open>\<open>_take_screenshot\<close>: the surface, its size and the corner of the canvas that is drawn at its origin.\<close>

definition take_screenshot :: "widgets \<Rightarrow> string option \<Rightarrow> canvas \<Rightarrow> (surface \<times> string \<times> point \<times> point) option" where
  "take_screenshot w file_name c =
     (case file_name of
        None \<Rightarrow> None
      | Some file \<Rightarrow>
          (let p1 = from_pixels w (canvas_scale c) (adjustments c);
               p2 = from_pixels w (canvas_scale c) (fst (adjustments c) + h_page w, snd (adjustments c) + v_page w);
               dest = (fst p2 - fst p1, snd p2 - snd p1);
               extension = to_lower (extension_of file)
           in if extension = ''.eps'' then Some (PSSurface, file, dest, p1)
              else if extension = ''.pdf'' then Some (PDFSurface, file, dest, p1)
              else if extension = ''.svg'' then Some (SVGSurface, file, dest, p1)
              else None))"

section \<open>Events\<close>

datatype canvas_event =
    ButtonPress nat point
  | ButtonRelease nat
  | MouseMotion point
  | Scrolled scroll
  | ZoomSet rat

fun canvas_step :: "widgets \<Rightarrow> canvas_event \<Rightarrow> canvas \<Rightarrow> canvas \<times> py_error list" where
  "canvas_step w (ButtonPress b mouse) c = (if b = 2 then begin_panning mouse c else c, [])"
| "canvas_step w (ButtonRelease b) c = (if b = 2 then end_panning c else c, [])"
| "canvas_step w (MouseMotion mouse) c = motion_event w mouse (motion_handlers c) c"
| "canvas_step w (Scrolled d) c = (canvas_scroll_event w d c, [])"
| "canvas_step w (ZoomSet z) c = (set_zoom w z c, [])"

definition run_canvas :: "widgets \<Rightarrow> canvas_event list \<Rightarrow> canvas" where
  "run_canvas w es = fold (\<lambda>e c. fst (canvas_step w e c)) es new_canvas"

section \<open>Panning follows the mouse\<close>

definition middle_button :: "canvas_event \<Rightarrow> bool" where
  "middle_button e = (case e of ButtonPress b _ \<Rightarrow> b = 2 | ButtonRelease b \<Rightarrow> b = 2 | _ \<Rightarrow> False)"

text \<open>How often the middle button is pressed while the view is already being panned.\<close>

fun pressed_twice :: "bool \<Rightarrow> canvas_event list \<Rightarrow> nat" where
  "pressed_twice p [] = 0"
| "pressed_twice p (ButtonPress b _ # es) =
     (if b = 2 then (if p then 1 else 0) + pressed_twice True es else pressed_twice p es)"
| "pressed_twice p (ButtonRelease b # es) = pressed_twice (if b = 2 then False else p) es"
| "pressed_twice p (_ # es) = pressed_twice p es"

definition canvas_ok :: "canvas \<Rightarrow> bool" where
  "canvas_ok c \<longleftrightarrow> canvas_scale c = zoom_value c \<and>
     (case panning c of None \<Rightarrow> True | Some st \<Rightarrow> motion_signal st \<in> set (motion_handlers c))"

definition leaked :: "canvas \<Rightarrow> nat" where
  "leaked c = length (motion_handlers c) - (if panning c = None then 0 else 1)"

lemma canvas_ok_adjustments [simp]: "canvas_ok (c\<lparr>adjustments := p\<rparr>) = canvas_ok c"
  by (simp add: canvas_ok_def split: option.split)

lemma canvas_ok_handlers: "canvas_ok c \<Longrightarrow> panning c \<noteq> None \<Longrightarrow> motion_handlers c \<noteq> []"
  by (auto simp: canvas_ok_def)

lemma motion_event_off: "panning c = None \<Longrightarrow> motion_event w m hs c = (c, replicate (length hs) AssertionError)"
  by (induction hs) (simp_all add: panning_motion_def)

lemma motion_event_on:
  "panning c = Some st \<Longrightarrow> hs \<noteq> [] \<Longrightarrow> motion_event w m hs c =
    (set_adjustments w (fst (initial_canvas_pos st) - (fst m - fst (initial_mouse_pos st)),
                        snd (initial_canvas_pos st) - (snd m - snd (initial_mouse_pos st))) c, [])"
  by (cases hs) (simp_all add: panning_motion_def)

lemma motion_event_keeps:
  "canvas_ok c \<Longrightarrow> canvas_step w (MouseMotion m) c = (c', es) \<Longrightarrow> \<exists>p. c' = c\<lparr>adjustments := p\<rparr>"
proof (cases "panning c")
  case None
  assume "canvas_step w (MouseMotion m) c = (c', es)"
  with None have "c' = c" by (simp add: motion_event_off)
  then have "c' = c\<lparr>adjustments := adjustments c\<rparr>" by simp
  then show ?thesis by blast
next
  case (Some st)
  assume "canvas_ok c" "canvas_step w (MouseMotion m) c = (c', es)"
  with Some canvas_ok_handlers [of c] show ?thesis by (auto simp: motion_event_on set_adjustments_def)
qed

lemma set_zoom_fields:
  "panning (set_zoom w z c) = panning c" "motion_handlers (set_zoom w z c) = motion_handlers c"
  "follow_node (set_zoom w z c) = follow_node c" "zoom_value (set_zoom w z c) = zoom_range w z"
  "canvas_ok c \<Longrightarrow> canvas_scale (set_zoom w z c) = zoom_range w z"
  by (simp_all add: set_zoom_def canvas_ok_def Let_def)

lemma other_event_keeps:
  assumes "canvas_ok c" and "\<not> middle_button e"
  shows "canvas_ok (fst (canvas_step w e c)) \<and> panning (fst (canvas_step w e c)) = panning c \<and>
    motion_handlers (fst (canvas_step w e c)) = motion_handlers c"
proof -
  have zoom: "canvas_ok (set_zoom w z c) \<and> panning (set_zoom w z c) = panning c \<and>
      motion_handlers (set_zoom w z c) = motion_handlers c" for z
    using assms(1) set_zoom_fields(5) [OF assms(1)]
    by (simp add: set_zoom_fields canvas_ok_def split: option.splits)
  show ?thesis
  proof (cases e)
    case (MouseMotion m)
    obtain c' es where "canvas_step w (MouseMotion m) c = (c', es)" by fastforce
    with motion_event_keeps [OF assms(1) this] assms(1) show ?thesis by (auto simp: MouseMotion)
  next
    case (Scrolled d)
    with zoom assms(1) show ?thesis by (cases d) (simp_all add: canvas_scroll_event_def)
  qed (use assms zoom in \<open>simp_all add: middle_button_def\<close>)
qed

lemma middle_button_step:
  assumes "canvas_ok c"
  shows "canvas_ok (begin_panning m c)" "canvas_ok (end_panning c)"
    "panning (begin_panning m c) \<noteq> None" "panning (end_panning c) = None"
    "leaked (begin_panning m c) = (if panning c = None then 0 else 1) + leaked c" "leaked (end_panning c) = leaked c"
  using assms canvas_ok_handlers [OF assms]
  by (auto simp: canvas_ok_def begin_panning_def end_panning_def leaked_def length_remove1 split: option.splits)

lemma leaked_steps:
  "canvas_ok c \<Longrightarrow> canvas_ok (fold (\<lambda>e c. fst (canvas_step w e c)) es c) \<and>
    leaked (fold (\<lambda>e c. fst (canvas_step w e c)) es c) = pressed_twice (panning c \<noteq> None) es + leaked c"
proof (induction es arbitrary: c)
  case (Cons e es)
  define d where "d = fst (canvas_step w e c)"
  have "canvas_ok d \<and> pressed_twice (panning d \<noteq> None) es + leaked d = pressed_twice (panning c \<noteq> None) (e # es) + leaked c"
  proof (cases "middle_button e")
    case True
    with middle_button_step [OF Cons.prems] show ?thesis
      by (cases e) (simp_all add: d_def middle_button_def)
  next
    case False
    with other_event_keeps [OF Cons.prems False, of w, folded d_def] show ?thesis
      by (cases e) (simp_all add: middle_button_def leaked_def)
  qed
  with Cons.IH [of d] show ?case by (simp add: d_def)
qed simp

lemma while_panning:
  "canvas_ok c \<Longrightarrow> panning (fold (\<lambda>e c. fst (canvas_step w e c)) (filter (\<lambda>e. \<not> middle_button e) es) c) = panning c \<and>
    canvas_ok (fold (\<lambda>e c. fst (canvas_step w e c)) (filter (\<lambda>e. \<not> middle_button e) es) c)"
proof (induction es arbitrary: c)
  case (Cons e es)
  then show ?case
    using other_event_keeps [OF Cons.prems, of e w] Cons.IH [of "fst (canvas_step w e c)"]
    by (cases "middle_button e") simp_all
qed simp

lemma run_canvas_ok: "canvas_ok (run_canvas w es) \<and> leaked (run_canvas w es) = pressed_twice False es"
  using leaked_steps [of new_canvas w es] by (simp add: run_canvas_def canvas_ok_def new_canvas_def leaked_def)

text \<open>C29: the canvas always has the scale that the zoom shows. From a press of the middle button on a motion of
  the mouse moves the view from where it was by as much as the mouse has moved since, whatever else
  happened in between. A press during panning leaves a handler behind for ever: each of them raises an
  AssertionError at every motion when the view is not panned.\<close>

theorem panning_correct:
  "(let c = run_canvas w es;
        d = fold (\<lambda>e c. fst (canvas_step w e c)) (filter (\<lambda>e. \<not> middle_button e) between) (begin_panning m0 c)
    in canvas_scale c = zoom_value c \<and>
       canvas_step w (MouseMotion m) d =
         (d\<lparr>adjustments := (h_range w (fst (adjustments c) - (fst m - fst m0)), v_range w (snd (adjustments c) - (snd m - snd m0)))\<rparr>, []) \<and>
       length (motion_handlers c) = pressed_twice False es + (if panning c = None then 0 else 1) \<and>
       canvas_step w (MouseMotion m) (end_panning c) = (end_panning c, replicate (pressed_twice False es) AssertionError))"
proof -
  define c where "c = run_canvas w es"
  define b where "b = begin_panning m0 c"
  define d where "d = fold (\<lambda>e c. fst (canvas_step w e c)) (filter (\<lambda>e. \<not> middle_button e) between) b"
  have c: "canvas_ok c" "leaked c = pressed_twice False es" using run_canvas_ok [of w es] by (simp_all add: c_def)
  note steps = middle_button_step [OF c(1)]
  have "canvas_ok b" unfolding b_def by (rule steps(1))
  from while_panning [OF this, of w between, folded d_def]
  have d: "panning d = panning b" "canvas_ok d" by simp_all
  then have p: "panning d = Some \<lparr>initial_mouse_pos = m0, initial_canvas_pos = adjustments c, motion_signal = connections c\<rparr>"
    by (simp add: b_def begin_panning_def)
  with canvas_ok_handlers [OF d(2)] have motion: "canvas_step w (MouseMotion m) d =
      (d\<lparr>adjustments := (h_range w (fst (adjustments c) - (fst m - fst m0)), v_range w (snd (adjustments c) - (snd m - snd m0)))\<rparr>, [])"
    by (simp add: motion_event_on set_adjustments_def)
  have handlers: "length (motion_handlers c) = pressed_twice False es + (if panning c = None then 0 else 1)"
    using c(2) canvas_ok_handlers [OF c(1)]
    by (cases "panning c = None"; cases "motion_handlers c") (simp_all add: leaked_def)
  have "length (motion_handlers (end_panning c)) = pressed_twice False es"
    using steps(4,6) c(2) by (simp add: leaked_def)
  with steps(4) have "canvas_step w (MouseMotion m) (end_panning c) =
      (end_panning c, replicate (pressed_twice False es) AssertionError)"
    by (simp add: motion_event_off)
  with motion handlers c(1) show ?thesis
    unfolding Let_def c_def [symmetric] b_def [symmetric] d_def [symmetric] by (simp add: canvas_ok_def)
qed

section \<open>The view of the nodes\<close>

lemma center_at_fields [simp]:
  "follow_node (center_at w p c) = follow_node c" "canvas_scale (center_at w p c) = canvas_scale c"
  "zoom_value (center_at w p c) = zoom_value c" "center_at w p (center_at w q c) = center_at w p c"
  by (simp_all add: center_at_def set_adjustments_def Let_def)

definition followed :: "widgets \<Rightarrow> nat set \<Rightarrow> visualizer \<Rightarrow> canvas \<Rightarrow> canvas" where
  "followed w is v c =
     (case follow_node c of
        None \<Rightarrow> c
      | Some i \<Rightarrow> (case mobility v i of
                    Some pos \<Rightarrow> if i \<in> is then center_at w (transform_point_simulation_to_canvas pos) c else c
                  | None \<Rightarrow> c))"

lemma update_positions_and_view_eq:
  "update_positions_and_view w (v, c) = (update_node_positions v, followed w (set (dict_keys (nodes v))) v c)"
proof -
  let ?both = "\<lambda>i (v, c). case mobility v i of
      Some pos \<Rightarrow> (set_position i (transform_point_simulation_to_canvas pos) v,
                   if follow_node c = Some i then center_at w (transform_point_simulation_to_canvas pos) c else c)
    | None \<Rightarrow> (v, c)"
  let ?one = "\<lambda>i v. case mobility v i of
      Some pos \<Rightarrow> set_position i (transform_point_simulation_to_canvas pos) v | None \<Rightarrow> v"
  have "fold ?both is (v, c) = (fold ?one is v, followed w (set is) v c)" for "is" v c
  proof (induction "is" arbitrary: v c)
    case (Cons i js)
    have m: "mobility (set_position i p v) = mobility v" for p by (rule set_position_lookup(2))
    show ?case
      by (cases "mobility v i"; cases "follow_node c")
        (auto simp: Cons.IH followed_def m split: option.splits)
  qed (simp add: followed_def split: option.splits)
  then show ?thesis by (simp add: update_positions_and_view_def update_node_positions_def)
qed

lemma followed_fields [simp]:
  "canvas_scale (followed w is v c) = canvas_scale c" "zoom_value (followed w is v c) = zoom_value c"
  by (simp_all add: followed_def split: option.splits)

text \<open>An update of the positions moves the nodes as it does without a view, and puts the followed node
  that has a mobility model in the middle of the view, as far as the scrollbars allow; otherwise the view stays.\<close>

theorem follow_correct:
  "(let (v', c') = update_positions_and_view w (v, c)
    in v' = update_node_positions v \<and>
       (case follow_node c of
          None \<Rightarrow> c' = c
        | Some i \<Rightarrow>
            (case (map_of (nodes v) i, mobility v i) of
               (Some n, Some pos) \<Rightarrow>
                 (let (px, py) = to_pixels w (canvas_scale c) (3 * fst pos, 3 * snd pos)
                  in c' = c\<lparr>adjustments := (h_range w (px - h_page w / 2), v_range w (py - v_page w / 2))\<rparr>)
             | _ \<Rightarrow> c' = c)))"
proof -
  have "i \<in> set (dict_keys (nodes v)) \<longleftrightarrow> map_of (nodes v) i \<noteq> None" for i
    by (simp add: map_of_eq_None_iff)
  then show ?thesis
    by (auto simp: update_positions_and_view_eq followed_def center_at_def set_adjustments_def Let_def
        transform_point_simulation_to_canvas_def mult.commute split: option.splits prod.splits)
qed

text \<open>
  What is used of GooCanvas: pixels are places at the scale from an origin, and back; scrolling
  puts a place in the corner of the view.
\<close>

definition linear_widgets :: "widgets \<Rightarrow> point \<Rightarrow> bool" where
  "linear_widgets w origin \<longleftrightarrow> 0 < h_page w \<and> 0 < v_page w \<and>
     to_pixels w = (\<lambda>s p. (s * (fst p - fst origin), s * (snd p - snd origin))) \<and>
     from_pixels w = (\<lambda>s q. (fst q / s + fst origin, snd q / s + snd origin)) \<and>
     scrolled_to w = to_pixels w"

lemma scale_to_fit:
  fixes z d :: rat
  assumes "0 < z" "0 < d" "0 < e" "0 < hp" "0 < vp" and s: "s = min (hp / (1.5 * (z * d))) (vp / (1.5 * (z * e)))"
  shows "0 < s" "1.5 * z * d \<le> hp / s" "1.5 * z * e \<le> vp / s" "1.5 * z * d = hp / s \<or> 1.5 * z * e = vp / s"
proof -
  have pos: "0 < 1.5 * (z * d)" "0 < 1.5 * (z * e)" using assms(1-3) by simp_all
  with assms(4,5) have "0 < hp / (1.5 * (z * d))" "0 < vp / (1.5 * (z * e))" by (simp_all only: divide_pos_pos)
  then show p: "0 < s" by (simp only: s min_less_iff_conj simp_thms)
  have "s \<le> hp / (1.5 * (z * d))" "s \<le> vp / (1.5 * (z * e))" by (simp_all only: s min.cobounded1 min.cobounded2)
  then show "1.5 * z * d \<le> hp / s" "1.5 * z * e \<le> vp / s"
    unfolding pos_le_divide_eq [OF pos(1)] pos_le_divide_eq [OF pos(2)] pos_le_divide_eq [OF p]
    by (simp_all only: ac_simps)
  have flip: "k = h / s" if "s = h / k" "0 < k" for h k
  proof -
    from that have "s * k = h" by simp
    with p show ?thesis by (simp add: eq_divide_eq mult.commute)
  qed
  have "s = hp / (1.5 * (z * d)) \<or> s = vp / (1.5 * (z * e))" unfolding s min_def by (simp only: split: if_split) blast
  with flip [OF _ pos(1)] flip [OF _ pos(2)] show "1.5 * z * d = hp / s \<or> 1.5 * z * e = vp / s"
    by (simp only: mult.assoc) blast
qed

definition extent :: "rat list \<Rightarrow> rat" where
  "extent xs = Max (set xs) - Min (set xs)"

definition fitting_zoom :: "widgets \<Rightarrow> rat \<Rightarrow> point list \<Rightarrow> rat" where
  "fitting_zoom w z ps = min (h_page w / (1.5 * (z * extent (map fst ps)))) (v_page w / (1.5 * (z * extent (map snd ps))))"

lemma in_middle:
  fixes W :: rat
  assumes "x \<in> set xs" and "k * extent xs \<le> W" and "1 \<le> k"
  shows "(Min (set xs) + Max (set xs)) / 2 - W / 2 \<le> x \<and> x \<le> (Min (set xs) + Max (set xs)) / 2 - W / 2 + W"
proof -
  have b: "Min (set xs) \<le> x" "x \<le> Max (set xs)" using assms(1) by simp_all
  then have "0 \<le> extent xs" by (simp add: extent_def)
  with assms(3) have "1 * extent xs \<le> k * extent xs" by (rule mult_right_mono)
  with assms(2) have "Max (set xs) - Min (set xs) \<le> W" by (simp add: extent_def)
  with b show ?thesis by (simp add: field_simps)
qed


text \<open>Two nodes at (0, 0) and (30, 15) in a window of 300 by 200 pixels: their width decides.\<close>

definition sample_widgets :: widgets where
  "sample_widgets =
     \<lparr>h_range = (\<lambda>x. x), v_range = (\<lambda>x. x), zoom_range = (\<lambda>x. x), h_page = 300, v_page = 200,
      to_pixels = (\<lambda>s p. (s * (fst p - 0), s * (snd p - 0))), from_pixels = (\<lambda>s q. (fst q / s + 0, snd q / s + 0)),
      rescaled = (\<lambda>s t p. p), scrolled_to = (\<lambda>s p. (s * (fst p - 0), s * (snd p - 0)))\<rparr>"

definition sample_nodes :: visualizer where
  "sample_nodes = get_node 1 (get_node 0 (new_visualizer 2 (\<lambda>i. Some (if i = 0 then (0, 0) else (10, 5)))))"


end
