(* ===== verification/Boost.thy ===== *)
theory Boost
  imports Prelude "HOL-Library.List_Lexorder" "HOL-Library.Product_Lexorder"
begin

text \<open>
  The configuration of the Boost libraries, \<open>waf-tools/boost.py\<close>: the search for the headers and their
  version, the toolset, the directory of the libraries, the choice of a file for each library by a
  sequence of patterns, and the check that they link. The machine is a record: the directories with
  their files named \<open>*boost_*\<close>, the headers, the compiler and what links. In the patterns a dot stands for any
  character; the names of libraries, toolsets and versions have no other special characters.
\<close>

section \<open>The machine and the options\<close>

record machine =
  version_file :: "string \<Rightarrow> string option"
  compiled_version :: "string \<Rightarrow> string"
  find_dir :: "string \<Rightarrow> string list option"
  environ_include :: string
  environ_lib :: string
  build_platform :: string
  cxx_name :: string
  cxx_program :: string
  cc_name :: string
  shared_ext :: string
  static_ext :: string
  shared_empty :: string
  listdir :: "string \<Rightarrow> string list"

definition BOOST_LIBS :: "string list" where
  "BOOST_LIBS =
     [''/usr/lib/x86_64-linux-gnu'', ''/usr/lib/i386-linux-gnu'', ''/usr/lib'', ''/usr/local/lib'', ''/opt/local/lib'',
      ''/sw/lib'', ''/lib'']"

definition BOOST_INCLUDES :: "string list" where
  "BOOST_INCLUDES = [''/usr/include'', ''/usr/local/include'', ''/opt/local/include'', ''/sw/include'']"

abbreviation configuration_error :: "'a res" where
  "configuration_error \<equiv> Raise (GenericException ''ConfigurationError'')"

section \<open>Toolsets\<close>

definition boost_toolsets :: "machine \<Rightarrow> (string \<times> string) list" where
  "boost_toolsets m =
     (let intel = (if build_platform m = ''win32'' then ''iw'' else ''il'');
          clang = (if build_platform m = ''darwin'' then ''clang-darwin'' else ''clang'');
          mingw = (if str_in ''MinGW'' (cxx_program m) then ''mgw'' else ''gcc'')
      in [(''borland'', ''bcb''), (''clang'', clang), (''como'', ''como''), (''cw'', ''cw''), (''darwin'', ''xgcc''),
          (''edg'', ''edg''), (''g++'', mingw), (''gcc'', mingw), (''icpc'', intel), (''intel'', intel), (''kcc'', ''kcc''),
          (''kylix'', ''bck''), (''mipspro'', ''mp''), (''mingw'', ''mgw''), (''msvc'', ''vc''), (''qcc'', ''qcc''),
          (''sun'', ''sw''), (''sunc++'', ''sw''), (''tru64cxx'', ''tru''), (''vacpp'', ''xlc'')])"

text \<open>An unknown compiler without a toolset of its own is a TypeError: the empty text is called like a function.\<close>

definition boost_get_toolset :: "machine \<Rightarrow> string \<Rightarrow> string res" where
  "boost_get_toolset m cc =
     (let table = boost_toolsets m;
          name = (if cc = [] then (if map_of table (build_platform m) \<noteq> None then build_platform m else cxx_name m) else cc)
      in case map_of table name of
           Some toolset \<Rightarrow> Return toolset
         | None \<Rightarrow> if cc = [] then Raise TypeError else Return cc)"

section \<open>Headers\<close>

text \<open>\<open>boost_get_includes\<close>; the directory without a name has no version file.\<close>

definition has_headers :: "machine \<Rightarrow> string \<Rightarrow> bool" where
  "has_headers m d \<longleftrightarrow> d \<noteq> [] \<and> version_file m d \<noteq> None"

fun first_with_headers :: "machine \<Rightarrow> string list \<Rightarrow> string res" where
  "first_with_headers m [] = configuration_error"
| "first_with_headers m (d # ds) = (if has_headers m d then Return d else first_with_headers m ds)"

definition boost_get_includes :: "machine \<Rightarrow> string \<Rightarrow> string res" where
  "boost_get_includes m includes =
     (if includes \<noteq> [] \<and> has_headers m includes then Return includes
      else first_with_headers m (split_on CHR '';'' (environ_include m) @ BOOST_INCLUDES))"

text \<open>
  The regular expression for the definition of \<open>BOOST_LIB_VERSION\<close>, searched from every start of a
  line: white space between the words, and then all up to the last quote of the line.
\<close>

definition skip_spaces :: "string \<Rightarrow> string option" where
  "skip_spaces s = (case s of [] \<Rightarrow> None | c # cs \<Rightarrow> if is_space c then Some (dropWhile is_space cs) else None)"

definition skip_word :: "string \<Rightarrow> string \<Rightarrow> string option" where
  "skip_word w s = (if prefix w s then Some (drop (length w) s) else None)"

definition quoted :: "string \<Rightarrow> string option" where
  "quoted s =
     (let line = takeWhile (\<lambda>c. c \<noteq> CHR 10) s; back = dropWhile (\<lambda>c. c \<noteq> CHR 0x22) (rev line)
      in if back = [] then None else Some (rev (tl back)))"

definition match_version :: "string \<Rightarrow> string option" where
  "match_version s =
     Option.bind (skip_word ''#define'' s) (\<lambda>s.
     Option.bind (skip_spaces s) (\<lambda>s.
     Option.bind (skip_word ''BOOST_LIB_VERSION'' s) (\<lambda>s.
     Option.bind (skip_spaces s) (\<lambda>s.
     Option.bind (skip_word [CHR 0x22] s) quoted))))"

fun search_version :: "bool \<Rightarrow> string \<Rightarrow> string option" where
  "search_version line_start [] = (if line_start then match_version [] else None)"
| "search_version line_start (c # cs) =
     (case (if line_start then match_version (c # cs) else None) of
        Some v \<Rightarrow> Some v
      | None \<Rightarrow> search_version (c = CHR 10) cs)"

definition boost_get_version :: "machine \<Rightarrow> string \<Rightarrow> string" where
  "boost_get_version m d =
     (case Option.bind (if has_headers m d then version_file m d else None) (search_version True) of
        Some v \<Rightarrow> v
      | None \<Rightarrow> compiled_version m d)"

section \<open>The directory of the libraries\<close>

text \<open>The loop keeps the last directory that it has looked for, whether it exists or not.\<close>

fun libs_loop :: "machine \<Rightarrow> string list \<Rightarrow> (string \<times> string list) option \<Rightarrow> (string \<times> string list) option" where
  "libs_loop m [] found = found"
| "libs_loop m (d # ds) found =
     (if d = [] then libs_loop m ds found
      else
        (let look = (\<lambda>d. map_option (Pair d) (find_dir m d))
         in case look d of
              Some (p, f # fs) \<Rightarrow> Some (p, f # fs)
            | _ \<Rightarrow>
                (case look (d @ ''64'') of
                   Some (p, f # fs) \<Rightarrow> Some (p, f # fs)
                 | found' \<Rightarrow> libs_loop m ds found')))"

definition boost_get_libs_path :: "machine \<Rightarrow> string \<Rightarrow> (string \<times> string list) res" where
  "boost_get_libs_path m libs =
     (let search = (\<lambda>found. case libs_loop m (split_on CHR '';'' (environ_lib m) @ BOOST_LIBS) found of
                              None \<Rightarrow> configuration_error | Some pf \<Rightarrow> Return pf)
      in if libs = [] then search None
         else case find_dir m libs of
                None \<Rightarrow> Raise AttributeError
              | Some files \<Rightarrow> if files = [] then search (Some (libs, [])) else Return (libs, files))"

section \<open>Patterns\<close>

datatype atom = Exactly char | AnyChar | Digit | AheadNoDigit | AheadNotPy | AtEnd

fun match_here :: "atom list \<Rightarrow> string \<Rightarrow> bool" where
  "match_here [] s \<longleftrightarrow> True"
| "match_here (Exactly c # as) s \<longleftrightarrow> (case s of [] \<Rightarrow> False | x # xs \<Rightarrow> x = c \<and> match_here as xs)"
| "match_here (AnyChar # as) s \<longleftrightarrow> (case s of [] \<Rightarrow> False | x # xs \<Rightarrow> x \<noteq> CHR 10 \<and> match_here as xs)"
| "match_here (Digit # as) s \<longleftrightarrow> (case s of [] \<Rightarrow> False | x # xs \<Rightarrow> is_digit x \<and> match_here as xs)"
| "match_here (AheadNoDigit # as) s \<longleftrightarrow> s \<noteq> [] \<and> \<not> is_digit (hd s) \<and> match_here as s"
| "match_here (AheadNotPy # as) s \<longleftrightarrow> \<not> prefix ''-py'' s \<and> match_here as s"
| "match_here (AtEnd # as) s \<longleftrightarrow> s = [] \<and> match_here as s"

fun re_search :: "atom list \<Rightarrow> string \<Rightarrow> bool" where
  "re_search as [] \<longleftrightarrow> match_here as []"
| "re_search as (x # xs) \<longleftrightarrow> match_here as (x # xs) \<or> re_search as xs"

text \<open>A pattern is the list of its alternatives, and patterns are put together part by part.\<close>

type_synonym pattern = "atom list list"

definition literally :: "string \<Rightarrow> pattern" where
  "literally t = [map (\<lambda>c. if c = CHR ''.'' then AnyChar else Exactly c) t]"

fun followed_by :: "pattern list \<Rightarrow> pattern" where
  "followed_by [] = [[]]"
| "followed_by (p # ps) = concat (map (\<lambda>as. map (\<lambda>bs. as @ bs) (followed_by ps)) p)"

definition toolset_pat :: "string \<Rightarrow> pattern" where
  "toolset_pat toolset = followed_by [literally (CHR ''-'' # toolset), map (\<lambda>n. replicate n Digit) [0, 1, 2, 3]]"

definition python_tags :: "string \<Rightarrow> string \<Rightarrow> pattern" where
  "python_tags tags python =
     followed_by [literally tags @ [[]],
       followed_by [literally (''-py'' @ python)] @
       followed_by [literally (''-py'' @ [hd python]), [[AheadNoDigit]]] @
       followed_by [literally python] @
       followed_by [literally [hd python], [[AheadNoDigit]]] @
       [[AheadNoDigit, AheadNotPy]]]"

definition search_pattern :: "pattern \<Rightarrow> string \<Rightarrow> bool" where
  "search_pattern p name \<longleftrightarrow> list_ex (\<lambda>as. re_search as name) p"

section \<open>The choice of the files\<close>

record boost_params =
  p_includes :: string
  p_libs :: string
  p_mt :: bool
  p_abi :: string
  p_toolset :: string
  p_python :: string
  p_autodetect :: bool
  p_lib :: "string list"
  p_stlib :: "string list"

definition tags_of :: "boost_params \<Rightarrow> bool \<Rightarrow> string" where
  "tags_of ps is_static =
     (if p_mt ps then ''-mt'' else []) @
     (if p_abi ps \<noteq> [] then (if is_static then ''-s'' else ''-'') @ p_abi ps else if is_static then ''-s'' else [])"

text \<open>The patterns for a library, from the strictest to the laxest.\<close>

definition lib_patterns :: "machine \<Rightarrow> boost_params \<Rightarrow> string \<Rightarrow> string \<Rightarrow> bool \<Rightarrow> string \<Rightarrow> pattern list" where
  "lib_patterns m ps tools version is_static lib =
     (let name = literally (''boost_'' @ lib); toolset = toolset_pat tools;
          tags = (if lib = ''python'' then python_tags (tags_of ps is_static) (p_python ps) else literally (tags_of ps is_static));
          ver = literally (CHR ''-'' # version);
          ext = followed_by [literally (if is_static then static_ext m else shared_ext m), [[AtEnd]]]
      in [followed_by [name, toolset, tags, ver, ext], followed_by [name, tags, ver, ext],
          followed_by [name, toolset, tags, ext], followed_by [name, tags, ext], followed_by [name, ext], name])"

text \<open>\<open>sorted\<close> with \<open>reverse\<close>: the longest names first, and those of one length from the last of the alphabet.\<close>

definition file_key :: "string \<Rightarrow> nat \<times> nat list" where
  "file_key f = (length f, map of_char f)"

definition sort_files :: "string list \<Rightarrow> string list" where
  "sort_files files = rev (sort_key file_key (rev files))"

fun find_lib :: "string list \<Rightarrow> pattern list \<Rightarrow> string option" where
  "find_lib files [] = None"
| "find_lib files (p # ps) =
     (case find (search_pattern p) files of Some f \<Rightarrow> Some f | None \<Rightarrow> find_lib files ps)"

text \<open>\<open>name[:name.rfind('.')]\<close>: a name without a dot loses its last character.\<close>

definition drop_extension :: "string \<Rightarrow> string" where
  "drop_extension name =
     (if CHR ''.'' \<in> set name then rev (tl (dropWhile (\<lambda>c. c \<noteq> CHR ''.'') (rev name))) else butlast name)"

definition format_lib_name :: "machine \<Rightarrow> string \<Rightarrow> string" where
  "format_lib_name m name =
     drop_extension (if startswith name ''lib'' \<and> cc_name m \<noteq> ''msvc'' then drop 3 name else name)"

fun match_libs :: "machine \<Rightarrow> boost_params \<Rightarrow> string \<Rightarrow> string \<Rightarrow> string list \<Rightarrow> bool \<Rightarrow> string list \<Rightarrow> string list res" where
  "match_libs m ps tools version files is_static [] = Return []"
| "match_libs m ps tools version files is_static (lib # libs) =
     (if lib = ''python'' \<and> p_python ps = [] then Raise IndexError
      else case find_lib files (lib_patterns m ps tools version is_static lib) of
        None \<Rightarrow> configuration_error
      | Some f \<Rightarrow> bind_res (match_libs m ps tools version files is_static libs) (\<lambda>ns. Return (format_lib_name m f # ns)))"

definition boost_get_libs :: "machine \<Rightarrow> boost_params \<Rightarrow> string \<Rightarrow> (string \<times> string list \<times> string list) res" where
  "boost_get_libs m ps version =
     bind_res (boost_get_libs_path m (p_libs ps)) (\<lambda>(path, files).
     bind_res (boost_get_toolset m (p_toolset ps)) (\<lambda>tools.
     bind_res (match_libs m ps tools version (sort_files files) False (p_lib ps)) (\<lambda>libs.
     bind_res (match_libs m ps tools version (sort_files files) True (p_stlib ps)) (\<lambda>stlibs.
       Return (path, libs, stlibs)))))"

section \<open>The check\<close>

record boost_env =
  e_includes :: string
  e_version :: string
  e_libpath :: "string list option"
  e_stlibpath :: "string list option"
  e_lib :: "string list option"
  e_stlib :: "string list option"
  e_defines :: "string list"
  e_cxxflags :: "string list"

datatype fragment = ErrorCode | ThreadCode

text \<open>\<open>try_link\<close>; \<open>links\<close> tells whether a fragment compiles and links with an environment.\<close>

definition try_link :: "(boost_env \<Rightarrow> fragment \<Rightarrow> bool) \<Rightarrow> boost_params \<Rightarrow> boost_env \<Rightarrow> bool" where
  "try_link links ps e \<longleftrightarrow>
     (if ''system'' \<in> set (p_lib ps) \<or> ''system'' \<in> set (p_stlib ps) then links e ErrorCode else True) \<and>
     (if ''thread'' \<in> set (p_lib ps) \<or> ''thread'' \<in> set (p_stlib ps) then links e ThreadCode else True)"

fun try_cxxflags :: "(boost_env \<Rightarrow> bool) \<Rightarrow> string list list \<Rightarrow> boost_env \<Rightarrow> boost_env res" where
  "try_cxxflags ok [] e = configuration_error"
| "try_cxxflags ok (flags # rest) e =
     (if ok (e\<lparr>e_cxxflags := e_cxxflags e @ flags\<rparr>) then Return (e\<lparr>e_cxxflags := e_cxxflags e @ flags\<rparr>)
      else try_cxxflags ok rest e)"

text \<open>
  \<open>check_boost\<close>, with the parameters of the command line already merged with those of the call
  (\<open>merge_params\<close>). The detection of the linkage asks for the toolset of the call, \<open>kw_toolset\<close>.
\<close>

definition merge_params :: "boost_params \<Rightarrow> boost_params \<Rightarrow> boost_params" where
  "merge_params options kw =
     kw\<lparr>p_includes := (if p_includes options \<noteq> [] then p_includes options else p_includes kw),
        p_libs := (if p_libs options \<noteq> [] then p_libs options else p_libs kw),
        p_mt := (p_mt options \<or> p_mt kw),
        p_abi := (if p_abi options \<noteq> [] then p_abi options else p_abi kw),
        p_toolset := (if p_toolset options \<noteq> [] then p_toolset options else p_toolset kw),
        p_python := (if p_python options \<noteq> [] then p_python options else p_python kw),
        p_autodetect := (p_autodetect options \<or> p_autodetect kw)\<rparr>"

definition check_boost ::
  "machine \<Rightarrow> (boost_env \<Rightarrow> fragment \<Rightarrow> bool) \<Rightarrow> boost_params \<Rightarrow> boost_params \<Rightarrow> boost_env \<Rightarrow> boost_env res" where
  "check_boost m links options kw e =
     (if cxx_program m = [] then configuration_error
      else
        (let ps = merge_params options kw
         in bind_res (boost_get_includes m (p_includes ps)) (\<lambda>inc.
            let version = boost_get_version m inc; e = e\<lparr>e_includes := inc, e_version := version\<rparr>
            in if p_lib ps = [] \<and> p_stlib ps = [] then Return e
               else bind_res (boost_get_libs m ps version) (\<lambda>(path, libs, stlibs).
                 let e = e\<lparr>e_libpath := Some [path], e_stlibpath := Some [path], e_lib := Some libs, e_stlib := Some stlibs\<rparr>
                 in if p_autodetect ps
                    then bind_res (boost_get_toolset m (p_toolset kw)) (\<lambda>tools.
                          if tools = ''vc''
                          then (let e = e\<lparr>e_defines := e_defines e @ [''BOOST_ALL_NO_LIB'']\<rparr>;
                                    has_dlls = list_ex (\<lambda>x. endswith x (shared_empty m)) (listdir m path);
                                    e = (if has_dlls then e
                                         else e\<lparr>e_stlibpath := Some [path], e_stlib := Some libs, e_lib := None, e_libpath := None\<rparr>)
                                in try_cxxflags (try_link links ps) [[''/MD'', ''/EHsc''], []] e)
                          else configuration_error)
                    else if try_link links ps e then Return e else configuration_error))))"

section \<open>Headers and their version\<close>

text \<open>The headers are looked for in the given directory, in those of the environment variable and in the usual
  ones, and the first that has them is taken; a given directory without headers is passed over in silence.\<close>

theorem boost_includes_correct:
  "boost_get_includes m includes =
    (case find (has_headers m) (includes # split_on CHR '';'' (environ_include m) @ BOOST_INCLUDES) of
       Some d \<Rightarrow> Return d | None \<Rightarrow> configuration_error)"
proof -
  have "first_with_headers m ds = (case find (has_headers m) ds of Some d \<Rightarrow> Return d | None \<Rightarrow> configuration_error)" for ds
    by (induction ds) auto
  then show ?thesis by (simp add: boost_get_includes_def has_headers_def)
qed

definition other_line :: "string \<Rightarrow> bool" where
  "other_line l \<longleftrightarrow> CHR 10 \<notin> set l \<and>
     (prefix ''#define'' l \<longrightarrow>
       (let r = dropWhile is_space (drop 7 l) in r \<noteq> [] \<and> \<not> prefix ''BOOST_LIB_VERSION'' r))"

lemma dropWhile_before: "dropWhile P xs \<noteq> [] \<Longrightarrow> dropWhile P (xs @ ys) = dropWhile P xs @ ys"
  by (induction xs) auto

lemma prefix_before_newline:
  "CHR 10 \<notin> set w \<Longrightarrow> prefix w (l @ CHR 10 # t) = prefix w l"
proof (induction w arbitrary: l)
  case (Cons a w)
  then show ?case by (cases l) auto
qed simp

lemma match_other_line: "other_line l \<Longrightarrow> match_version (l @ CHR 10 # t) = None"
proof (cases "prefix ''#define'' l")
  case False
  then show ?thesis by (simp add: match_version_def skip_word_def prefix_before_newline)
next
  case True
  assume l: "other_line l"
  define r where "r = dropWhile is_space (drop 7 l)"
  from l True have r: "r \<noteq> []" "\<not> prefix ''BOOST_LIB_VERSION'' r" by (simp_all add: other_line_def r_def Let_def)
  have d: "drop 7 (l @ CHR 10 # t) = drop 7 l @ CHR 10 # t" using prefix_length_le [OF True] by simp
  show ?thesis
  proof (cases "drop 7 l")
    case Nil
    with r show ?thesis by (simp add: r_def)
  next
    case (Cons c cs)
    have seven: "length ''#define'' = 7" by simp
    have w: "skip_word ''#define'' (l @ CHR 10 # t) = Some (c # cs @ CHR 10 # t)"
      unfolding skip_word_def seven d Cons using True by (simp add: prefix_before_newline)
    show ?thesis
    proof (cases "is_space c")
      case True
      with Cons r(1) have "dropWhile is_space cs = r" by (simp add: r_def)
      with r(1) have "dropWhile is_space (cs @ CHR 10 # t) = r @ CHR 10 # t" using dropWhile_before by metis
      with True have "skip_spaces (c # cs @ CHR 10 # t) = Some (r @ CHR 10 # t)" by (simp add: skip_spaces_def)
      moreover have "skip_word ''BOOST_LIB_VERSION'' (r @ CHR 10 # t) = None"
        using r(2) by (simp add: skip_word_def prefix_before_newline)
      ultimately show ?thesis by (simp add: match_version_def w)
    next
      case False
      then show ?thesis by (simp add: match_version_def w skip_spaces_def)
    qed
  qed
qed

lemma search_inside_line:
  "CHR 10 \<notin> set l \<Longrightarrow> search_version False (l @ CHR 10 # t) = search_version True t"
  by (induction l) auto

lemma search_after_line: "other_line l \<Longrightarrow> search_version True (l @ CHR 10 # t) = search_version True t"
proof -
  assume l: "other_line l"
  then have n: "CHR 10 \<notin> set l" by (simp add: other_line_def)
  show ?thesis
  proof (cases l)
    case Nil
    then show ?thesis using match_other_line [OF l] by simp
  next
    case (Cons c cs)
    then show ?thesis using match_other_line [OF l, of t] n search_inside_line [of cs t] by auto
  qed
qed

lemma search_after_lines:
  "list_all other_line ls \<Longrightarrow> search_version True (concat (map (\<lambda>l. l @ [CHR 10]) ls) @ t) = search_version True t"
  by (induction ls) (simp_all add: search_after_line)

lemma dropWhile_blanks: "list_all is_space s \<Longrightarrow> c # cs = t \<Longrightarrow> \<not> is_space c \<Longrightarrow> dropWhile is_space (s @ t) = t"
  by (induction s) auto

lemma skip_blanks:
  "list_all is_space s \<Longrightarrow> s \<noteq> [] \<Longrightarrow> \<not> is_space c \<Longrightarrow> skip_spaces (s @ c # cs) = Some (c # cs)"
  by (cases s) (auto simp: skip_spaces_def dropWhile_blanks)

lemma quoted_line:
  assumes "CHR 10 \<notin> set v" "CHR 10 \<notin> set tail" "CHR 0x22 \<notin> set tail"
  shows "quoted (v @ CHR 0x22 # tail @ CHR 10 # t) = Some v"
proof -
  have "takeWhile (\<lambda>c. c \<noteq> CHR 10) (v @ CHR 0x22 # tail @ CHR 10 # t) = v @ CHR 0x22 # tail"
    using assms(1,2) by (simp add: takeWhile_append)
  moreover have "dropWhile (\<lambda>c. c \<noteq> CHR 0x22) (rev (v @ CHR 0x22 # tail)) = CHR 0x22 # rev v"
    using assms(3) by (simp add: dropWhile_append)
  ultimately show ?thesis by (simp add: quoted_def)
qed

text \<open>The version is the quoted text of the definition in the header, whatever the other lines define,
  read up to the last quote of its line.\<close>

theorem boost_version_correct:
  assumes "has_headers m d"
    and "version_file m d = Some (concat (map (\<lambda>l. l @ [CHR 10]) before) @
      ''#define'' @ s @ ''BOOST_LIB_VERSION'' @ s' @ CHR 0x22 # v @ CHR 0x22 # tail @ CHR 10 # after)"
    and "list_all other_line before" and "list_all is_space (s @ s')" and "s \<noteq> []" and "s' \<noteq> []"
    and "CHR 10 \<notin> set (v @ tail)" and "CHR 0x22 \<notin> set tail"
  shows "boost_get_version m d = v"
proof -
  define rest where "rest = CHR 0x22 # v @ CHR 0x22 # tail @ CHR 10 # after"
  have s: "list_all is_space s" "list_all is_space s'" using assms(4) by simp_all
  have "\<not> is_space (CHR ''B'')" "\<not> is_space (CHR 0x22)" by (simp_all add: is_space_def)
  with s assms(5,6) have skip: "skip_spaces (s @ ''BOOST_LIB_VERSION'' @ s' @ rest) = Some (''BOOST_LIB_VERSION'' @ s' @ rest)"
    "skip_spaces (s' @ rest) = Some rest"
    by (simp_all add: skip_blanks rest_def)
  have "match_version (''#define'' @ s @ ''BOOST_LIB_VERSION'' @ s' @ rest) = quoted (v @ CHR 0x22 # tail @ CHR 10 # after)"
    unfolding match_version_def by (simp add: skip_word_def skip [simplified]) (simp add: rest_def)
  also have "\<dots> = Some v" by (rule quoted_line) (use assms(7,8) in simp_all)
  finally have "search_version True (''#define'' @ s @ ''BOOST_LIB_VERSION'' @ s' @ rest) = Some v" by simp
  then have "search_version True (concat (map (\<lambda>l. l @ [CHR 10]) before) @ ''#define'' @ s @ ''BOOST_LIB_VERSION'' @ s' @ rest) = Some v"
    using search_after_lines [OF assms(3)] by simp
  with assms(1,2) show ?thesis by (simp add: boost_get_version_def rest_def)
qed

definition sample_machine :: machine where
  "sample_machine =
     \<lparr>version_file = (\<lambda>d. if d = ''/usr/include''
        then Some (concat (map (\<lambda>l. l @ [CHR 10]) [''// version'', ''#define BOOST_VERSION 105800'']) @
               ''#define'' @ '' '' @ ''BOOST_LIB_VERSION'' @ '' '' @ CHR 0x22 # ''1_58'' @ CHR 0x22 # [] @ CHR 10 # [])
        else None),
      compiled_version = (\<lambda>d. []), find_dir = (\<lambda>d. None), environ_include = [], environ_lib = [],
      build_platform = ''linux'', cxx_name = ''gcc'', cxx_program = ''g++'', cc_name = ''gcc'', shared_ext = ''.so'',
      static_ext = ''.a'', shared_empty = ''lib.so'', listdir = (\<lambda>d. [])\<rparr>"

theorem boost_version_correct_witness: "boost_get_version sample_machine ''/usr/include'' = ''1_58''"
proof (rule boost_version_correct)
  show "version_file sample_machine ''/usr/include'' = Some (concat (map (\<lambda>l. l @ [CHR 10]) [''// version'', ''#define BOOST_VERSION 105800'']) @
      ''#define'' @ '' '' @ ''BOOST_LIB_VERSION'' @ '' '' @ CHR 0x22 # ''1_58'' @ CHR 0x22 # [] @ CHR 10 # [])"
    by (simp add: sample_machine_def)
  show "has_headers sample_machine ''/usr/include''" by (simp add: has_headers_def sample_machine_def)
  show "list_all other_line [''// version'', ''#define BOOST_VERSION 105800'']" by code_simp
qed (simp_all add: is_space_def)

section \<open>The directory of the libraries\<close>

text \<open>Without a directory of the user the first directory is taken, of the environment variable and the usual
  ones, each also with 64 at its end, that has files of Boost. When none has, only the last one, \<open>/lib64\<close>,
  decides whether the search fails at once or goes on with no files.\<close>

theorem boost_libs_path_correct:
  "boost_get_libs_path m [] =
    (case find (\<lambda>d. find_dir m d \<notin> {None, Some []})
        (concat (map (\<lambda>d. [d, d @ ''64'']) (filter (\<lambda>d. d \<noteq> []) (split_on CHR '';'' (environ_lib m) @ BOOST_LIBS)))) of
       Some d \<Rightarrow> Return (d, the (find_dir m d))
     | None \<Rightarrow> if find_dir m ''/lib64'' = None then configuration_error else Return (''/lib64'', []))"
proof -
  let ?good = "\<lambda>d. find_dir m d \<notin> {None, Some []}"
  have loop: "libs_loop m ds found =
      (case find ?good (concat (map (\<lambda>d. [d, d @ ''64'']) (filter (\<lambda>d. d \<noteq> []) ds))) of
         Some d \<Rightarrow> Some (d, the (find_dir m d))
       | None \<Rightarrow> if filter (\<lambda>d. d \<noteq> []) ds = [] then found
                 else map_option (Pair (last (filter (\<lambda>d. d \<noteq> []) ds) @ ''64'')) (find_dir m (last (filter (\<lambda>d. d \<noteq> []) ds) @ ''64'')))"
    for ds found
    by (induction ds arbitrary: found) (auto split: option.splits list.splits)
  define ds where "ds = split_on CHR '';'' (environ_lib m) @ BOOST_LIBS"
  have l: "filter (\<lambda>d. d \<noteq> []) ds \<noteq> []" "last (filter (\<lambda>d. d \<noteq> []) ds) = ''/lib''"
    by (simp_all add: ds_def BOOST_LIBS_def)
  define found where "found = find ?good (concat (map (\<lambda>d. [d, d @ ''64'']) (filter (\<lambda>d. d \<noteq> []) ds)))"
  have last_empty: "find_dir m ''/lib64'' = Some files \<Longrightarrow> files = []" if "found = None" for files
  proof -
    have "''/lib64'' \<in> set (concat (map (\<lambda>d. [d, d @ ''64'']) (filter (\<lambda>d. d \<noteq> []) ds)))"
      by (auto simp: ds_def BOOST_LIBS_def intro!: bexI [of _ "''/lib''"])
    with that have "\<not> ?good ''/lib64''" by (auto simp: found_def find_None_iff simp del: set_concat)
    then show "find_dir m ''/lib64'' = Some files \<Longrightarrow> files = []" by simp
  qed
  show ?thesis
    unfolding boost_get_libs_path_def Let_def ds_def [symmetric] loop found_def [symmetric]
    using l last_empty by (cases found; cases "find_dir m ''/lib64''") auto
qed

section \<open>The files of the libraries\<close>

lemma match_here_prefix: "match_here (as @ bs) s \<Longrightarrow> match_here as s"
  by (induction as s rule: match_here.induct) (auto split: list.splits)

lemma re_search_prefix: "re_search (as @ bs) s \<Longrightarrow> re_search as s"
  by (induction s) (auto dest: match_here_prefix)

lemma search_prefix: "search_pattern (followed_by (p # ps)) s \<Longrightarrow> search_pattern p s"
  by (auto simp: search_pattern_def list_ex_iff dest: re_search_prefix)

text \<open>The file of the library is the greatest in the order of the names among those of the first pattern that has one.\<close>

definition best_match :: "string list \<Rightarrow> pattern list \<Rightarrow> string \<Rightarrow> bool" where
  "best_match files ps f \<longleftrightarrow>
     (\<exists>i < length ps. search_pattern (ps ! i) f \<and> f \<in> set files \<and>
        (\<forall>j < i. \<not> list_ex (search_pattern (ps ! j)) files) \<and>
        (\<forall>g \<in> set files. search_pattern (ps ! i) g \<longrightarrow> file_key g \<le> file_key f))"

lemma find_sorted:
  "sorted_wrt (\<lambda>a b. file_key b \<le> file_key a) xs \<Longrightarrow> find P xs = Some f \<Longrightarrow>
    P f \<and> f \<in> set xs \<and> (\<forall>g \<in> set xs. P g \<longrightarrow> file_key g \<le> file_key f)"
  by (induction xs) (auto split: if_splits)

lemma sorted_files: "sorted_wrt (\<lambda>a b. file_key b \<le> file_key a) (sort_files files)"
proof -
  have "sorted_wrt (\<lambda>a b. file_key a \<le> file_key b) (sort_key file_key (rev files))"
    using sorted_sort_key [of file_key "rev files"] by (simp add: sorted_map)
  then show ?thesis by (simp add: sort_files_def sorted_wrt_rev)
qed

lemma set_sort_files [simp]: "set (sort_files files) = set files"
  by (simp add: sort_files_def)

lemma find_lib_best:
  "find_lib (sort_files files) ps = Some f \<Longrightarrow> best_match files ps f"
proof (induction ps)
  case (Cons p ps)
  show ?case
  proof (cases "find (search_pattern p) (sort_files files)")
    case None
    then have "\<not> list_ex (search_pattern p) files" by (auto simp: find_None_iff list_ex_iff)
    moreover from None Cons have "best_match files ps f" by simp
    ultimately show ?thesis
      unfolding best_match_def
      by (elim exE conjE, intro exI [of _ "Suc i" for i]) (auto simp: nth_Cons split: nat.splits)
  next
    case (Some g)
    with Cons.prems have "f = g" by simp
    with find_sorted [OF sorted_files Some] show ?thesis
      unfolding best_match_def by (intro exI [of _ 0]) auto
  qed
qed simp

lemma find_lib_None: "find_lib files ps = None \<longleftrightarrow> (\<forall>p \<in> set ps. \<not> list_ex (search_pattern p) files)"
proof (induction ps)
  case (Cons p ps)
  have "find (search_pattern p) files = None \<longleftrightarrow> \<not> list_ex (search_pattern p) files"
    by (auto simp: find_None_iff list_ex_iff)
  with Cons show ?case by (cases "find (search_pattern p) files") simp_all
qed simp

lemma find_lib_laxest:
  "find_lib (sort_files files) (lib_patterns m ps tools version st lib) = None \<longleftrightarrow>
    \<not> list_ex (search_pattern (literally (''boost_'' @ lib))) files"
proof -
  let ?name = "literally (''boost_'' @ lib)"
  have "\<exists>qs. p = followed_by (?name # qs) \<or> p = ?name" if "p \<in> set (lib_patterns m ps tools version st lib)" for p
    using that unfolding lib_patterns_def Let_def by (simp only: list.set insert_iff empty_iff) blast
  then have "list_ex (search_pattern p) files \<Longrightarrow> list_ex (search_pattern ?name) files"
    if "p \<in> set (lib_patterns m ps tools version st lib)" for p
    using that search_prefix by (simp add: list_ex_iff) metis
  moreover have "?name \<in> set (lib_patterns m ps tools version st lib)" by (simp add: lib_patterns_def Let_def)
  ultimately show ?thesis unfolding find_lib_None list_ex_iff set_sort_files by blast
qed

text \<open>C32: each library gets, in order, the file of the strictest pattern that any file has, the longest one, and of
  those of this length the last of the alphabet, without prefix and extension. It fails for a library that is
  named in no file, with an IndexError for that of Python when no version of it is given; any file that only contains its name is taken in the end, so one for
  another version of Python too.\<close>

theorem match_libs_correct:
  "(case match_libs m ps tools version (sort_files files) st libs of
      Inl e \<Rightarrow> list_ex (\<lambda>lib. if lib = ''python'' \<and> p_python ps = [] then e = IndexError
          else Inl e = (configuration_error :: string list res) \<and> \<not> list_ex (search_pattern (literally (''boost_'' @ lib))) files) libs
    | Inr names \<Rightarrow>
        list_all (\<lambda>lib. list_ex (search_pattern (literally (''boost_'' @ lib))) files) libs \<and>
        list_all2 (\<lambda>lib name. \<exists>f. best_match files (lib_patterns m ps tools version st lib) f \<and> name = format_lib_name m f) libs names) \<and>
   match_libs sample_machine
     \<lparr>p_includes = [], p_libs = [], p_mt = False, p_abi = [], p_toolset = [], p_python = ''27'', p_autodetect = False,
      p_lib = [''python''], p_stlib = []\<rparr> ''gcc'' ''1_58'' (sort_files [''libboost_python-py35.so'']) False [''python''] =
     Return [''boost_python-py35'']"
proof
  show "case match_libs m ps tools version (sort_files files) st libs of
      Inl e \<Rightarrow> list_ex (\<lambda>lib. if lib = ''python'' \<and> p_python ps = [] then e = IndexError
          else Inl e = (configuration_error :: string list res) \<and> \<not> list_ex (search_pattern (literally (''boost_'' @ lib))) files) libs
    | Inr names \<Rightarrow>
        list_all (\<lambda>lib. list_ex (search_pattern (literally (''boost_'' @ lib))) files) libs \<and>
        list_all2 (\<lambda>lib name. \<exists>f. best_match files (lib_patterns m ps tools version st lib) f \<and> name = format_lib_name m f) libs names"
  proof (induction libs)
    case (Cons lib libs)
    let ?bad = "lib = ''python'' \<and> p_python ps = []"
    show ?case
    proof (cases "find_lib (sort_files files) (lib_patterns m ps tools version st lib)")
      case None
      then have "\<not> list_ex (search_pattern (literally (''boost_'' @ lib))) files"
        by (simp only: find_lib_laxest simp_thms)
      with None show ?thesis by (cases ?bad) auto
    next
      case (Some f)
      from find_lib_best [OF Some] have "best_match files (lib_patterns m ps tools version st lib) f" .
      moreover have "list_ex (search_pattern (literally (''boost_'' @ lib))) files"
        using Some find_lib_laxest [of files m ps tools version st lib] by (metis option.distinct(1))
      ultimately show ?thesis
        using Cons Some by (cases ?bad; cases "match_libs m ps tools version (sort_files files) st libs") auto
    qed
  qed simp
  show "match_libs sample_machine
     \<lparr>p_includes = [], p_libs = [], p_mt = False, p_abi = [], p_toolset = [], p_python = ''27'', p_autodetect = False,
      p_lib = [''python''], p_stlib = []\<rparr> ''gcc'' ''1_58'' (sort_files [''libboost_python-py35.so'']) False [''python''] =
     Return [''boost_python-py35'']"
    by code_simp
qed

end
