(* ===== verification/Experiments.thy ===== *)
theory Experiments
  imports Waf_Run Flow_Monitor
begin

text \<open>
  The scripts that start the simulations of this repository, \<open>multi-experiments.py\<close> and \<open>run-experiments.py\<close>:
  the parameters from the environment (which \<open>load_dotenv\<close> fills from \<open>.env\<close>), the command for each seed
  and the jobs given to the pool of processes. The pool and the shell are the system's; the shell
  splits these commands, whose only special characters are quotes, as \<open>shlex.split\<close> does.
\<close>

section \<open>Parameters\<close>

record sim_params =
  cores :: int
  users :: int
  rep :: int
  stop_time :: int
  adaptation_logic :: "string option"

definition load_params :: "(string \<Rightarrow> string option) \<Rightarrow> sim_params res" where
  "load_params getenv =
     bind_res (int_text (getenv ''cores'')) (\<lambda>c.
     bind_res (int_text (getenv ''Users'')) (\<lambda>u.
     bind_res (int_text (getenv ''Repetition'')) (\<lambda>r.
     bind_res (int_text (getenv ''StopTime'')) (\<lambda>t.
       Return \<lparr>cores = c, users = u, rep = r, stop_time = t, adaptation_logic = getenv ''AdaptationLogicToUse''\<rparr>))))"

section \<open>Commands\<close>

text \<open>What stands between the single quotes: the program line that \<open>waf --run\<close> gets.\<close>

definition scenario_line :: "sim_params \<Rightarrow> int \<Rightarrow> string" where
  "scenario_line p seed =
     ''binary-tree-scenario --stopTime='' @ str_of_int (stop_time p) @ '' --Client='' @ str_of_int (users p) @
     '' --seed='' @ str_of_int seed @ '' --HASLogic='' @ [double_quote] @ ''dash::player::'' @
     (case adaptation_logic p of None \<Rightarrow> ''None'' | Some q \<Rightarrow> q) @ [double_quote]"

definition start_simulation :: "sim_params \<Rightarrow> int \<Rightarrow> string" where
  "start_simulation p seed = ''./waf --run '' @ [single_quote] @ scenario_line p seed @ [single_quote]"

text \<open>\<open>main\<close> of \<open>multi-experiments.py\<close>: the jobs of the pool, in the order they are handed out. A pool needs a process.\<close>

definition pool_jobs :: "sim_params \<Rightarrow> string list res" where
  "pool_jobs p =
     (if cores p < 1 then Raise (ValueError ''Number of processes must be at least 1'')
      else Return (map (start_simulation p) (map int [0..<nat (rep p)])))"

definition multi_experiments :: "(string \<Rightarrow> string option) \<Rightarrow> string list res" where
  "multi_experiments getenv = bind_res (load_params getenv) pool_jobs"

text \<open>\<open>main\<close> of \<open>run-experiments.py\<close>: the commands run, and how it ends. The logic is a name that nothing defines.\<close>

definition run_experiments :: "string list \<times> unit res" where
  "run_experiments = ([], Raise (NameError ''RateAndBufferBasedAdaptationLogic''))"

section \<open>What runs\<close>

text \<open>The shell splits a command, and \<open>waf --run\<close> runs the program line.\<close>

definition run_by_waf :: "waf_settings \<Rightarrow> string \<Rightarrow> (string \<times> string list) waf" where
  "run_by_waf w command =
     bind_res (lift_py (shlex_split command)) (\<lambda>ws.
       if length ws = 3 \<and> take 2 ws = [''./waf'', ''--run''] then get_run_program w (ws ! 2) None
       else Raise (PyError (ValueError ''no program to run'')))"

lemma str_of_int_plain: "\<forall>c \<in> set (str_of_int i). \<not> shlex_space c \<and> \<not> shlex_quote_char c \<and> c \<noteq> backslash"
proof -
  have "\<not> shlex_space c \<and> \<not> shlex_quote_char c \<and> c \<noteq> backslash" if "is_digit c" for c
    using that by (auto simp: is_digit_def shlex_space_def shlex_quote_char_def)
  then show ?thesis
    using str_of_nat_digits by (auto simp: str_of_int_def shlex_space_def shlex_quote_char_def)
qed

lemma in_double_quotes:
  "double_quote \<notin> set s \<Longrightarrow> backslash \<notin> set s \<Longrightarrow>
    shlex_read (InQuotes double_quote) tok quoted (s @ double_quote # rest) = shlex_read InWord (tok @ s) True rest"
  by (induction s arbitrary: tok quoted) auto

lemma in_single_quotes:
  "single_quote \<notin> set s \<Longrightarrow>
    shlex_read (InQuotes single_quote) tok quoted (s @ single_quote # rest) = shlex_read InWord (tok @ s) True rest"
  by (induction s arbitrary: tok quoted) auto

text \<open>One argument of the program line: an option with a number behind it, followed by a blank.\<close>

lemma option_word:
  assumes "plain_word opt"
  shows "shlex_read Between tok quoted (opt @ str_of_int i @ '' '' @ rest) =
    bind_res (shlex_read Between [] False rest) (\<lambda>ts. Return ((opt @ str_of_int i) # ts))"
proof -
  obtain c cs where o: "opt = c # cs" using assms by (cases opt) (auto simp: plain_word_def)
  have p: "\<forall>x \<in> set (cs @ str_of_int i). \<not> shlex_space x \<and> \<not> shlex_quote_char x \<and> x \<noteq> backslash"
    using assms str_of_int_plain [of i] by (auto simp: plain_word_def o)
  have "shlex_read Between tok quoted (opt @ str_of_int i @ '' '' @ rest) =
      shlex_read InWord [c] False ((cs @ str_of_int i) @ '' '' @ rest)"
    using assms by (simp add: o plain_word_def)
  also have "\<dots> = shlex_read InWord ([c] @ (cs @ str_of_int i)) False ('' '' @ rest)"
    by (rule plain_chars [OF p])
  finally show ?thesis by (simp add: o shlex_space_def)
qed

definition simple_logic :: "string \<Rightarrow> bool" where
  "simple_logic q \<longleftrightarrow> list_all (\<lambda>c. c \<notin> {single_quote, double_quote, backslash}) q"

lemma split_scenario_line:
  assumes "adaptation_logic p = Some q" and "simple_logic q"
  shows "shlex_split (scenario_line p seed) = Return
    [''binary-tree-scenario'', ''--stopTime='' @ str_of_int (stop_time p), ''--Client='' @ str_of_int (users p),
     ''--seed='' @ str_of_int seed, ''--HASLogic=dash::player::'' @ q]"
proof -
  have q: "double_quote \<notin> set q" "backslash \<notin> set q" using assms(2) by (auto simp: simple_logic_def list_all_iff)
  have logic: "shlex_read Between [] False (''--HASLogic='' @ [double_quote] @ ''dash::player::'' @ q @ [double_quote]) =
      Return [''--HASLogic=dash::player::'' @ q]"
    using in_double_quotes [of "''dash::player::'' @ q" "''--HASLogic=''" False "[]"] q
    by (simp add: shlex_space_def shlex_quote_char_def)
  have plain: "plain_word ''--stopTime=''" "plain_word ''--Client=''" "plain_word ''--seed=''" by code_simp+
  have "scenario_line p seed = ''binary-tree-scenario'' @ '' '' @
      ''--stopTime='' @ str_of_int (stop_time p) @ '' '' @ ''--Client='' @ str_of_int (users p) @ '' '' @
      ''--seed='' @ str_of_int seed @ '' '' @ ''--HASLogic='' @ [double_quote] @ ''dash::player::'' @ q @ [double_quote]"
    by (simp add: scenario_line_def assms(1))
  moreover have "shlex_read Between [] False (''binary-tree-scenario'' @ '' '' @ rest) =
      bind_res (shlex_read Between [] False rest) (\<lambda>ts. Return (''binary-tree-scenario'' # ts))" for rest
    by (simp add: shlex_space_def shlex_quote_char_def)
  ultimately show ?thesis
    unfolding shlex_split_def by (simp only: option_word [OF plain(1)] option_word [OF plain(2)] option_word [OF plain(3)]
        logic bind_res_simps)
qed

lemma split_command:
  assumes "adaptation_logic p = Some q" and "simple_logic q"
  shows "shlex_split (start_simulation p seed) = Return [''./waf'', ''--run'', scenario_line p seed]"
proof -
  have "single_quote \<notin> set (str_of_int i)" for i
    using str_of_int_plain [of i] by (auto simp: shlex_quote_char_def)
  moreover have "single_quote \<notin> set q" using assms(2) by (auto simp: simple_logic_def list_all_iff)
  ultimately have "single_quote \<notin> set (scenario_line p seed)" by (simp add: scenario_line_def assms(1))
  from in_single_quotes [OF this, of "[]" False "[]"] show ?thesis
    unfolding shlex_split_def start_simulation_def by (simp add: shlex_space_def shlex_quote_char_def)
qed

text \<open>C31: the pool gets one job for each seed below the number of repetitions, in order, and each job runs the
  program of the scenario with the duration, the number of users and the logic of the environment and
  its own seed, each as one argument.\<close>

theorem experiments_correct:
  assumes "load_params getenv = Return p" and "1 \<le> cores p" and "adaptation_logic p = Some q" and "simple_logic q"
    and "find_program w ''binary-tree-scenario'' = Return obj"
  shows "\<exists>jobs. multi_experiments getenv = Return jobs \<and>
    map (run_by_waf w) jobs =
      map (\<lambda>seed. Return (''binary-tree-scenario'',
             [gen_target obj, ''--stopTime='' @ str_of_int (stop_time p), ''--Client='' @ str_of_int (users p),
              ''--seed='' @ str_of_int (int seed), ''--HASLogic=dash::player::'' @ q])) [0..<nat (rep p)]"
proof -
  have "run_by_waf w (start_simulation p seed) = Return (''binary-tree-scenario'',
      [gen_target obj, ''--stopTime='' @ str_of_int (stop_time p), ''--Client='' @ str_of_int (users p),
       ''--seed='' @ str_of_int seed, ''--HASLogic=dash::player::'' @ q])" for seed
    using assms(5) by (simp add: run_by_waf_def split_command [OF assms(3,4)] split_scenario_line [OF assms(3,4)]
        get_run_program_def lift_py_def py_nth_def)
  moreover have "multi_experiments getenv = Return (map (start_simulation p) (map int [0..<nat (rep p)]))"
    using assms(1,2) by (simp add: multi_experiments_def pool_jobs_def)
  ultimately show ?thesis by (simp add: o_def)
qed

definition sample_env_file :: "string \<Rightarrow> string option" where
  "sample_env_file = map_of [(''cores'', ''4''), (''Users'', ''15''), (''Repetition'', ''2''), (''StopTime'', ''600''),
     (''AdaptationLogicToUse'', ''RateBasedAdaptationLogic'')]"

definition scenario_settings :: waf_settings where
  "scenario_settings = sample_settings\<lparr>targets :=
     [\<lparr>gen_name = ''binary-tree-scenario'', is_ns3_program = True, gen_path = ''/s/scratch'',
       gen_build_path = ''/s/b/scratch'', gen_target = ''/s/b/scratch/binary-tree-scenario''\<rparr>]\<rparr>"

theorem experiments_correct_witness:
  "\<exists>jobs. multi_experiments sample_env_file = Return jobs \<and> length jobs = 2 \<and>
     run_by_waf scenario_settings (jobs ! 1) = Return (''binary-tree-scenario'',
       [''/s/b/scratch/binary-tree-scenario'', ''--stopTime=600'', ''--Client=15'', ''--seed=1'',
        ''--HASLogic=dash::player::RateBasedAdaptationLogic''])"
proof -
  define p where "p = \<lparr>cores = 4, users = 15, rep = 2, stop_time = 600,
    adaptation_logic = Some ''RateBasedAdaptationLogic''\<rparr>"
  have "load_params sample_env_file = Return p" unfolding p_def by code_simp
  moreover have "simple_logic ''RateBasedAdaptationLogic''" by code_simp
  moreover have "find_program scenario_settings ''binary-tree-scenario'' = Return
     \<lparr>gen_name = ''binary-tree-scenario'', is_ns3_program = True, gen_path = ''/s/scratch'',
       gen_build_path = ''/s/b/scratch'', gen_target = ''/s/b/scratch/binary-tree-scenario''\<rparr>" by code_simp
  ultimately obtain jobs where j: "multi_experiments sample_env_file = Return jobs"
    "map (run_by_waf scenario_settings) jobs = map (\<lambda>seed. Return (''binary-tree-scenario'',
       [''/s/b/scratch/binary-tree-scenario'', ''--stopTime='' @ str_of_int 600, ''--Client='' @ str_of_int 15,
        ''--seed='' @ str_of_int (int seed), ''--HASLogic=dash::player::RateBasedAdaptationLogic''])) [0, 1]"
    using experiments_correct [of sample_env_file p "''RateBasedAdaptationLogic''" scenario_settings]
    by (auto simp: p_def upt_rec)
  then have "length jobs = 2" by (metis length_Cons length_map list.size(3) numeral_2_eq_2)
  then obtain a b where "jobs = [a, b]" by (metis length_0_conv length_Suc_conv numeral_2_eq_2)
  moreover have "str_of_int 600 = ''600''" "str_of_int 15 = ''15''" "str_of_int 1 = ''1''" by code_simp+
  ultimately show ?thesis using j by simp
qed

end
