(* ===== verification/Tool_Tests.thy ===== *)
theory Tool_Tests
  imports Flow_Monitor
begin

text \<open>
  The tests of the build tools, \<open>utils/tests\<close>: \<open>TestBase.py\<close> runs a list of shell commands and counts those
  that succeed, \<open>test-waf.py\<close> and \<open>test-test.py\<close> make the lists. What a command answers is an argument;
  the output is the list of the texts printed.
\<close>

section \<open>Running the cases\<close>

text \<open>\<open>s.replace(old, new)\<close> for a text \<open>old\<close> that is not empty.\<close>

function str_replace :: "string \<Rightarrow> string \<Rightarrow> string \<Rightarrow> string" where
  "str_replace old new s =
     (if s = [] then []
      else if old \<noteq> [] \<and> prefix old s then new @ str_replace old new (drop (length old) s)
      else hd s # str_replace old new (tl s))"
  by pat_completeness auto
termination
  by (relation "measure (\<lambda>(old, new, s). length s)") auto

declare str_replace.simps [simp del]

record tool_options =
  list_only :: bool
  mute :: bool
  out_file :: string

record tool_run =
  printed :: "string list"
  called :: "string list"
  passed :: nat
  done_cases :: nat
  final_return :: int
  failed_cases :: "string list"

definition progress_line :: "nat \<Rightarrow> nat \<Rightarrow> nat \<Rightarrow> string" where
  "progress_line ok total_tests progress =
     ''[ '' @ str_of_nat ok @ '' out of '' @ str_of_nat total_tests @ '' ] test cases passed; Progress = '' @
     format_hundredths (of_nat progress * 100 / of_nat total_tests) @ ''% '' @ [CHR 10]"

definition run_case :: "string \<Rightarrow> (string \<Rightarrow> int) \<Rightarrow> nat \<Rightarrow> string \<Rightarrow> tool_run \<Rightarrow> tool_run" where
  "run_case python call total_tests cmd r =
     (let case_string = str_replace python [] cmd;
          r = r\<lparr>printed := printed r @ [''running test case: '' @ case_string], done_cases := done_cases r + 1,
                called := called r @ [cmd]\<rparr>;
          r = (if call cmd = 0 then r\<lparr>passed := passed r + 1\<rparr>
               else r\<lparr>final_return := 1, failed_cases := failed_cases r @ [case_string]\<rparr>)
      in r\<lparr>printed := printed r @ [progress_line (passed r) total_tests (done_cases r)]\<rparr>)"

text \<open>\<open>runtests\<close>: what has been printed, the commands called, and the value, None when
  the commands are only listed.\<close>

definition runtests ::
  "string \<Rightarrow> (string \<Rightarrow> int) \<Rightarrow> tool_options \<Rightarrow> string list \<Rightarrow> string list \<times> string list \<times> int option" where
  "runtests python call opts cmds =
     (if list_only opts then (''Commands to be executed:'' # map (str_replace python []) cmds, [], None)
      else
        (let r = fold (run_case python call (length cmds)) cmds
                   \<lparr>printed = [], called = [], passed = 0, done_cases = 0, final_return = 0, failed_cases = []\<rparr>
         in (printed r @
               (if final_return r \<noteq> 0 then ([CHR 10] @ ''Failed Cases:'') # failed_cases r
                else [[CHR 10] @ ''All cases passed'']) @
               [''Detailed output available in '' @ out_file opts @ [CHR 10]],
             called r, Some (final_return r))))"

text \<open>\<open>set_workdir\<close>: whether it goes two directories up; \<open>files\<close> are the files here, and
  \<open>here\<close> and \<open>parent\<close> the names of this directory and its parent.\<close>

definition set_workdir :: "string list \<Rightarrow> string \<Rightarrow> string \<Rightarrow> bool res" where
  "set_workdir files here parent =
     (if ''VERSION'' \<notin> set files \<and> ''waf'' \<notin> set files
      then (if here = ''tests'' \<and> parent = ''utils'' then Return True else Raise (SystemExit 1))
      else Return False)"

section \<open>The lists of commands\<close>

text \<open>\<open>replace\<close> of \<open>test-waf.py\<close>.\<close>

definition replace_all :: "string option \<Rightarrow> string option \<Rightarrow> string list \<Rightarrow> string list" where
  "replace_all pre post main_cmd_list =
     (let pre = (case pre of Some p \<Rightarrow> if p \<noteq> [] then p @ '' && '' else [] | None \<Rightarrow> []);
          post = (case post of Some p \<Rightarrow> if p \<noteq> [] then '' && '' @ p else [] | None \<Rightarrow> [])
      in map (\<lambda>main_cmd. pre @ main_cmd @ post) main_cmd_list)"

definition config_test_cases :: "string list" where
  "config_test_cases =
     [''--enable-gcov'', ''--enable-sudo'', ''--enable-sudo'', ''--enable-tests'', ''--disable-tests'',
      ''--enable-examples'', ''--disable-examples'', ''--doxygen-no-build'', ''--enable-static'',
      ''--enable-mpi'', ''--enable-rpath'', ''--enable-modules=build/utils/test-runner.cc.1.o'',
      ''--boost-static'', ''--boost-mt'', ''--boost-linkage_autodetect'', ''--boost-python=33'',
      ''--disable-gtk'', ''--int64x64=cairo'', ''--disable-pthread'', ''--force-planetlab'', ''--nopyc'',
      ''--nopyo'', ''--disable-python'', ''--apiscan=all'', ''--with-python=/usr/bin/python2.7'',
      ''-o test_out && rm -rf test_out'', ''--out=test_out && rm -rf test_out'',
      ''-t test_top && rm -rf test_top'', ''--top=test_top && rm -rf test_top'', ''--download'',
      ''--check-c-compiler=gc'', ''--check-cxx-compiler=g++'']"

definition basic_test_cases :: "string list" where
  "basic_test_cases =
     [''--version'', ''-h'', ''--help'']"

definition build_test_cases :: "string list" where
  "build_test_cases =
     [''-j10'', ''--jobs=10'', ''-d optimized'', ''-d debug'', ''-d release'', ''--build-profile optimized'',
      ''--build-profile debug'', ''--build-profile release'', ''-p'', ''--progress'']"

definition step_test_cases :: "string list" where
  "step_test_cases =
     [''--files='' @ [CHR 0x22] @ ''*/main.c,*/test/main.o'' @ [CHR 0x22]]"

definition install_test_cases :: "string list" where
  "install_test_cases =
     [''-f'', ''--force'', ''--prefix=./test-prefix && rm -rf ./test-prefix'', ''--exec-prefix=.'',
      ''--bindir=./test-prefix/bin --sbindir=./test-prefix/sbin '' @
       ''--libexecdir=./test-prefix/libexec --sysconfdir=./test-prefix/etc '' @
       ''--sharedstatedir=./test-prefix/com --localstatedir=./test-prefix/var --libdir=./test-prefix/lib '' @
       ''--includedir=./test-prefix/include --oldincludedir=./test-prefix/usr/include --datarootdir=./test-prefix/share '' @
       ''--datadir=./test-prefix/share_root --infodir=./test-prefix/info --localedir=./test-prefix/locale '' @
       ''--mandir=./test-prefix/man --docdir=./test-prefix/doc/package --htmldir=./test-prefix/doc '' @
       ''--dvidir=./test-prefix/doc --pdfdir=./test-prefix/doc --psdir=./test-prefix/doc && rm -rf ./test-prefix'']"

definition common_test_cases :: "string list" where
  "common_test_cases =
     [[], ''-k'', ''--keep'', ''-v'', ''--verbose'', ''--nocache'', ''--zones=task_gen'', ''--zones=deps'',
      ''--zones=tasks'', ''--no-task-lines'']"

definition test_case_mappings :: "(string \<times> string list) list" where
  "test_case_mappings =
     [(''basic'', basic_test_cases), (''configure'', config_test_cases), (''build'', build_test_cases),
      (''step'', step_test_cases), (''install'', install_test_cases)]"

text \<open>What a command of waf is wrapped in.\<close>

definition wrapping :: "string \<Rightarrow> string \<Rightarrow> (string option \<times> string option) option" where
  "wrapping waf cmd =
     (if cmd = ''build'' then Some (Some (waf @ '' configure''), Some (waf @ '' clean''))
      else if cmd = ''configure'' then Some (None, Some (waf @ '' distclean''))
      else if cmd = ''distcheck'' then Some (Some (waf @ '' dist''), Some ''rm -rf ns-3*.tar.bz2'')
      else if cmd = ''docs'' then Some (Some (waf @ '' configure''), Some (waf @ '' distclean''))
      else if cmd = ''install'' then Some (Some (waf @ '' configure''), Some (waf @ '' uninstall''))
      else if cmd = ''list'' then Some (Some (waf @ '' configure''), Some (waf @ '' distclean''))
      else if cmd = ''shell'' then Some (Some (waf @ '' configure''), Some (waf @ '' distclean''))
      else if cmd = ''step'' then Some (Some (waf @ '' configure''), Some (waf @ '' distclean''))
      else if cmd = ''uninstall'' then Some (Some (waf @ '' install''), None)
      else None)"

definition commands_for :: "string \<Rightarrow> string \<Rightarrow> string list" where
  "commands_for python cmd =
     (let waf = python @ '' waf'';
          line = (\<lambda>option. waf @ '' '' @ cmd @ '' '' @ option);
          cmds = (if cmd = ''basic'' then [] else map line common_test_cases);
          cmds = cmds @ (case map_of test_case_mappings cmd of None \<Rightarrow> [] | Some options \<Rightarrow> map line options);
          cmds = (if cmd = ''basic''
                  then cmds @ [waf @ '' configure && '' @ waf @ '' build && '' @ waf @ '' --run scratch/myfirst'',
                               waf @ '' configure && '' @ waf @ '' build && '' @ waf @ '' --pyrun scratch/myfirst.py'']
                  else cmds);
          cmds = (case wrapping waf cmd of None \<Rightarrow> cmds | Some (pre, post) \<Rightarrow> replace_all pre post cmds)
      in if cmd = ''build''
         then cmds @ [waf @ '' configure --enable-gcov && '' @ waf @ '' build --lcov-report && '' @ waf @ '' clean''] else cmds)"

definition waf_commands :: "string \<Rightarrow> string option \<Rightarrow> string list" where
  "waf_commands python custcmd =
     (let cmds = (case custcmd of
            Some c \<Rightarrow> if c \<noteq> [] then split_on CHR '','' c
                      else [''basic'', ''build'', ''configure'', ''step'', ''clean'', ''dist'', ''list'']
          | None \<Rightarrow> [''basic'', ''build'', ''configure'', ''step'', ''clean'', ''dist'', ''list''])
      in concat (map (commands_for python) cmds))"

text \<open>The cases of \<open>test-test.py\<close>; a comma is missing after the one with \<open>--fullness\<close>, which runs into the next.\<close>

definition test_py_cases :: "string list" where
  "test_py_cases =
     [[], ''-h'', ''--help'', ''-b build/'', ''--buildpath=build/'', ''-c performance'',
      ''--constrain=performance'', ''-d'', ''--duration'', ''-e socket-options-ipv6'',
      ''--example=socket-options-ipv6'', ''-u'', ''--update-data'', ''-f EXTENSIVE --fullness=EXTENSIVE-g'',
      ''--grind'', ''-l'', ''--list'', ''-m'', ''--multiple'', ''-n'', ''--nowaf'', ''-p first'',
      ''--pyexample=first'', ''-r'', ''--retain'', ''-s ns3-tcp-interoperability'',
      ''--suite=ns3-tcp-interoperability'', ''-t t_opt.txt'', ''--text=t_opt.txt && rm -rf t_opt.txt'', ''-v'',
      ''--verbose'', ''-w t_opt.html && rm -rf t_opt.html'', ''--web=t_opt.html && rm -rf t_opt.html'',
      ''--html=t_opt.html && rm -rf t_opt.html'', ''-x t_opt.xml && rm -rf t_opt.xml'',
      ''--xml=t_opt.xml && rm -rf t_opt.xml'']"

definition test_py_commands :: "string \<Rightarrow> string list" where
  "test_py_commands python =
     map (\<lambda>option. python @ '' waf configure --enable-tests --enable-examples && '' @ python @ '' test.py '' @ option @
                     '' && '' @ python @ '' waf clean'') test_py_cases"

section \<open>What the test runner reports\<close>

definition case_text :: "string \<Rightarrow> (string \<Rightarrow> int) \<Rightarrow> nat \<Rightarrow> string list \<Rightarrow> nat \<Rightarrow> string list" where
  "case_text python call n cmds k =
     [''running test case: '' @ str_replace python [] (cmds ! k),
      progress_line (length (filter (\<lambda>c. call c = 0) (take (k + 1) cmds))) n (k + 1)]"

definition case_texts :: "string \<Rightarrow> (string \<Rightarrow> int) \<Rightarrow> nat \<Rightarrow> string list \<Rightarrow> string list" where
  "case_texts python call n cmds = concat (map (case_text python call n cmds) [0..<length cmds])"

lemma case_texts_snoc:
  "case_texts python call n (cmds @ [cmd]) =
    case_texts python call n cmds @
      [''running test case: '' @ str_replace python [] cmd,
       progress_line (length (filter (\<lambda>c. call c = 0) (cmds @ [cmd]))) n (length cmds + 1)]"
proof -
  have "map (case_text python call n (cmds @ [cmd])) [0..<length cmds] = map (case_text python call n cmds) [0..<length cmds]"
    by (rule map_cong) (auto simp: case_text_def nth_append)
  moreover have "case_text python call n (cmds @ [cmd]) (length cmds) =
      [''running test case: '' @ str_replace python [] cmd,
       progress_line (length (filter (\<lambda>c. call c = 0) (cmds @ [cmd]))) n (length cmds + 1)]"
    by (simp add: case_text_def)
  ultimately show ?thesis unfolding case_texts_def by (simp del: map_eq_conv)
qed

lemma run_cases:
  "fold (run_case python call n) cmds
      \<lparr>printed = [], called = [], passed = 0, done_cases = 0, final_return = 0, failed_cases = []\<rparr> =
    \<lparr>printed = case_texts python call n cmds, called = cmds, passed = length (filter (\<lambda>c. call c = 0) cmds),
     done_cases = length cmds, final_return = (if list_all (\<lambda>c. call c = 0) cmds then 0 else 1),
     failed_cases = map (str_replace python []) (filter (\<lambda>c. call c \<noteq> 0) cmds)\<rparr>"
proof (induction cmds rule: rev_induct)
  case Nil
  then show ?case by (simp add: case_texts_def)
next
  case (snoc cmd cmds)
  then show ?case by (simp add: run_case_def case_texts_snoc Let_def)
qed

text \<open>Every command is run once, in order, whether or not those before it have failed, and the value is 0
  exactly when all have succeeded. The progress counts the successes so far, and the failed commands are
  listed in order. When the commands are only listed none is run.\<close>

theorem runtests_correct:
  "runtests python call opts cmds =
    (if list_only opts then (''Commands to be executed:'' # map (str_replace python []) cmds, [], None)
     else (case_texts python call (length cmds) cmds @
             (if list_all (\<lambda>c. call c = 0) cmds then [[CHR 10] @ ''All cases passed'']
              else ([CHR 10] @ ''Failed Cases:'') # map (str_replace python []) (filter (\<lambda>c. call c \<noteq> 0) cmds)) @
             [''Detailed output available in '' @ out_file opts @ [CHR 10]],
           cmds, Some (if list_all (\<lambda>c. call c = 0) cmds then 0 else 1)))"
  by (simp add: runtests_def run_cases Let_def)

end
