(* ===== verification/Waf_Misc.thy ===== *)
theory Waf_Misc
  imports Waf_Run Shellcmd
begin

text \<open>
  The tools of \<open>waf-tools/misc.py\<close>: the copy of a file, the substitution of \<open>@NAME@\<close> in \<open>.in\<close> files, and
  tasks that run a command of the build (\<open>command-output\<close>). The file system of waf is a record of
  search functions; a dict that tasks share is passed from one to the next.
\<close>

section \<open>Substitution\<close>

text \<open>The match of \<open>@(\w+)@\<close> after the first sign: the name and the rest.\<close>

definition match_name :: "string \<Rightarrow> (string \<times> string) option" where
  "match_name s =
     (let w = takeWhile is_word s; r = dropWhile is_word s
      in if w \<noteq> [] \<and> r \<noteq> [] \<and> hd r = CHR ''@'' then Some (w, tl r) else None)"

lemma match_name_shorter: "match_name s = Some (w, r) \<Longrightarrow> length r < length s"
  using length_dropWhile_le [of is_word s]
  by (cases "dropWhile is_word s") (auto simp: match_name_def Let_def split: if_splits)

text \<open>\<open>m4_re.sub\<close> and \<open>m4_re.findall\<close>.\<close>

function m4_sub :: "string \<Rightarrow> string" where
  "m4_sub [] = []"
| "m4_sub (c # cs) =
     (case (if c = CHR ''@'' then match_name cs else None) of
        Some (w, r) \<Rightarrow> ''%('' @ w @ '')s'' @ m4_sub r
      | None \<Rightarrow> c # m4_sub cs)"
  by pat_completeness auto
termination
  by (relation "measure length") (auto dest!: match_name_shorter split: if_splits)

function m4_names :: "string \<Rightarrow> string list" where
  "m4_names [] = []"
| "m4_names (c # cs) =
     (case (if c = CHR ''@'' then match_name cs else None) of
        Some (w, r) \<Rightarrow> w # m4_names r
      | None \<Rightarrow> m4_names cs)"
  by pat_completeness auto
termination
  by (relation "measure length") (auto dest!: match_name_shorter split: if_splits)

definition double_percents :: "string \<Rightarrow> string" where
  "double_percents s = concat (map (\<lambda>c. if c = CHR ''%'' then ''%%'' else [c]) s)"

text \<open>The operator \<open>%\<close> with a dict on the right.\<close>

function dict_format :: "(string \<Rightarrow> string option) \<Rightarrow> string \<Rightarrow> string res" where
  "dict_format d [] = Return []"
| "dict_format d (c # cs) =
     (if c \<noteq> CHR ''%'' then bind_res (dict_format d cs) (\<lambda>s. Return (c # s))
      else
        (case cs of
           [] \<Rightarrow> Raise (ValueError ''incomplete format'')
         | x # xs \<Rightarrow>
             if x = CHR ''%'' then bind_res (dict_format d xs) (\<lambda>s. Return (x # s))
             else if x = CHR ''('' then
               (let name = takeWhile (\<lambda>c. c \<noteq> CHR '')'') xs; r = dropWhile (\<lambda>c. c \<noteq> CHR '')'') xs
                in if r \<noteq> [] \<and> tl r \<noteq> [] \<and> hd (tl r) = CHR ''s'' then
                     (case d name of
                        None \<Rightarrow> Raise KeyError
                      | Some v \<Rightarrow> bind_res (dict_format d (tl (tl r))) (\<lambda>s. Return (v @ s)))
                   else Raise (ValueError ''unsupported format character''))
             else Raise (ValueError ''unsupported format character'')))"
  by pat_completeness auto
termination
proof (relation "measure (length \<circ> snd)", goal_cases)
  case (4 d c cs x xs name r v)
  have "length r \<le> length xs" using 4(6) by (simp add: length_dropWhile_le)
  with 4 show ?case by (cases r) auto
qed auto

text \<open>\<open>env.get_flat(i) or env.get_flat(i.upper())\<close>\<close>

definition flat_value :: "(string \<Rightarrow> string) \<Rightarrow> string \<Rightarrow> string" where
  "flat_value get_flat i = (if get_flat i \<noteq> [] then get_flat i else get_flat (to_upper i))"

text \<open>\<open>subst_func\<close>: the dict of the task, which is that of its generator, after it, and the text written.\<close>

definition subst_func ::
  "(string \<Rightarrow> string) \<Rightarrow> (string \<times> string) list \<Rightarrow> string \<Rightarrow> (string \<times> string) list \<times> string res" where
  "subst_func get_flat di code =
     (let code = double_percents code; s = m4_sub code;
          di = (if di = [] then fold (\<lambda>i. AList.update i (flat_value get_flat i)) (m4_names code) di else di)
      in (di, dict_format (map_of di) s))"

text \<open>The tasks of \<open>apply_subst\<close>, one for each source, with one dict.\<close>

fun run_substs :: "(string \<Rightarrow> string) \<Rightarrow> (string \<times> string) list \<Rightarrow> string list \<Rightarrow> string res list" where
  "run_substs get_flat di [] = []"
| "run_substs get_flat di (code # codes) =
     (case subst_func get_flat di code of (di, r) \<Rightarrow> r # run_substs get_flat di codes)"

section \<open>What is written\<close>

function expand :: "(string \<Rightarrow> string option) \<Rightarrow> string \<Rightarrow> string res" where
  "expand d [] = Return []"
| "expand d (c # cs) =
     (case (if c = CHR ''@'' then match_name cs else None) of
        Some (w, r) \<Rightarrow>
          (case d w of None \<Rightarrow> Raise KeyError | Some v \<Rightarrow> bind_res (expand d r) (\<lambda>s. Return (v @ s)))
      | None \<Rightarrow> bind_res (expand d cs) (\<lambda>s. Return (c # s)))"
  by pat_completeness auto
termination
  by (relation "measure (length \<circ> snd)") (auto dest!: match_name_shorter split: if_splits)

lemma word_not_percent: "is_word c \<Longrightarrow> c \<noteq> CHR ''%'' \<and> c \<noteq> CHR '')''"
  by (auto simp: is_word_def is_digit_def)

lemma match_name_word: "match_name s = Some (w, r) \<Longrightarrow> \<forall>c \<in> set w. is_word c"
  by (auto simp: match_name_def Let_def dest: set_takeWhileD split: if_splits)

lemma double_percents_Nil: "double_percents [] = []"
  by (simp add: double_percents_def)

lemma double_percents_Cons:
  "double_percents (c # s) = (if c = CHR ''%'' then CHR ''%'' # CHR ''%'' # double_percents s else c # double_percents s)"
  by (simp add: double_percents_def)

lemma take_word_doubled:
  "takeWhile is_word (double_percents s) = takeWhile is_word s"
  "dropWhile is_word (double_percents s) = double_percents (dropWhile is_word s)"
proof -
  have p: "\<not> is_word (CHR ''%'')" using word_not_percent by blast
  show "takeWhile is_word (double_percents s) = takeWhile is_word s"
    by (induction s) (simp_all add: double_percents_Cons p, simp add: double_percents_def)
  show "dropWhile is_word (double_percents s) = double_percents (dropWhile is_word s)"
    by (induction s) (simp_all add: double_percents_Cons p, simp add: double_percents_def)
qed

lemma match_name_doubled:
  "match_name (double_percents s) = map_option (\<lambda>(w, r). (w, double_percents r)) (match_name s)"
proof (cases "dropWhile is_word s")
  case Nil
  then show ?thesis by (simp add: match_name_def take_word_doubled double_percents_Nil Let_def del: dropWhile_eq_Nil_conv)
next
  case (Cons c cs)
  then show ?thesis by (simp add: match_name_def take_word_doubled Let_def double_percents_Cons)
qed

lemma names_doubled: "m4_names (double_percents s) = m4_names s"
proof (induction s rule: m4_names.induct)
  case 1
  then show ?case by (simp add: double_percents_def)
next
  case (2 c cs)
  show ?case
  proof (cases "if c = CHR ''@'' then match_name cs else None")
    case None
    with 2 show ?thesis by (auto simp: double_percents_Cons match_name_doubled split: if_splits)
  next
    case (Some wr)
    obtain w r where wr: "wr = (w, r)" by (cases wr)
    with 2 Some show ?thesis by (auto simp: double_percents_Cons match_name_doubled split: if_splits)
  qed
qed

lemma format_name:
  assumes "\<forall>c \<in> set w. c \<noteq> CHR '')''"
  shows "dict_format d (''%('' @ w @ '')s'' @ t) =
    (case d w of None \<Rightarrow> Raise KeyError | Some v \<Rightarrow> bind_res (dict_format d t) (\<lambda>s. Return (v @ s)))"
proof -
  have "takeWhile (\<lambda>c. c \<noteq> CHR '')'') (w @ '')s'' @ t) = w"
    "dropWhile (\<lambda>c. c \<noteq> CHR '')'') (w @ '')s'' @ t) = '')s'' @ t"
    using assms by (simp_all add: takeWhile_append2 dropWhile_append2)
  then show ?thesis by (simp add: Let_def split: option.split)
qed

lemma format_substituted: "dict_format d (m4_sub (double_percents s)) = expand d s"
proof (induction s rule: m4_names.induct)
  case 1
  then show ?case by (simp add: double_percents_def)
next
  case (2 c cs)
  show ?case
  proof (cases "if c = CHR ''@'' then match_name cs else None")
    case None
    with 2 show ?thesis by (auto simp: double_percents_Cons match_name_doubled split: if_splits)
  next
    case (Some wr)
    obtain w r where wr: "wr = (w, r)" by (cases wr)
    with Some have c: "c = CHR ''@''" "match_name cs = Some (w, r)" by (simp_all split: if_splits)
    have "\<forall>x \<in> set w. x \<noteq> CHR '')''" using match_name_word [OF c(2)] word_not_percent by blast
    from format_name [OF this] have "dict_format d (''%('' @ w @ '')s'' @ m4_sub (double_percents r)) =
        (case d w of None \<Rightarrow> Raise KeyError
         | Some v \<Rightarrow> bind_res (dict_format d (m4_sub (double_percents r))) (\<lambda>s. Return (v @ s)))" .
    moreover have "m4_sub (double_percents (c # cs)) = ''%('' @ w @ '')s'' @ m4_sub (double_percents r)"
      using c by (simp add: double_percents_Cons match_name_doubled)
    moreover have "dict_format d (m4_sub (double_percents r)) = expand d r" using 2(2) Some wr by simp
    ultimately show ?thesis using c by (simp del: dict_format.simps split: option.split)
  qed
qed

lemma expand_cong: "(\<And>n. n \<in> set (m4_names s) \<Longrightarrow> d n = e n) \<Longrightarrow> expand d s = expand e s"
proof (induction s rule: m4_names.induct)
  case (2 c cs)
  show ?case
  proof (cases "if c = CHR ''@'' then match_name cs else None")
    case None
    with 2 show ?thesis by auto
  next
    case (Some wr)
    obtain w r where wr: "wr = (w, r)" by (cases wr)
    with Some 2(3) have n: "d w = e w" "\<And>n. n \<in> set (m4_names r) \<Longrightarrow> d n = e n" by simp_all
    from 2(2) [OF Some wr [symmetric]] n(2) have "expand d r = expand e r" by blast
    with Some wr n(1) show ?thesis by (simp split: option.split)
  qed
qed simp

lemma filled_dict:
  "map_of (fold (\<lambda>i. AList.update i (f i)) ns di) n = (if n \<in> set ns then Some (f n) else map_of di n)"
  by (induction ns arbitrary: di) (auto simp: update_conv')

text \<open>C33: a file is written with each \<open>@NAME@\<close> replaced by its value in the given dict, a KeyError for a name that is not
  in it, and everything else, percent signs too, as it is. Without a dict the values are those of the
  environment; but the dict that is made for the first file with names is shared, so every other name in a
  later file is a KeyError.\<close>

theorem subst_correct:
  "run_substs get_flat di (code # codes) =
    (if di \<noteq> [] then map (expand (map_of di)) (code # codes)
     else expand (\<lambda>n. Some (flat_value get_flat n)) code #
       (if m4_names code = [] then run_substs get_flat [] codes
        else map (expand (\<lambda>n. if n \<in> set (m4_names code) then Some (flat_value get_flat n) else None)) codes))"
proof -
  have given: "run_substs get_flat d cs = map (expand (map_of d)) cs" if "d \<noteq> []" for d cs
    using that by (induction cs) (simp_all add: subst_func_def format_substituted Let_def)
  define new where "new = fold (\<lambda>i. AList.update i (flat_value get_flat i)) (m4_names code) []"
  have m: "map_of new = (\<lambda>n. if n \<in> set (m4_names code) then Some (flat_value get_flat n) else None)"
    by (rule ext) (simp add: new_def filled_dict)
  have first: "subst_func get_flat [] code = (new, expand (\<lambda>n. Some (flat_value get_flat n)) code)"
    using expand_cong [of code "map_of new" "\<lambda>n. Some (flat_value get_flat n)"] m
    by (simp add: subst_func_def names_doubled format_substituted new_def [symmetric] Let_def)
  show ?thesis
  proof (cases "di = []")
    case True
    show ?thesis
    proof (cases "m4_names code = []")
      case True
      then have "new = []" by (simp add: new_def)
      with True \<open>di = []\<close> first show ?thesis by simp
    next
      case False
      then have "map_of new \<noteq> Map.empty" unfolding m by (auto simp: fun_eq_iff neq_Nil_conv)
      then have "new \<noteq> []" by auto
      with False \<open>di = []\<close> first given [of new] show ?thesis by (simp add: m)
    qed
  next
    case False
    with given [OF False, of "code # codes"] show ?thesis by (simp only: if_True simp_thms)
  qed
qed

section \<open>Copies and commands\<close>

text \<open>\<open>copy_func\<close>: whether the copy works is an argument; the value, and the mode set on the copy.\<close>

definition copy_func :: "bool \<Rightarrow> nat \<Rightarrow> int \<times> nat option" where
  "copy_func copied chmod = (if \<not> copied then (1, None) else (0, if chmod \<noteq> 0 then Some chmod else None))"

record file_node =
  node_abspath :: string
  node_srcpath :: string
  node_bldpath :: string

record source_tree =
  find_resource :: "string \<Rightarrow> file_node option"
  find_or_declare :: "string \<Rightarrow> file_node option"
  find_directory :: "string \<Rightarrow> file_node option"

datatype arg_kind = InputFile | OutputFile | InputDir | OutputDir
datatype cmd_arg = TextArg string | NodeArg arg_kind string string

definition search_for :: "source_tree \<Rightarrow> arg_kind \<Rightarrow> string \<Rightarrow> file_node option" where
  "search_for tree kind =
     (case kind of InputFile \<Rightarrow> find_resource tree | OutputFile \<Rightarrow> find_or_declare tree | _ \<Rightarrow> find_directory tree)"

text \<open>
  \<open>find_node\<close> of the classes of arguments. Where a file is not found the message has one place for two
  values, so that it is a TypeError.
\<close>

definition find_arg :: "source_tree \<Rightarrow> arg_kind \<Rightarrow> string \<Rightarrow> file_node res" where
  "find_arg tree kind name =
     (case search_for tree kind name of None \<Rightarrow> Raise TypeError | Some n \<Rightarrow> Return n)"

definition get_path :: "arg_kind \<Rightarrow> string \<Rightarrow> file_node \<Rightarrow> bool \<Rightarrow> string res" where
  "get_path kind template n absolute =
     format_one (case kind of InputFile \<Rightarrow> if absolute then node_abspath n else node_srcpath n
                 | OutputFile \<Rightarrow> if absolute then node_abspath n else node_bldpath n
                 | _ \<Rightarrow> node_abspath n) template False"

record command_gen =
  gen_command :: "string option"
  command_is_external :: bool
  gen_argv :: "cmd_arg list"
  gen_stdin :: "string option"
  gen_stdout :: "string option"
  gen_stderr :: "string option"
  hidden_inputs :: "string list"
  hidden_outputs :: "string list"
  no_inputs :: bool
  no_outputs :: bool
  gen_os_env :: "environment option"

record command_output =
  out_command :: "string + file_node"
  out_args :: "(cmd_arg \<times> file_node option) list"
  out_stdin :: "file_node option"
  out_stdout :: "file_node option"
  out_stderr :: "file_node option"
  out_cwd :: "string option"
  out_env :: "environment option"
  task_inputs :: "file_node list"
  task_outputs :: "file_node list"

abbreviation waf_error :: "'a res" where "waf_error \<equiv> Raise (GenericException ''WafError'')"

definition find_args :: "source_tree \<Rightarrow> cmd_arg list \<Rightarrow> (cmd_arg \<times> file_node option) list res" where
  "find_args tree = map_res (\<lambda>a. case a of
     TextArg s \<Rightarrow> Return (a, None)
   | NodeArg kind name template \<Rightarrow> bind_res (find_arg tree kind name) (\<lambda>n. Return (a, Some n)))"

definition nodes_of_kind :: "arg_kind \<Rightarrow> (cmd_arg \<times> file_node option) list \<Rightarrow> file_node list" where
  "nodes_of_kind kind args =
     concat (map (\<lambda>(a, n). case (a, n) of (NodeArg k _ _, Some m) \<Rightarrow> if k = kind then [m] else [] | _ \<Rightarrow> []) args)"

definition find_optional :: "(string \<Rightarrow> file_node option) \<Rightarrow> string option \<Rightarrow> file_node option res" where
  "find_optional search name =
     (case name of None \<Rightarrow> Return None
      | Some s \<Rightarrow> (case search s of None \<Rightarrow> waf_error | Some n \<Rightarrow> Return (Some n)))"

definition find_all :: "(string \<Rightarrow> file_node option) \<Rightarrow> string list \<Rightarrow> file_node list res" where
  "find_all search = map_res (\<lambda>s. case search s of None \<Rightarrow> waf_error | Some n \<Rightarrow> Return n)"

abbreviation of_option :: "'a option \<Rightarrow> 'a list" where
  "of_option x \<equiv> (case x of None \<Rightarrow> [] | Some y \<Rightarrow> [y])"

text \<open>\<open>apply_cmd_output\<close>; the directory of the task is always that of the variant.\<close>

definition apply_cmd_output :: "source_tree \<Rightarrow> string \<Rightarrow> command_gen \<Rightarrow> command_output res" where
  "apply_cmd_output tree variant_dir g =
     (case gen_command g of
        None \<Rightarrow> waf_error
      | Some c \<Rightarrow>
          bind_res (if command_is_external g then Return (Inl c)
                    else case find_resource tree c of None \<Rightarrow> Raise AssertionError | Some n \<Rightarrow> Return (Inr n)) (\<lambda>cmd.
          bind_res (find_args tree (gen_argv g)) (\<lambda>args.
          bind_res (find_optional (find_or_declare tree) (gen_stdout g)) (\<lambda>stdout.
          bind_res (find_optional (find_or_declare tree) (gen_stderr g)) (\<lambda>stderr.
          bind_res (find_optional (find_resource tree) (gen_stdin g)) (\<lambda>stdin.
          bind_res (find_all (find_resource tree) (hidden_inputs g)) (\<lambda>more_inputs.
          bind_res (find_all (find_or_declare tree) (hidden_outputs g)) (\<lambda>more_outputs.
            let inputs = nodes_of_kind InputFile args @ of_option stdin @ more_inputs;
                outputs = nodes_of_kind OutputFile args @ of_option stdout @ of_option stderr @ more_outputs
            in if inputs = [] \<and> \<not> no_inputs g then waf_error
               else if outputs = [] \<and> \<not> no_outputs g then waf_error
               else Return
                 \<lparr>out_command = cmd, out_args = args, out_stdin = stdin, out_stdout = stdout, out_stderr = stderr,
                  out_cwd = Some variant_dir, out_env = gen_os_env g, task_inputs = inputs, task_outputs = outputs\<rparr>))))))))"

record command_launch =
  l_argv :: "string list"
  l_stdin :: "string option"
  l_stdout :: "string option"
  l_stderr :: "string option"
  l_cwd :: "string option"
  l_env :: "environment option"

text \<open>\<open>command_output.run\<close> up to the process; \<open>None\<close> as its environment is that of waf.\<close>

definition launch_command :: "command_output \<Rightarrow> command_launch res" where
  "launch_command t =
     (let absolute = (out_cwd t \<noteq> None);
          place = (\<lambda>n. if absolute then node_abspath n else node_bldpath n)
      in bind_res (map_res (\<lambda>(a, n). case (a, n) of
             (NodeArg kind name template, Some m) \<Rightarrow> get_path kind template m absolute
           | (NodeArg kind name template, None) \<Rightarrow> Raise AttributeError
           | (TextArg s, _) \<Rightarrow> Return s) (out_args t)) (\<lambda>args.
           Return \<lparr>l_argv = (case out_command t of Inl c \<Rightarrow> c | Inr n \<Rightarrow> place n) # args,
                   l_stdin = map_option place (out_stdin t), l_stdout = map_option place (out_stdout t),
                   l_stderr = map_option place (out_stderr t), l_cwd = out_cwd t, l_env = out_env t\<rparr>))"

section \<open>What a command is run with\<close>

text \<open>What an argument of the generator becomes on the command line.\<close>

definition argument_text :: "source_tree \<Rightarrow> cmd_arg \<Rightarrow> string res" where
  "argument_text tree a =
     (case a of TextArg s \<Rightarrow> Return s
      | NodeArg kind name template \<Rightarrow>
          (case search_for tree kind name of
             None \<Rightarrow> Raise TypeError | Some n \<Rightarrow> format_one (node_abspath n) template False))"

lemma found_args:
  "find_args tree as = Return args \<Longrightarrow>
    map_res (\<lambda>(a, n). case (a, n) of
        (NodeArg kind name template, Some m) \<Rightarrow> get_path kind template m True
      | (NodeArg kind name template, None) \<Rightarrow> Raise AttributeError
      | (TextArg s, _) \<Rightarrow> Return s) args = map_res (argument_text tree) as"
proof (induction as arbitrary: args)
  case (Cons a as)
  then show ?case
    by (cases a)
      (auto simp: find_args_def find_arg_def argument_text_def get_path_def bind_res_eq_Return
        split: option.splits arg_kind.splits)
qed (simp add: find_args_def)

lemma found_optional:
  "find_optional search name = Return n \<Longrightarrow> n = Option.bind name search"
  by (auto simp: find_optional_def split: option.splits)

text \<open>A task that could be made runs the command, the absolute path of its file when it is not external, with
  its arguments in order, the absolute paths of the nodes they name in their templates, with the streams
  found for their names, in the directory of the variant whatever the generator asked for. Its inputs and
  outputs are not empty unless the generator allows it. An argument that names no file ends in a
  TypeError, whatever comes after it, and not in the error of waf that is meant.\<close>

theorem command_output_correct:
  assumes "apply_cmd_output tree variant_dir g = Return t" and "gen_command g = Some c"
  shows "launch_command t =
      bind_res (map_res (argument_text tree) (gen_argv g)) (\<lambda>args. Return
        \<lparr>l_argv = (if command_is_external g then c else node_abspath (the (find_resource tree c))) # args,
         l_stdin = map_option node_abspath (Option.bind (gen_stdin g) (find_resource tree)),
         l_stdout = map_option node_abspath (Option.bind (gen_stdout g) (find_or_declare tree)),
         l_stderr = map_option node_abspath (Option.bind (gen_stderr g) (find_or_declare tree)),
         l_cwd = Some variant_dir, l_env = gen_os_env g\<rparr>) \<and>
    (task_inputs t = [] \<longrightarrow> no_inputs g) \<and> (task_outputs t = [] \<longrightarrow> no_outputs g) \<and>
    (search_for tree kind name = None \<longrightarrow>
       apply_cmd_output tree variant_dir (g\<lparr>gen_argv := gen_argv g @ NodeArg kind name template # others\<rparr>) = Raise TypeError)"
proof -
  from assms obtain cmd args stdout stderr stdin more_in more_out where
    cmd: "(if command_is_external g then Return (Inl c)
      else case find_resource tree c of None \<Rightarrow> Raise AssertionError | Some n \<Rightarrow> Return (Inr n)) = Return cmd"
    and args: "find_args tree (gen_argv g) = Return args"
    and streams: "find_optional (find_or_declare tree) (gen_stdout g) = Return stdout"
      "find_optional (find_or_declare tree) (gen_stderr g) = Return stderr"
      "find_optional (find_resource tree) (gen_stdin g) = Return stdin"
    and hidden: "find_all (find_resource tree) (hidden_inputs g) = Return more_in"
      "find_all (find_or_declare tree) (hidden_outputs g) = Return more_out"
    and t: "(let inputs = nodes_of_kind InputFile args @ of_option stdin @ more_in;
                outputs = nodes_of_kind OutputFile args @ of_option stdout @ of_option stderr @ more_out
            in if inputs = [] \<and> \<not> no_inputs g then waf_error
               else if outputs = [] \<and> \<not> no_outputs g then waf_error
               else Return
                 \<lparr>out_command = cmd, out_args = args, out_stdin = stdin, out_stdout = stdout, out_stderr = stderr,
                  out_cwd = Some variant_dir, out_env = gen_os_env g, task_inputs = inputs, task_outputs = outputs\<rparr>) = Return t"
    by (auto simp: apply_cmd_output_def bind_res_eq_Return)
  have t': "out_command t = cmd" "out_args t = args" "out_stdin t = stdin" "out_stdout t = stdout" "out_stderr t = stderr"
    "out_cwd t = Some variant_dir" "out_env t = gen_os_env g" "task_inputs t = [] \<longrightarrow> no_inputs g" "task_outputs t = [] \<longrightarrow> no_outputs g"
    using t by (auto simp: Let_def split: if_splits)
  have place: "(case cmd of Inl c \<Rightarrow> c | Inr n \<Rightarrow> node_abspath n) =
      (if command_is_external g then c else node_abspath (the (find_resource tree c)))"
    using cmd by (auto split: if_splits option.splits)
  have "find_args tree (gen_argv g @ NodeArg kind name template # others) = Raise TypeError" if "search_for tree kind name = None"
    using args that by (simp add: find_args_def map_res_append find_arg_def)
  then have missing: "apply_cmd_output tree variant_dir (g\<lparr>gen_argv := gen_argv g @ NodeArg kind name template # others\<rparr>) = Raise TypeError"
    if "search_for tree kind name = None"
    using that cmd assms(2) by (simp add: apply_cmd_output_def)
  have "launch_command t =
      bind_res (map_res (argument_text tree) (gen_argv g)) (\<lambda>args. Return
        \<lparr>l_argv = (case cmd of Inl c \<Rightarrow> c | Inr n \<Rightarrow> node_abspath n) # args,
         l_stdin = map_option node_abspath (Option.bind (gen_stdin g) (find_resource tree)),
         l_stdout = map_option node_abspath (Option.bind (gen_stdout g) (find_or_declare tree)),
         l_stderr = map_option node_abspath (Option.bind (gen_stderr g) (find_or_declare tree)),
         l_cwd = Some variant_dir, l_env = gen_os_env g\<rparr>)"
    unfolding found_args [OF args, symmetric] found_optional [OF streams(1), symmetric]
      found_optional [OF streams(2), symmetric] found_optional [OF streams(3), symmetric]
    by (simp only: launch_command_def t' Let_def option.distinct not_False_eq_True if_True)
  then show ?thesis
    using missing by (intro conjI impI t'(8,9) [rule_format]) (simp_all only: place)
qed

definition sample_tree :: source_tree where
  "sample_tree =
     (let f = map_of [(''gen'', \<lparr>node_abspath = ''/s/gen'', node_srcpath = ''../gen'', node_bldpath = ''gen''\<rparr>),
                      (''a.in'', \<lparr>node_abspath = ''/s/a.in'', node_srcpath = ''../a.in'', node_bldpath = ''a.in''\<rparr>),
                      (''a.c'', \<lparr>node_abspath = ''/b/a.c'', node_srcpath = ''a.c'', node_bldpath = ''a.c''\<rparr>)]
      in \<lparr>find_resource = f, find_or_declare = f, find_directory = Map.empty\<rparr>)"

definition sample_gen :: command_gen where
  "sample_gen =
     \<lparr>gen_command = Some ''gen'', command_is_external = False,
      gen_argv = [TextArg ''-o'', NodeArg OutputFile ''a.c'' ''%s'', NodeArg InputFile ''a.in'' ''--in=%s''],
      gen_stdin = None, gen_stdout = None, gen_stderr = None, hidden_inputs = [], hidden_outputs = [],
      no_inputs = False, no_outputs = False, gen_os_env = None\<rparr>"

theorem command_output_correct_witness:
  "\<exists>t. apply_cmd_output sample_tree ''/b'' sample_gen = Return t \<and>
     map_option l_argv (case launch_command t of Inl e \<Rightarrow> None | Inr l \<Rightarrow> Some l) =
       Some [''/s/gen'', ''-o'', ''/b/a.c'', ''--in=/s/a.in'']"
proof -
  have "\<not> isl (apply_cmd_output sample_tree ''/b'' sample_gen)" by code_simp
  then obtain t where t: "apply_cmd_output sample_tree ''/b'' sample_gen = Return t"
    by (cases "apply_cmd_output sample_tree ''/b'' sample_gen") auto
  have "map_res (argument_text sample_tree) (gen_argv sample_gen) = Return [''-o'', ''/b/a.c'', ''--in=/s/a.in'']" by code_simp
  moreover have "gen_command sample_gen = Some ''gen''" "\<not> command_is_external sample_gen"
    "node_abspath (the (find_resource sample_tree ''gen'')) = ''/s/gen''" by code_simp+
  ultimately show ?thesis using t command_output_correct [OF t, THEN conjunct1] by simp
qed

end
