(* ===== verification/Compile_Db.thy ===== *)
theory Compile_Db
  imports Test_Jobs Shlex
begin

text \<open>
  The compilation database, \<open>waf-tools/clang_compilation_database.py\<close>: the compile tasks of the build are
  collected, and after the build the file \<open>compile_commands.json\<close> gets an entry for each of them. A
  JSON object is a dict, the file is what \<open>json.load\<close> makes of it or its exception, and a task
  tells the command it has run, if it has run.
\<close>

section \<open>Quoting\<close>

text \<open>\<open>shlex.quote\<close>: harmless words stay as they are.\<close>

definition harmless_char :: "char \<Rightarrow> bool" where
  "harmless_char c \<longleftrightarrow>
     is_digit c \<or> 65 \<le> (of_char c :: nat) \<and> (of_char c :: nat) \<le> 90 \<or> 97 \<le> (of_char c :: nat) \<and> (of_char c :: nat) \<le> 122 \<or>
     c \<in> set ''_@%+=:,./-''"

definition quote_arg :: "string \<Rightarrow> string" where
  "quote_arg s = (if s \<noteq> [] \<and> list_all harmless_char s then s else shlex_quote s)"

section \<open>Tasks and entries\<close>

record compile_task =
  is_c_task :: bool
  last_cmd :: "string list option"
  own_cwd :: "string option"
  input_paths :: "string list"

type_synonym json_entry = "(string \<times> string) list"

text \<open>\<open>collect_compilation_db_tasks\<close>: the list of the build context, and how often the writer is registered.\<close>

record build_context =
  db_tasks :: "compile_task list option"
  registered :: nat

definition collect_tasks :: "compile_task list \<Rightarrow> build_context \<Rightarrow> build_context" where
  "collect_tasks compiled_tasks ctx =
     (let ctx = (case db_tasks ctx of
                   Some ts \<Rightarrow> ctx
                 | None \<Rightarrow> ctx\<lparr>db_tasks := Some [], registered := registered ctx + 1\<rparr>)
      in ctx\<lparr>db_tasks := Some (the (db_tasks ctx) @ filter is_c_task compiled_tasks)\<rparr>)"

definition entry_item :: "string \<Rightarrow> json_entry \<Rightarrow> string res" where
  "entry_item key x = (case map_of x key of None \<Rightarrow> Raise KeyError | Some v \<Rightarrow> Return v)"

text \<open>The entries of the file by their names; only a file that cannot be opened counts as an empty one.\<close>

definition load_entries :: "json_entry list res \<Rightarrow> (string \<times> json_entry) list res" where
  "load_entries loaded =
     (case loaded of
        Inl (OSError _) \<Rightarrow> Return []
      | Inl e \<Rightarrow> Raise e
      | Inr entries \<Rightarrow>
          bind_res (map_res (\<lambda>x. bind_res (entry_item ''file'' x) (\<lambda>f. Return (f, x))) entries)
            (\<lambda>items. Return (fold (\<lambda>(f, x). AList.update f x) items [])))"

definition task_directory :: "string \<Rightarrow> compile_task \<Rightarrow> string" where
  "task_directory variant_dir t = (case own_cwd t of None \<Rightarrow> variant_dir | Some d \<Rightarrow> d)"

definition add_task :: "string \<Rightarrow> string \<Rightarrow> compile_task \<Rightarrow> (string \<times> json_entry) list \<Rightarrow> (string \<times> json_entry) list res" where
  "add_task here variant_dir t db =
     (case last_cmd t of
        None \<Rightarrow> Return db
      | Some cmd \<Rightarrow>
          let directory = task_directory variant_dir t
          in case input_paths t of
               [] \<Rightarrow> Raise IndexError
             | p # _ \<Rightarrow>
                 let filename = relpath here p directory;
                     entry = [(''directory'', directory), (''command'', str_join '' '' (map quote_arg cmd)), (''file'', filename)]
                 in Return (AList.update filename entry db))"

definition write_compilation_database ::
  "string \<Rightarrow> string \<Rightarrow> json_entry list res \<Rightarrow> build_context \<Rightarrow> json_entry list res" where
  "write_compilation_database here variant_dir loaded ctx =
     bind_res (load_entries loaded) (\<lambda>db.
     bind_res (fold_res (add_task here variant_dir) (case db_tasks ctx of None \<Rightarrow> [] | Some ts \<Rightarrow> ts) db) (\<lambda>db.
       Return (map snd db)))"

section \<open>Commands\<close>

lemma harmless_plain:
  assumes "s \<noteq> []" and "list_all harmless_char s"
  shows "plain_word s"
proof -
  have "\<not> shlex_space c \<and> \<not> shlex_quote_char c \<and> c \<noteq> backslash" if "harmless_char c" for c
    using that by (auto simp: harmless_char_def is_digit_def shlex_space_def shlex_quote_char_def)
  with assms show ?thesis by (simp add: plain_word_def list_all_iff)
qed

lemma split_quoted_command: "shlex_split (str_join '' '' (map quote_arg cmd)) = Return cmd"
proof (rule split_written [where quoting = "\<lambda>s. s = [] \<or> \<not> list_all harmless_char s"], intro conjI allI)
  fix w tok quoted rest
  show "shlex_read Between tok quoted (quote_arg w @ rest) =
      shlex_read InWord w (w = [] \<or> \<not> list_all harmless_char w) rest"
    by (cases "w \<noteq> [] \<and> list_all harmless_char w")
      (auto simp: quote_arg_def quoted_word plain_word_read harmless_plain)
qed simp

section \<open>Names of files\<close>

text \<open>An absolute path in normal form is given by its names.\<close>

definition names_ok :: "string list \<Rightarrow> bool" where
  "names_ok ps = list_all (\<lambda>p. p \<noteq> [] \<and> p \<noteq> ''.'' \<and> p \<noteq> ''..'' \<and> slash \<notin> set p) ps"

definition path_of :: "string list \<Rightarrow> string" where
  "path_of ps = slash # str_join ''/'' ps"

text \<open>Any parts without slashes, dots included.\<close>

definition parts_ok :: "string list \<Rightarrow> bool" where
  "parts_ok qs \<longleftrightarrow> qs \<noteq> [] \<and> list_all (\<lambda>p. p \<noteq> [] \<and> slash \<notin> set p) qs"

lemma split_path: "parts_ok qs \<Longrightarrow> split_on slash (path_of qs) = [] # qs"
  using split_on_join [of qs slash] by (auto simp: path_of_def parts_ok_def list_all_iff)

lemma norm_names:
  "names_ok ps \<Longrightarrow> norm_components True (ps @ qs) acc = norm_components True qs (rev ps @ acc)"
  by (induction ps arbitrary: acc) (auto simp: names_ok_def)

lemma norm_up:
  "names_ok acc \<Longrightarrow> k \<le> length acc \<Longrightarrow>
    norm_components True (replicate k ''..'' @ qs) acc = norm_components True qs (drop k acc)"
proof (induction k arbitrary: acc)
  case (Suc k)
  then obtain a as where "acc = a # as" "names_ok as" "k \<le> length as" "a \<noteq> ''..''"
    by (cases acc) (auto simp: names_ok_def)
  with Suc.IH show ?case by simp
qed simp

lemma join_start:
  assumes "parts_ok qs"
  shows "\<exists>c cs. str_join ''/'' qs = c # cs \<and> c \<noteq> slash"
proof -
  from assms obtain q qs' where q: "qs = q # qs'" "q \<noteq> []" "slash \<notin> set q" by (cases qs) (auto simp: parts_ok_def)
  then show ?thesis by (cases qs'; cases q) auto
qed

lemma join_end:
  assumes "parts_ok qs"
  shows "\<not> endswith (str_join ''/'' qs) ''/''"
proof -
  from assms obtain qs' q where q: "qs = qs' @ [q]" "q \<noteq> []" "slash \<notin> set q"
    by (cases qs rule: rev_cases) (auto simp: parts_ok_def)
  then have "last q \<noteq> slash" by (metis last_in_set)
  moreover have "last (str_join ''/'' qs) = last q"
    using q str_join_append [of qs' "[q]" "''/''"] by (cases "qs' = []") simp_all
  ultimately show ?thesis by (auto simp: suffix_def)
qed

lemma path_of_start: "parts_ok qs \<Longrightarrow> \<not> startswith (path_of qs) ''//''"
  using join_start [of qs] by (auto simp: path_of_def)

lemma norm_path: "parts_ok qs \<Longrightarrow> normpath (path_of qs) = path_of (norm_components True qs [])"
  using path_of_start [of qs] split_path [of qs]
  by (simp add: normpath_def Let_def parts_ok_def) (simp add: path_of_def)

lemma norm_names_path: "names_ok ps \<Longrightarrow> normpath (path_of ps) = path_of ps"
proof (cases "ps = []")
  case True
  then show ?thesis by (simp add: path_of_def normpath_def Let_def)
next
  case False
  assume "names_ok ps"
  with False norm_names [of ps "[]" "[]"] norm_path [of ps] show ?thesis
    by (simp add: parts_ok_def names_ok_def list_all_iff)
qed

lemma path_parts_names: "names_ok ps \<Longrightarrow> path_parts here (path_of ps) = ps"
proof -
  assume ps: "names_ok ps"
  have a: "abspath here (path_of ps) = path_of ps"
    using norm_names_path [OF ps] by (simp add: abspath_def path_of_def)
  show ?thesis
  proof (cases "ps = []")
    case True
    with a show ?thesis by (simp add: path_parts_def path_of_def)
  next
    case False
    with ps have "parts_ok ps" by (simp add: parts_ok_def names_ok_def list_all_iff)
    with split_path [of ps] a ps show ?thesis
      by (simp add: path_parts_def names_ok_def list_all_iff filter_id_conv)
  qed
qed

lemma names_parts: "names_ok ds \<Longrightarrow> ds \<noteq> [] \<Longrightarrow> parts_ok ds"
  by (simp add: names_ok_def parts_ok_def list_all_iff)

lemma path_join_parts:
  assumes "names_ok ds" and "parts_ok cs"
  shows "path_join (path_of ds) (str_join ''/'' cs) = path_of (ds @ cs)"
proof (cases "ds = []")
  case True
  with join_start [OF assms(2)] show ?thesis by (auto simp: path_join_def path_of_def)
next
  case False
  from join_end [OF names_parts [OF assms(1) this]] have "\<not> endswith (path_of ds) ''/''"
    using False join_start [OF names_parts [OF assms(1) False]] by (auto simp: path_of_def suffix_Cons)
  moreover from assms(2) have "cs \<noteq> []" by (simp add: parts_ok_def)
  ultimately show ?thesis
    using join_start [OF assms(2)] False by (auto simp: path_join_def path_of_def str_join_append)
qed

text \<open>The relative name of a file leads from the directory back to the file.\<close>

lemma relpath_leads_back:
  assumes "names_ok ps" and "names_ok ds"
  shows "normpath (path_join (path_of ds) (relpath here (path_of ps) (path_of ds))) = path_of ps"
proof -
  define common where "common = longest_common_prefix ds ps"
  obtain up down where d: "ds = common @ up" and p: "ps = common @ down"
    using longest_common_prefix_prefix1 [of ds ps] longest_common_prefix_prefix2 [of ds ps]
    unfolding common_def [symmetric] by (elim prefixE)
  define rel where "rel = replicate (length up) ''..'' @ down"
  define cs where "cs = (if rel = [] then [''.''] else rel)"
  have lengths: "length ds - length common = length up" "drop (length common) ps = down"
    by (simp_all add: d p)
  have r: "relpath here (path_of ps) (path_of ds) = str_join ''/'' cs"
    unfolding relpath_def Let_def path_parts_names [OF assms(1)] path_parts_names [OF assms(2)]
      common_def [symmetric] lengths rel_def [symmetric] cs_def
    by simp
  let ?part = "\<lambda>p. p \<noteq> [] \<and> slash \<notin> set p"
  have "list_all ?part ds" "list_all ?part down"
    using assms by (simp_all add: names_ok_def list_all_iff p)
  moreover have "list_all ?part (replicate (length up) ''..'')" by (simp add: list_all_iff)
  ultimately have parts: "parts_ok cs" "parts_ok (ds @ cs)"
    unfolding parts_ok_def cs_def rel_def list_all_append by simp_all
  have "norm_components True (ds @ cs) [] = norm_components True cs (rev ds)"
    using norm_names [OF assms(2), of cs "[]"] by simp
  also have "\<dots> = norm_components True rel (rev ds)" by (simp add: cs_def)
  also have "\<dots> = norm_components True down (rev common)"
    using norm_up [of "rev ds" "length up" down] assms(2)
    by (simp add: rel_def d names_ok_def list_all_iff ball_Un conj_commute)
  also have "\<dots> = ps"
    using norm_names [of down "[]" "rev common"] assms(1) by (simp add: p names_ok_def)
  finally show ?thesis
    by (simp add: r path_join_parts [OF assms(2) parts(1)] norm_path [OF parts(2)])
qed

section \<open>The database\<close>

text \<open>The name and the entry a task that has run gets.\<close>

definition entry_of :: "string \<Rightarrow> string \<Rightarrow> compile_task \<Rightarrow> (string \<times> json_entry) option" where
  "entry_of here variant_dir t =
     map_option (\<lambda>cmd.
       let d = task_directory variant_dir t; f = relpath here (hd (input_paths t)) d
       in (f, [(''directory'', d), (''command'', str_join '' '' (map quote_arg cmd)), (''file'', f)])) (last_cmd t)"

definition store_entry :: "string \<times> json_entry \<Rightarrow> (string \<times> json_entry) list \<Rightarrow> (string \<times> json_entry) list" where
  "store_entry = (\<lambda>(f, x). AList.update f x)"

definition db_ok :: "(string \<times> json_entry) list \<Rightarrow> bool" where
  "db_ok db \<longleftrightarrow> dict_wf db \<and> list_all (\<lambda>(f, x). map_of x ''file'' = Some f) db"

lemma add_tasks:
  assumes "list_all (\<lambda>t. input_paths t \<noteq> []) ts"
  shows "fold_res (add_task here variant_dir) ts db = Return (fold store_entry (List.map_filter (entry_of here variant_dir) ts) db)"
proof -
  have "add_task here variant_dir t db =
      Return (case entry_of here variant_dir t of None \<Rightarrow> db | Some fx \<Rightarrow> store_entry fx db)" if "input_paths t \<noteq> []" for t db
    using that by (auto simp: add_task_def entry_of_def store_entry_def Let_def split: option.splits list.splits)
  with assms show ?thesis
    by (induction ts arbitrary: db) (auto simp: map_filter_simps split: option.splits)
qed

lemma map_of_store_entry [simp]: "map_of (store_entry (f, x) db) = (map_of db)(f \<mapsto> x)"
  by (simp add: store_entry_def update_conv')

lemma map_of_stores: "map_of (fold store_entry es db) = map_of db ++ map_of (rev es)"
  by (induction es arbitrary: db) (auto simp: store_entry_def update_conv' map_add_def fun_eq_iff split: option.splits)

lemma wf_stores: "dict_wf db \<Longrightarrow> dict_wf (fold store_entry es db)"
  by (induction es arbitrary: db) (auto simp: store_entry_def distinct_update)

lemma stores_new: "dict_wf (db @ es) \<Longrightarrow> fold store_entry es db = db @ es"
  unfolding store_entry_def by (rule fold_update_distinct) simp

lemma keys_kept: "set (map fst es) \<subseteq> set (dict_keys db) \<Longrightarrow> dict_keys (fold store_entry es db) = dict_keys db"
proof (induction es arbitrary: db)
  case (Cons fx es)
  then have "dict_keys (store_entry fx db) = dict_keys db" by (cases fx) (auto simp: store_entry_def update_keys)
  with Cons.IH [of "store_entry fx db"] Cons.prems show ?case by simp
qed simp

lemma same_dict:
  "map fst a = map fst b \<Longrightarrow> dict_wf b \<Longrightarrow> map_of a = map_of b \<Longrightarrow> a = b"
proof (induction b arbitrary: a)
  case (Cons y b)
  then obtain x a' where a: "a = x # a'" by (cases a) auto
  have key: "fst x = fst y" "map fst a' = map fst b" "fst y \<notin> fst ` set b" "dict_wf b" using Cons.prems a by auto
  have "map_of a (fst y) = map_of (y # b) (fst y)" using Cons.prems by simp
  then have "x = y" using key a by (cases x; cases y) simp
  moreover have "map_of a' = map_of b"
  proof
    fix k
    have "map_of a k = map_of (y # b) k" using Cons.prems by simp
    moreover have "map_of a' (fst y) = None" "map_of b (fst y) = None"
      using key by (simp_all add: map_of_eq_None_iff) (metis list.set_map)
    ultimately show "map_of a' k = map_of b k" using a \<open>x = y\<close> by (cases y) (auto split: if_splits)
  qed
  ultimately show ?case using Cons.IH key a by simp
qed simp

text \<open>Storing the same entries once more changes nothing.\<close>

lemma stores_again: "dict_wf db \<Longrightarrow> fold store_entry es (fold store_entry es db) = fold store_entry es db"
proof (rule same_dict)
  have "set (map fst es) \<subseteq> dom (map_of (fold store_entry es db))"
    by (auto simp: map_of_stores dom_map_of_conv_image_fst)
  then show "map fst (fold store_entry es (fold store_entry es db)) = map fst (fold store_entry es db)"
    by (intro keys_kept) (simp add: dom_map_of_conv_image_fst)
qed (auto simp: wf_stores map_of_stores map_add_def fun_eq_iff split: option.splits)

lemma update_ok: "db_ok db \<Longrightarrow> map_of x ''file'' = Some f \<Longrightarrow> db_ok (store_entry (f, x) db)"
proof -
  have "set (AList.update f x db) \<subseteq> insert (f, x) (set db)" by (induction db) auto
  then show "db_ok db \<Longrightarrow> map_of x ''file'' = Some f \<Longrightarrow> db_ok (store_entry (f, x) db)"
    by (auto simp: db_ok_def list_all_iff store_entry_def distinct_update)
qed

lemma stores_ok: "db_ok db \<Longrightarrow> list_all (\<lambda>(f, x). map_of x ''file'' = Some f) es \<Longrightarrow> db_ok (fold store_entry es db)"
  by (induction es arbitrary: db) (auto intro: update_ok)

lemma load_ok: "load_entries loaded = Return db \<Longrightarrow> db_ok db"
proof -
  have items: "map_res (\<lambda>x. bind_res (entry_item ''file'' x) (\<lambda>f. Return (f, x))) xs = Return items \<Longrightarrow>
      list_all (\<lambda>(f, x). map_of x ''file'' = Some f) items" for xs items
    by (induction xs arbitrary: items) (auto simp: bind_res_eq_Return entry_item_def split: option.splits)
  have empty: "db_ok []" by (simp add: db_ok_def)
  assume "load_entries loaded = Return db"
  then show ?thesis
    using items stores_ok [OF empty] empty
    by (auto simp: load_entries_def bind_res_eq_Return store_entry_def split: sum.splits py_error.splits)
qed

lemma load_written: "db_ok db \<Longrightarrow> load_entries (Return (map snd db)) = Return db"
proof -
  assume ok: "db_ok db"
  have "map_res (\<lambda>x. bind_res (entry_item ''file'' x) (\<lambda>f. Return (f, x))) (map snd db) = Return db"
    if "list_all (\<lambda>(f, x). map_of x ''file'' = Some f) db" for db
    using that by (induction db) (auto simp: entry_item_def)
  with ok show ?thesis
    using stores_new [of "[]" db] by (simp add: load_entries_def db_ok_def store_entry_def)
qed

definition new_context :: build_context where
  "new_context = \<lparr>db_tasks = None, registered = 0\<rparr>"

lemma collected:
  "tss \<noteq> [] \<Longrightarrow> fold collect_tasks tss new_context = \<lparr>db_tasks = Some (filter is_c_task (concat tss)), registered = 1\<rparr>"
proof (induction tss rule: rev_induct)
  case (snoc ts tss)
  then show ?case by (cases "tss = []") (simp_all add: collect_tasks_def new_context_def Let_def)
qed simp

lemma entry_consistent: "list_all (\<lambda>(f, x). map_of x ''file'' = Some f) (List.map_filter (entry_of here variant_dir) ts)"
  by (induction ts) (auto simp: map_filter_simps entry_of_def Let_def split: option.splits)

lemma filter_entry:
  assumes "db_ok db" and "map_of db f = Some x"
  shows "filter (\<lambda>x. map_of x ''file'' = Some f) (map snd db) = [x]"
  using assms
proof (induction db)
  case (Cons gy db)
  obtain g y where gy: "gy = (g, y)" by (cases gy)
  have rest: "db_ok db" "g \<notin> fst ` set db" "map_of y ''file'' = Some g" using Cons.prems by (auto simp: db_ok_def gy)
  show ?case
  proof (cases "g = f")
    case True
    have "map_of z ''file'' \<noteq> Some f" if "z \<in> snd ` set db" for z
    proof -
      from that obtain h where h: "(h, z) \<in> set db" by auto
      then have "h \<noteq> g" using rest(2) by force
      moreover have "map_of z ''file'' = Some h" using rest(1) h by (simp add: db_ok_def list_all_iff) blast
      ultimately show ?thesis using True by simp
    qed
    then have "filter (\<lambda>x. map_of x ''file'' = Some f) (map snd db) = []" by (auto simp: filter_empty_conv)
    with True rest Cons.prems gy show ?thesis by simp
  next
    case False
    with Cons rest gy show ?thesis by simp
  qed
qed simp


definition sample_compile :: compile_task where
  "sample_compile =
     \<lparr>is_c_task = True, last_cmd = Some [''/usr/bin/g++'', ''-DNAME=a b'', ''-c'', ''../src/core/model/x.cc''],
      own_cwd = None, input_paths = [path_of [''home'', ''ns3'', ''src'', ''core'', ''model'', ''x.cc'']]\<rparr>"


end
