(* ===== verification/Rad_Float.thy ===== *)
theory Rad_Float
  imports Rad_Util Complex_Main
begin

text \<open>
  The functions of \<open>bindings/python/rad_util.py\<close> on fractions: the area of a polygon, quantiles and trimming,
  ranges with a step, and random bits. Floats are real numbers, so that what is shown is what the
  functions compute up to rounding; the random numbers are an argument.
\<close>

section \<open>Areas\<close>

text \<open>\<open>int\<close> of a float\<close>

definition int_of_float :: "real \<Rightarrow> int" where
  "int_of_float x = (if 0 \<le> x then \<lfloor>x\<rfloor> else \<lceil>x\<rceil>)"

text \<open>
  \<open>polygon_area\<close>: the list of the caller is scaled and closed in place, so the function returns it
  together with the area.
\<close>

fun edges_sum :: "(int \<times> int) list \<Rightarrow> int" where
  "edges_sum ((x, y) # (x', y') # ps) = x' * y - y' * x + edges_sum ((x', y') # ps)"
| "edges_sum ps = 0"

definition polygon_area :: "(real \<times> real) list \<Rightarrow> int \<Rightarrow> (int \<times> int) list \<times> real res" where
  "polygon_area points_list precision =
     (let scaled = map (\<lambda>(x, y). (int_of_float (x * of_int precision), int_of_float (y * of_int precision))) points_list
      in if scaled = [] then (scaled, Raise IndexError)
         else
           (let closed = (if last scaled \<noteq> hd scaled then scaled @ [hd scaled] else scaled);
                area = \<bar>of_int (edges_sum closed) / 2\<bar>
            in (closed, if precision = 0 then Raise ZeroDivisionError else Return (area / of_int (precision ^ 2)))))"

section \<open>Quantiles\<close>

definition quantile :: "real list \<Rightarrow> real \<Rightarrow> real res" where
  "quantile l p =
     (let l_sort = sort l; n = int (length l); r = 1 + (of_int n - 1) * p; i = int_of_float r; f = r - of_int i
      in if i < n
         then bind_res (py_nth l_sort (i - 1)) (\<lambda>a. bind_res (py_nth l_sort i) (\<lambda>b. Return ((1 - f) * a + f * b)))
         else py_nth l_sort (i - 1))"

text \<open>\<open>trim\<close>; its median is computed, which fails on an empty list, but not used.\<close>

definition trim :: "real list \<Rightarrow> real list res" where
  "trim l =
     (let l_sort = sort l
      in bind_res (if even (length l_sort)
                   then bind_res (py_nth l_sort (int (length l_sort div 2))) (\<lambda>a.
                        bind_res (py_nth l_sort (int (length l_sort div 2) - 1)) (\<lambda>b. Return ((a + b) / 2)))
                   else py_nth l_sort (int (length l_sort div 2))) (\<lambda>median.
         bind_res (quantile l_sort (1 / 4)) (\<lambda>q1.
         bind_res (quantile l_sort (3 / 4)) (\<lambda>q3.
           let iqr_extra = (q3 - q1) * (3 / 2)
           in Return (filter (\<lambda>x. q1 - iqr_extra \<le> x \<and> x \<le> q3 + iqr_extra) l_sort)))))"

section \<open>Ranges\<close>

text \<open>The loop of \<open>float_range\<close>, which may not end.\<close>

partial_function (option) float_range_loop :: "real \<Rightarrow> real \<Rightarrow> real \<Rightarrow> real list option" where
  "float_range_loop cur stop step =
     (if cur < stop then Option.bind (float_range_loop (cur + step) stop step) (\<lambda>l. Some (cur # l)) else Some [])"

definition float_range :: "real \<Rightarrow> real option \<Rightarrow> real option \<Rightarrow> real list option" where
  "float_range start stop step =
     (let (start, stop) = (case stop of None \<Rightarrow> (0, start) | Some s \<Rightarrow> (start, s));
          step = (case step of None \<Rightarrow> 1 | Some s \<Rightarrow> s)
      in float_range_loop start stop step)"

section \<open>Random bits\<close>

text \<open>
  \<open>random_vec\<close> with what \<open>random.random()\<close> returns, one number for each ten bits and one more. When a largest value
  is given that can be exceeded, \<open>int2bin\<close> gets a float.
\<close>

definition random_vec :: "nat \<Rightarrow> int option \<Rightarrow> real list \<Rightarrow> string res" where
  "random_vec bits max_value randoms =
     bind_res (map_res (\<lambda>r. int2bin (int_of_float (2 ^ 10 * r)) 10) (take (bits div 10 + 1) randoms)) (\<lambda>parts.
       case max_value of
         Some m \<Rightarrow>
           if m \<noteq> 0 \<and> m < 2 ^ bits - 1 then Raise (if bits = 0 then ZeroDivisionError else TypeError)
           else Return (take bits (concat parts))
       | None \<Rightarrow> Return (take bits (concat parts)))"

section \<open>The area of a polygon\<close>

text \<open>The formula of the area, for the polygon closed by the edge from its last point to the first.\<close>

definition cross :: "int \<times> int \<Rightarrow> int \<times> int \<Rightarrow> int" where
  "cross p q = fst q * snd p - snd q * fst p"

definition double_area :: "(int \<times> int) list \<Rightarrow> int" where
  "double_area ps = sum_list (map2 cross ps (rotate1 ps))"

lemma edges_sum_eq: "edges_sum (ps @ [q]) = sum_list (map2 cross ps (tl ps @ [q]))"
proof (induction ps)
  case (Cons p ps)
  then show ?case by (cases p; cases ps; cases q) (auto simp: cross_def)
qed (cases q; simp)

lemma edges_closed:
  assumes "ps \<noteq> []"
  shows "edges_sum (if last ps \<noteq> hd ps then ps @ [hd ps] else ps) = double_area ps"
proof (cases "last ps = hd ps")
  case False
  with assms show ?thesis by (simp add: edges_sum_eq double_area_def rotate1_hd_tl)
next
  case True
  obtain qs where ps: "ps = qs @ [hd ps]" using assms True by (metis append_butlast_last_id)
  have zero: "cross q q = 0" for q by (simp add: cross_def)
  show ?thesis
  proof (cases qs)
    case Nil
    with ps show ?thesis by (cases ps) (auto simp: double_area_def zero True)
  next
    case (Cons p qs')
    then have "rotate1 ps = tl qs @ [hd ps, p]" "hd ps = p" using ps by (metis rotate1.simps(2) append_Cons append.assoc list.sel append_Nil)+
    then have "double_area ps = sum_list (map2 cross (qs @ [p]) ((tl qs @ [p]) @ [p]))" using ps by (simp add: double_area_def)
    also have "\<dots> = sum_list (map2 cross qs (tl qs @ [p]))" by (subst zip_append) (simp_all add: Cons zero)
    finally show ?thesis using True edges_sum_eq [of qs p] ps \<open>hd ps = p\<close> by simp
  qed
qed

lemma double_area_edges: "ps \<noteq> [] \<Longrightarrow> double_area ps = edges_sum (ps @ [hd ps])"
  by (simp add: edges_sum_eq double_area_def rotate1_hd_tl)

lemma sum_rotate1 [simp]: "sum_list (rotate1 xs) = sum_list (xs :: int list)"
  by (cases xs) simp_all

lemma double_area_rotate1: "double_area (rotate1 ps) = double_area ps"
proof -
  have "zip (rotate1 xs) (rotate1 ys) = rotate1 (zip xs ys)" if "length xs = length ys" for xs ys :: "(int \<times> int) list"
    using that by (cases xs; cases ys) simp_all
  then have "map2 cross (rotate1 ps) (rotate1 (rotate1 ps)) = rotate1 (map2 cross ps (rotate1 ps))"
    by (simp add: rotate1_map)
  then show ?thesis unfolding double_area_def by (simp only: sum_rotate1)
qed

lemma double_area_rotate: "double_area (rotate k ps) = double_area ps"
  by (induction k) (simp_all add: double_area_rotate1)

lemma edges_sum_pair: "edges_sum (p # q # ps) = cross p q + edges_sum (q # ps)"
  by (cases p; cases q) (simp add: cross_def)

lemma edges_sum_snoc: "edges_sum (ps @ [p, q]) = edges_sum (ps @ [p]) + cross p q"
proof (induction ps)
  case (Cons a ps)
  then show ?case by (cases ps) (simp_all add: edges_sum_pair)
qed (simp add: edges_sum_pair)

lemma edges_sum_rev: "edges_sum (rev ps) = - edges_sum ps"
proof (induction ps)
  case (Cons p ps)
  then show ?case
    by (cases ps) (simp_all add: edges_sum_snoc edges_sum_pair cross_def)
qed simp

lemma double_area_rev: "double_area (rev ps) = - double_area ps"
proof (cases ps)
  case (Cons p qs)
  then have "rev ps = rotate1 (p # rev qs)" by simp
  then have "double_area (rev ps) = double_area (p # rev qs)" by (simp only: double_area_rotate1)
  also have "\<dots> = edges_sum (rev (ps @ [p]))" using Cons by (simp add: double_area_edges)
  also have "\<dots> = - double_area ps" using Cons by (simp only: edges_sum_rev) (simp add: double_area_edges)
  finally show ?thesis .
qed (simp add: double_area_def)

definition moved :: "int \<times> int \<Rightarrow> int \<times> int \<Rightarrow> int \<times> int" where
  "moved d p = (fst p + fst d, snd p + snd d)"

lemma double_area_moved: "double_area (map (moved d) ps) = double_area ps"
proof -
  have "sum_list (map2 cross (map (moved d) ps) (map (moved d) qs)) =
      sum_list (map2 cross ps qs) + snd d * (sum_list (map fst qs) - sum_list (map fst ps)) -
      fst d * (sum_list (map snd qs) - sum_list (map snd ps))" if "length qs = length ps" for qs
    using that
  proof (induction ps arbitrary: qs)
    case (Cons p ps)
    then obtain q qs' where "qs = q # qs'" by (cases qs) auto
    with Cons show ?case by (simp add: cross_def moved_def algebra_simps)
  qed simp
  from this [of "rotate1 ps"] show ?thesis
    by (simp add: double_area_def rotate1_map) (simp add: rotate1_map [symmetric])
qed

lemma double_area_scaled: "double_area (map (\<lambda>(x, y). (c * x, c * y)) ps) = c ^ 2 * double_area ps"
proof -
  have "sum_list (map2 cross (map (\<lambda>(x, y). (c * x, c * y)) ps) (map (\<lambda>(x, y). (c * x, c * y)) qs)) =
      c ^ 2 * sum_list (map2 cross ps qs)" if "length qs = length ps" for qs
    using that
  proof (induction ps arbitrary: qs)
    case (Cons p ps)
    then obtain q qs' where "qs = q # qs'" by (cases qs) auto
    with Cons show ?case by (cases p; cases q) (simp add: cross_def algebra_simps power2_eq_square)
  qed simp
  from this [of "rotate1 ps"] show ?thesis by (simp add: double_area_def rotate1_map)
qed

definition to_floats :: "(int \<times> int) list \<Rightarrow> (real \<times> real) list" where
  "to_floats ps = map (\<lambda>(x, y). (of_int x, of_int y)) ps"

definition closed :: "(int \<times> int) list \<Rightarrow> (int \<times> int) list" where
  "closed ps = (if last ps \<noteq> hd ps then ps @ [hd ps] else ps)"

lemma polygon_area_ints:
  assumes "ps \<noteq> []" and "0 < c"
  shows "polygon_area (to_floats ps) c = (closed (map (\<lambda>(x, y). (c * x, c * y)) ps), Return (\<bar>of_int (double_area ps)\<bar> / 2))"
proof -
  have int: "int_of_float (of_int x * of_int c) = c * x" for x
    using floor_of_int [of "x * c", where 'a = real] ceiling_of_int [of "x * c", where 'a = real]
    by (simp add: int_of_float_def mult.commute)
  have scaled: "map (\<lambda>(x, y). (int_of_float (x * of_int c), int_of_float (y * of_int c))) (to_floats ps) =
      map (\<lambda>(x, y). (c * x, c * y)) ps" (is "_ = ?s")
    by (auto simp: to_floats_def int)
  have "edges_sum (closed ?s) = c ^ 2 * double_area ps"
    using edges_closed [of ?s] assms(1) by (simp only: closed_def double_area_scaled) simp
  with assms show ?thesis
    unfolding polygon_area_def scaled Let_def closed_def
    by (simp add: abs_mult)
qed

text \<open>The area of a polygon with integer coordinates is half of the sum over its edges, closed or not, at every
  precision: it does not depend on where the list starts, on its direction and on the place of the polygon.
  But the list of the caller comes back scaled, so the area of the same list is the square of the
  precision times too large the second time.\<close>

theorem polygon_area_correct:
  assumes "ps \<noteq> []" and "0 < c"
  shows "\<exists>scaled. polygon_area (to_floats ps) c = (scaled, Return (\<bar>of_int (double_area ps)\<bar> / 2)) \<and>
    snd (polygon_area (to_floats scaled) c) = Return (of_int (c ^ 2) * (\<bar>of_int (double_area ps)\<bar> / 2)) \<and>
    snd (polygon_area (to_floats (rotate k ps)) c) = snd (polygon_area (to_floats ps) c) \<and>
    snd (polygon_area (to_floats (rev ps)) c) = snd (polygon_area (to_floats ps) c) \<and>
    snd (polygon_area (to_floats (map (moved d) ps)) c) = snd (polygon_area (to_floats ps) c)"
proof -
  let ?s = "map (\<lambda>(x, y). (c * x, c * y)) ps"
  have ne: "closed ?s \<noteq> []" "last (closed ?s) = hd (closed ?s)" using assms(1) by (simp_all add: closed_def)
  have "double_area (closed ?s) = edges_sum (closed ?s)"
    using edges_closed [OF ne(1)] ne(2) by simp
  also have "\<dots> = c ^ 2 * double_area ps"
    using edges_closed [of ?s] assms(1) by (simp only: closed_def double_area_scaled) simp
  finally have again: "double_area (closed ?s) = c ^ 2 * double_area ps" .
  have "snd (polygon_area (to_floats (closed ?s)) c) = Return (of_int (c ^ 2) * (\<bar>of_int (double_area ps)\<bar> / 2))"
    using polygon_area_ints [OF ne(1) assms(2)] by (simp add: again abs_mult)
  moreover have "rotate k ps \<noteq> []" "rev ps \<noteq> []" "map (moved d) ps \<noteq> []" using assms(1) by simp_all
  ultimately show ?thesis
    using assms by (intro exI [of _ "closed ?s"])
      (simp add: polygon_area_ints double_area_rotate double_area_rev double_area_moved)
qed

theorem polygon_area_correct_witness:
  "\<exists>scaled. polygon_area (to_floats [(0, 0), (0, 1), (1, 1), (1, 2), (2, 2), (2, 0)]) 100 = (scaled, Return 3) \<and>
     snd (polygon_area (to_floats scaled) 100) = Return 30000"
proof -
  have "double_area [(0, 0), (0, 1), (1, 1), (1, 2), (2, 2), (2, 0)] = 6" by code_simp
  with polygon_area_correct [of "[(0, 0), (0, 1), (1, 1), (1, 2), (2, 2), (2, 0)]" 100 0 "(0, 0)"] show ?thesis by auto
qed

section \<open>Quantiles and trimming\<close>

text \<open>The value between two neighbours of a sorted list, at a place from 0 to the last index.\<close>

definition between :: "real list \<Rightarrow> real \<Rightarrow> real" where
  "between s t =
     (let k = nat \<lfloor>t\<rfloor> in if k + 1 < length s then (1 - frac t) * s ! k + frac t * s ! (k + 1) else s ! k)"

lemma quantile_between:
  assumes "l \<noteq> []" and "0 \<le> p" and "p \<le> 1"
  shows "quantile l p = Return (between (sort l) (real (length l - 1) * p))"
proof -
  define t where "t = real (length l - 1) * p"
  have n: "1 \<le> length l" using assms(1) by (cases l) auto
  have t: "0 \<le> t" "t \<le> real (length l - 1)" using assms(2,3) by (simp_all add: t_def mult_left_le)
  define k where "k = nat \<lfloor>t\<rfloor>"
  have k: "\<lfloor>t\<rfloor> = int k" "k \<le> length l - 1" using t by (simp_all add: k_def nat_le_iff floor_le_iff)
  have r: "1 + (of_int (int (length l)) - 1) * p = 1 + t" using n by (simp add: t_def of_nat_diff)
  have i: "int_of_float (1 + t) = int k + 1" using t k by (simp add: int_of_float_def)
  have f: "1 + t - of_int (int k + 1) = frac t" using k by (simp add: frac_def)
  have a: "py_nth (sort l) (int k + 1 - 1) = Return (sort l ! k)"
    using py_nth_of_nat [of k "sort l"] k n by simp
  have b: "py_nth (sort l) (int k + 1) = Return (sort l ! (k + 1))" if "k + 1 < length l"
    using py_nth_of_nat [of "k + 1" "sort l"] that by (simp add: add.commute)
  show ?thesis
    unfolding quantile_def Let_def r i f between_def t_def [symmetric] k_def [symmetric]
    using a b by simp
qed

lemma between_bounds:
  assumes "sorted s" and "0 \<le> t" and "nat \<lfloor>t\<rfloor> < length s"
  shows "s ! nat \<lfloor>t\<rfloor> \<le> between s t" and "nat \<lfloor>t\<rfloor> + 1 < length s \<Longrightarrow> between s t \<le> s ! (nat \<lfloor>t\<rfloor> + 1)"
proof -
  define k where "k = nat \<lfloor>t\<rfloor>"
  have f: "0 \<le> frac t" "frac t \<le> 1" using frac_ge_0 [of t] frac_lt_1 [of t] by simp_all
  have step: "s ! k \<le> s ! (k + 1)" if "k + 1 < length s" using assms(1) that by (simp add: sorted_nth_mono)
  have b: "between s t = (if k + 1 < length s then s ! k + frac t * (s ! (k + 1) - s ! k) else s ! k)"
    by (simp add: between_def k_def [symmetric] Let_def algebra_simps)
  show "s ! nat \<lfloor>t\<rfloor> \<le> between s t" using step f unfolding k_def [symmetric] b by simp
  show "between s t \<le> s ! (nat \<lfloor>t\<rfloor> + 1)" if "nat \<lfloor>t\<rfloor> + 1 < length s"
    using that step f mult_left_le_one_le [of "s ! (k + 1) - s ! k" "frac t"] unfolding k_def [symmetric] b by simp
qed

lemma between_mono:
  assumes "sorted s" and "s \<noteq> []" and "0 \<le> t" and "t \<le> u" and "u \<le> real (length s - 1)"
  shows "between s t \<le> between s u"
proof -
  have u: "0 \<le> u" using assms(3,4) by simp
  have "\<lfloor>u\<rfloor> \<le> int (length s - 1)" using assms(5) by (simp add: floor_le_iff)
  then have top: "nat \<lfloor>u\<rfloor> < length s" using assms(2) by (cases s) auto
  have "\<lfloor>t\<rfloor> \<le> \<lfloor>u\<rfloor>" using assms(4) by (rule floor_mono)
  then have le: "nat \<lfloor>t\<rfloor> \<le> nat \<lfloor>u\<rfloor>" by simp
  show ?thesis
  proof (cases "nat \<lfloor>t\<rfloor> = nat \<lfloor>u\<rfloor>")
    case True
    define k where "k = nat \<lfloor>u\<rfloor>"
    have "0 \<le> \<lfloor>t\<rfloor>" "0 \<le> \<lfloor>u\<rfloor>" using assms(3) u by simp_all
    with True have "\<lfloor>t\<rfloor> = \<lfloor>u\<rfloor>" by linarith
    then have f: "frac t \<le> frac u" using assms(4) by (simp add: frac_def)
    have "(s ! (k + 1) - s ! k) * frac t \<le> (s ! (k + 1) - s ! k) * frac u" if "k + 1 < length s"
      using f assms(1) that by (intro mult_left_mono) (simp_all add: sorted_nth_mono)
    then show ?thesis unfolding between_def True k_def [symmetric] Let_def by (auto simp: algebra_simps)
  next
    case False
    with le have k: "nat \<lfloor>t\<rfloor> + 1 \<le> nat \<lfloor>u\<rfloor>" by simp
    with top have l: "nat \<lfloor>t\<rfloor> + 1 < length s" by simp
    have "between s t \<le> s ! (nat \<lfloor>t\<rfloor> + 1)" using between_bounds(2) [OF assms(1,3)] l by simp
    also have "\<dots> \<le> s ! nat \<lfloor>u\<rfloor>" using sorted_nth_mono [OF assms(1) k top] .
    also have "\<dots> \<le> between s u" using between_bounds(1) [OF assms(1) u top] .
    finally show ?thesis .
  qed
qed

lemma between_nth: "k < length s \<Longrightarrow> between s (real k) = s ! k"
  by (simp add: between_def Let_def frac_def)

text \<open>A quantile of a list that is not empty lies between its least and its greatest value, which are its
  quantiles for 0 and 1, and it grows with the share asked for. Every value of the list is the quantile
  of its place. An empty list is an IndexError.\<close>

theorem quantile_correct:
  assumes "l \<noteq> []" and "0 \<le> p" and "p \<le> q" and "q \<le> 1"
  shows "\<exists>a b. quantile l p = Return a \<and> quantile l q = Return b \<and> Min (set l) \<le> a \<and> a \<le> b \<and> b \<le> Max (set l) \<and>
    quantile l 0 = Return (Min (set l)) \<and> quantile l 1 = Return (Max (set l)) \<and>
    (if 2 \<le> length l \<and> k < length l then quantile l (real k / real (length l - 1)) = Return (sort l ! k) else True) \<and>
    quantile [] p = Raise IndexError"
proof -
  let ?s = "sort l" and ?n = "length l - 1"
  have n: "1 \<le> length l" using assms(1) by (cases l) auto
  have len: "length ?s = length l" by simp
  then have s: "sorted ?s" "?s \<noteq> []" using n by (simp, cases ?s) auto
  have in_list: "?s ! k \<in> set l" if "k < length l" for k using that nth_mem [of k ?s] by simp
  have first: "between ?s 0 = Min (set l)"
  proof -
    have "?s ! 0 \<le> x" if "x \<in> set l" for x
      using that sorted_nth_mono [OF s(1), of 0] by (metis in_set_conv_nth len le0 set_sort)
    then have "Min (set l) = ?s ! 0" using in_list [of 0] assms(1) by (intro Min_eqI) auto
    with between_nth [of 0 ?s] assms(1) show ?thesis by simp
  qed
  have last: "between ?s (real ?n) = Max (set l)"
  proof -
    have "x \<le> ?s ! ?n" if "x \<in> set l" for x
    proof -
      from that obtain i where i: "i < length ?s" "?s ! i = x" by (metis in_set_conv_nth set_sort)
      with sorted_nth_mono [OF s(1), of i ?n] show ?thesis by simp
    qed
    then have "Max (set l) = ?s ! ?n" using in_list [of ?n] assms(1) by (intro Max_eqI) auto
    with between_nth [of ?n ?s] assms(1) show ?thesis by simp
  qed
  have mono: "between ?s (real ?n * x) \<le> between ?s (real ?n * y)" if "0 \<le> x" "x \<le> y" "y \<le> 1" for x y
    using that by (intro between_mono s(1,2)) (simp_all add: mult_left_mono mult_left_le)
  have "quantile [] p = Raise IndexError"
    using assms(2-4) by (simp add: quantile_def Let_def py_nth_def int_of_float_def)
  moreover have "quantile l (real k / real ?n) = Return (?s ! k)" if "2 \<le> length l" "k < length l"
    using quantile_between [OF assms(1), of "real k / real ?n"] that between_nth [of k ?s] by simp
  ultimately show ?thesis
    using quantile_between [OF assms(1)] mono [of 0 p] mono [of p q] mono [of q 1] assms(2-4) first last by simp
qed

theorem quantile_correct_witness:
  "\<exists>a b. quantile [3, 1, 2] (1 / 4) = Return a \<and> quantile [3, 1, 2] (3 / 4) = Return b \<and> 1 \<le> a \<and> a \<le> b \<and> b \<le> 3 \<and>
     quantile [3, 1, 2] (1 / 2) = Return (sort [3, 1, 2] ! 1)"
  using quantile_correct [of "[3, 1, 2]" "1 / 4" "3 / 4" 1] by (auto simp: insert_commute)

text \<open>Trimming fails on an empty list with an IndexError. Otherwise the result is in order and is not empty; it
  consists of the values that are at most one and a half times the distance of the quartiles away from
  them, as often as they occur, so of every value between the quartiles.\<close>

theorem trim_correct:
  assumes "l \<noteq> []"
  shows "\<exists>t q1 q3. trim l = Return t \<and> quantile l (1 / 4) = Return q1 \<and> quantile l (3 / 4) = Return q3 \<and> q1 \<le> q3 \<and>
    sorted t \<and> t \<noteq> [] \<and>
    mset t = filter_mset (\<lambda>x. q1 - (q3 - q1) * (3 / 2) \<le> x \<and> x \<le> q3 + (q3 - q1) * (3 / 2)) (mset l) \<and>
    filter_mset (\<lambda>x. q1 \<le> x \<and> x \<le> q3) (mset l) \<subseteq># mset t \<and> trim [] = Raise IndexError"
proof -
  define s where "s = sort l"
  define q1 where "q1 = between s (real (length l - 1) * (1 / 4))"
  define q3 where "q3 = between s (real (length l - 1) * (3 / 4))"
  define keep where "keep = (\<lambda>x. q1 - (q3 - q1) * (3 / 2) \<le> x \<and> x \<le> q3 + (q3 - q1) * (3 / 2))"
  have len: "length s = length l" by (simp add: s_def)
  have n: "1 \<le> length l" using assms by (cases l) auto
  have ss: "sorted s" "s \<noteq> []" using assms len by (simp add: s_def, cases s) auto
  have q: "quantile l (1 / 4) = Return q1" "quantile l (3 / 4) = Return q3"
    using quantile_between [OF assms] by (simp_all add: q1_def q3_def s_def)
  have qs: "quantile s (1 / 4) = Return q1" "quantile s (3 / 4) = Return q3"
    using quantile_between [OF ss(2)] len sorted_sort_id [OF ss(1)] by (simp_all add: q1_def q3_def)
  have order: "q1 \<le> q3"
    unfolding q1_def q3_def using ss by (intro between_mono) (simp_all add: len mult_left_mono)
  define median where "median = (if even (length s)
      then bind_res (py_nth s (int (length s div 2))) (\<lambda>a. bind_res (py_nth s (int (length s div 2) - 1)) (\<lambda>b. Return ((a + b) / 2)))
      else py_nth s (int (length s div 2)))"
  have "length s div 2 < length s" using n len by simp
  moreover have "length s div 2 - 1 < length s" "1 \<le> length s div 2" if "even (length s)"
    using that n len by auto
  ultimately have "\<not> isl median"
    using py_nth_of_nat [of "length s div 2" s] py_nth_of_nat [of "length s div 2 - 1" s]
    by (auto simp: median_def of_nat_diff)
  then obtain m where "median = Return m" by (cases median) auto
  then have trim: "trim l = Return (filter keep s)"
    by (simp add: trim_def Let_def s_def [symmetric] median_def [symmetric] qs keep_def)
  have inside: "keep x" if "q1 \<le> x" "x \<le> q3" for x
  proof -
    have "0 \<le> (q3 - q1) * (3 / 2)" using order by simp
    with that show ?thesis unfolding keep_def by (intro conjI) linarith+
  qed
  have "\<exists>x \<in> set s. keep x"
  proof (cases "length l = 2")
    case False
    define k where "k = length l div 2"
    have k: "k < length s" using n len by (simp add: k_def)
    have "length l - 1 \<le> 4 * k" "4 * k \<le> 3 * (length l - 1)" using n False unfolding k_def by presburger+
    then have "real (length l - 1) \<le> 4 * real k" "4 * real k \<le> 3 * real (length l - 1)" by linarith+
    then have "real (length l - 1) * (1 / 4) \<le> real k" "real k \<le> real (length l - 1) * (3 / 4)" by linarith+
    then have "q1 \<le> between s (real k)" "between s (real k) \<le> q3"
      unfolding q1_def q3_def using ss k by (auto intro!: between_mono simp: len mult_left_le)
    then have "q1 \<le> s ! k" "s ! k \<le> q3" using between_nth [OF k] by simp_all
    then have "keep (s ! k)" by (rule inside)
    with k show ?thesis using nth_mem by blast
  next
    case True
    then obtain a b where ab: "s = [a, b]" using len by (auto simp: length_Suc_conv numeral_2_eq_2)
    have "q1 = a + (b - a) / 4" "q3 = a + (b - a) * (3 / 4)"
      using True ab by (simp_all add: q1_def q3_def between_def frac_def field_simps)
    then have "keep a" using ss ab by (simp add: keep_def field_simps)
    then show ?thesis using ab by simp
  qed
  then have "filter keep s \<noteq> []" by (simp add: filter_empty_conv)
  moreover have "mset (filter keep s) = filter_mset keep (mset l)" by (simp add: s_def)
  moreover have "filter_mset (\<lambda>x. q1 \<le> x \<and> x \<le> q3) (mset l) \<subseteq># filter_mset keep (mset l)"
    using inside by (intro mset_subset_eqI) auto
  moreover have "trim [] = Raise IndexError" by (simp add: trim_def py_nth_def)
  ultimately show ?thesis
    using trim q order ss(1) by (intro exI [of _ "filter keep s"] exI [of _ q1] exI [of _ q3]) (simp add: keep_def sorted_wrt_filter)
qed

theorem trim_correct_witness:
  "\<exists>t. trim [1, 2, 100, 3, 2] = Return t \<and> t \<noteq> [] \<and> sorted t \<and> set t \<subseteq> {1, 2, 3, 100}"
proof -
  from trim_correct [of "[1, 2, 100, 3, 2]"] obtain t q1 q3 where
    t: "trim [1, 2, 100, 3, 2] = Return t" "t \<noteq> []" "sorted t"
    and m: "mset t = filter_mset (\<lambda>x. q1 - (q3 - q1) * (3 / 2) \<le> x \<and> x \<le> q3 + (q3 - q1) * (3 / 2)) (mset [1, 2, 100, 3, 2])"
    by auto
  have "set_mset (mset t) \<subseteq> set_mset (mset [1, 2, 100, 3, 2])" unfolding m by (rule set_mset_mono) simp
  with t show ?thesis by auto
qed

section \<open>Ranges and random bits\<close>

lemma float_range_up:
  assumes "0 < step"
  shows "float_range_loop cur stop step = Some (map (\<lambda>k. cur + real k * step) [0..<nat \<lceil>(stop - cur) / step\<rceil>])"
proof (induction "nat \<lceil>(stop - cur) / step\<rceil>" arbitrary: cur)
  case 0
  then have "(stop - cur) / step \<le> 0" by (simp add: ceiling_le_iff)
  then have "\<not> cur < stop" using assms by (simp add: divide_le_0_iff)
  with 0 show ?case by (subst float_range_loop.simps) simp
next
  case (Suc n)
  then have n: "\<lceil>(stop - cur) / step\<rceil> = int n + 1" by linarith
  then have "0 < (stop - cur) / step" by linarith
  then have less: "cur < stop" using assms by (simp add: zero_less_divide_iff)
  have "(stop - (cur + step)) / step = (stop - cur) / step - 1" using assms by (simp add: field_simps)
  then have "n = nat \<lceil>(stop - (cur + step)) / step\<rceil>" using n by simp
  from Suc.hyps(1) [OF this] this
  have "float_range_loop (cur + step) stop step = Some (map (\<lambda>k. cur + step + real k * step) [0..<n])" by simp
  moreover have "[0..<Suc n] = 0 # map Suc [0..<n]" by (simp only: upt_conv_Cons map_Suc_upt)
  ultimately show ?case
    unfolding Suc.hyps(2) [symmetric] using less by (subst float_range_loop.simps) (simp add: comp_def algebra_simps)
qed

lemma float_range_endless:
  assumes "step \<le> 0" and "cur < stop"
  shows "float_range_loop cur stop step = None"
proof -
  have "\<not> (step \<le> 0 \<and> cur < stop)" if "float_range_loop cur stop step = Some l" for l
  proof (rule float_range_loop.raw_induct [where P = "\<lambda>cur stop step l. \<not> (step \<le> 0 \<and> cur < stop)", OF _ that])
    fix loop :: "real \<Rightarrow> real \<Rightarrow> real \<Rightarrow> real list option" and cur stop step :: real and l
    assume IH: "\<And>cur stop step l. loop cur stop step = Some l \<Longrightarrow> \<not> (step \<le> 0 \<and> cur < stop)"
      and "(if cur < stop then Option.bind (loop (cur + step) stop step) (\<lambda>l. Some (cur # l)) else Some []) = Some l"
    then have "cur < stop \<Longrightarrow> \<exists>l. loop (cur + step) stop step = Some l" by (auto simp: bind_eq_Some_conv)
    with IH have "cur < stop \<Longrightarrow> \<not> (step \<le> 0 \<and> cur + step < stop)" by blast
    then show "\<not> (step \<le> 0 \<and> cur < stop)" by linarith
  qed
  with assms show ?thesis by (cases "float_range_loop cur stop step") auto
qed


text \<open>Random bits are as many zeros and ones as are asked for, whatever is drawn. But with a largest value that the
  bits could exceed the result is never one: the value is scaled by a division, and a float has
  no digits in base 16, which is a TypeError.\<close>

theorem random_vec_correct:
  assumes "list_all (\<lambda>r. 0 \<le> r \<and> r < 1) rs" and "bits div 10 < length rs" and "0 < bits"
  shows "(\<exists>v. random_vec bits None rs = Return v \<and> length v = bits \<and> set v \<subseteq> {CHR ''0'', CHR ''1''} \<and>
      random_vec bits (Some 0) rs = Return v \<and> random_vec bits (Some (2 ^ bits - 1)) rs = Return v) \<and>
    (if m \<noteq> 0 \<and> m < 2 ^ bits - 1 then random_vec bits (Some m) rs = Raise TypeError else True)"
proof -
  define parts where "parts = map (\<lambda>r. to_bits 10 (nat \<lfloor>2 ^ 10 * r\<rfloor>)) (take (bits div 10 + 1) rs)"
  have part: "int2bin (int_of_float (2 ^ 10 * r)) 10 = Return (to_bits 10 (nat \<lfloor>2 ^ 10 * r\<rfloor>))" if "0 \<le> r" "r < 1" for r
  proof -
    have "\<lfloor>2 ^ 10 * r\<rfloor> < 1024" "0 \<le> \<lfloor>2 ^ 10 * r\<rfloor>" using that by (simp_all add: floor_less_iff)
    then have "nat \<lfloor>2 ^ 10 * r\<rfloor> < 1024" by linarith
    with that int2bin_to_bits [of 10 "nat \<lfloor>2 ^ 10 * r\<rfloor>"] show ?thesis by (simp add: int_of_float_def)
  qed
  have drawn: "map_res (\<lambda>r. int2bin (int_of_float (2 ^ 10 * r)) 10) (take (bits div 10 + 1) rs) = Return parts"
    unfolding parts_def by (rule map_res_Return, rule part) (use assms(1) in \<open>auto simp: list_all_iff dest: in_set_takeD\<close>)
  have "length (concat parts) = 10 * (bits div 10 + 1)"
    using assms(2) by (simp add: parts_def length_concat comp_def sum_list_triv)
  then have "length (take bits (concat parts)) = bits" by simp
  moreover have "set (take bits (concat parts)) \<subseteq> {CHR ''0'', CHR ''1''}"
    using set_to_bits by (auto simp: parts_def dest!: in_set_takeD) blast+
  moreover have "random_vec bits None rs = Return (take bits (concat parts))"
    "random_vec bits (Some m) rs =
      (if m \<noteq> 0 \<and> m < 2 ^ bits - 1 then Raise TypeError else Return (take bits (concat parts)))" for m
    using assms(3) by (simp_all only: random_vec_def drawn bind_res_simps option.case less_not_refl if_False if_distrib) auto
  ultimately show ?thesis by simp
qed

theorem random_vec_correct_witness:
  "\<exists>v. random_vec 12 None [1 / 2, 1 / 4] = Return v \<and> length v = 12 \<and> random_vec 12 (Some 100) [1 / 2, 1 / 4] = Raise TypeError"
  using random_vec_correct [of "[1 / 2, 1 / 4]" 12 100] by auto

end
