(* ===== verification/Binding_Gen.thy ===== *)
theory Binding_Gen
  imports Test_Jobs
begin

text \<open>
  What the generators of the Python bindings add to PyBindGen: the smart pointers and callback classes of
  \<open>bindings/python/ns3modulegen_core_customizations.py\<close>, the changes to the module of
  \<open>src/core/bindings/modulegen_customizations.py\<close> and the error handler of \<open>ns3modulegen-modular.py\<close>.
  PyBindGen itself is not part of the sources: which types it knows, what it names a new variable and the text
  of its proxy methods are arguments.
\<close>

section \<open>Smart pointers\<close>

text \<open>The regular expression of \<open>SmartPointerTransformation\<close>, which gives what stands between the brackets.\<close>

definition after_bracket :: "string \<Rightarrow> string option" where
  "after_bracket name =
     (if startswith name ''ns3::Ptr<'' then Some (drop 9 name)
      else if startswith name ''::ns3::Ptr<'' then Some (drop 11 name)
      else if startswith name ''Ptr<'' then Some (drop 4 name) else None)"

definition match_pointer :: "string \<Rightarrow> string option" where
  "match_pointer name =
     Option.bind (after_bracket name) (\<lambda>s.
       let inner = takeWhile (\<lambda>c. c \<noteq> CHR ''>'') s; rest = dropWhile (\<lambda>c. c \<noteq> CHR ''>'') s
       in if inner \<noteq> [] \<and> rest \<noteq> [] \<and> list_all is_space (tl rest) then Some inner else None)"

definition drop_first :: "string \<Rightarrow> string \<Rightarrow> string \<times> bool" where
  "drop_first p s = (if startswith s p then (drop (length p) s, True) else (s, False))"

definition drop_last :: "string \<Rightarrow> string \<Rightarrow> string \<times> bool" where
  "drop_last p s = (if endswith s p then (take (length s - length p) s, True) else (s, False))"

text \<open>\<open>_get_untransformed_type_traits\<close>: the type of the pointer and whether it is constant.\<close>

definition type_traits :: "string \<Rightarrow> string option \<times> bool" where
  "type_traits name =
     (case match_pointer name of
        None \<Rightarrow> (None, False)
      | Some inner \<Rightarrow>
          let (name1, const1) = drop_first ''const '' (str_strip inner);
              (name2, const2) = drop_last '' const'' name1
          in (Some (fst (drop_first ''::'' (name2 @ '' *''))), const1 \<or> const2))"

datatype handler_kind = ParameterHandler | ReturnHandler | OtherHandler

record type_handler =
  handler_kind :: handler_kind
  ctype :: string
  untransformed_ctype :: string
  owned :: bool

text \<open>\<open>create_type_handler\<close>; a name that does not match is None, which has no slices.\<close>

definition create_type_handler :: "handler_kind \<Rightarrow> string \<Rightarrow> type_handler res" where
  "create_type_handler kind name =
     (if kind = OtherHandler then Raise AssertionError
      else
        (case type_traits name of
           (None, _) \<Rightarrow> Raise TypeError
         | (Some orig_ctype, is_const) \<Rightarrow>
             let base = take (length orig_ctype - 2) orig_ctype
             in Return \<lparr>handler_kind = kind,
                        ctype = ''ns3::Ptr< '' @ base @ (if is_const then '' const >'' else '' >''),
                        untransformed_ctype = orig_ctype, owned = False\<rparr>))"

definition untransform :: "type_handler \<Rightarrow> string \<Rightarrow> string" where
  "untransform h expression =
     ''const_cast<'' @ untransformed_ctype h @ ''> (ns3::PeekPointer ('' @ expression @ ''))''"

definition transform :: "type_handler \<Rightarrow> string \<Rightarrow> string res" where
  "transform h expression =
     (if untransformed_ctype h = [] then Raise IndexError
      else if last (untransformed_ctype h) \<noteq> CHR ''*'' then Raise AssertionError
      else Return (''ns3::Ptr< '' @ butlast (untransformed_ctype h) @ '' > ('' @ expression @ '')''))"

section \<open>Parameters of the wrappers\<close>

text \<open>
  What the parameters do to the wrapper of PyBindGen is recorded: the variables that are declared, the arguments that are
  parsed, the pieces of code before the call and what is passed to it, each in the order of the calls.
\<close>

datatype code = Code string | ErrorCheck string "string option" | Cleanup string | Indent | Unindent

record wrapper =
  declarations :: "(string \<times> string \<times> string option) list"
  parse_params :: "(string \<times> string list \<times> string \<times> bool) list"
  before_call :: "code list"
  call_params :: "string list"

definition variables :: "wrapper \<Rightarrow> string list" where
  "variables w = map (\<lambda>(t, v, i). v) (declarations w)"

text \<open>\<open>declare_variable\<close>: \<open>fresh\<close> makes a name from those in use and the one asked for.\<close>

type_synonym naming = "string list \<Rightarrow> string \<Rightarrow> string"

definition declare_variable :: "naming \<Rightarrow> string \<Rightarrow> string \<Rightarrow> string option \<Rightarrow> wrapper \<Rightarrow> string \<times> wrapper" where
  "declare_variable fresh t name init w =
     (let v = fresh (variables w) name in (v, w\<lparr>declarations := declarations w @ [(t, v, init)]\<rparr>))"

definition add_parse :: "string \<Rightarrow> string list \<Rightarrow> string \<Rightarrow> bool \<Rightarrow> wrapper \<Rightarrow> wrapper" where
  "add_parse f args name opt w = w\<lparr>parse_params := parse_params w @ [(f, args, name, opt)]\<rparr>"

definition write_code :: "code list \<Rightarrow> wrapper \<Rightarrow> wrapper" where
  "write_code cs w = w\<lparr>before_call := before_call w @ cs\<rparr>"

definition add_call :: "string list \<Rightarrow> wrapper \<Rightarrow> wrapper" where
  "add_call args w = w\<lparr>call_params := call_params w @ args\<rparr>"

record callback_class =
  cls_name :: string
  impl_name :: string
  template_args :: "string list"

datatype cpp_param =
    CallbackParam callback_class string "string option"
  | ArgvParam string
  | OpenmodeParam string "string option"

definition callable_check :: "string \<Rightarrow> string \<Rightarrow> code" where
  "callable_check v name =
     ErrorCheck (''!PyCallable_Check('' @ v @ '')'')
       (Some (''PyErr_SetString(PyExc_TypeError, '' @ [CHR 0x22] @ ''parameter '' @ [CHR 0x27] @ name @ [CHR 0x27] @
              '' must be callbale'' @ [CHR 0x22] @ '');''))"

text \<open>\<open>convert_python_to_c\<close> of \<open>PythonCallbackParameter\<close>\<close>

definition callback_to_c ::
  "naming \<Rightarrow> string set \<Rightarrow> callback_class \<Rightarrow> string \<Rightarrow> string option \<Rightarrow> wrapper \<Rightarrow> wrapper res" where
  "callback_to_c fresh disabled cb name dflt w =
     (if cls_name cb \<in> disabled then Raise (GenericException ''CodeGenerationError'')
      else
        (let args = str_join '', '' (template_args cb)
         in case dflt of
              None \<Rightarrow>
                let (py, w) = declare_variable fresh ''PyObject*'' name None w;
                    w = add_parse ''O'' [''&'' @ py] name False w;
                    w = write_code [callable_check py name] w;
                    (impl, w) = declare_variable fresh (''ns3::Ptr<'' @ impl_name cb @ ''>'') (name @ ''_cb_impl'') None w;
                    w = write_code [Code (impl @ '' = ns3::Create<'' @ impl_name cb @ ''> ('' @ py @ '');'')] w
                in Return (add_call [''ns3::Callback<'' @ args @ ''> ('' @ impl @ '')''] w)
            | Some d \<Rightarrow>
                let (py, w) = declare_variable fresh ''PyObject*'' name (Some ''NULL'') w;
                    w = add_parse ''O'' [''&'' @ py] name True w;
                    (val, w) = declare_variable fresh (''ns3::Callback<'' @ args @ ''>'') (name @ ''_value'') (Some d) w;
                    w = write_code [Code (''if ('' @ py @ '') {''), Indent, callable_check py name,
                          Code (val @ '' = ns3::Callback<'' @ args @ ''> (ns3::Create<'' @ impl_name cb @ ''> ('' @ py @ ''));''),
                          Unindent, Code ''}''] w
                in Return (add_call [val] w)))"

text \<open>\<open>convert_python_to_c\<close> of \<open>ArgvParam\<close> and \<open>IosOpenmodeParam\<close>\<close>

abbreviation newline_text :: string where "newline_text \<equiv> [CHR 10]"

definition argv_to_c :: "naming \<Rightarrow> string \<Rightarrow> wrapper \<Rightarrow> wrapper" where
  "argv_to_c fresh name w =
     (let (py, w) = declare_variable fresh ''PyObject*'' (''py_'' @ name) None w;
          (argc, w) = declare_variable fresh ''int'' ''argc'' None w;
          (v, w) = declare_variable fresh ''char**'' name None w;
          (idx, w) = declare_variable fresh ''Py_ssize_t'' ''idx'' None w;
          w = add_parse ''O!'' [''&PyList_Type'', ''&'' @ py] name False w;
          w = write_code
            [Code (v @ '' = (char **) malloc(sizeof(char*)*PyList_Size('' @ py @ ''));''),
             Cleanup (''free('' @ v @ '');''),
             Code (newline_text @ ''for ('' @ idx @ '' = 0; '' @ idx @ '' < PyList_Size('' @ py @ ''); '' @ idx @ ''++)'' @
                   newline_text @ ''{'' @ newline_text),
             Indent,
             Code (newline_text @ ''PyObject *item = PyList_GET_ITEM('' @ py @ '', '' @ idx @ '');'' @ newline_text),
             ErrorCheck (newline_text @ ''#if PY_VERSION_HEX >= 0x03000000'' @ newline_text @ ''!PyUnicode_Check(item)'' @
                   newline_text @ ''#else'' @ newline_text @ ''!PyString_Check(item)'' @ newline_text @ ''#endif'' @ newline_text)
               (Some (''PyErr_SetString(PyExc_TypeError, '' @ [CHR 0x22] @ ''argument '' @ name @
                      '' must be a list of strings'' @ [CHR 0x22] @ '');'')),
             Code (''#if PY_VERSION_HEX >= 0x03000000'' @ newline_text @
                   v @ ''['' @ idx @ ''] = const_cast<char *> (PyUnicode_AsUTF8(item));'' @ newline_text @
                   ''#else'' @ newline_text @ v @ ''['' @ idx @ ''] = PyString_AsString(item);'' @ newline_text @
                   ''#endif'' @ newline_text),
             Unindent, Code ''}'', Code (argc @ '' = PyList_Size('' @ py @ '');'')] w
      in add_call [argc, v] w)"

definition openmode_to_c :: "naming \<Rightarrow> string \<Rightarrow> string option \<Rightarrow> wrapper \<Rightarrow> wrapper" where
  "openmode_to_c fresh name dflt w =
     (let (v, w) = declare_variable fresh ''std::ios_base::openmode'' name dflt w;
          w = add_parse ''i'' [''&'' @ v] name (dflt \<noteq> None \<and> dflt \<noteq> Some []) w
      in add_call [v] w)"

fun param_to_c :: "naming \<Rightarrow> string set \<Rightarrow> cpp_param \<Rightarrow> wrapper \<Rightarrow> wrapper res" where
  "param_to_c fresh disabled (CallbackParam cb name dflt) w = callback_to_c fresh disabled cb name dflt w"
| "param_to_c fresh disabled (ArgvParam name) w = Return (argv_to_c fresh name w)"
| "param_to_c fresh disabled (OpenmodeParam name dflt) w = Return (openmode_to_c fresh name dflt w)"

text \<open>PyBindGen converts the parameters of a method one after the other.\<close>

definition params_to_c :: "naming \<Rightarrow> string set \<Rightarrow> cpp_param list \<Rightarrow> wrapper res" where
  "params_to_c fresh disabled ps =
     fold_res (param_to_c fresh disabled) ps
       \<lparr>declarations = [], parse_params = [], before_call = [], call_params = []\<rparr>"

section \<open>Callback classes\<close>

definition callback_name :: "string list \<Rightarrow> string" where
  "callback_name targs = ''ns3::Callback< '' @ str_join '', '' targs @ '' >''"

definition callback_impl :: "nat \<Rightarrow> string" where
  "callback_impl i = ''PythonCallbackImpl'' @ str_of_nat i"

text \<open>\<open>register_callback_classes\<close>: the handlers, one for each callback.\<close>

definition register_callback_classes :: "string list list \<Rightarrow> callback_class list" where
  "register_callback_classes callbacks =
     map (\<lambda>(i, targs). \<lparr>cls_name = callback_name targs, impl_name = callback_impl i, template_args = targs\<rparr>)
       (enumerate 0 callbacks)"

text \<open>The text of a class up to its operator, line by line.\<close>

definition class_header :: "string \<Rightarrow> string list \<Rightarrow> string list" where
  "class_header n targs =
     [[], ''class '' @ n @ '' : public ns3::CallbackImpl<'' @ str_join '', '' targs @ ''>'',
      ''{'', ''public:'', ''    PyObject *m_callback;'',
      ''    '' @ n @ ''(PyObject *callback)'', ''    {'', ''        Py_INCREF(callback);'',
      ''        m_callback = callback;'', ''    }'',
      ''    virtual ~'' @ n @ ''()'', ''    {'', ''        PyGILState_STATE __py_gil_state;'',
      ''        __py_gil_state = (PyEval_ThreadsInitialized() ? PyGILState_Ensure() : (PyGILState_STATE) 0);'',
      ''        Py_DECREF(m_callback);'', ''        m_callback = NULL;'',
      ''        PyGILState_Release(__py_gil_state);'', ''    }'', [],
      ''    virtual bool IsEqual(ns3::Ptr<const ns3::CallbackImplBase> other_base) const'', ''    {'',
      ''        const '' @ n @ '' *other = dynamic_cast<const '' @ n @ ''*> (ns3::PeekPointer (other_base));'',
      ''        if (other != NULL)'', ''            return (other->m_callback == m_callback);'',
      ''        else'', ''            return false;'', ''    }'', [], []]"

text \<open>
  What is there of PyBindGen: whether it makes a handler for a type of a return value and of a parameter, the
  handlers it has already, and the text of a proxy method.
\<close>

record binding_tool =
  return_type_ok :: "string \<Rightarrow> bool"
  param_type_ok :: "string \<Rightarrow> bool"
  proxy_method :: "string \<Rightarrow> string list \<Rightarrow> string list"

record gen_state =
  disabled_classes :: "string set"
  written_classes :: "(string \<times> string list) list"
  gen_warnings :: "string list"

definition return_warning :: "string \<Rightarrow> string \<Rightarrow> string" where
  "return_warning t cls = ''***** Unable to register callback; Return value '' @ [CHR 0x27] @ t @ [CHR 0x27] @ '' error (used in '' @ cls @ '')''"

definition param_warning :: "string \<Rightarrow> nat \<Rightarrow> string \<Rightarrow> string" where
  "param_warning t k cls =
     ''***** Unable to register callback; parameter '' @ [CHR 0x27] @ t @ '' arg'' @ str_of_nat (k + 1) @ [CHR 0x27] @
     '' error (used in '' @ cls @ '')''"

text \<open>One turn of \<open>generate_callback_classes\<close>. A return type that is unknown ends it before anything is disabled.\<close>

definition generate_class :: "binding_tool \<Rightarrow> callback_class list \<Rightarrow> nat \<times> string list \<Rightarrow> gen_state \<Rightarrow> gen_state res" where
  "generate_class tool registered = (\<lambda>(i, targs) s.
     case targs of
       [] \<Rightarrow> Raise IndexError
     | ret # args \<Rightarrow>
         let cls = callback_name targs; n = callback_impl i; ps = filter (\<lambda>a. a \<noteq> ''ns3::empty'') args
         in if \<not> return_type_ok tool ret then Return (s\<lparr>gen_warnings := gen_warnings s @ [return_warning ret cls]\<rparr>)
            else
              (let bad = filter (\<lambda>(k, a). \<not> param_type_ok tool a) (enumerate 0 ps);
                   s = s\<lparr>gen_warnings := gen_warnings s @ map (\<lambda>(k, a). param_warning a k cls) bad\<rparr>
               in if bad \<noteq> []
                  then Return (if cls \<in> set (map cls_name registered)
                               then s\<lparr>disabled_classes := insert cls (disabled_classes s)\<rparr> else s)
                  else Return (s\<lparr>written_classes := written_classes s @
                         [(n, class_header n targs @ proxy_method tool ret ps @ [''};'', []])]\<rparr>)))"

definition generate_callback_classes :: "binding_tool \<Rightarrow> callback_class list \<Rightarrow> string list list \<Rightarrow> gen_state res" where
  "generate_callback_classes tool registered callbacks =
     fold_res (generate_class tool registered) (enumerate 0 callbacks)
       \<lparr>disabled_classes = {}, written_classes = [], gen_warnings = []\<rparr>"

text \<open>\<open>generate_python_call\<close>, on the parameters that are built for the call.\<close>

definition generate_python_call :: "naming \<Rightarrow> string list \<Rightarrow> wrapper \<Rightarrow> wrapper res" where
  "generate_python_call fresh build_params w =
     (case build_params of
        [] \<Rightarrow> Raise IndexError
      | [] # _ \<Rightarrow> Raise IndexError
      | (c # cs) # ps \<Rightarrow>
          let params = (if c = CHR 0x22 then ''(char *) '' @ c # cs else c # cs) # ps;
              (args, w) = declare_variable fresh ''PyObject*'' ''args'' None w
          in Return (write_code
               [Code (args @ '' = Py_BuildValue('' @ str_join '', '' params @ '');''), Cleanup (''Py_DECREF('' @ args @ '');''),
                Code (''py_retval = PyObject_CallObject(m_callback, '' @ args @ '');''),
                ErrorCheck ''py_retval == NULL'' None, Cleanup ''Py_DECREF(py_retval);''] w))"

section \<open>Instances\<close>

record cpp_class =
  class_name :: string
  cannot_be_constructed :: bool
  incomplete_type :: bool

text \<open>
  \<open>ns3_object_instance_creation_function\<close> and the code after it; \<open>lvalue\<close> is a name. The message for a class that cannot be
  constructed has two places and one argument.
\<close>

definition instance_creation :: "cpp_class \<Rightarrow> string \<Rightarrow> string \<Rightarrow> string \<Rightarrow> code list res" where
  "instance_creation c lvalue parameters construct_type_name =
     (if lvalue = [] \<or> startswith lvalue ''None'' then Raise AssertionError
      else if cannot_be_constructed c then Raise TypeError
      else if incomplete_type c then Raise (GenericException ''CodeGenerationError'')
      else Return [Code (lvalue @ '' = new '' @ construct_type_name @ ''('' @ parameters @ '');''), Code (lvalue @ ''->Ref ();'')])"

definition post_instance_creation :: "string \<Rightarrow> code list" where
  "post_instance_creation lvalue = [Code (''ns3::CompleteConstruct('' @ lvalue @ '');'')]"

text \<open>\<open>helper_class_hook\<close>: the method and the code after the class.\<close>

definition helper_class_hook :: "string \<Rightarrow> string \<Rightarrow> string list \<times> string" where
  "helper_class_hook name full_name =
     ([[], ''static ns3::TypeId GetTypeId (void)'', ''{'',
       ''  static ns3::TypeId tid = ns3::TypeId ('' @ [CHR 0x22] @ name @ [CHR 0x22] @ '')'',
       ''    .SetParent< '' @ full_name @ '' > ()'', ''    ;'', ''  return tid;'', ''}''],
      ''NS_OBJECT_ENSURE_REGISTERED ('' @ name @ '');'')"

text \<open>\<open>Attribute_customizations\<close>, on the parameters of a method; only references to classes count.\<close>

record method_param =
  is_class_ref :: bool
  param_class :: string
  default_value :: "string option"
  default_value_type :: "string option"

definition attribute_customization :: "method_param \<Rightarrow> method_param" where
  "attribute_customization p =
     (if is_class_ref p \<and> param_class p = ''AttributeValue'' \<and> default_value p \<noteq> None \<and> default_value_type p = None
      then p\<lparr>default_value_type := Some ''ns3::EmptyAttributeValue''\<rparr> else p)"

section \<open>The module\<close>

record cpp_module =
  classes :: "string list"
  enums :: "string list"
  custom_wrappers :: "(string \<times> string \<times> string) list"
  argv_methods :: "(string \<times> string) list"
  module_includes :: "string list"
  after_init :: "string list"
  aliases :: "(string \<times> string) list"

definition module_class :: "string \<Rightarrow> cpp_module \<Rightarrow> unit res" where
  "module_class name m = (if name \<in> set (classes m) \<union> set (enums m) then Return () else Raise KeyError)"

definition add_wrappers :: "string \<Rightarrow> string \<Rightarrow> string list \<Rightarrow> cpp_module \<Rightarrow> cpp_module res" where
  "add_wrappers cls short methods m =
     bind_res (module_class cls m) (\<lambda>_.
       Return (m\<lparr>custom_wrappers := custom_wrappers m @ map (\<lambda>f. (cls, f, ''_wrap_'' @ short @ ''_'' @ f)) methods\<rparr>))"

definition Simulator_customizations :: "cpp_module \<Rightarrow> cpp_module res" where
  "Simulator_customizations =
     add_wrappers ''ns3::Simulator'' ''Simulator'' [''Schedule'', ''ScheduleNow'', ''ScheduleWithContext'', ''ScheduleDestroy'', ''Run'']"

definition CommandLine_customizations :: "cpp_module \<Rightarrow> cpp_module res" where
  "CommandLine_customizations m =
     bind_res (module_class ''ns3::CommandLine'' m) (\<lambda>_.
       add_wrappers ''ns3::CommandLine'' ''CommandLine'' [''AddValue'']
         (m\<lparr>argv_methods := argv_methods m @ [(''ns3::CommandLine'', ''Parse'')]\<rparr>))"

definition TypeId_customizations :: "cpp_module \<Rightarrow> cpp_module res" where
  "TypeId_customizations = add_wrappers ''ns3::TypeId'' ''TypeId'' [''LookupByNameFailSafe'']"

definition openmode_flags :: "(string \<times> string) list" where
  "openmode_flags = [(''in'', ''IN''), (''out'', ''OUT''), (''ate'', ''ATE''), (''app'', ''APP''), (''trunc'', ''TRUNC''), (''binary'', ''BINARY'')]"

definition openmode_code :: "string list" where
  "openmode_code =
     map (\<lambda>(flag, upper). ''PyModule_AddIntConstant(m, (char *) '' @ [CHR 0x22] @ ''STD_IOS_'' @ upper @ [CHR 0x22] @
            '', std::ios::'' @ flag @ '');'') openmode_flags"

definition add_std_ofstream :: "cpp_module \<Rightarrow> cpp_module" where
  "add_std_ofstream m =
     m\<lparr>module_includes := module_includes m @ [''<fstream>''], classes := classes m @ [''::std::ostream'', ''::std::ofstream''],
       enums := enums m @ [''::std::ofstream::openmode''],
       aliases := aliases m @ [(''std::_Ios_Openmode'', ''int''), (''std::ios::openmode'', ''int'')],
       after_init := after_init m @ openmode_code\<rparr>"

text \<open>\<open>root_module.classes.remove(root_module[name])\<close>; the lookup also finds enumerations.\<close>

definition remove_class :: "string \<Rightarrow> cpp_module \<Rightarrow> cpp_module res" where
  "remove_class name m =
     bind_res (module_class name m) (\<lambda>_.
     bind_res (py_remove name (classes m)) (\<lambda>cs. Return (m\<lparr>classes := cs\<rparr>)))"

definition remove_enum :: "string \<Rightarrow> cpp_module \<Rightarrow> cpp_module res" where
  "remove_enum name m =
     bind_res (module_class name m) (\<lambda>_.
     bind_res (py_remove name (enums m)) (\<lambda>es. Return (m\<lparr>enums := es\<rparr>)))"

definition threading_classes :: "string list" where
  "threading_classes = [''ns3::SystemThread'', ''ns3::SystemMutex'', ''ns3::SystemCondition'', ''ns3::CriticalSection'',
     ''ns3::SimpleRefCount< ns3::SystemThread, ns3::empty, ns3::DefaultDeleter<ns3::SystemThread> >'']"

definition realtime_classes :: "string list" where
  "realtime_classes = [''ns3::WallClockSynchronizer'', ''ns3::RealtimeSimulatorImpl'']"

definition post_register_types :: "string \<Rightarrow> cpp_module \<Rightarrow> cpp_module res" where
  "post_register_types features m =
     bind_res (Simulator_customizations m) (\<lambda>m.
     bind_res (CommandLine_customizations m) (\<lambda>m.
     bind_res (TypeId_customizations m) (\<lambda>m.
       let m = add_std_ofstream m; enabled = split_on CHR '','' features
       in bind_res (if ''Threading'' \<notin> set enabled then fold_res remove_class threading_classes m else Return m) (\<lambda>m.
          bind_res (if ''RealTime'' \<notin> set enabled
                    then bind_res (fold_res remove_class realtime_classes m)
                           (remove_enum ''ns3::RealtimeSimulatorImpl::SynchronizationMode'')
                    else Return m) (\<lambda>m.
            Return (m\<lparr>after_init := after_init m @ [''PyEval_InitThreads();'']\<rparr>))))))"

section \<open>Errors\<close>

text \<open>
  \<open>ErrorHandler.handle_error\<close> of \<open>ns3modulegen-modular.py\<close>: what is warned of, a line of the file with the
  definitions or nothing more exact, and the stack of the wrapper, which is reversed in place.
\<close>

definition handle_error :: "string \<Rightarrow> (string \<times> nat) list \<Rightarrow> (string \<times> nat) option \<times> (string \<times> nat) list" where
  "handle_error apidefs_file stack = (find (\<lambda>l. fst l = apidefs_file) (rev stack), rev stack)"

section \<open>Names of smart pointers\<close>

definition plain_class :: "string \<Rightarrow> bool" where
  "plain_class c \<longleftrightarrow>
     c \<noteq> [] \<and> CHR ''>'' \<notin> set c \<and> \<not> is_space (hd c) \<and> \<not> is_space (last c) \<and> c \<noteq> ''const'' \<and>
     \<not> startswith c ''const '' \<and> \<not> endswith c '' const'' \<and> \<not> startswith c ''::''"

lemma after_bracket_written: "p \<in> {''ns3::'', ''::ns3::'', []} \<Longrightarrow> after_bracket (p @ ''Ptr<'' @ s) = Some s"
  by (auto simp: after_bracket_def)

lemma match_written:
  assumes "p \<in> {''ns3::'', ''::ns3::'', []}" and "CHR ''>'' \<notin> set s" and "s \<noteq> []" and "list_all is_space d"
  shows "match_pointer (p @ ''Ptr<'' @ s @ ''>'' @ d) = Some s"
proof -
  have "takeWhile (\<lambda>c. c \<noteq> CHR ''>'') (s @ CHR ''>'' # d) = s" "dropWhile (\<lambda>c. c \<noteq> CHR ''>'') (s @ CHR ''>'' # d) = CHR ''>'' # d"
    using assms(2) by (induction s) auto
  with assms(3,4) show ?thesis
    unfolding match_pointer_def after_bracket_written [OF assms(1)] by (simp add: Let_def)
qed

lemma strip_spaces:
  assumes "list_all is_space a" and "list_all is_space b" and "x \<noteq> []" and "\<not> is_space (hd x)" and "\<not> is_space (last x)"
  shows "str_strip (a @ x @ b) = x"
proof -
  have front: "dropWhile is_space (u @ v) = v" if "list_all is_space u" "v \<noteq> []" "\<not> is_space (hd v)" for u v
    using that by (induction u) (cases v, auto)
  have "dropWhile is_space (a @ x @ b) = x @ b" using front [of a "x @ b"] assms by simp
  moreover have "dropWhile is_space (rev b @ rev x) = rev x"
    using front [of "rev b" "rev x"] assms by (simp add: hd_rev list_all_rev)
  ultimately show ?thesis by (simp add: str_strip_def)
qed

lemma drop_affixes:
  "drop_first p (p @ s) = (s, True)" "\<not> startswith s p \<Longrightarrow> drop_first p s = (s, False)"
  "drop_last p (s @ p) = (s, True)" "\<not> endswith s p \<Longrightarrow> drop_last p s = (s, False)"
  by (simp_all add: drop_first_def drop_last_def suffixI)

lemma const_inside:
  assumes "plain_class c"
  shows "\<not> startswith (c @ '' const'') ''const ''"
proof
  assume "startswith (c @ '' const'') ''const ''"
  then consider "startswith c ''const ''" | us where "''const '' = c @ us" "prefix us '' const''"
    unfolding prefix_append by blast
  then show False
  proof cases
    case (2 us)
    show False
    proof (cases us)
      case Nil
      with 2(1) have "c = ''const '' " by simp
      with assms show False by (simp add: plain_class_def is_space_def)
    next
      case (Cons u us')
      with 2(2) have u: "us = CHR '' '' # us'" "prefix us' ''const''" by auto
      have "last us = CHR '' ''" using arg_cong [OF 2(1), of last] Cons by simp
      moreover have "last us' \<in> set ''const''" if "us' \<noteq> []" using set_mono_prefix [OF u(2)] last_in_set [OF that] by blast
      ultimately have "us' = []" using u by (auto split: if_splits)
      with 2(1) u have "c @ '' '' = ''const'' @ '' ''" by simp
      with assms show False by (simp only: append_same_eq) (simp add: plain_class_def)
    qed
  qed (use assms in \<open>simp add: plain_class_def\<close>)
qed

lemma strip_const:
  assumes "plain_class c" and "(x, k) \<in> {(c, False), (''const '' @ c, True), (c @ '' const'', True)}"
  shows "\<exists>y k1 k2. drop_first ''const '' x = (y, k1) \<and> drop_last '' const'' y = (c, k2) \<and> (k1 \<or> k2) = k"
proof -
  have c: "\<not> startswith c ''const ''" "\<not> endswith c '' const''" using assms(1) by (simp_all add: plain_class_def)
  from assms(2) consider "x = c" "\<not> k" | "x = ''const '' @ c" "k" | "x = c @ '' const''" "k" by blast
  then show ?thesis
  proof cases
    case 1
    with drop_affixes(2) [OF c(1)] drop_affixes(4) [OF c(2)] show ?thesis
      by (intro exI [of _ c] exI [of _ False]) simp
  next
    case 2
    have "drop_first ''const '' x = (c, True)" unfolding 2(1) by (rule drop_affixes(1))
    with drop_affixes(4) [OF c(2)] 2(2) show ?thesis
      by (intro exI [of _ c] exI [of _ True] exI [of _ False]) simp
  next
    case 3
    have "drop_first ''const '' x = (x, False)" unfolding 3(1) by (rule drop_affixes(2), rule const_inside, rule assms(1))
    moreover have "drop_last '' const'' x = (c, True)" unfolding 3(1) by (rule drop_affixes(3))
    ultimately show ?thesis using 3(2) by (intro exI [of _ x] exI [of _ False] exI [of _ True]) simp
  qed
qed

lemma traits_written:
  assumes "plain_class c" and "p \<in> {''ns3::'', ''::ns3::'', []}" and "(x, k) \<in> {(c, False), (''const '' @ c, True), (c @ '' const'', True)}"
    and "list_all is_space a" and "list_all is_space b" and "list_all is_space d"
  shows "type_traits (p @ ''Ptr<'' @ a @ x @ b @ ''>'' @ d) = (Some (c @ '' *''), k)"
proof -
  note c = assms(1) [unfolded plain_class_def]
  have spaces: "CHR ''>'' \<notin> set a" "CHR ''>'' \<notin> set b"
    using assms(4,5) by (auto simp: list_all_iff is_space_def)
  have x: "x \<noteq> []" "\<not> is_space (hd x)" "\<not> is_space (last x)" "CHR ''>'' \<notin> set x"
    using assms(3) c by (auto simp: is_space_def)
  have m: "match_pointer (p @ ''Ptr<'' @ (a @ x @ b) @ ''>'' @ d) = Some (a @ x @ b)"
    by (rule match_written) (use assms(2,6) x spaces in auto)
  have s: "str_strip (a @ x @ b) = x" using strip_spaces assms(4,5) x by blast
  have "\<not> startswith (c @ '' *'') ''::''" using c by (cases c; cases "tl c") auto
  from drop_affixes(2) [OF this] have colons: "fst (drop_first ''::'' (c @ '' *'')) = c @ '' *''" by (simp only: fst_conv)
  from strip_const [OF assms(1,3)] obtain y k1 k2 where
    y: "drop_first ''const '' x = (y, k1)" "drop_last '' const'' y = (c, k2)" "(k1 \<or> k2) = k" by blast
  have "type_traits (p @ ''Ptr<'' @ (a @ x @ b) @ ''>'' @ d) = (Some (c @ '' *''), k)"
    unfolding type_traits_def m option.case s y Let_def prod.case colons ..
  then show ?thesis by (simp only: append_assoc)
qed



section \<open>Wrappers and callback classes\<close>

text \<open>The depth that a piece of code ends at, when it never goes below the one of its start.\<close>

fun nesting :: "nat \<Rightarrow> code list \<Rightarrow> nat option" where
  "nesting n [] = Some n"
| "nesting n (Indent # cs) = nesting (Suc n) cs"
| "nesting n (Unindent # cs) = (case n of 0 \<Rightarrow> None | Suc m \<Rightarrow> nesting m cs)"
| "nesting n (Code _ # cs) = nesting n cs"
| "nesting n (ErrorCheck _ _ # cs) = nesting n cs"
| "nesting n (Cleanup _ # cs) = nesting n cs"

lemma nesting_append: "nesting n (xs @ ys) = Option.bind (nesting n xs) (\<lambda>m. nesting m ys)"
  by (induction n xs rule: nesting.induct) (auto split: nat.splits)

fun param_name :: "cpp_param \<Rightarrow> string" where
  "param_name (CallbackParam cb name dflt) = name"
| "param_name (ArgvParam name) = name"
| "param_name (OpenmodeParam name dflt) = name"

fun c_arguments :: "cpp_param \<Rightarrow> nat" where
  "c_arguments (ArgvParam name) = 2"
| "c_arguments (CallbackParam cb name dflt) = 1"
| "c_arguments (OpenmodeParam name dflt) = 1"

fun uses_disabled :: "string set \<Rightarrow> cpp_param \<Rightarrow> bool" where
  "uses_disabled disabled (CallbackParam cb name dflt) \<longleftrightarrow> cls_name cb \<in> disabled"
| "uses_disabled disabled _ \<longleftrightarrow> False"

definition wrapper_ok :: "wrapper \<Rightarrow> bool" where
  "wrapper_ok w \<longleftrightarrow> distinct (variables w) \<and> nesting 0 (before_call w) = Some 0"

lemma declare_simps:
  "fst (declare_variable fresh t name init w) = fresh (variables w) name"
  "variables (snd (declare_variable fresh t name init w)) = variables w @ [fresh (variables w) name]"
  "parse_params (snd (declare_variable fresh t name init w)) = parse_params w"
  "before_call (snd (declare_variable fresh t name init w)) = before_call w"
  "call_params (snd (declare_variable fresh t name init w)) = call_params w"
  by (simp_all add: declare_variable_def variables_def Let_def)

lemma emit_simps:
  "variables (add_parse f args name opt w) = variables w" "before_call (add_parse f args name opt w) = before_call w"
  "call_params (add_parse f args name opt w) = call_params w"
  "parse_params (add_parse f args name opt w) = parse_params w @ [(f, args, name, opt)]"
  "variables (write_code cs w) = variables w" "before_call (write_code cs w) = before_call w @ cs"
  "call_params (write_code cs w) = call_params w" "parse_params (write_code cs w) = parse_params w"
  "variables (add_call as w) = variables w" "before_call (add_call as w) = before_call w"
  "call_params (add_call as w) = call_params w @ as" "parse_params (add_call as w) = parse_params w"
  by (simp_all add: add_parse_def write_code_def add_call_def variables_def)

lemmas wrapper_simps = declare_simps emit_simps

lemma param_step:
  assumes fresh: "\<And>vs n. fresh vs n \<notin> set vs" and ok: "wrapper_ok w"
  shows "if uses_disabled disabled p then param_to_c fresh disabled p w = Raise (GenericException ''CodeGenerationError'')
    else \<exists>w'. param_to_c fresh disabled p w = Return w' \<and> wrapper_ok w' \<and>
      map (\<lambda>(f, a, name, opt). name) (parse_params w') = map (\<lambda>(f, a, name, opt). name) (parse_params w) @ [param_name p] \<and>
      length (call_params w') = length (call_params w) + c_arguments p"
proof -
  from ok have o: "distinct (variables w)" "nesting 0 (before_call w) = Some 0" by (simp_all add: wrapper_ok_def)
  have new: "fresh (vs @ us) n \<notin> set vs" "fresh (vs @ us) n \<notin> set us" for vs us n
    using fresh [of "vs @ us" n] by simp_all
  have ne: "u \<in> set us \<Longrightarrow> fresh (vs @ us) n \<noteq> u" "u \<in> set us \<Longrightarrow> u \<noteq> fresh (vs @ us) n" for vs us u n
    using new(2) [of vs us n] by auto
  show ?thesis
  proof (cases p)
    case (CallbackParam cb name dflt)
    then show ?thesis
      using o fresh new(1)
      by (cases dflt; simp only: param_to_c.simps callback_to_c_def uses_disabled.simps)
        (auto simp: wrapper_ok_def Let_def case_prod_beta wrapper_simps nesting_append callable_check_def ne)
  next
    case (ArgvParam name)
    then show ?thesis
      using o fresh new(1)
      by (simp only: param_to_c.simps argv_to_c_def uses_disabled.simps)
        (auto simp: wrapper_ok_def Let_def case_prod_beta wrapper_simps nesting_append ne)
  next
    case (OpenmodeParam name dflt)
    then show ?thesis
      using o fresh new(1) by (auto simp: openmode_to_c_def wrapper_ok_def Let_def case_prod_beta wrapper_simps)
  qed
qed


text \<open>A naming that is always new: one longer than all the names in use.\<close>

definition longer_name :: naming where
  "longer_name vs n = n @ replicate (Suc (sum_list (map length vs))) CHR ''_''"

lemma longer_name_new: "longer_name vs n \<notin> set vs"
proof
  assume "longer_name vs n \<in> set vs"
  then have "length (longer_name vs n) \<le> sum_list (map length vs)"
    by (intro member_le_sum_list) (simp_all add: image_iff, metis)
  then show False by (simp add: longer_name_def)
qed


text \<open>What a callback is classified by: its return type and the types of its parameters.\<close>

definition args_ok :: "binding_tool \<Rightarrow> string list \<Rightarrow> bool" where
  "args_ok tool targs \<longleftrightarrow> list_all (\<lambda>a. a = ''ns3::empty'' \<or> param_type_ok tool a) (tl targs)"

definition class_written :: "binding_tool \<Rightarrow> string list \<Rightarrow> bool" where
  "class_written tool targs \<longleftrightarrow> return_type_ok tool (hd targs) \<and> args_ok tool targs"

definition class_disabled :: "binding_tool \<Rightarrow> string list \<Rightarrow> bool" where
  "class_disabled tool targs \<longleftrightarrow> return_type_ok tool (hd targs) \<and> \<not> args_ok tool targs"

lemma no_bad_iff:
  "filter (\<lambda>(k, a). \<not> ok a) (enumerate n (filter (\<lambda>a. a \<noteq> e) as)) = [] \<longleftrightarrow> list_all (\<lambda>a. a = e \<or> ok a) as"
proof -
  have "filter (\<lambda>(k, a). \<not> ok a) (enumerate n xs) = [] \<longleftrightarrow> list_all ok xs" for xs
    by (induction xs arbitrary: n) auto
  then show ?thesis by (auto simp: list_all_iff)
qed

lemma registered_names: "map cls_name (register_callback_classes cs) = map callback_name cs"
proof -
  have "map cls_name (register_callback_classes cs) = map (\<lambda>p. callback_name (snd p)) (enumerate 0 cs)"
    by (simp add: register_callback_classes_def case_prod_beta)
  also have "\<dots> = map callback_name (map snd (enumerate 0 cs))" by (simp only: map_map o_def)
  finally show ?thesis by (simp only: map_snd_enumerate)
qed

lemma generate_class_cases:
  assumes "targs \<noteq> []" and "callback_name targs \<in> set (map cls_name registered)"
  shows "\<exists>s'. generate_class tool registered (i, targs) s = Return s' \<and>
    disabled_classes s' = (if class_disabled tool targs then insert (callback_name targs) (disabled_classes s) else disabled_classes s) \<and>
    map fst (written_classes s') = map fst (written_classes s) @ (if class_written tool targs then [callback_impl i] else [])"
proof -
  from assms(1) obtain ret args where t: "targs = ret # args" by (cases targs) simp_all
  define bad where "bad = filter (\<lambda>(k, a). \<not> param_type_ok tool a) (enumerate 0 (filter (\<lambda>a. a \<noteq> ''ns3::empty'') args))"
  have known: "args_ok tool targs \<longleftrightarrow> bad = []"
    unfolding bad_def no_bad_iff args_ok_def t list.sel ..
  consider "\<not> return_type_ok tool ret" | "return_type_ok tool ret" "bad = []" | "return_type_ok tool ret" "bad \<noteq> []" by blast
  then show ?thesis
  proof cases
    case 1
    then show ?thesis
      by (intro exI [of _ "s\<lparr>gen_warnings := gen_warnings s @ [return_warning ret (callback_name targs)]\<rparr>"])
        (simp add: generate_class_def t Let_def class_disabled_def class_written_def)
  next
    case 2
    then have "class_written tool targs" "\<not> class_disabled tool targs"
      unfolding class_written_def class_disabled_def known by (simp_all add: t)
    with 2 show ?thesis unfolding t generate_class_def prod.case list.case Let_def bad_def [symmetric] by simp
  next
    case 3
    then have "\<not> class_written tool targs" "class_disabled tool targs"
      unfolding class_written_def class_disabled_def known by (simp_all add: t)
    with 3 assms(2) show ?thesis unfolding t generate_class_def prod.case list.case Let_def bad_def [symmetric] by simp
  qed
qed



section \<open>The script for one module\<close>

text \<open>
  \<open>main\<close> of \<open>ns3modulegen-modular.py\<close>: what it does in order and the error it ends with. The definitions of the module, its
  customizations and its callbacks are Python modules in its directory, whose presence is an argument, as the
  functions \<open>post_register_types\<close> and so on that the customizations have.
\<close>

datatype modular_step =
    OpenOutput string string
  | ModuleInit
  | SetName string
  | AddInclude string
  | AddOpenmodes "string list"
  | RegisterTypes
  | CustomHook string
  | RegisterCallbacks "callback_class list"
  | RegisterMethods
  | CustomizeObjects
  | CustomizeAttributes
  | GenerateCallbacks "string list list"
  | RegisterFunctions
  | GenerateModule

record binding_dir =
  has_apidefs :: "string \<Rightarrow> bool"
  customization :: "string list option"
  callbacks_list :: "string list list option"

definition hook_step :: "binding_dir \<Rightarrow> string \<Rightarrow> modular_step list" where
  "hook_step d name = (case customization d of None \<Rightarrow> [] | Some hooks \<Rightarrow> if name \<in> set hooks then [CustomHook name] else [])"

definition after_import :: "binding_dir \<Rightarrow> string \<Rightarrow> string \<Rightarrow> modular_step list" where
  "after_import d name extension =
     (let callbacks = (case callbacks_list d of None \<Rightarrow> [] | Some cs \<Rightarrow> cs)
      in [ModuleInit, SetName extension, AddInclude ([CHR 0x22] @ ''ns3/'' @ name @ ''-module.h'' @ [CHR 0x22]),
          AddOpenmodes openmode_code, RegisterTypes] @
         hook_step d ''post_register_types'' @ [RegisterCallbacks (register_callback_classes callbacks), RegisterMethods] @
         hook_step d ''post_register_methods'' @ [CustomizeObjects, CustomizeAttributes, GenerateCallbacks callbacks, RegisterFunctions] @
         hook_step d ''post_register_functions'' @ [GenerateModule])"

definition modular_main :: "(string \<Rightarrow> binding_dir) \<Rightarrow> string list \<Rightarrow> modular_step list \<times> py_error option" where
  "modular_main dir_of argv =
     (case tl argv of
        [module_path, target, extension, output] \<Rightarrow>
          let d = dir_of (path_join module_path ''bindings'');
              opened = OpenOutput output (path_join (dirname output) ''ns3module.h'')
          in if has_apidefs d (''modulegen__'' @ target)
             then (opened # after_import d (basename module_path) extension, None)
             else ([opened], Some (GenericException ''ImportError''))
      | _ \<Rightarrow> ([], Some (ValueError ''unpack'')))"

section \<open>The changes to the module\<close>

definition needed_classes :: "string list" where
  "needed_classes = [''ns3::Simulator'', ''ns3::CommandLine'', ''ns3::TypeId'']"

definition features_removed :: "string \<Rightarrow> string list" where
  "features_removed features =
     (if ''Threading'' \<notin> set (split_on CHR '','' features) then threading_classes else []) @
     (if ''RealTime'' \<notin> set (split_on CHR '','' features) then realtime_classes else [])"

lemma remove_classes:
  assumes "distinct cs" and "set cs \<subseteq> set (classes m)" and "distinct (classes m)"
  shows "fold_res remove_class cs m = Return (m\<lparr>classes := filter (\<lambda>c. c \<notin> set cs) (classes m)\<rparr>)"
  using assms
proof (induction cs arbitrary: m)
  case (Cons c cs)
  have "remove_class c m = Return (m\<lparr>classes := filter (\<lambda>x. x \<noteq> c) (classes m)\<rparr>)"
    using Cons.prems by (simp add: remove_class_def module_class_def py_remove_def distinct_remove1_removeAll removeAll_filter_not_eq eq_commute)
  moreover have "fold_res remove_class cs (m\<lparr>classes := filter (\<lambda>x. x \<noteq> c) (classes m)\<rparr>) =
      Return (m\<lparr>classes := filter (\<lambda>x. x \<notin> set cs) (filter (\<lambda>x. x \<noteq> c) (classes m))\<rparr>)"
    using Cons.IH [of "m\<lparr>classes := filter (\<lambda>x. x \<noteq> c) (classes m)\<rparr>"] Cons.prems by fastforce
  ultimately show ?case by (simp add: conj_commute)
qed simp

lemma wrappers_added:
  "add_wrappers cls short methods m =
     (if cls \<in> set (classes m) \<union> set (enums m)
      then Return (m\<lparr>custom_wrappers := custom_wrappers m @ map (\<lambda>f. (cls, f, ''_wrap_'' @ short @ ''_'' @ f)) methods\<rparr>)
      else Raise KeyError)"
  by (simp add: add_wrappers_def module_class_def)

text \<open>The changes to the module of the core: when its classes and the enumeration are there, each of them once, the wrappers
  are added in order, the classes of the features that are not enabled are removed and no others, the classes
  of the streams come after those that are kept, and the constants of the open modes are set before the
  threads are started. A module without one of the classes that get wrappers is a KeyError.\<close>

theorem post_register_correct:
  assumes "distinct (classes m @ [''::std::ostream'', ''::std::ofstream''])"
    and "set (threading_classes @ realtime_classes) \<subseteq> set (classes m)"
    and "''ns3::RealtimeSimulatorImpl::SynchronizationMode'' \<in> set (enums m)"
  shows "if set needed_classes \<subseteq> set (classes m) \<union> set (enums m)
    then \<exists>m'. post_register_types features m = Return m' \<and>
      classes m' = filter (\<lambda>c. c \<notin> set (features_removed features)) (classes m) @ [''::std::ostream'', ''::std::ofstream''] \<and>
      map fst (custom_wrappers m') = map fst (custom_wrappers m) @ replicate 5 ''ns3::Simulator'' @ [''ns3::CommandLine'', ''ns3::TypeId''] \<and>
      after_init m' = after_init m @ openmode_code @ [''PyEval_InitThreads();'']
    else post_register_types features m = Raise KeyError"
proof (cases "set needed_classes \<subseteq> set (classes m) \<union> set (enums m)")
  case False
  then show ?thesis
    by (auto simp: needed_classes_def post_register_types_def Simulator_customizations_def CommandLine_customizations_def
        TypeId_customizations_def wrappers_added module_class_def bind_res_def)
next
  case True
  define m1 where "m1 = add_std_ofstream (m\<lparr>argv_methods := argv_methods m @ [(''ns3::CommandLine'', ''Parse'')],
    custom_wrappers := custom_wrappers m @
      map (\<lambda>f. (''ns3::Simulator'', f, ''_wrap_Simulator_'' @ f)) [''Schedule'', ''ScheduleNow'', ''ScheduleWithContext'', ''ScheduleDestroy'', ''Run''] @
      [(''ns3::CommandLine'', ''AddValue'', ''_wrap_CommandLine_AddValue''),
       (''ns3::TypeId'', ''LookupByNameFailSafe'', ''_wrap_TypeId_LookupByNameFailSafe'')]\<rparr>)"
  have m1: "classes m1 = classes m @ [''::std::ostream'', ''::std::ofstream'']" "set (enums m) \<subseteq> set (enums m1)"
      "map fst (custom_wrappers m1) = map fst (custom_wrappers m) @ replicate 5 ''ns3::Simulator'' @ [''ns3::CommandLine'', ''ns3::TypeId'']"
      "after_init m1 = after_init m @ openmode_code"
    by (auto simp: m1_def add_std_ofstream_def numeral_eq_Suc)
  have first: "bind_res (Simulator_customizations m) (\<lambda>m. bind_res (CommandLine_customizations m) (\<lambda>m. bind_res (TypeId_customizations m) f)) = f
      (m\<lparr>argv_methods := argv_methods m @ [(''ns3::CommandLine'', ''Parse'')],
        custom_wrappers := custom_wrappers m @
          map (\<lambda>f. (''ns3::Simulator'', f, ''_wrap_Simulator_'' @ f)) [''Schedule'', ''ScheduleNow'', ''ScheduleWithContext'', ''ScheduleDestroy'', ''Run''] @
          [(''ns3::CommandLine'', ''AddValue'', ''_wrap_CommandLine_AddValue''),
           (''ns3::TypeId'', ''LookupByNameFailSafe'', ''_wrap_TypeId_LookupByNameFailSafe'')]\<rparr>)" for f :: "cpp_module \<Rightarrow> cpp_module res"
    using True unfolding needed_classes_def Simulator_customizations_def CommandLine_customizations_def TypeId_customizations_def
    by (simp add: wrappers_added module_class_def)
  have std: "''::std::ostream'' \<notin> set (threading_classes @ realtime_classes)" "''::std::ofstream'' \<notin> set (threading_classes @ realtime_classes)"
      "distinct (threading_classes @ realtime_classes)"
    by code_simp+
  define off where "off = (\<lambda>cs (m::cpp_module). m\<lparr>classes := filter (\<lambda>c. c \<notin> set cs) (classes m)\<rparr>)"
  have off: "off cs x = x\<lparr>classes := filter (\<lambda>c. c \<notin> set cs) (classes x)\<rparr>" for cs x by (simp add: off_def)
  define T where "T = (if ''Threading'' \<notin> set (split_on CHR '','' features) then threading_classes else [])"
  define R where "R = (if ''RealTime'' \<notin> set (split_on CHR '','' features) then realtime_classes else [])"
  have sub: "set T \<subseteq> set threading_classes" "set R \<subseteq> set realtime_classes" "distinct (T @ R)" using std(3) by (auto simp: T_def R_def)
  have dT: "(if ''Threading'' \<notin> set (split_on CHR '','' features) then fold_res remove_class threading_classes m1 else Return m1) = Return (off T m1)"
  proof -
    have "set threading_classes \<subseteq> set (classes m1)" "distinct (classes m1)" "distinct threading_classes"
      using assms(1,2) std(3) m1(1) by auto
    from remove_classes [OF this(3,1,2)] show ?thesis by (simp add: T_def off_def)
  qed
  have dR: "bind_res (fold_res remove_class realtime_classes (off T m1)) f = f (off realtime_classes (off T m1))" for f :: "cpp_module \<Rightarrow> cpp_module res"
  proof -
    have "distinct realtime_classes" "set realtime_classes \<inter> set T = {}" using std(3) sub by auto
    moreover from this(2) have "set realtime_classes \<subseteq> set (classes (off T m1))" "distinct (classes (off T m1))"
      using assms(1,2) m1(1) by (auto simp: off_def)
    ultimately have "fold_res remove_class realtime_classes (off T m1) = Return (off realtime_classes (off T m1))"
      unfolding off [of realtime_classes "off T m1"] by (intro remove_classes)
    then show ?thesis by simp
  qed
  have enum: "\<exists>es. remove_enum ''ns3::RealtimeSimulatorImpl::SynchronizationMode'' (off cs m') = Return (off cs m'\<lparr>enums := es\<rparr>)"
    if "set (enums m) \<subseteq> set (enums m')" for cs m'
    using assms(3) that by (auto simp: remove_enum_def module_class_def py_remove_def off_def)
  have "\<exists>m'. post_register_types features m = Return m' \<and> classes m' = classes (off R (off T m1)) \<and>
      custom_wrappers m' = custom_wrappers m1 \<and> after_init m' = after_init m1 @ [''PyEval_InitThreads();'']"
    unfolding post_register_types_def first m1_def [symmetric] Let_def dT bind_res_simps dR
    using enum [of "off T m1" realtime_classes] m1(2) by (auto simp: R_def off_def)
  moreover have "classes (off R (off T m1)) =
      filter (\<lambda>c. c \<notin> set (features_removed features)) (classes m) @ [''::std::ostream'', ''::std::ofstream'']"
  proof -
    have f: "features_removed features = T @ R" by (simp add: features_removed_def T_def R_def)
    have "''::std::ostream'' \<notin> set (T @ R)" "''::std::ofstream'' \<notin> set (T @ R)" using std(1,2) sub by auto
    then have "filter (\<lambda>c. c \<notin> set (T @ R)) [''::std::ostream'', ''::std::ofstream''] = [''::std::ostream'', ''::std::ofstream'']" by simp
    moreover have "classes (off R (off T m1)) = filter (\<lambda>c. c \<notin> set (T @ R)) (classes m1)" by (auto simp: off_def)
    ultimately show ?thesis unfolding f m1(1) filter_append by simp
  qed
  ultimately show ?thesis using True m1(3,4) by auto
qed

definition small_module :: cpp_module where
  "small_module = \<lparr>classes = needed_classes @ threading_classes @ realtime_classes,
     enums = [''ns3::RealtimeSimulatorImpl::SynchronizationMode''], custom_wrappers = [], argv_methods = [],
     module_includes = [], after_init = [], aliases = []\<rparr>"

theorem post_register_correct_witness:
  "\<exists>m'. post_register_types ''RealTime'' small_module = Return m' \<and>
     classes m' = needed_classes @ realtime_classes @ [''::std::ostream'', ''::std::ofstream'']"
proof -
  have "distinct (classes small_module @ [''::std::ostream'', ''::std::ofstream''])"
    "set (threading_classes @ realtime_classes) \<subseteq> set (classes small_module)"
    "''ns3::RealtimeSimulatorImpl::SynchronizationMode'' \<in> set (enums small_module)"
    "set needed_classes \<subseteq> set (classes small_module) \<union> set (enums small_module)"
    by code_simp+
  moreover have "filter (\<lambda>c. c \<notin> set (features_removed ''RealTime'')) (classes small_module) = needed_classes @ realtime_classes"
    by code_simp
  ultimately show ?thesis using post_register_correct [of small_module "''RealTime''"] by (simp only: if_True) auto
qed

end
