(* ===== verification/Create_Module.thy ===== *)
theory Create_Module
  imports Test_Jobs
begin

text \<open>
  \<open>src/create-module.py\<close>, which makes the directories and files of a new module: the check of its name, the
  templates with the operator \<open>%\<close>, and what is made in which order on a model of the file system. Texts are ASCII.
\<close>

section \<open>Templates\<close>

definition text_lines :: "string list \<Rightarrow> string" where
  "text_lines ls = concat (map (\<lambda>l. l @ [CHR 10]) ls)"

definition WSCRIPT_TEMPLATE :: string where
  "WSCRIPT_TEMPLATE = text_lines
     [''# -*- Mode: python; py-indent-offset: 4; indent-tabs-mode: nil; coding: utf-8; -*-'', [], ''# def options(opt):'',
      ''#     pass'', [], ''# def configure(conf):'',
      ''#     conf.check_nonfatal(header_name='' @ [CHR 0x27] @ ''stdint.h'' @ [CHR 0x27] @ '', define_name='' @ [CHR 0x27] @ ''HAVE_STDINT_H'' @ [CHR 0x27] @ '')'',
      [], ''def build(bld):'',
      ''    module = bld.create_ns3_module(%(MODULE)r, ['' @ [CHR 0x27] @ ''core'' @ [CHR 0x27] @ ''])'',
      ''    module.source = ['', ''        '' @ [CHR 0x27] @ ''model/%(MODULE)s.cc'' @ [CHR 0x27] @ '','',
      ''        '' @ [CHR 0x27] @ ''helper/%(MODULE)s-helper.cc'' @ [CHR 0x27] @ '','', ''        ]'', [],
      ''    module_test = bld.create_ns3_module_test_library('' @ [CHR 0x27] @ ''%(MODULE)s'' @ [CHR 0x27] @ '')'',
      ''    module_test.source = ['', ''        '' @ [CHR 0x27] @ ''test/%(MODULE)s-test-suite.cc'' @ [CHR 0x27] @ '','',
      ''        ]'', [], ''    headers = bld(features='' @ [CHR 0x27] @ ''ns3header'' @ [CHR 0x27] @ '')'',
      ''    headers.module = %(MODULE)r'', ''    headers.source = ['',
      ''        '' @ [CHR 0x27] @ ''model/%(MODULE)s.h'' @ [CHR 0x27] @ '','',
      ''        '' @ [CHR 0x27] @ ''helper/%(MODULE)s-helper.h'' @ [CHR 0x27] @ '','', ''        ]'', [],
      ''    if bld.env.ENABLE_EXAMPLES:'', ''        bld.recurse('' @ [CHR 0x27] @ ''examples'' @ [CHR 0x27] @ '')'', [],
      ''    # bld.ns3_python_bindings()'', []]"

definition MODEL_CC_TEMPLATE :: string where
  "MODEL_CC_TEMPLATE = text_lines
     [''/* -*- Mode:C++; c-file-style:'' @ [CHR 0x22] @ ''gnu'' @ [CHR 0x22] @ ''; indent-tabs-mode:nil; -*- */'', [],
      ''#include '' @ [CHR 0x22] @ ''%(MODULE)s.h'' @ [CHR 0x22], [], ''namespace ns3 {'', [], ''/* ... */'', [], [], ''}'',
      []]"

definition MODEL_H_TEMPLATE :: string where
  "MODEL_H_TEMPLATE = text_lines
     [''/* -*- Mode:C++; c-file-style:'' @ [CHR 0x22] @ ''gnu'' @ [CHR 0x22] @ ''; indent-tabs-mode:nil; -*- */'',
      ''#ifndef %(INCLUDE_GUARD)s'', ''#define %(INCLUDE_GUARD)s'', [], ''namespace ns3 {'', [], ''/* ... */'', [], ''}'',
      [], ''#endif /* %(INCLUDE_GUARD)s */'', []]"

definition HELPER_CC_TEMPLATE :: string where
  "HELPER_CC_TEMPLATE = text_lines
     [''/* -*- Mode:C++; c-file-style:'' @ [CHR 0x22] @ ''gnu'' @ [CHR 0x22] @ ''; indent-tabs-mode:nil; -*- */'', [],
      ''#include '' @ [CHR 0x22] @ ''%(MODULE)s-helper.h'' @ [CHR 0x22], [], ''namespace ns3 {'', [], ''/* ... */'', [], [],
      ''}'', []]"

definition HELPER_H_TEMPLATE :: string where
  "HELPER_H_TEMPLATE = text_lines
     [''/* -*- Mode:C++; c-file-style:'' @ [CHR 0x22] @ ''gnu'' @ [CHR 0x22] @ ''; indent-tabs-mode:nil; -*- */'',
      ''#ifndef %(INCLUDE_GUARD)s'', ''#define %(INCLUDE_GUARD)s'', [],
      ''#include '' @ [CHR 0x22] @ ''ns3/%(MODULE)s.h'' @ [CHR 0x22], [], ''namespace ns3 {'', [], ''/* ... */'', [], ''}'',
      [], ''#endif /* %(INCLUDE_GUARD)s */'', []]"

definition EXAMPLES_WSCRIPT_TEMPLATE :: string where
  "EXAMPLES_WSCRIPT_TEMPLATE = text_lines
     [''# -*- Mode: python; py-indent-offset: 4; indent-tabs-mode: nil; coding: utf-8; -*-'', [], ''def build(bld):'',
      ''    obj = bld.create_ns3_program('' @ [CHR 0x27] @ ''%(MODULE)s-example'' @ [CHR 0x27] @ '', [%(MODULE)r])'',
      ''    obj.source = '' @ [CHR 0x27] @ ''%(MODULE)s-example.cc'' @ [CHR 0x27], []]"

definition EXAMPLE_CC_TEMPLATE :: string where
  "EXAMPLE_CC_TEMPLATE = text_lines
     [''/* -*- Mode:C++; c-file-style:'' @ [CHR 0x22] @ ''gnu'' @ [CHR 0x22] @ ''; indent-tabs-mode:nil; -*- */'', [],
      ''#include '' @ [CHR 0x22] @ ''ns3/core-module.h'' @ [CHR 0x22],
      ''#include '' @ [CHR 0x22] @ ''ns3/%(MODULE)s-helper.h'' @ [CHR 0x22], [], ''using namespace ns3;'', [], [], ''int '',
      ''main (int argc, char *argv[])'', ''{'', ''  bool verbose = true;'', [], ''  CommandLine cmd;'',
      ''  cmd.AddValue ('' @ [CHR 0x22] @ ''verbose'' @ [CHR 0x22] @ '', '' @ [CHR 0x22] @ ''Tell application to log if true'' @ [CHR 0x22] @ '', verbose);'',
      [], ''  cmd.Parse (argc,argv);'', [], ''  /* ... */'', [], ''  Simulator::Run ();'', ''  Simulator::Destroy ();'',
      ''  return 0;'', ''}'', [], []]"

definition TEST_CC_TEMPLATE :: string where
  "TEST_CC_TEMPLATE = text_lines
     [''/* -*- Mode:C++; c-file-style:'' @ [CHR 0x22] @ ''gnu'' @ [CHR 0x22] @ ''; indent-tabs-mode:nil; -*- */'', [],
      ''// Include a header file from your module to test.'',
      ''#include '' @ [CHR 0x22] @ ''ns3/%(MODULE)s.h'' @ [CHR 0x22], [], ''// An essential include is test.h'',
      ''#include '' @ [CHR 0x22] @ ''ns3/test.h'' @ [CHR 0x22], [],
      ''// Do not put your test classes in namespace ns3.  You may find it useful'',
      ''// to use the using directive to access the ns3 namespace directly'', ''using namespace ns3;'', [],
      ''// This is an example TestCase.'', ''class %(CAPITALIZED)sTestCase1 : public TestCase'', ''{'', ''public:'',
      ''  %(CAPITALIZED)sTestCase1 ();'', ''  virtual ~%(CAPITALIZED)sTestCase1 ();'', [], ''private:'',
      ''  virtual void DoRun (void);'', ''};'', [],
      ''// Add some help text to this case to describe what it is intended to test'',
      ''%(CAPITALIZED)sTestCase1::%(CAPITALIZED)sTestCase1 ()'',
      ''  : TestCase ('' @ [CHR 0x22] @ ''%(CAPITALIZED)s test case (does nothing)'' @ [CHR 0x22] @ '')'', ''{'', ''}'', [],
      ''// This destructor does nothing but we include it as a reminder that'',
      ''// the test case should clean up after itself'', ''%(CAPITALIZED)sTestCase1::~%(CAPITALIZED)sTestCase1 ()'', ''{'',
      ''}'', [], ''//'', ''// This method is the pure virtual method from class TestCase that every'',
      ''// TestCase must implement'', ''//'', ''void'', ''%(CAPITALIZED)sTestCase1::DoRun (void)'', ''{'',
      ''  // A wide variety of test macros are available in src/core/test.h'',
      ''  NS_TEST_ASSERT_MSG_EQ (true, true, '' @ [CHR 0x22] @ ''true doesn'' @ [CHR 0x27] @ ''t equal true for some reason'' @ [CHR 0x22] @ '');'',
      ''  // Use this one for floating point comparisons'',
      ''  NS_TEST_ASSERT_MSG_EQ_TOL (0.01, 0.01, 0.001, '' @ [CHR 0x22] @ ''Numbers are not equal within tolerance'' @ [CHR 0x22] @ '');'',
      ''}'', [], ''// The TestSuite class names the TestSuite, identifies what type of TestSuite,'',
      ''// and enables the TestCases to be run.  Typically, only the constructor for'', ''// this class must be defined'',
      ''//'', ''class %(CAPITALIZED)sTestSuite : public TestSuite'', ''{'', ''public:'', ''  %(CAPITALIZED)sTestSuite ();'',
      ''};'', [], ''%(CAPITALIZED)sTestSuite::%(CAPITALIZED)sTestSuite ()'',
      ''  : TestSuite ('' @ [CHR 0x22] @ ''%(MODULE)s'' @ [CHR 0x22] @ '', UNIT)'', ''{'',
      ''  // TestDuration for TestCase can be QUICK, EXTENSIVE or TAKES_FOREVER'',
      ''  AddTestCase (new %(CAPITALIZED)sTestCase1, TestCase::QUICK);'', ''}'', [],
      ''// Do not forget to allocate an instance of this TestSuite'',
      ''static %(CAPITALIZED)sTestSuite %(COMPOUND)sTestSuite;'', []]"

definition DOC_RST_TEMPLATE :: string where
  "DOC_RST_TEMPLATE = text_lines
     [''Example Module Documentation'', ''----------------------------'', [], ''.. include:: replace.txt'',
      ''.. highlight:: cpp'', [], ''.. heading hierarchy:'', ''   ------------- Chapter'',
      ''   ************* Section (#.#)'', ''   ============= Subsection (#.#.#)'',
      ''   ############# Paragraph (no number)'', [],
      ''This is a suggested outline for adding new module documentation to |ns3|.'',
      ''See ``src/click/doc/click.rst`` for an example.'', [],
      ''The introductory paragraph is for describing what this code is trying to'', ''model.'', [],
      ''For consistency (italicized formatting), please use |ns3| to refer to'',
      ''ns-3 in the documentation (and likewise, |ns2| for ns-2).  These macros'',
      ''are defined in the file ``replace.txt``.'', [], ''Model Description'', ''*****************'', [],
      ''The source code for the new module lives in the directory ``src/%(MODULE)s``.'', [],
      ''Add here a basic description of what is being modeled.'', [], ''Design'', ''======'', [],
      ''Briefly describe the software design of the model and how it fits into '', ''the existing ns-3 architecture. '', [],
      ''Scope and Limitations'', ''====================='', [],
      ''What can the model do?  What can it not do?  Please use this section to'',
      ''describe the scope and limitations of the model.'', [], ''References'', ''=========='', [],
      ''Add academic citations here, such as if you published a paper on this'',
      ''model, or if readers should read a particular specification or other work.'', [], ''Usage'', ''*****'', [],
      ''This section is principally concerned with the usage of your model, using'',
      ''the public API.  Focus first on most common usage patterns, then go'', ''into more advanced topics.'', [],
      ''Building New Module'', ''==================='', [],
      ''Include this subsection only if there are special build instructions or'', ''platform limitations.'', [],
      ''Helpers'', ''======='', [], ''What helper API will users typically use?  Describe it here.'', [], ''Attributes'',
      ''=========='', [], ''What classes hold attributes, and what are the key ones worth mentioning?'', [], ''Output'',
      ''======'', [], ''What kind of data does the model generate?  What are the key trace'',
      ''sources?   What kind of logging output can be enabled?'', [], ''Advanced Usage'', ''=============='', [],
      ''Go into further details (such as using the API outside of the helpers)'', ''in additional sections, as needed.'',
      [], ''Examples'', ''========'', [], ''What examples using this new code are available?  Describe them here.'', [],
      ''Troubleshooting'', ''==============='', [], ''Add any tips for avoiding pitfalls, etc.'', [], ''Validation'',
      ''**********'', [], ''Describe how the model has been tested/validated.  What tests run in the'',
      ''test suite?  How much API and code is covered by the tests?  Again, '',
      ''references to outside published work may help here.'']"

text \<open>
  The operator \<open>%\<close> with a dict: \<open>%(NAME)s\<close> is the value and \<open>%(NAME)r\<close> its text in quotes, as \<open>repr\<close> writes a string
  without quotes, backslashes and unprintable characters. The name of a module has only letters, digits and dashes.
\<close>

definition quoted :: "string \<Rightarrow> string" where
  "quoted s = [CHR 0x27] @ s @ [CHR 0x27]"

definition py_place :: "(string \<Rightarrow> string option) \<Rightarrow> string \<Rightarrow> string \<Rightarrow> string res" where
  "py_place d name conversion =
     (case d name of
        None \<Rightarrow> Raise KeyError
      | Some v \<Rightarrow>
          if conversion = ''s'' then Return v else if conversion = ''r'' then Return (quoted v)
          else Raise (ValueError ''unsupported format character''))"

function py_format :: "(string \<Rightarrow> string option) \<Rightarrow> string \<Rightarrow> string res" where
  "py_format d [] = Return []"
| "py_format d (c # cs) =
     (if c \<noteq> CHR ''%'' then bind_res (py_format d cs) (\<lambda>s. Return (c # s))
      else
        (case cs of
           [] \<Rightarrow> Raise (ValueError ''incomplete format'')
         | x # xs \<Rightarrow>
             if x = CHR ''%'' then bind_res (py_format d xs) (\<lambda>s. Return (x # s))
             else if x = CHR ''('' then
               (let name = takeWhile (\<lambda>c. c \<noteq> CHR '')'') xs; r = tl (dropWhile (\<lambda>c. c \<noteq> CHR '')'') xs)
                in if r = [] then Raise (ValueError ''incomplete format'')
                   else bind_res (py_place d name [hd r]) (\<lambda>v. bind_res (py_format d (tl r)) (\<lambda>s. Return (v @ s))))
             else Raise (ValueError ''unsupported format character'')))"
  by pat_completeness auto
termination
proof (relation "measure (length \<circ> snd)", goal_cases)
  case (4 d c cs x xs name r v)
  have "length (dropWhile (\<lambda>c. c \<noteq> CHR '')'') xs) \<le> length xs" by (simp add: length_dropWhile_le)
  with 4 show ?case by simp
qed auto

section \<open>Names\<close>

definition is_alnum :: "char \<Rightarrow> bool" where
  "is_alnum c \<longleftrightarrow>
     is_digit c \<or> (let n = (of_char c :: nat) in 65 \<le> n \<and> n \<le> 90 \<or> 97 \<le> n \<and> n \<le> 122)"

definition str_isalnum :: "string \<Rightarrow> bool" where
  "str_isalnum w \<longleftrightarrow> w \<noteq> [] \<and> list_all is_alnum w"

definition name_accepted :: "string \<Rightarrow> bool" where
  "name_accepted modname \<longleftrightarrow> \<not> (False \<in> set (map str_isalnum (split_on CHR ''-'' modname)))"

definition capitalize :: "string \<Rightarrow> string" where
  "capitalize w = (case w of [] \<Rightarrow> [] | c # cs \<Rightarrow> to_upper [c] @ to_lower cs)"

definition include_guard :: "string \<Rightarrow> string \<Rightarrow> string" where
  "include_guard modname ending = to_upper (map (\<lambda>c. if c = CHR ''-'' then CHR ''_'' else c) modname) @ ending"

definition CAPITALIZED :: "string \<Rightarrow> string" where
  "CAPITALIZED modname = concat (map capitalize (split_on CHR ''-'' modname))"

definition COMPOUND :: "string \<Rightarrow> string" where
  "COMPOUND modname = hd (split_on CHR ''-'' modname) @ concat (map capitalize (tl (split_on CHR ''-'' modname)))"

section \<open>Files\<close>

text \<open>
  A file system is what is at each path; the empty path is the directory that the script runs in. A directory or
  file can be made only in a directory, a directory only where nothing is, and no file over a directory.
\<close>

datatype fs_entry = Directory | File string

type_synonym file_system = "string \<Rightarrow> fs_entry option"

definition in_directory :: "file_system \<Rightarrow> string \<Rightarrow> bool" where
  "in_directory fs path \<longleftrightarrow> dirname path = [] \<or> fs (dirname path) = Some Directory"

datatype fs_action = MakeDir string | WriteFile string "string res"

text \<open>A file is opened before its text is made, so that a template that fails leaves it empty.\<close>

fun perform :: "fs_action \<Rightarrow> file_system \<Rightarrow> file_system \<times> py_error option" where
  "perform (MakeDir p) fs =
     (if fs p = None \<and> in_directory fs p then (fs(p \<mapsto> Directory), None) else (fs, Some (OSError ''mkdir'')))"
| "perform (WriteFile p text) fs =
     (if fs p \<noteq> Some Directory \<and> in_directory fs p
      then (case text of Inl e \<Rightarrow> (fs(p \<mapsto> File []), Some e) | Inr s \<Rightarrow> (fs(p \<mapsto> File s), None))
      else (fs, Some (OSError ''open'')))"

fun perform_all :: "fs_action list \<Rightarrow> file_system \<Rightarrow> file_system \<times> py_error option" where
  "perform_all [] fs = (fs, None)"
| "perform_all (a # as) fs =
     (case perform a fs of (fs1, Some e) \<Rightarrow> (fs1, Some e) | (fs1, None) \<Rightarrow> perform_all as fs1)"

definition write_template :: "string \<Rightarrow> string list \<Rightarrow> string \<Rightarrow> (string \<times> string) list \<Rightarrow> fs_action" where
  "write_template moduledir names template d = WriteFile (fold (\<lambda>b a. path_join a b) names moduledir) (py_format (map_of d) template)"

definition module_actions :: "string \<Rightarrow> string \<Rightarrow> fs_action list" where
  "module_actions moduledir modname =
     (let entry = (''MODULE'', modname)
      in [MakeDir moduledir,
          write_template moduledir [''wscript''] WSCRIPT_TEMPLATE [entry],
          MakeDir (path_join moduledir ''model''),
          write_template moduledir [''model'', modname @ ''.cc''] MODEL_CC_TEMPLATE [entry],
          write_template moduledir [''model'', modname @ ''.h''] MODEL_H_TEMPLATE
            [entry, (''INCLUDE_GUARD'', include_guard modname ''_H'')],
          MakeDir (path_join moduledir ''test''),
          write_template moduledir [''test'', modname @ ''-test-suite.cc''] TEST_CC_TEMPLATE
            [entry, (''CAPITALIZED'', CAPITALIZED modname), (''COMPOUND'', COMPOUND modname)],
          MakeDir (path_join moduledir ''helper''),
          write_template moduledir [''helper'', modname @ ''-helper.cc''] HELPER_CC_TEMPLATE [entry],
          write_template moduledir [''helper'', modname @ ''-helper.h''] HELPER_H_TEMPLATE
            [entry, (''INCLUDE_GUARD'', include_guard modname ''_HELPER_H'')],
          MakeDir (path_join moduledir ''examples''),
          write_template moduledir [''examples'', ''wscript''] EXAMPLES_WSCRIPT_TEMPLATE [entry],
          write_template moduledir [''examples'', modname @ ''-example.cc''] EXAMPLE_CC_TEMPLATE [entry],
          MakeDir (path_join moduledir ''doc''),
          write_template moduledir [''doc'', modname @ ''.rst''] DOC_RST_TEMPLATE [entry]])"

text \<open>\<open>main\<close> on the arguments that are left of the command line, from the path of the script: its result and the files.\<close>

definition create_module_main :: "string \<Rightarrow> string list \<Rightarrow> file_system \<Rightarrow> file_system \<times> int res" where
  "create_module_main script args fs =
     (if length args \<noteq> 1 then (fs, Return 1)
      else
        (let modname = to_lower (hd args)
         in if \<not> name_accepted modname then (fs, Return 2)
            else if slash \<in> set modname then (fs, Raise AssertionError)
            else
              (let moduledir = path_join (dirname script) modname
               in if fs moduledir \<noteq> None then (fs, Return 2)
                  else (case perform_all (module_actions moduledir modname) fs of
                          (fs1, None) \<Rightarrow> (fs1, Return 0) | (fs1, Some e) \<Rightarrow> (fs1, Raise e)))))"

section \<open>Formatting\<close>

definition formats :: "string list \<Rightarrow> string \<Rightarrow> bool" where
  "formats names template =
     (case py_format (map_of (map (\<lambda>n. (n, [])) names)) template of Inl e \<Rightarrow> False | Inr s \<Rightarrow> True)"

lemma format_total: "py_format d t = Return s \<Longrightarrow> dom d \<subseteq> dom d' \<Longrightarrow> \<exists>s'. py_format d' t = Return s'"
proof (induction d t arbitrary: s rule: py_format.induct)
  case (2 d c cs)
  show ?case
  proof (cases "c = CHR ''%''")
    case False
    with 2(1) [OF False] 2(4,5) show ?thesis by (auto simp: bind_res_eq_Return)
  next
    case True
    then obtain x xs where cs: "cs = x # xs" using 2(4) by (cases cs) auto
    consider "x = CHR ''%''" | "x = CHR ''(''" using 2(4) True cs by (auto split: if_splits)
    then show ?thesis
    proof cases
      case 1
      with 2(2) [of x xs] 2(4,5) True cs show ?thesis by (auto simp: bind_res_eq_Return)
    next
      case x: 2
      define name r where "name = takeWhile (\<lambda>c. c \<noteq> CHR '')'') xs" and "r = tl (dropWhile (\<lambda>c. c \<noteq> CHR '')'') xs)"
      from 2(4) True cs x obtain v u where
        r: "r \<noteq> []" "py_place d name [hd r] = Return v" "py_format d (tl r) = Return u"
        by (auto simp: Let_def name_def [symmetric] r_def [symmetric] bind_res_eq_Return split: if_splits)
      obtain v' where "py_place d' name [hd r] = Return v'"
        using r(2) 2(5) by (auto simp: py_place_def split: option.splits if_splits)
      moreover obtain u' where "py_format d' (tl r) = Return u'"
        using 2(3) [of x xs name r u] r 2(5) True cs x name_def r_def by auto
      ultimately show ?thesis
        using r(1) True cs x by (simp add: Let_def name_def [symmetric] r_def [symmetric])
    qed
  qed
qed simp

lemma formats_total:
  assumes "formats names t" and "set names \<subseteq> fst ` set d"
  shows "\<exists>s. py_format (map_of d) t = Return s"
proof -
  from assms(1) obtain s where "py_format (map_of (map (\<lambda>n. (n, [])) names)) t = Return s"
    by (auto simp: formats_def split: sum.splits)
  then show ?thesis by (rule format_total) (use assms(2) in \<open>auto simp: dom_map_of_conv_image_fst\<close>)
qed

lemma format_append:
  "py_format d s = Return u \<Longrightarrow> py_format d (s @ t) = bind_res (py_format d t) (\<lambda>v. Return (u @ v))"
proof (induction d s arbitrary: u rule: py_format.induct)
  case (1 d)
  then show ?case by (cases "py_format d t") simp_all
next
  case (2 d c cs)
  show ?case
  proof (cases "c = CHR ''%''")
    case False
    with 2(1) [OF False] 2(4) show ?thesis by (cases "py_format d t") (auto simp: bind_res_eq_Return)
  next
    case True
    then obtain x xs where cs: "cs = x # xs" using 2(4) by (cases cs) auto
    consider "x = CHR ''%''" | "x = CHR ''(''" using 2(4) True cs by (auto split: if_splits)
    then show ?thesis
    proof cases
      case 1
      with 2(2) [of x xs] 2(4) True cs show ?thesis by (cases "py_format d t") (auto simp: bind_res_eq_Return)
    next
      case x: 2
      define name r where "name = takeWhile (\<lambda>c. c \<noteq> CHR '')'') xs" and "r = tl (dropWhile (\<lambda>c. c \<noteq> CHR '')'') xs)"
      from 2(4) True cs x obtain v w where
        r: "r \<noteq> []" "py_place d name [hd r] = Return v" "py_format d (tl r) = Return w" "u = v @ w"
        by (auto simp: Let_def name_def [symmetric] r_def [symmetric] bind_res_eq_Return split: if_splits)
      have "r = []" if "CHR '')'' \<notin> set xs"
      proof -
        from that have "dropWhile (\<lambda>c. c \<noteq> CHR '')'') xs = []" by auto
        then show ?thesis unfolding r_def by (simp only: list.sel)
      qed
      with r(1) have "CHR '')'' \<in> set xs" by blast
      then have "takeWhile (\<lambda>c. c \<noteq> CHR '')'') (xs @ t) = name" "tl (dropWhile (\<lambda>c. c \<noteq> CHR '')'') (xs @ t)) = r @ t"
        by (simp_all add: name_def r_def takeWhile_append1 dropWhile_append1 dropWhile_eq_Nil_conv)
      moreover have "py_format d (tl r @ t) = bind_res (py_format d t) (\<lambda>v. Return (w @ v))"
        using 2(3) [of x xs name r w] r True cs x name_def r_def by auto
      ultimately show ?thesis
        using r True cs x by (cases "py_format d t") (simp_all add: Let_def)
    qed
  qed
qed

lemma formats_append: "formats names s \<Longrightarrow> formats names t \<Longrightarrow> formats names (s @ t)"
  by (auto simp: formats_def format_append split: sum.splits)

lemma formats_lines: "list_all (\<lambda>l. formats names (l @ [CHR 10])) ls \<Longrightarrow> formats names (text_lines ls)"
proof (induction ls)
  case (Cons l ls)
  then have "formats names ((l @ [CHR 10]) @ text_lines ls)" by (intro formats_append [of names "l @ [CHR 10]"]) simp_all
  then show ?case by (simp add: text_lines_def)
qed (simp add: text_lines_def formats_def)

lemma format_wscript: "formats [''MODULE''] WSCRIPT_TEMPLATE"
  unfolding WSCRIPT_TEMPLATE_def by (rule formats_lines) code_simp

lemma format_model_cc: "formats [''MODULE''] MODEL_CC_TEMPLATE"
  unfolding MODEL_CC_TEMPLATE_def by (rule formats_lines) code_simp

lemma format_model_h: "formats [''MODULE'', ''INCLUDE_GUARD''] MODEL_H_TEMPLATE"
  unfolding MODEL_H_TEMPLATE_def by (rule formats_lines) code_simp

lemma format_test_cc: "formats [''MODULE'', ''CAPITALIZED'', ''COMPOUND''] TEST_CC_TEMPLATE"
  unfolding TEST_CC_TEMPLATE_def by (rule formats_lines) code_simp

lemma format_helper_cc: "formats [''MODULE''] HELPER_CC_TEMPLATE"
  unfolding HELPER_CC_TEMPLATE_def by (rule formats_lines) code_simp

lemma format_helper_h: "formats [''MODULE'', ''INCLUDE_GUARD''] HELPER_H_TEMPLATE"
  unfolding HELPER_H_TEMPLATE_def by (rule formats_lines) code_simp

lemma format_examples_wscript: "formats [''MODULE''] EXAMPLES_WSCRIPT_TEMPLATE"
  unfolding EXAMPLES_WSCRIPT_TEMPLATE_def by (rule formats_lines) code_simp

lemma format_example_cc: "formats [''MODULE''] EXAMPLE_CC_TEMPLATE"
  unfolding EXAMPLE_CC_TEMPLATE_def by (rule formats_lines) code_simp

lemma format_doc_rst: "formats [''MODULE''] DOC_RST_TEMPLATE"
  unfolding DOC_RST_TEMPLATE_def by (rule formats_lines) code_simp

lemmas templates_format = format_wscript format_model_cc format_model_h format_test_cc format_helper_cc format_helper_h format_examples_wscript format_example_cc format_doc_rst

section \<open>Paths below a directory\<close>

definition plain_path :: "string \<Rightarrow> bool" where
  "plain_path m \<longleftrightarrow> m \<noteq> [] \<and> last m \<noteq> slash"

lemma dirname_below:
  assumes "slash \<notin> set x"
  shows "dirname (m @ slash # x) = (if list_all (\<lambda>c. c = slash) m then m @ [slash] else rev (dropWhile (\<lambda>c. c = slash) (rev m)))"
proof -
  have "dropWhile (\<lambda>c. c \<noteq> slash) (rev (m @ slash # x)) = slash # rev m"
  proof -
    have "rev (m @ slash # x) = rev x @ slash # rev m" by simp
    moreover have "dropWhile (\<lambda>c. c \<noteq> slash) (rev x @ slash # rev m) = dropWhile (\<lambda>c. c \<noteq> slash) (slash # rev m)"
      by (rule dropWhile_append2) (use assms in auto)
    ultimately show ?thesis by simp
  qed
  then have "dirname (m @ slash # x) = (let s = rev (dropWhile (\<lambda>c. c = slash) (slash # rev m)) in if s = [] then m @ [slash] else s)"
    unfolding dirname_def by (simp add: Let_def)
  moreover have "list_all (\<lambda>c. c = slash) m \<longleftrightarrow> dropWhile (\<lambda>c. c = slash) (rev m) = []" by (simp add: list_all_iff)
  ultimately show ?thesis by (simp add: Let_def)
qed

lemma dirname_plain:
  assumes "plain_path m" and "slash \<notin> set x"
  shows "dirname (m @ slash # x) = m"
proof -
  from assms(1) obtain l u where m: "m = u @ [l]" "l \<noteq> slash" by (cases m rule: rev_cases) (auto simp: plain_path_def)
  then show ?thesis unfolding dirname_below [OF assms(2)] by simp
qed

lemma join_plain: "plain_path m \<Longrightarrow> \<not> startswith x ''/'' \<Longrightarrow> path_join m x = m @ slash # x"
proof -
  assume m: "plain_path m" and x: "\<not> startswith x ''/''"
  have "\<not> endswith m ''/''" using m by (auto simp: plain_path_def elim!: suffixE)
  with m x show ?thesis by (simp add: path_join_def plain_path_def)
qed

lemma dirname_name:
  assumes "slash \<notin> set n"
  shows "dirname n = []"
proof -
  have "dropWhile (\<lambda>c. c \<noteq> slash) (rev n) = []" unfolding dropWhile_eq_Nil_conv using assms by auto
  then show ?thesis unfolding dirname_def Let_def by (simp only: rev.simps dropWhile.simps if_True simp_thms)
qed

lemma dirname_shape: "dirname p = [] \<or> list_all (\<lambda>c. c = slash) (dirname p) \<or> plain_path (dirname p)"
proof -
  define head where "head = rev (dropWhile (\<lambda>c. c \<noteq> slash) (rev p))"
  define s where "s = dropWhile (\<lambda>c. c = slash) (rev head)"
  have d: "dirname p = (if rev s = [] then head else rev s)" unfolding dirname_def Let_def head_def s_def ..
  show ?thesis
  proof (cases "s = []")
    case True
    then have "\<forall>c \<in> set (rev head). c = slash" unfolding s_def dropWhile_eq_Nil_conv .
    with True d show ?thesis by (simp add: list_all_iff)
  next
    case False
    then have "hd s \<noteq> slash" using hd_dropWhile [of "\<lambda>c. c = slash" "rev head"] unfolding s_def by blast
    with False d show ?thesis by (simp add: plain_path_def last_rev)
  qed
qed

lemma dirname_joined:
  assumes "n \<noteq> []" and "slash \<notin> set n"
  shows "dirname (path_join (dirname p) n) = dirname p" and "plain_path (path_join (dirname p) n)"
proof -
  have n: "\<not> startswith n ''/''" "last n \<noteq> slash" using assms by (cases n, auto) (metis last_in_set list.distinct(1))
  consider "dirname p = []" | "list_all (\<lambda>c. c = slash) (dirname p)" "dirname p \<noteq> []" | "plain_path (dirname p)" using dirname_shape by blast
  then have "dirname (path_join (dirname p) n) = dirname p \<and> plain_path (path_join (dirname p) n)"
  proof cases
    case 1
    with n assms show ?thesis by (simp add: path_join_def dirname_name plain_path_def)
  next
    case 2
    then obtain u where u: "dirname p = u @ [slash]" "list_all (\<lambda>c. c = slash) u"
      by (cases "dirname p" rule: rev_cases) auto
    with n have "path_join (dirname p) n = u @ slash # n" by (simp add: path_join_def)
    with u dirname_below [OF assms(2), of u] n assms(1) show ?thesis by (simp add: plain_path_def)
  next
    case 3
    with n join_plain [OF 3 n(1)] dirname_plain [OF 3 assms(2)] assms(1) show ?thesis by (simp add: plain_path_def)
  qed
  then show "dirname (path_join (dirname p) n) = dirname p" "plain_path (path_join (dirname p) n)" by simp_all
qed

section \<open>The files of a module\<close>

fun fits :: "file_system \<Rightarrow> (string \<times> fs_entry) list \<Rightarrow> bool" where
  "fits fs [] \<longleftrightarrow> True"
| "fits fs ((p, e) # es) \<longleftrightarrow> fs p = None \<and> in_directory fs p \<and> fits (fs(p \<mapsto> e)) es"

fun action_of :: "string \<times> fs_entry \<Rightarrow> fs_action" where
  "action_of (p, Directory) = MakeDir p"
| "action_of (p, File s) = WriteFile p (Return s)"

lemma fits_new: "fits fs es \<Longrightarrow> fs q \<noteq> None \<Longrightarrow> map_of es q = None"
  by (induction fs es rule: fits.induct) (auto split: if_splits)

lemma fits_distinct: "fits fs es \<Longrightarrow> distinct (map fst es) \<and> list_all (\<lambda>p. fs p = None) (map fst es)"
proof (induction fs es rule: fits.induct)
  case (2 fs p e es)
  then have new: "distinct (map fst es)" "list_all (\<lambda>q. (fs(p \<mapsto> e)) q = None) (map fst es)" by (simp_all del: fun_upd_apply)
  from 2 fits_new [of "fs(p \<mapsto> e)" es p] have "p \<notin> fst ` set es" by (auto simp: map_of_eq_None_iff)
  moreover from new(2) have "list_all (\<lambda>q. fs q = None) (map fst es)" by (auto simp: list_all_iff split: if_splits)
  ultimately show ?case using 2 new(1) by simp
qed simp

lemma perform_fits: "fits fs es \<Longrightarrow> perform_all (map action_of es) fs = (fs ++ map_of es, None)"
proof (induction fs es rule: fits.induct)
  case (2 fs p e es)
  then have "perform (action_of (p, e)) fs = (fs(p \<mapsto> e), None)" by (cases e) simp_all
  moreover from 2 fits_new [of "fs(p \<mapsto> e)" es p] have "fs(p \<mapsto> e) ++ map_of es = fs ++ (map_of es)(p \<mapsto> e)"
    by (auto simp: map_add_def fun_eq_iff split: option.split)
  ultimately show ?case using 2 by (simp del: fun_upd_apply)
qed simp

text \<open>The same on the paths alone: each is new, and its directory is there or made before.\<close>

fun placed :: "file_system \<Rightarrow> string list \<Rightarrow> (string \<times> fs_entry) list \<Rightarrow> bool" where
  "placed fs ds [] \<longleftrightarrow> True"
| "placed fs ds ((p, Directory) # es) \<longleftrightarrow> (dirname p \<in> set ds \<or> in_directory fs p) \<and> placed fs (p # ds) es"
| "placed fs ds ((p, File s) # es) \<longleftrightarrow> (dirname p \<in> set ds \<or> in_directory fs p) \<and> placed fs ds es"

lemma placed_mono: "placed fs ds es \<Longrightarrow> (\<And>p. in_directory fs p \<Longrightarrow> in_directory fs' p) \<Longrightarrow> placed fs' ds es"
  by (induction fs ds es rule: placed.induct) auto

lemma in_directory_kept: "in_directory fs q \<Longrightarrow> fs p = None \<Longrightarrow> in_directory (fs(p \<mapsto> e)) q"
  by (auto simp: in_directory_def)

lemma placed_fits:
  assumes "placed fs ds es" and "distinct (map fst es)" and "list_all (\<lambda>p. fs p = None) (map fst es)"
    and "list_all (\<lambda>d. fs d = Some Directory) ds"
  shows "fits fs es"
  using assms
proof (induction es arbitrary: fs ds)
  case (Cons x es)
  obtain p e where x: "x = (p, e)" by force
  define ds' where "ds' = (if e = Directory then p # ds else ds)"
  from Cons.prems x have new: "fs p = None" and inside: "in_directory fs p" and rest: "placed fs ds' es"
    by (cases e; auto simp: ds'_def in_directory_def list_all_iff)+
  have "placed (fs(p \<mapsto> e)) ds' es" 
    by (rule placed_mono [OF rest]) (erule in_directory_kept, rule new)
  moreover have "list_all (\<lambda>d. (fs(p \<mapsto> e)) d = Some Directory) ds'" using Cons.prems(4) new by (auto simp: ds'_def list_all_iff)
  moreover have "distinct (map fst es)" "list_all (\<lambda>q. (fs(p \<mapsto> e)) q = None) (map fst es)"
    using Cons.prems(2,3) x by (auto simp: list_all_iff)
  ultimately have "fits (fs(p \<mapsto> e)) es" using Cons.IH by blast
  with new inside x show ?case by simp
qed simp

definition filled :: "string \<Rightarrow> (string \<times> string) list \<Rightarrow> string" where
  "filled template d = (case py_format (map_of d) template of Inl e \<Rightarrow> [] | Inr s \<Rightarrow> s)"

definition module_layout :: "string \<Rightarrow> string \<Rightarrow> (string \<times> fs_entry) list" where
  "module_layout m n =
     (let e = (''MODULE'', n); sub = (\<lambda>d f. m @ ''/'' @ d @ ''/'' @ f)
      in [(m, Directory),
          (m @ ''/wscript'', File (filled WSCRIPT_TEMPLATE [e])),
          (m @ ''/model'', Directory),
          (sub ''model'' (n @ ''.cc''), File (filled MODEL_CC_TEMPLATE [e])),
          (sub ''model'' (n @ ''.h''), File (filled MODEL_H_TEMPLATE [e, (''INCLUDE_GUARD'', include_guard n ''_H'')])),
          (m @ ''/test'', Directory),
          (sub ''test'' (n @ ''-test-suite.cc''), File (filled TEST_CC_TEMPLATE [e, (''CAPITALIZED'', CAPITALIZED n), (''COMPOUND'', COMPOUND n)])),
          (m @ ''/helper'', Directory),
          (sub ''helper'' (n @ ''-helper.cc''), File (filled HELPER_CC_TEMPLATE [e])),
          (sub ''helper'' (n @ ''-helper.h''), File (filled HELPER_H_TEMPLATE [e, (''INCLUDE_GUARD'', include_guard n ''_HELPER_H'')])),
          (m @ ''/examples'', Directory),
          (sub ''examples'' ''wscript'', File (filled EXAMPLES_WSCRIPT_TEMPLATE [e])),
          (sub ''examples'' (n @ ''-example.cc''), File (filled EXAMPLE_CC_TEMPLATE [e])),
          (m @ ''/doc'', Directory),
          (sub ''doc'' (n @ ''.rst''), File (filled DOC_RST_TEMPLATE [e]))])"

lemma write_filled:
  assumes "formats names t" and "set names \<subseteq> fst ` set d"
  shows "write_template m ps t d = action_of (fold (\<lambda>b a. path_join a b) ps m, File (filled t d))"
  using formats_total [OF assms] by (auto simp: write_template_def filled_def)

lemma plain_below: "plain_path m \<Longrightarrow> d \<noteq> [] \<Longrightarrow> last d \<noteq> slash \<Longrightarrow> plain_path (m @ slash # d)"
  by (simp add: plain_path_def)

lemma actions_layout:
  assumes "plain_path m" and "n \<noteq> []" and "slash \<notin> set n"
  shows "module_actions m n = map action_of (module_layout m n)"
proof -
  have join: "path_join m d = m @ slash # d" if "\<not> startswith d ''/''" for d using join_plain [OF assms(1) that] .
  have join2: "path_join (m @ slash # d) f = m @ slash # d @ slash # f"
    if "d \<noteq> []" "last d \<noteq> slash" "\<not> startswith f ''/''" for d f
    using join_plain [OF plain_below [OF assms(1) that(1,2)] that(3)] by simp
  have n: "\<not> startswith (n @ s) ''/''" for s using assms(2,3) by (cases n) auto
  note written = templates_format [THEN write_filled]
  show ?thesis
    unfolding module_actions_def module_layout_def Let_def
    by (simp add: written join join2 n)
qed

lemma layout_fits:
  assumes "plain_path m" and "slash \<notin> set n" and "fs m = None" and "in_directory fs m"
    and wf: "\<And>p. fs p \<noteq> None \<Longrightarrow> in_directory fs p"
  shows "fits fs (module_layout m n)"
proof -
  have m: "m \<noteq> []" using assms(1) by (simp add: plain_path_def)
  have dir1: "dirname (m @ slash # d) = m" if "slash \<notin> set d" for d using dirname_plain [OF assms(1) that] .
  have dir2: "dirname (m @ slash # d @ slash # f) = m @ slash # d"
    if "d \<noteq> []" "slash \<notin> set d" "slash \<notin> set f" for d f
  proof -
    have "last d \<noteq> slash" using that(1,2) last_in_set [of d] by metis
    from dirname_plain [OF plain_below [OF assms(1) that(1) this] that(3)] show ?thesis by simp
  qed
  have none1: "fs (m @ slash # d) = None" if "slash \<notin> set d" for d
    using wf [of "m @ slash # d"] m assms(3) unfolding in_directory_def dir1 [OF that] by (cases "fs (m @ slash # d)") auto
  have none2: "fs (m @ slash # d @ slash # f) = None" if "d \<noteq> []" "slash \<notin> set d" "slash \<notin> set f" for d f
    using wf [of "m @ slash # d @ slash # f"] none1 [OF that(2)] unfolding in_directory_def dir2 [OF that]
    by (cases "fs (m @ slash # d @ slash # f)") auto
  note none = none2 [of "''model''", simplified] none2 [of "''test''", simplified] none2 [of "''helper''", simplified]
    none2 [of "''examples''", simplified] none2 [of "''doc''", simplified]
  note dir = dir2 [of "''model''", simplified] dir2 [of "''test''", simplified] dir2 [of "''helper''", simplified]
    dir2 [of "''examples''", simplified] dir2 [of "''doc''", simplified]
  have paths: "map fst (module_layout m n) = map (\<lambda>s. m @ s)
      ([] # ''/wscript'' # ''/model'' # (''/model/'' @ n @ ''.cc'') # (''/model/'' @ n @ ''.h'') # ''/test'' #
       (''/test/'' @ n @ ''-test-suite.cc'') # ''/helper'' # (''/helper/'' @ n @ ''-helper.cc'') # (''/helper/'' @ n @ ''-helper.h'') #
       ''/examples'' # ''/examples/wscript'' # (''/examples/'' @ n @ ''-example.cc'') # ''/doc'' # (''/doc/'' @ n @ ''.rst'') # [])"
    by (simp add: module_layout_def Let_def)
  have "distinct (map fst (module_layout m n))"
    unfolding paths distinct_map by (simp add: inj_on_def)
  moreover have "list_all (\<lambda>p. fs p = None) (map fst (module_layout m n))"
    unfolding paths using assms(2) by (simp add: assms(3) none1 none)
  moreover have "placed fs [] (module_layout m n)"
    unfolding module_layout_def Let_def placed.simps using assms(2) by (simp add: assms(4) dir1 dir)
  ultimately show ?thesis using placed_fits by fastforce
qed

section \<open>Making a module\<close>

lemma split_on_set: "c \<in> set s \<Longrightarrow> c = sep \<or> (\<exists>w \<in> set (split_on sep s). c \<in> set w)"
  by (induction s) (auto split: list.splits)

lemma accepted_chars:
  assumes "name_accepted n"
  shows "n \<noteq> []" and "c \<in> set n \<Longrightarrow> c = CHR ''-'' \<or> is_alnum c" and "slash \<notin> set n"
proof -
  have words: "w \<noteq> [] \<and> list_all is_alnum w" if "w \<in> set (split_on CHR ''-'' n)" for w
    using assms that by (auto simp: name_accepted_def str_isalnum_def)
  show "n \<noteq> []" using words by auto
  have chars: "c = CHR ''-'' \<or> is_alnum c" if "c \<in> set n" for c
    using split_on_set [OF that, of "CHR ''-''"] words by (auto simp: list_all_iff)
  then show "c \<in> set n \<Longrightarrow> c = CHR ''-'' \<or> is_alnum c" .
  have "\<not> is_alnum slash" by code_simp
  with chars show "slash \<notin> set n" by auto
qed

text \<open>C37: without exactly one argument the script returns 1, with a name that is not accepted, or that has something at its
  place, 2, and changes nothing. Otherwise it makes exactly the directories and files of the layout, in a directory that
  had nothing of them, leaves everything else and returns 0; no template, no file and no assertion
  fails, and a second run returns 2.\<close>

theorem create_module_correct:
  assumes "\<And>p. fs p \<noteq> None \<Longrightarrow> in_directory fs p" and "dirname script = [] \<or> fs (dirname script) = Some Directory"
  shows "if length args \<noteq> 1 then create_module_main script args fs = (fs, Return 1)
    else let n = to_lower (hd args); m = path_join (dirname script) n
      in if \<not> name_accepted n \<or> fs m \<noteq> None then create_module_main script args fs = (fs, Return 2)
         else create_module_main script args fs = (fs ++ map_of (module_layout m n), Return 0) \<and>
           distinct (map fst (module_layout m n)) \<and> list_all (\<lambda>p. fs p = None) (map fst (module_layout m n)) \<and>
           create_module_main script args (fs ++ map_of (module_layout m n)) = (fs ++ map_of (module_layout m n), Return 2)"
proof (cases "length args = 1")
  case True
  define n m where "n = to_lower (hd args)" and "m = path_join (dirname script) n"
  have main: "create_module_main script args fs' =
      (if \<not> name_accepted n then (fs', Return 2)
       else if fs' m \<noteq> None then (fs', Return 2)
       else (case perform_all (module_actions m n) fs' of (fs1, None) \<Rightarrow> (fs1, Return 0) | (fs1, Some e) \<Rightarrow> (fs1, Raise e)))" for fs'
    using True accepted_chars(3) [of n] unfolding create_module_main_def n_def [symmetric] m_def [symmetric] Let_def by simp
  show ?thesis
  proof (cases "name_accepted n \<and> fs m = None")
    case ok: True
    note n = accepted_chars [OF conjunct1 [OF ok]]
    have m: "plain_path m" "in_directory fs m"
      using dirname_joined [OF n(1,3), of script] assms(2) by (auto simp: m_def in_directory_def)
    have fit: "fits fs (module_layout m n)" by (rule layout_fits [OF m(1) n(3) conjunct2 [OF ok] m(2) assms(1)])
    have "(fs ++ map_of (module_layout m n)) m = Some Directory"
      by (simp add: map_add_def module_layout_def Let_def)
    moreover note fits_distinct [OF fit]
    ultimately show ?thesis
      using True ok fit perform_fits [OF fit] unfolding n_def [symmetric] m_def [symmetric] Let_def main
      by (simp add: actions_layout [OF m(1) n(1,3)])
  next
    case False
    with True main [of fs] show ?thesis unfolding n_def [symmetric] m_def [symmetric] Let_def by auto
  qed
qed (simp add: create_module_main_def)

theorem create_module_correct_witness:
  "snd (create_module_main ''src/create-module.py'' [''Foo-2''] [''src'' \<mapsto> Directory]) = Return 0 \<and>
   fst (create_module_main ''src/create-module.py'' [''Foo-2''] [''src'' \<mapsto> Directory]) ''src/foo-2/doc'' = Some Directory"
proof -
  have d: "dirname ''src/create-module.py'' = ''src''" and l: "to_lower ''Foo-2'' = ''foo-2''" and a: "name_accepted ''foo-2''"
    and j: "path_join ''src'' ''foo-2'' = ''src/foo-2''" and e: "dirname ''src'' = []" by code_simp+
  have wf: "in_directory [''src'' \<mapsto> Directory] p" if "[''src'' \<mapsto> Directory] p \<noteq> None" for p
    using that e by (auto simp: in_directory_def split: if_splits)
  have "(if length [''Foo-2''] \<noteq> 1 then create_module_main ''src/create-module.py'' [''Foo-2''] [''src'' \<mapsto> Directory] = ([''src'' \<mapsto> Directory], Return 1)
     else create_module_main ''src/create-module.py'' [''Foo-2''] [''src'' \<mapsto> Directory] =
       ([''src'' \<mapsto> Directory] ++ map_of (module_layout ''src/foo-2'' ''foo-2''), Return 0))"
    using create_module_correct [of "[''src'' \<mapsto> Directory]" "''src/create-module.py''" "[''Foo-2'']", OF wf] d l a j by (simp add: Let_def)
  moreover have "map_of (module_layout ''src/foo-2'' ''foo-2'') ''src/foo-2/doc'' = Some Directory"
    by (simp add: module_layout_def Let_def)
  ultimately show ?thesis by (simp add: map_add_def)
qed

section \<open>Names in the templates\<close>

definition is_identifier_char :: "char \<Rightarrow> bool" where
  "is_identifier_char c \<longleftrightarrow> is_alnum c \<or> c = CHR ''_''"

definition underscore_dash :: "string \<Rightarrow> string" where
  "underscore_dash = map (\<lambda>c. if c = CHR ''_'' then CHR ''-'' else c)"

lemma case_of_char:
  fixes c :: char
  assumes "is_alnum c \<or> c = CHR ''-''" and "to_lower [c] = [c]"
  shows "to_lower (to_upper [c]) = [c]" "list_all is_alnum (to_upper [c]) \<longleftrightarrow> is_alnum c"
    "is_digit (hd (to_upper [c])) \<longleftrightarrow> is_digit c" "c \<noteq> CHR ''_''" "to_upper [c] = [CHR ''_''] \<longleftrightarrow> False"
proof -
  define k where "k = (of_char c :: nat)"
  have c: "c = char_of k" "k < 256" by (simp_all add: k_def)
  have conv: "(of_char (char_of (k - 32) :: char) :: nat) = k - 32" "(of_char (char_of (k + 32) :: char) :: nat) = (k + 32) mod 256"
    using c(2) by (simp_all add: of_char_of take_bit_eq_mod)
  have low: "\<not> (65 \<le> k \<and> k \<le> 90)"
  proof
    assume b: "65 \<le> k \<and> k \<le> 90"
    with assms(2) have "char_of (k + 32) = c" by (simp add: to_lower_def k_def [symmetric])
    then have "(of_char (char_of (k + 32) :: char) :: nat) = k" by (simp add: k_def)
    with conv(2) b show False by simp
  qed
  have range: "48 \<le> k \<and> k \<le> 57 \<or> 97 \<le> k \<and> k \<le> 122 \<or> k = 45"
  proof (cases "c = CHR ''-''")
    case False
    with assms(1) low show ?thesis by (auto simp: is_alnum_def is_digit_def k_def [symmetric] Let_def)
  qed (simp add: k_def)
  have up: "to_upper [c] = [if 97 \<le> k \<and> k \<le> 122 then char_of (k - 32) else c]" by (simp add: to_upper_def k_def)
  have lowered: "char_of (k - 32 + 32) = c" if "97 \<le> k" using that c(1) by simp
  show "to_lower (to_upper [c]) = [c]"
    using range conv(1) lowered low c(1) unfolding up by (auto simp: to_lower_def k_def [symmetric])
  show "list_all is_alnum (to_upper [c]) \<longleftrightarrow> is_alnum c" "is_digit (hd (to_upper [c])) \<longleftrightarrow> is_digit c"
    using range conv(1) low unfolding up by (auto simp: is_alnum_def is_digit_def k_def [symmetric] Let_def)
  have us: "(of_char CHR ''_'' :: nat) = 95" by simp
  show "c \<noteq> CHR ''_''" using range us by (auto simp: k_def)
  show "to_upper [c] = [CHR ''_''] \<longleftrightarrow> False"
  proof -
    have "(of_char (hd (to_upper [c])) :: nat) \<noteq> 95" using range conv(1) unfolding up by (auto simp: k_def [symmetric])
    then show ?thesis using us by auto
  qed
qed

lemma map_chars: "to_upper (a @ b) = to_upper a @ to_upper b" "to_lower (a @ b) = to_lower a @ to_lower b"
    "to_upper [] = []" "to_lower [] = []"
  by (simp_all add: to_upper_def to_lower_def)

lemma lower_chars: "to_lower n = n \<Longrightarrow> c \<in> set n \<Longrightarrow> to_lower [c] = [c]"
  by (induction n) (auto simp: to_lower_def)

lemma filter_split: "filter (\<lambda>c. c \<noteq> x) s = concat (split_on x s)"
  by (induction s) (auto split: list.splits)

lemma capitalize_ok:
  assumes "list_all is_alnum w" and "to_lower w = w"
  shows "list_all is_alnum (capitalize w)" "to_lower (capitalize w) = w" "w \<noteq> [] \<Longrightarrow> is_digit (hd (capitalize w)) \<longleftrightarrow> is_digit (hd w)"
proof -
  have "list_all is_alnum (capitalize w) \<and> to_lower (capitalize w) = w \<and> (w \<noteq> [] \<longrightarrow> is_digit (hd (capitalize w)) = is_digit (hd w))"
  proof (cases w)
    case (Cons c cs)
    with assms(2) have l: "to_lower [c] = [c]" "to_lower cs = cs" by (simp_all add: to_lower_def)
    moreover from case_of_char [of c] assms(1) Cons l have
      "to_lower (to_upper [c]) = [c]" "list_all is_alnum (to_upper [c])" "is_digit (hd (to_upper [c])) \<longleftrightarrow> is_digit c" by simp_all
    moreover have "to_upper [c] \<noteq> []" by (simp add: to_upper_def)
    moreover have "list_all is_alnum cs" "[c] @ cs = w" using assms(1) Cons by simp_all
    moreover have "capitalize w = to_upper [c] @ cs" using l(2) Cons by (simp add: capitalize_def)
    ultimately show ?thesis using Cons by (simp add: map_chars(2))
  qed (simp add: capitalize_def map_chars)
  then show "list_all is_alnum (capitalize w)" "to_lower (capitalize w) = w" "w \<noteq> [] \<Longrightarrow> is_digit (hd (capitalize w)) \<longleftrightarrow> is_digit (hd w)"
    by simp_all
qed

lemma to_lower_idem: "to_lower (to_lower s) = to_lower s"
proof -
  have "to_lower (to_lower [c]) = to_lower [c]" for c :: char
  proof -
    define k where "k = (of_char c :: nat)"
    have "k < 256" "c = char_of k" by (simp_all add: k_def)
    moreover have "(of_char (char_of (k + 32) :: char) :: nat) = (k + 32) mod 256" by (simp add: of_char_of take_bit_eq_mod)
    ultimately show ?thesis by (simp add: to_lower_def k_def [symmetric])
  qed
  then show ?thesis by (simp add: to_lower_def)
qed

lemma lower_all: "(\<And>c. c \<in> set w \<Longrightarrow> to_lower [c] = [c]) \<Longrightarrow> to_lower w = w"
  by (induction w) (simp_all add: to_lower_def)

lemma split_on_subset: "w \<in> set (split_on x s) \<Longrightarrow> set w \<subseteq> set s"
proof (induction s arbitrary: w)
  case (Cons c s)
  obtain v vs where v: "split_on x s = v # vs" using split_on_nonempty [of x s] by (cases "split_on x s") auto
  with Cons.IH have "set v \<subseteq> set s" "\<And>u. u \<in> set vs \<Longrightarrow> set u \<subseteq> set s" by simp_all
  with Cons.prems v show ?case by (auto split: if_splits)
qed simp

lemma to_lower_concat: "to_lower (concat ws) = concat (map to_lower ws)"
  by (induction ws) (simp_all add: map_chars)

lemma words_lower:
  assumes "\<And>w. w \<in> set ws \<Longrightarrow> list_all is_alnum w \<and> to_lower w = w"
  shows "to_lower (concat (map capitalize ws)) = concat ws" "list_all is_alnum (concat (map capitalize ws))"
  using assms
proof (induction ws)
  case (Cons w ws)
  {
    case 1
    with Cons show ?case using capitalize_ok(2) [of w] by (simp add: map_chars)
  next
    case 2
    with Cons show ?case using capitalize_ok(1) [of w] by simp
  }
qed (simp_all add: map_chars)

text \<open>The include guard of an accepted name is made of the characters of identifiers and gives the name back, so that two
  modules never share one; the names of the test classes are letters and digits, those of the name without its dashes,
  which two modules can share, and begin with a digit exactly when the name does.\<close>

theorem names_correct:
  assumes "name_accepted (to_lower name)" and "n = to_lower name"
  shows "list_all is_identifier_char (include_guard n ''_HELPER_H'') \<and> underscore_dash (to_lower (include_guard n [])) = n \<and>
    list_all is_alnum (CAPITALIZED n) \<and> list_all is_alnum (COMPOUND n) \<and>
    to_lower (CAPITALIZED n) = filter (\<lambda>c. c \<noteq> CHR ''-'') n \<and> to_lower (COMPOUND n) = filter (\<lambda>c. c \<noteq> CHR ''-'') n \<and>
    (is_digit (hd (CAPITALIZED n)) \<longleftrightarrow> is_digit (hd n))"
proof -
  have lower: "to_lower n = n" unfolding assms(2) by (rule to_lower_idem)
  note n = accepted_chars [OF assms(1) [folded assms(2)]]
  have ch: "c = CHR ''-'' \<or> is_alnum c" "to_lower [c] = [c]" if "c \<in> set n" for c
    using that n(2) lower_chars [OF lower] by auto
  have guard: "list_all is_identifier_char (to_upper (map (\<lambda>c. if c = CHR ''-'' then CHR ''_'' else c) s)) \<and>
      underscore_dash (to_lower (to_upper (map (\<lambda>c. if c = CHR ''-'' then CHR ''_'' else c) s))) = s" if "set s \<subseteq> set n" for s
    using that
  proof (induction s)
    case (Cons c s)
    have one: "list_all is_identifier_char (to_upper [if c = CHR ''-'' then CHR ''_'' else c]) \<and>
        underscore_dash (to_lower (to_upper [if c = CHR ''-'' then CHR ''_'' else c])) = [c]"
    proof (cases "c = CHR ''-''")
      case True
      have "list_all is_identifier_char (to_upper [CHR ''_''])" "underscore_dash (to_lower (to_upper [CHR ''_''])) = [CHR ''-'']"
        by code_simp+
      with True show ?thesis by simp
    next
      case False
      with Cons.prems ch [of c] case_of_char [of c] have
        "to_lower (to_upper [c]) = [c]" "list_all is_alnum (to_upper [c])" "c \<noteq> CHR ''_''" by simp_all
      with False show ?thesis by (auto simp: is_identifier_char_def underscore_dash_def list_all_iff)
    qed
    have split: "to_upper (map (\<lambda>c. if c = CHR ''-'' then CHR ''_'' else c) (c # s)) =
        to_upper [if c = CHR ''-'' then CHR ''_'' else c] @ to_upper (map (\<lambda>c. if c = CHR ''-'' then CHR ''_'' else c) s)"
      by (simp add: to_upper_def)
    have dash: "underscore_dash (a @ b) = underscore_dash a @ underscore_dash b" for a b by (simp add: underscore_dash_def)
    show ?case unfolding split map_chars(2) dash using one Cons by simp
  qed (simp add: map_chars underscore_dash_def)
  define ws where "ws = split_on CHR ''-'' n"
  have words: "w \<noteq> []" "list_all is_alnum w" "to_lower w = w" if "w \<in> set ws" for w
  proof -
    have "str_isalnum w" using assms(1) [folded assms(2)] that unfolding name_accepted_def ws_def by auto
    then show "w \<noteq> []" "list_all is_alnum w" by (simp_all add: str_isalnum_def)
    have "set w \<subseteq> set n" by (rule split_on_subset [OF that [unfolded ws_def]])
    then have "c \<in> set n" if "c \<in> set w" for c using that by blast
    then show "to_lower w = w" by (rule lower_all [OF ch(2)])
  qed
  obtain w vs where ws: "ws = w # vs" using split_on_nonempty [of "CHR ''-''" n] unfolding ws_def by (cases "split_on CHR ''-'' n") auto
  have cap: "CAPITALIZED n = concat (map capitalize ws)" "COMPOUND n = w @ concat (map capitalize vs)"
    using ws by (simp_all add: CAPITALIZED_def COMPOUND_def ws_def [symmetric])
  have f: "filter (\<lambda>c. c \<noteq> CHR ''-'') n = concat ws" unfolding ws_def by (rule filter_split)
  have "to_lower (CAPITALIZED n) = concat ws \<and> list_all is_alnum (CAPITALIZED n)"
    using words_lower [of ws] words unfolding cap by blast
  moreover have "to_lower (concat (map capitalize vs)) = concat vs" "list_all is_alnum (concat (map capitalize vs))"
    using words_lower [of vs] words ws by auto
  then have "to_lower (COMPOUND n) = concat ws \<and> list_all is_alnum (COMPOUND n)"
    using words [of w] ws unfolding cap map_chars by simp
  moreover have "hd n = hd w"
  proof -
    have "n = str_join ''-'' ws" unfolding ws_def by (rule join_split_on [symmetric])
    with words(1) [of w] ws show ?thesis by (cases vs) (simp_all add: hd_append)
  qed
  then have "is_digit (hd (CAPITALIZED n)) \<longleftrightarrow> is_digit (hd n)"
  proof -
    have "capitalize w \<noteq> []" using words(1) [of w] ws by (cases w) (simp_all add: capitalize_def to_upper_def)
    then show ?thesis
      using capitalize_ok(3) [of w] words [of w] ws \<open>hd n = hd w\<close> unfolding cap by (simp add: hd_append)
  qed
  moreover have "list_all is_identifier_char ''_HELPER_H''" by code_simp
  ultimately show ?thesis using guard [of n] f by (simp add: include_guard_def)
qed

theorem names_correct_witness:
  "underscore_dash (to_lower (include_guard ''foo-2'' [])) = ''foo-2'' \<and> to_lower (CAPITALIZED ''foo-2'') = ''foo2''"
proof -
  have "name_accepted (to_lower ''Foo-2'')" "''foo-2'' = to_lower ''Foo-2''" "filter (\<lambda>c. c \<noteq> CHR ''-'') ''foo-2'' = ''foo2''"
    by code_simp+
  with names_correct [of "''Foo-2''" "''foo-2''"] show ?thesis by simp
qed

end
