(* ===== verification/Wutils_Paths.thy ===== *)
theory Wutils_Paths
  imports Compile_Db Rad_Util
begin

text \<open>
  The helpers of \<open>wutils.py\<close> on lists and paths: the relative path for versions of Python without one, and the removal of
  duplicates. The first is compared with \<open>posixpath.relpath\<close>, the second with that of \<open>rad_util.py\<close>.
\<close>

section \<open>The functions\<close>

definition join_all :: "string list \<Rightarrow> string" where
  "join_all rel_list = fold (\<lambda>b a. path_join a b) (tl rel_list) (hd rel_list)"

definition wutils_relpath :: "string \<Rightarrow> string \<Rightarrow> string \<Rightarrow> string res" where
  "wutils_relpath here path start =
     (if path = [] then Raise (ValueError ''no path specified'')
      else
        (let start_list = split_on slash (abspath here start); path_list = split_on slash (abspath here path);
             i = length (longest_common_prefix start_list path_list);
             rel_list = replicate (length start_list - i) ''..'' @ drop i path_list
         in if rel_list = [] then Return ''.'' else Return (join_all rel_list)))"

fun uniquify_loop :: "'a set \<Rightarrow> 'a list \<Rightarrow> 'a list" where
  "uniquify_loop seen [] = []"
| "uniquify_loop seen (x # xs) =
     (if x \<notin> seen then x # uniquify_loop (insert x seen) xs else uniquify_loop seen xs)"

definition uniquify_list :: "'a list \<Rightarrow> 'a list" where
  "uniquify_list seq = uniquify_loop {} seq"

section \<open>Joining and splitting\<close>

lemma join_all_parts:
  assumes "parts_ok qs"
  shows "join_all qs = str_join ''/'' qs"
proof -
  obtain q qs' where q: "qs = q # qs'" using assms by (cases qs) (auto simp: parts_ok_def)
  have "fold (\<lambda>b a. path_join a b) rs (str_join ''/'' as) = str_join ''/'' (as @ rs)" if "parts_ok as" "list_all (\<lambda>p. p \<noteq> [] \<and> slash \<notin> set p) rs" for as rs
    using that
  proof (induction rs arbitrary: as)
    case (Cons r rs)
    have "path_join (str_join ''/'' as) r = str_join ''/'' (as @ [r])"
    proof -
      have "\<not> startswith r ''/''" using Cons.prems(2) by (cases r) auto
      moreover have "str_join ''/'' as \<noteq> []" using join_start [OF Cons.prems(1)] by auto
      moreover have "as \<noteq> []" using Cons.prems(1) by (simp add: parts_ok_def)
      ultimately show ?thesis using join_end [OF Cons.prems(1)] by (simp add: path_join_def str_join_append)
    qed
    moreover have "parts_ok (as @ [r])" using Cons.prems by (simp add: parts_ok_def)
    ultimately show ?case using Cons.IH [of "as @ [r]"] Cons.prems by simp
  qed simp
  from this [of "[q]" qs'] assms show ?thesis by (simp add: join_all_def q parts_ok_def)
qed

lemma join_all_end:
  assumes "parts_ok qs"
  shows "join_all (qs @ [[]]) = str_join ''/'' qs @ ''/''"
proof -
  obtain q qs' where q: "qs = q # qs'" using assms by (cases qs) (auto simp: parts_ok_def)
  then have "join_all (qs @ [[]]) = path_join (join_all qs) []" by (simp add: join_all_def)
  moreover have "str_join ''/'' qs \<noteq> []" using join_start [OF assms] by auto
  ultimately show ?thesis using join_end [OF assms] by (simp add: join_all_parts [OF assms] path_join_def)
qed

lemma split_names:
  assumes "names_ok ps"
  shows "split_on slash (abspath here (path_of ps)) = [] # (if ps = [] then [[]] else ps)"
proof -
  have "abspath here (path_of ps) = path_of ps"
    using norm_names_path [OF assms] by (simp add: abspath_def path_of_def)
  with split_path [of ps] names_parts [OF assms] show ?thesis by (auto simp: path_of_def)
qed

lemma first_differ: "(\<And>x. x \<in> set xs \<Longrightarrow> x \<noteq> []) \<Longrightarrow> longest_common_prefix xs [[]] = []"
  by (cases xs) auto

lemma first_differ': "(\<And>x. x \<in> set xs \<Longrightarrow> x \<noteq> []) \<Longrightarrow> longest_common_prefix [[]] xs = []"
  by (cases xs) auto

text \<open>The relative path is that of the library, except that it begins with a superfluous step up when it starts at the
  root and ends with a slash when it leads to the root; it leads from the directory back to the path. Only the
  empty path is a ValueError.\<close>

theorem relpath_correct:
  assumes "names_ok ps" and "names_ok ds"
  shows "wutils_relpath here [] (path_of ds) = Raise (ValueError ''no path specified'') \<and>
    wutils_relpath here (path_of ps) (path_of ds) = Return
      (if ps = [] \<and> ds = [] then ''.''
       else if ds = [] then ''../'' @ relpath here (path_of ps) (path_of ds)
       else if ps = [] then relpath here (path_of ps) (path_of ds) @ ''/''
       else relpath here (path_of ps) (path_of ds)) \<and>
    (ps \<noteq> [] \<and> ds \<noteq> [] \<longrightarrow>
      (\<exists>r. wutils_relpath here (path_of ps) (path_of ds) = Return r \<and> normpath (path_join (path_of ds) r) = path_of ps))"
proof -
  have names: "list_all (\<lambda>p. p \<noteq> [] \<and> slash \<notin> set p) ps" "list_all (\<lambda>p. p \<noteq> [] \<and> slash \<notin> set p) ds"
    using assms by (simp_all add: names_ok_def list_all_iff)
  then have ne: "x \<in> set ps \<Longrightarrow> x \<noteq> []" "x \<in> set ds \<Longrightarrow> x \<noteq> []" for x by (auto simp: list_all_iff)
  have path: "path_of ps \<noteq> []" by (simp add: path_of_def)
  have ups: "list_all (\<lambda>p. p \<noteq> [] \<and> slash \<notin> set p) (replicate k ''..'')" for k by (simp add: list_all_iff)
  note unfold = wutils_relpath_def split_names [OF assms(1)] split_names [OF assms(2)] Let_def
  note relpath_unfold = relpath_def path_parts_names [OF assms(1)] path_parts_names [OF assms(2)] Let_def
  have at_root: "split_on slash (abspath here (path_of [])) = [[], []]" "path_parts here (path_of []) = []"
    using split_names [of "[]" here] path_parts_names [of "[]" here] by (simp_all add: names_ok_def)
  have r: "wutils_relpath here (path_of ps) (path_of ds) = Return
      (if ps = [] \<and> ds = [] then ''.''
       else if ds = [] then ''../'' @ relpath here (path_of ps) (path_of ds)
       else if ps = [] then relpath here (path_of ps) (path_of ds) @ ''/''
       else relpath here (path_of ps) (path_of ds))"
  proof -
    consider "ps = []" "ds = []" | "ps \<noteq> []" "ds = []" | "ps = []" "ds \<noteq> []" | "ps \<noteq> []" "ds \<noteq> []" by blast
    then show ?thesis
    proof cases
      case 1
      with path show ?thesis by (simp add: unfold at_root)
    next
      case 2
      then have "parts_ok (''..'' # ps)" using names by (simp add: parts_ok_def)
      from join_all_parts [OF this] have "join_all (''..'' # ps) = ''../'' @ str_join ''/'' ps" using 2 by (cases ps) simp_all
      with 2 path first_differ' [of ps] ne(1) show ?thesis by (simp add: unfold relpath_unfold at_root)
    next
      case 3
      then have "parts_ok (replicate (length ds) ''..'')" using ups by (simp add: parts_ok_def)
      from join_all_end [OF this] 3 path first_differ [of ds] ne(2) show ?thesis by (simp add: unfold relpath_unfold at_root)
    next
      case 4
      define i where "i = length (longest_common_prefix ds ps)"
      define rel where "rel = replicate (length ds - i) ''..'' @ drop i ps"
      have "list_all (\<lambda>p. p \<noteq> [] \<and> slash \<notin> set p) (drop i ps)" using names(1) by (auto simp: list_all_iff dest: in_set_dropD)
      then have "rel \<noteq> [] \<Longrightarrow> parts_ok rel" using ups by (simp add: parts_ok_def rel_def)
      moreover have "rel = [] \<longleftrightarrow> length ds \<le> i \<and> length ps \<le> i" by (simp add: rel_def)
      ultimately show ?thesis using join_all_parts [of rel] 4 path
        by (simp add: unfold relpath_unfold i_def [symmetric] rel_def [symmetric])
    qed
  qed
  moreover have "wutils_relpath here [] (path_of ds) = Raise (ValueError ''no path specified'')" by (simp add: wutils_relpath_def)
  ultimately show ?thesis using relpath_leads_back [OF assms, of here] by simp
qed

theorem relpath_correct_witness:
  "wutils_relpath [] (path_of [''a'', ''c'']) (path_of [''a'', ''b'']) = Return ''../c''"
proof -
  have "names_ok [''a'', ''c'']" "names_ok [''a'', ''b'']" "relpath [] (path_of [''a'', ''c'']) (path_of [''a'', ''b'']) = ''../c''"
    by code_simp+
  with relpath_correct [of "[''a'', ''c'']" "[''a'', ''b'']" "[]"] show ?thesis by simp
qed

section \<open>Duplicates\<close>

lemma uniquify_loop_first: "uniquify_loop seen xs = first_occs xs seen"
  by (induction seen xs rule: uniquify_loop.induct) simp_all

lemma uniquify_loop_append:
  "uniquify_loop seen (xs @ ys) = uniquify_loop seen xs @ uniquify_loop (seen \<union> set xs) ys"
  by (induction seen xs rule: uniquify_loop.induct) (auto simp: insert_absorb)

text \<open>The list without its duplicates is that of \<open>uniq_fast\<close> in \<open>rad_util.py\<close>: each element once, in the order of the first
  occurrences, which is the usual removal of duplicates read from the other end; it changes nothing the second time.\<close>

theorem uniquify_list_correct:
  "uniquify_list xs = uniq_fast xs [] \<and> uniquify_list xs = rev (remdups (rev xs)) \<and>
   set (uniquify_list xs) = set xs \<and> distinct (uniquify_list xs) \<and> uniquify_list (uniquify_list xs) = uniquify_list xs"
proof -
  have rev: "uniquify_loop {} xs = rev (remdups (rev xs))" for xs :: "'a list"
    by (induction xs rule: rev_induct) (simp_all add: uniquify_loop_append)
  then have "uniquify_list xs = rev (remdups (rev xs))" by (simp add: uniquify_list_def)
  moreover have "uniquify_list (uniquify_list xs) = uniquify_list xs"
    by (simp add: uniquify_list_def rev distinct_remdups_id)
  moreover have "uniquify_list xs = uniq_fast xs []" by (simp add: uniquify_list_def uniquify_loop_first uniq_fast_first_occs)
  ultimately show ?thesis by simp
qed

end
