(* ===== verification/Spec2Isabelle.thy ===== *)
theory Spec2Isabelle
  imports Rad_Util Topsort Find_Cycles Shell_Run Patchset Grid_Gtk Rc_File Test_Report
    Viz_Threads Viz_Topology Viz_Transmissions Viz_Axes Waf_Run Flow_Monitor Viz_Windows Viz_Wifi Module_Scan Waf_Command Cflags Viz_Shell Viz_Canvas Boost Experiments Tool_Tests Waf_Misc Compile_Db Rad_Float Binding_Gen Create_Module Wutils_Paths
begin

text \<open>
  The Python code of the repository dash-cloud-edge: a network simulator, ns-3, with a model of adaptive
  video streaming, whose library is C++. Python are its test runner, the extensions of its build system
  waf, the scanner of its C++ headers, its visualizer, the viewers of its results and the scripts that start
  the experiments. This is a model of these programs and what makes them correct. Paths below are relative to
  \<open>src/\<close>. This theory only collects the others.

  How the parts work together. A user starts experiments (\<open>multi-experiments.py\<close>), which run
  \<open>./waf --run\<close> through the shell; the build, extended by \<open>waf-tools\<close>, finds a program and runs it
  (\<open>wutils.py\<close>). \<open>test.py\<close> builds with waf, reads its configuration (\<open>utils.py\<close>), runs suites and examples in worker
  threads and reports their results. The scanner (\<open>bindings/python\<close>) makes the bindings over which the visualizer
  (\<open>src/visualizer\<close>) drives the simulation. \<open>utils/grid.py\<close> and \<open>flowmon-parse-results.py\<close> read what
  a simulation has written.

  Common definitions. \<open>Prelude\<close>: exceptions are the left values of a sum (\<open>py_error\<close>, \<open>res\<close>,
  \<open>bind_res\<close>), loops that may raise are \<open>fold_res\<close> and \<open>map_res\<close>, a dict is an association list in the order of
  insertion (locale \<open>dict_ops\<close>, interpreted there), Python's indices and slices, string methods and
  decimal numbers. \<open>Xml_Tree\<close>: element trees. \<open>Shlex\<close>: \<open>shlex.split\<close> as a state machine, with the words it reads back.

  The test runner, \<open>test.py\<close> and \<open>utils.py\<close>.
    \<open>Rc_File\<close>: the readers of the configuration files; a read is an assignment of every name found.
    \<open>Test_Jobs\<close>: options, configuration, jobs and their commands, the choice of suites and examples
      (\<open>run_tests\<close> up to the dispatch, \<open>run_job_synchronously\<close>). Lemmas: exactly the jobs asked for, in order;
      the result of a job on every branch; the environment of the processes.
    \<open>Test_Workers\<close>: the threads (\<open>worker_thread\<close>), their two queues and the main thread as a step relation on
      one state, so under every interleaving. Queues are a locale, \<open>fifo_queue\<close>. Lemmas: an invariant over
      all threads, from which the results that are written are those of a sequential run, up to their
      order, and a measure, by which every execution ends.
    \<open>Test_Report\<close>: the text and HTML reports as lists of lines; the tags of the HTML are nested.

  The build, \<open>waf-tools\<close> and \<open>wutils.py\<close>.
    \<open>Shellcmd\<close>, \<open>Shell_Run\<close>: \<open>Pipeline.parse\<close> as a parser state that a fold over the tokens changes, \<open>Pipeline.run\<close>
      as a program over an abstract operating system. Lemmas: what is parsed is exactly what the
      grammar writes; a run refines a script of clauses, and agrees with a shell where both start the same.
    \<open>Waf_Command\<close>: the task that substitutes nodes and variables in such a pipeline and runs it.
    \<open>Waf_Run\<close>: \<open>find_program\<close>, \<open>run_argv\<close> and the commands around them. \<open>Wutils_Paths\<close>: relative paths and duplicates,
      which agree with the library and with \<open>rad_util.py\<close>. \<open>Cflags\<close>: the flags of the build profiles.
    \<open>Boost\<close>: the search for headers, versions and libraries of Boost. \<open>Waf_Misc\<close>: substitution in files and the
      task \<open>command-output\<close>. \<open>Compile_Db\<close>: the database of the compile commands.
    \<open>Experiments\<close>: the command lines of the experiments, through the shell and waf to the program.
    \<open>Tool_Tests\<close>: the suites that test waf and \<open>test.py\<close>.
    \<open>Create_Module\<close>: \<open>src/create-module.py\<close>, its templates with the operator \<open>%\<close> and the files it makes, on a file
      system that maps paths to their contents.

  The scanner of the bindings, \<open>bindings/python\<close>.
    \<open>Topsort\<close>, \<open>Find_Cycles\<close>: sorting by dependencies and the generator of cycles, whose search is a
      \<open>partial_function\<close> with a proof that it returns for every finite graph.
    \<open>Rad_Util\<close>, \<open>Rad_Float\<close>: the helper functions on integers, strings and sequences, and on fractions.
    \<open>Module_Scan\<close>: the hook that annotates declarations and gives them to modules.
    \<open>Binding_Gen\<close>: what the generators add to PyBindGen, whose types and names are arguments: smart pointers, the
      classes of callbacks and their parameters, whose wrappers grow piece by piece, the changes to
      the module of the core and the script for one module. Lemmas: code with distinct variables and closed
      blocks; which parameters may refer to which callback classes.

  The viewers. \<open>Timeline_Data\<close>, \<open>Grid_Layout\<close>, \<open>Grid_Gtk\<close>: \<open>utils/grid.py\<close>, its data with the search for ranges
    and events (locale \<open>ordered_items\<close>, interpreted for both), its file format, its geometry and its mouse
    handlers. \<open>Flow_Monitor\<close>: \<open>flowmon-parse-results.py\<close>.
  \<open>Patchset\<close>: \<open>utils/check-style.py\<close>, parsing and writing of patches and the indentation of files.

  The visualizer, \<open>src/visualizer/visualizer\<close>.
    \<open>Viz_Threads\<close>: the simulation thread, the main loop and its timer as a step relation with a lock.
    \<open>Viz_Nodes\<close>, \<open>Viz_Svg\<close>: nodes, their selection, dragging and icons; every handler is a step, and an invariant
      holds after every history of them. \<open>Viz_Topology\<close>: nodes, links and channels made from the network.
    \<open>Viz_Transmissions\<close>: the samples of transmissions and drops and the pool of arrows (locale \<open>arrow_source\<close>,
      interpreted for both). \<open>Viz_Axes\<close>: the marks of the axes. \<open>Viz_Canvas\<close>: panning, zoom, following a
      node, tooltips and screenshots. \<open>Viz_Windows\<close>: the windows of the plugins and the filter of packets.
    \<open>Viz_Wifi\<close>: the links of wireless stations, objects with addresses. \<open>Viz_Shell\<close>: the Python shell, its history, completion
      and the queue of calls left to the main loop; in order, it refines a console.

  Bounds and loops. There is no fuel. A loop that needs not end is a \<open>partial_function\<close> into options, and that
  it returns, or when it does not, is proved: the search for cycles, the binary range, the range of floats, the marks
  of an axis, the parents of a type. Every other loop has a structural or well-founded recursion. Python's
  integers do not wrap; only colors are words. Floats are real or rational numbers, so what is
  shown of them holds up to rounding.

  Parameters. Processes and their outputs, the file system, \<open>eval\<close>, the XML and JSON parsers, the GTK widgets,
  pygccxml, the C++ simulator, graphviz and the classes of waf are arguments of the definitions that use them; the hypotheses
  about them are premises of the theorems.

  What is not modelled. The modulegen files are generated from the C++ headers; \<open>ns3modulegen.py\<close> is an older script for
  one module with everything. \<open>relocation.py\<close> exchanges methods of
  waf, a packed third-party program. Settings of Sphinx, examples and tests of the C++ library compute nothing
  of their own. In modelled parts: drawing (cairo, GTK), fonts, cursors, dialogs, menus and log
  messages; the texts of command line help; \<open>nice_units\<close>, which cannot return in Python 3, \<open>timestamp\<close> and \<open>getmodule\<close> of \<open>rad_util.py\<close>.
\<close>

end
